(* ===== verification/Prelude.thy ===== *)
theory Prelude
  imports Main "HOL-Library.Word"
begin

text \<open>
  Shared vocabulary of the D3OS development: the machine integer types of the Rust sources, panics
  as values of a sum type, checked arithmetic, and the generic list and word lemmas the component
  theories rely on.

  A Rust panic never returns, so an operation that can panic has type \<open>'a result\<close>: \<open>Inl p\<close> for
  the panic and \<open>Inr x\<close> for a normal return. \<open>and_then\<close> runs the rest of a function after a
  fallible call.
\<close>

unbundle bit_operations_syntax

section \<open>Types\<close>

type_synonym u8 = "8 word"
type_synonym u16 = "16 word"
type_synonym u32 = "32 word"
type_synonym u64 = "64 word"
type_synonym u128 = "128 word"
type_synonym i16 = "16 word"

text \<open>The ways the modelled code panics. Each constructor names the failing check.\<close>

datatype panic =
    Sub_Overflow
  | Add_Overflow
  | Mul_Overflow
  | Div_Zero
  | Unwrap_None
  | Index_Out_Of_Bounds
  | Assert_Failed
  | Out_Of_Memory
  | No_Current_Thread
  | Missing_Join_Entry
  | No_Such_Process
  | Vma_Overlap
  | Vma_Missing
  | No_Handler
  | Port_Not_Found
  | Not_Initialized
  | Buffer_Failed
  | Controller_Locked
  | No_Such_Syscall
  | Bad_Codec_Address
  | Bad_Amplifier_Index
  | Bad_Amplifier_Gain
  | Unknown_Function_Group
  | Unknown_Widget_Type
  | Unsupported_Format
  | Unsupported_Vref
  | Unsupported_Connection
  | Unsupported_Device
  | Unsupported_Location
  | Unsupported_Codec
  | Invalid_Bpp
  | Page_Fault
  | Elf_Invalid
  | Input_Closed
  | Timed_Out
  | Stream_Running
  | Bad_Register_Value
  | Bad_Address
  | Bad_Boot_Information

type_synonym 'a result = "panic + 'a"

section \<open>Sequencing and checked arithmetic\<close>

definition and_then :: "'a result \<Rightarrow> ('a \<Rightarrow> 'b result) \<Rightarrow> 'b result" where
  "and_then m k = (case m of Inl p \<Rightarrow> Inl p | Inr x \<Rightarrow> k x)"

definition unwrap :: "panic \<Rightarrow> 'a option \<Rightarrow> 'a result" where
  "unwrap p m = (case m of None \<Rightarrow> Inl p | Some x \<Rightarrow> Inr x)"

definition guard :: "panic \<Rightarrow> bool \<Rightarrow> unit result" where
  "guard p b = (if b then Inr () else Inl p)"

text \<open>Subtraction of unsigned quantities, which panics below zero.\<close>

definition checked_sub :: "nat \<Rightarrow> nat \<Rightarrow> nat result" where
  "checked_sub a b = (if b \<le> a then Inr (a - b) else Inl Sub_Overflow)"

text \<open>Checked arithmetic on the unsigned integer types; an overflow and a division by zero panic.\<close>

definition u8_add :: "u8 \<Rightarrow> u8 \<Rightarrow> u8 result" where
  "u8_add a b = (if unat a + unat b < 256 then Inr (a + b) else Inl Add_Overflow)"

definition u8_sub :: "u8 \<Rightarrow> u8 \<Rightarrow> u8 result" where
  "u8_sub a b = (if b \<le> a then Inr (a - b) else Inl Sub_Overflow)"

definition u16_add :: "nat \<Rightarrow> nat \<Rightarrow> nat result" where
  "u16_add a b = (if a + b < 2 ^ 16 then Inr (a + b) else Inl Add_Overflow)"

definition u16_mul :: "nat \<Rightarrow> nat \<Rightarrow> nat result" where
  "u16_mul a b = (if a * b < 2 ^ 16 then Inr (a * b) else Inl Mul_Overflow)"

definition u32_add :: "nat \<Rightarrow> nat \<Rightarrow> nat result" where
  "u32_add a b = (if a + b < 2 ^ 32 then Inr (a + b) else Inl Add_Overflow)"

definition u32_mul :: "nat \<Rightarrow> nat \<Rightarrow> nat result" where
  "u32_mul a b = (if a * b < 2 ^ 32 then Inr (a * b) else Inl Mul_Overflow)"

definition usize_add :: "nat \<Rightarrow> nat \<Rightarrow> nat result" where
  "usize_add a b = (if a + b < 2 ^ 64 then Inr (a + b) else Inl Add_Overflow)"

definition usize_mul :: "nat \<Rightarrow> nat \<Rightarrow> nat result" where
  "usize_mul a b = (if a * b < 2 ^ 64 then Inr (a * b) else Inl Mul_Overflow)"

definition usize_div :: "nat \<Rightarrow> nat \<Rightarrow> nat result" where
  "usize_div a b = (if b = 0 then Inl Div_Zero else Inr (a div b))"

definition is_ok :: "'a result \<Rightarrow> bool" where
  "is_ok r = (case r of Inl _ \<Rightarrow> False | Inr _ \<Rightarrow> True)"

section \<open>Automation\<close>

named_theorems result_simps \<open>evaluation of fallible operations\<close>
named_theorems mask_simps \<open>masks as truncation\<close>

lemma and_then_Inl [simp]: "and_then (Inl p) k = Inl p"
  by (simp add: and_then_def)

lemma and_then_Inr [simp]: "and_then (Inr x) k = k x"
  by (simp add: and_then_def)

lemma and_then_eq_Inr [result_simps]:
  "and_then m k = Inr y \<longleftrightarrow> (\<exists>x. m = Inr x \<and> k x = Inr y)"
  by (cases m) auto

lemma and_then_eq_Inl [result_simps]:
  "and_then m k = Inl p \<longleftrightarrow> m = Inl p \<or> (\<exists>x. m = Inr x \<and> k x = Inl p)"
  by (cases m) auto

lemma unwrap_simps [simp]: "unwrap p None = Inl p" "unwrap p (Some x) = Inr x"
  by (simp_all add: unwrap_def)

lemma unwrap_eq_Inr [result_simps]: "unwrap p m = Inr x \<longleftrightarrow> m = Some x"
  by (cases m) auto

lemma guard_simps [simp]: "guard p True = Inr ()" "guard p False = Inl p"
  by (simp_all add: guard_def)

lemma guard_eq_Inr [result_simps]: "guard p b = Inr x \<longleftrightarrow> b"
  by (simp add: guard_def)

lemma guard_eq_Inl [result_simps]: "guard p b = Inl q \<longleftrightarrow> \<not> b \<and> q = p"
  by (auto simp: guard_def)

lemma checked_sub_le [simp]: "b \<le> a \<Longrightarrow> checked_sub a b = Inr (a - b)"
  by (simp add: checked_sub_def)

lemma checked_sub_eq_Inr [result_simps]: "checked_sub a b = Inr c \<longleftrightarrow> b \<le> a \<and> c = a - b"
  by (auto simp: checked_sub_def)

lemma is_ok_simps [simp]: "is_ok (Inr x)" "\<not> is_ok (Inl p)"
  by (simp_all add: is_ok_def)

lemma is_ok_iff: "is_ok r \<longleftrightarrow> (\<exists>x. r = Inr x)"
  by (cases r) auto

section \<open>Words\<close>

text \<open>Bits above the size of a small value, and the masks the drivers use.\<close>

lemma bit_above: "(x::'a::len word) < 2 ^ k \<Longrightarrow> k \<le> n \<Longrightarrow> \<not> bit x n"
proof -
  assume a: "x < 2 ^ k" "k \<le> n"
  then have "(0::'a word) < 2 ^ k" by (cases "(2::'a word) ^ k = 0") (auto simp: word_gt_0)
  then have "uint x < 2 ^ k" using a(1) by (simp add: word_less_def uint_2p)
  also have "(2::int) ^ k \<le> 2 ^ n" using a(2) by simp
  finally have "\<not> bit (uint x) n" by (simp add: bit_iff_odd div_pos_pos_trivial)
  then show ?thesis by (auto simp: bit_uint_iff dest: bit_imp_le_length)
qed

lemma small_bits:
  fixes x :: "'a::len word"
  shows "x < 2 \<Longrightarrow> 1 \<le> n \<Longrightarrow> \<not> bit x n" "x < 4 \<Longrightarrow> 2 \<le> n \<Longrightarrow> \<not> bit x n" "x < 8 \<Longrightarrow> 3 \<le> n \<Longrightarrow> \<not> bit x n"
    "x < 16 \<Longrightarrow> 4 \<le> n \<Longrightarrow> \<not> bit x n" "x < 128 \<Longrightarrow> 7 \<le> n \<Longrightarrow> \<not> bit x n" "x < 4096 \<Longrightarrow> 12 \<le> n \<Longrightarrow> \<not> bit x n"
  using bit_above[of x 1 n] bit_above[of x 2 n] bit_above[of x 3 n] bit_above[of x 4 n] bit_above[of x 7 n]
    bit_above[of x 12 n] by simp_all

lemma and_mask_simps [mask_simps]:
  fixes x :: "'a::len word"
  shows "x AND 3 = take_bit 2 x" "x AND 7 = take_bit 3 x" "x AND 15 = take_bit 4 x" "x AND 31 = take_bit 5 x"
    "x AND 127 = take_bit 7 x" "x AND 255 = take_bit 8 x" "x AND 65535 = take_bit 16 x"
    "x AND 4294967295 = take_bit 32 x" "x AND 18446744073709551615 = take_bit 64 x" 
  by (simp_all add: take_bit_eq_mask mask_eq_exp_minus_1)

lemma over_bits: "8 \<le> n \<Longrightarrow> \<not> bit (x::u8) n" "16 \<le> n \<Longrightarrow> \<not> bit (y::u16) n"
  using bit_imp_le_length[of x n] bit_imp_le_length[of y n] by auto

end
