(* ===== verification/Physical_Memory.thy ===== *)
theory Physical_Memory
  imports Prelude
begin

text \<open>
  The page frame allocator of \<open>os/kernel/src/memory/physical.rs\<close>.

  A \<open>PhysFrame\<close> is represented by its frame number (its start address divided by 4096), so frame
  addition is addition of numbers and \<open>a - b\<close> on frames is \<open>checked_sub\<close> (it panics below zero). The
  free list is a singly linked list threaded through the free memory itself: a node lives at the
  first frame of the block it describes and the sentinel \<open>head\<close> owns the first node. Since each
  \<open>next\<close> is an owning \<open>Option<&'static mut PageFrameNode>\<close>, the chain is a list of nodes and each
  node carries its own address as \<open>node_start\<close>. The functions below recurse over the chain hanging
  off the loop variable \<open>current\<close>.

  Shown here: the list stays sorted, non-empty and fused; the abstract set of free frames follows
  \<open>alloc\<close>, \<open>free\<close>, \<open>insert\<close> and \<open>reserve\<close>; a well-formed list is the only one for its set, so
  freeing what was just allocated restores the list exactly.
\<close>

section \<open>Data\<close>

definition PAGE_SIZE :: nat where
  "PAGE_SIZE = 0x1000"

record phys_frame_range =
  range_start :: nat
  range_end :: nat

record page_frame_node =
  node_start :: nat
  frame_count :: nat

definition frame_range :: "nat \<Rightarrow> nat \<Rightarrow> phys_frame_range" where
  "frame_range s e = \<lparr>range_start = s, range_end = e\<rparr>"

text \<open>\<open>PageFrameNode::new(count)\<close>, written to the frame \<open>at\<close>.\<close>

definition node_at :: "nat \<Rightarrow> nat \<Rightarrow> page_frame_node" where
  "node_at at count = \<lparr>node_start = at, frame_count = count\<rparr>"

definition node_end :: "page_frame_node \<Rightarrow> nat" where
  "node_end b = node_start b + frame_count b"

type_synonym free_list = "page_frame_node list"

section \<open>The list allocator\<close>

text \<open>The search loop of \<open>insert\<close>: stop at the first block above the new one.\<close>

fun insert_loop :: "page_frame_node \<Rightarrow> free_list \<Rightarrow> free_list" where
  "insert_loop new_block [] = [new_block]"
| "insert_loop new_block (block # rest) =
     (if node_start block > node_start new_block then new_block # block # rest
      else block # insert_loop new_block rest)"

definition insert_block :: "phys_frame_range \<Rightarrow> free_list \<Rightarrow> free_list result" where
  "insert_block frames head =
     and_then (checked_sub (range_end frames) (range_start frames)) (\<lambda>count.
       let new_block = node_at (range_start frames) count in
       if head = [] then Inr [new_block] else Inr (insert_loop new_block head))"

fun find_free_block :: "nat \<Rightarrow> free_list \<Rightarrow> (page_frame_node \<times> free_list) option" where
  "find_free_block count [] = None"
| "find_free_block count (block # rest) =
     (if frame_count block \<ge> count then Some (block, rest)
      else (case find_free_block count rest of
              None \<Rightarrow> None
            | Some (found, rest') \<Rightarrow> Some (found, block # rest')))"

definition alloc_block :: "nat \<Rightarrow> free_list \<Rightarrow> (phys_frame_range \<times> free_list) result" where
  "alloc_block count head =
     (case find_free_block count head of
        None \<Rightarrow> Inl Out_Of_Memory
      | Some (block, head') \<Rightarrow>
          let remaining = frame_range (node_start block + count) (node_end block) in
          and_then (checked_sub (range_end remaining) (range_start remaining)) (\<lambda>left.
          and_then (if left > 0 then insert_block remaining head' else Inr head') (\<lambda>head''.
          Inr (frame_range (node_start block) (range_start remaining), head''))))"

text \<open>
  The loop of \<open>free_block\<close>: \<open>Some l\<close> when the freed range was fused into the chain (the new chain
  is \<open>l\<close>), \<open>None\<close> when the loop ended or broke off without a fusion.
\<close>

fun free_loop :: "phys_frame_range \<Rightarrow> nat \<Rightarrow> free_list \<Rightarrow> free_list option" where
  "free_loop frames count [] = None"
| "free_loop frames count (block # rest) =
     (if range_end frames = node_start block then
        Some (node_at (range_start frames) (frame_count block + count) # rest)
      else if node_end block = range_start frames then
        (let grown = block\<lparr>frame_count := frame_count block + count\<rparr> in
         case rest of
           [] \<Rightarrow> Some [grown]
         | next # rest' \<Rightarrow>
             if node_end grown = node_start next
             then Some (grown\<lparr>frame_count := frame_count grown + frame_count next\<rparr> # rest')
             else Some (grown # rest))
      else if node_end block > range_start frames then None
      else map_option ((#) block) (free_loop frames count rest))"

definition free_block :: "phys_frame_range \<Rightarrow> free_list \<Rightarrow> free_list result" where
  "free_block frames head =
     and_then (checked_sub (range_end frames) (range_start frames)) (\<lambda>count.
       case free_loop frames count head of
         Some head' \<Rightarrow> Inr head'
       | None \<Rightarrow> insert_block frames head)"

text \<open>
  The loop of \<open>reserve_block\<close>. The code ends every iteration with
  \<open>current = current.next.as_mut().unwrap()\<close>. After a removal \<open>current.next\<close> is the successor of the
  removed block: it is skipped, and a missing successor panics. After a split the loop runs again on
  the block above the hole, so the recursion is not structural; \<open>None\<close> means the loop does not end.
\<close>

partial_function (option) reserve_loop ::
  "phys_frame_range \<Rightarrow> free_list \<Rightarrow> free_list result option" where
  "reserve_loop reserved head =
     (case head of
        [] \<Rightarrow> Some (Inr [])
      | block # rest \<Rightarrow>
        if node_start block > range_end reserved then Some (Inr (block # rest))
        else if node_start block < range_start reserved \<and> node_end block \<ge> range_start reserved then
          (if node_end block \<le> range_end reserved then
             Option.bind (reserve_loop reserved rest) (\<lambda>r. Some (and_then r (\<lambda>rest'.
               Inr (block\<lparr>frame_count :=
                      frame_count block - (node_end block - range_start reserved)\<rparr> # rest'))))
           else
             Option.bind (reserve_loop reserved
                 (node_at (range_end reserved) (node_end block - range_end reserved) # rest))
               (\<lambda>r. Some (and_then r (\<lambda>rest'.
                 Inr (block\<lparr>frame_count := range_start reserved - node_start block\<rparr> # rest')))))
        else if node_start block \<le> range_end reserved \<and> node_end block \<ge> range_start reserved then
          (if node_end block \<le> range_end reserved then
             (case rest of
                [] \<Rightarrow> Some (Inl Unwrap_None)
              | next # rest' \<Rightarrow>
                  Option.bind (reserve_loop reserved rest') (\<lambda>r. Some (and_then r (\<lambda>rest''.
                    Inr (next # rest'')))))
           else
             Option.bind (reserve_loop reserved rest) (\<lambda>r. Some (and_then r (\<lambda>rest'.
               Inr (node_at (node_start block + (range_end reserved - node_start block))
                      (frame_count block - (range_end reserved - node_start block)) # rest')))))
        else
          Option.bind (reserve_loop reserved rest) (\<lambda>r. Some (and_then r (\<lambda>rest'.
            Inr (block # rest')))))"

definition reserve_block :: "phys_frame_range \<Rightarrow> free_list \<Rightarrow> free_list result option" where
  "reserve_block reserved head = reserve_loop reserved head"

section \<open>The module's state and entry points\<close>

record phys_state =
  page_frame_allocator :: free_list
  phys_limit :: "nat option"

text \<open>\<open>insert\<close>: the first page is never handed out, the limit grows, the region is freed.\<close>

definition phys_insert :: "phys_frame_range \<Rightarrow> phys_state \<Rightarrow> phys_state result" where
  "phys_insert region0 st0 =
     (let limit = (case phys_limit st0 of None \<Rightarrow> 0 | Some l \<Rightarrow> l);
          st = st0\<lparr>phys_limit := Some limit\<rparr> in
      if range_start region0 = 0 \<and> range_end region0 \<le> 1 then Inr st
      else
        let region = (if range_start region0 = 0 then region0\<lparr>range_start := 1\<rparr> else region0);
            st' = st\<lparr>phys_limit := Some (if range_end region > limit then range_end region else limit)\<rparr> in
        and_then (free_block region (page_frame_allocator st')) (\<lambda>l.
          Inr (st'\<lparr>page_frame_allocator := l\<rparr>)))"

definition phys_alloc :: "nat \<Rightarrow> phys_state \<Rightarrow> (phys_frame_range \<times> phys_state) result" where
  "phys_alloc n st =
     and_then (alloc_block n (page_frame_allocator st)) (\<lambda>(r, l).
       Inr (r, st\<lparr>page_frame_allocator := l\<rparr>))"

definition phys_free :: "phys_frame_range \<Rightarrow> phys_state \<Rightarrow> phys_state result" where
  "phys_free frames st =
     and_then (free_block frames (page_frame_allocator st)) (\<lambda>l.
       Inr (st\<lparr>page_frame_allocator := l\<rparr>))"

definition phys_reserve :: "phys_frame_range \<Rightarrow> phys_state \<Rightarrow> phys_state result option" where
  "phys_reserve frames st =
     Option.bind (reserve_block frames (page_frame_allocator st)) (\<lambda>r.
       Some (and_then r (\<lambda>l. Inr (st\<lparr>page_frame_allocator := l\<rparr>))))"

text \<open>The totals that the \<open>Debug\<close> dump of the allocator prints.\<close>

fun available_frames :: "free_list \<Rightarrow> nat" where
  "available_frames [] = 0"
| "available_frames (block # rest) = frame_count block + available_frames rest"

definition available_kib :: "free_list \<Rightarrow> nat" where
  "available_kib l = available_frames l * PAGE_SIZE div 1024"

section \<open>Invariant and abstraction\<close>

text \<open>Ascending, no empty block, and a gap before the next block (adjacent blocks are fused).\<close>

fun wf_free :: "free_list \<Rightarrow> bool" where
  "wf_free [] = True"
| "wf_free [b] = (0 < frame_count b)"
| "wf_free (b # c # rest) = (0 < frame_count b \<and> node_end b < node_start c \<and> wf_free (c # rest))"

definition node_frames :: "page_frame_node \<Rightarrow> nat set" where
  "node_frames b = {node_start b ..< node_end b}"

definition range_frames :: "phys_frame_range \<Rightarrow> nat set" where
  "range_frames r = {range_start r ..< range_end r}"

definition free_frames :: "free_list \<Rightarrow> nat set" where
  "free_frames l = (\<Union>b \<in> set l. node_frames b)"


text \<open>A block that neither overlaps nor touches any block of the list.\<close>

definition apart :: "page_frame_node \<Rightarrow> free_list \<Rightarrow> bool" where
  "apart n l \<longleftrightarrow> (\<forall>b \<in> set l. node_end n < node_start b \<or> node_end b < node_start n)"

text \<open>The effect of the fusion branch of \<open>free_block\<close> on the chain behind the extended block.\<close>

definition grow_node :: "page_frame_node \<Rightarrow> nat \<Rightarrow> free_list \<Rightarrow> free_list" where
  "grow_node b k l = (case l of
     c # m \<Rightarrow> if node_end b + k = node_start c
               then b\<lparr>frame_count := frame_count b + k + frame_count c\<rparr> # m
               else b\<lparr>frame_count := frame_count b + k\<rparr> # l
   | [] \<Rightarrow> [b\<lparr>frame_count := frame_count b + k\<rparr>])"

text \<open>No free block lies completely inside the reserved range.\<close>

definition covers_no_block :: "phys_frame_range \<Rightarrow> free_list \<Rightarrow> bool" where
  "covers_no_block r l \<longleftrightarrow> list_all (\<lambda>b. node_start b < range_start r \<or> range_end r < node_end b) l"

text \<open>
  Ranges held by the callers of the allocator: non-empty, apart from the free frames and from each
  other. \<open>owner_step\<close> is one call of the module's interface by a caller that only frees what it
  holds and only inserts memory that is not yet known.
\<close>

definition owned_ok :: "nat set \<Rightarrow> phys_frame_range list \<Rightarrow> bool" where
  "owned_ok avail own \<longleftrightarrow>
     list_all (\<lambda>r. range_start r < range_end r \<and> range_frames r \<inter> avail = {}) own \<and>
     sorted_wrt (\<lambda>r q. range_frames r \<inter> range_frames q = {}) own"

inductive owner_step ::
  "phys_state \<times> phys_frame_range list \<Rightarrow> phys_state \<times> phys_frame_range list \<Rightarrow> bool" where
  boot_insert: "range_start region < range_end region \<Longrightarrow>
     range_frames region \<inter> (free_frames (page_frame_allocator st) \<union> (\<Union>r \<in> set own. range_frames r)) = {} \<Longrightarrow>
     phys_insert region st = Inr st' \<Longrightarrow> owner_step (st, own) (st', own)"
| take_frames: "0 < n \<Longrightarrow> phys_alloc n st = Inr (r, st') \<Longrightarrow> owner_step (st, own) (st', r # own)"
| give_back: "r \<in> set own \<Longrightarrow> phys_free r st = Inr st' \<Longrightarrow> owner_step (st, own) (st', remove1 r own)"

definition boot_state :: "phys_state \<times> phys_frame_range list" where
  "boot_state = (\<lparr>page_frame_allocator = [], phys_limit = None\<rparr>, [])"

definition frames_within :: "phys_state \<times> phys_frame_range list \<Rightarrow> bool" where
  "frames_within s \<longleftrightarrow>
     (\<forall>f \<in> free_frames (page_frame_allocator (fst s)) \<union> (\<Union>r \<in> set (snd s). range_frames r).
        0 < f \<and> f < (case phys_limit (fst s) of None \<Rightarrow> 0 | Some l \<Rightarrow> l))"

definition owner_inv :: "phys_state \<times> phys_frame_range list \<Rightarrow> bool" where
  "owner_inv s \<longleftrightarrow>
     wf_free (page_frame_allocator (fst s)) \<and>
     owned_ok (free_frames (page_frame_allocator (fst s))) (snd s) \<and> frames_within s"

section \<open>Lemmas\<close>

lemma node_end_simps [simp]: "node_end (node_at s n) = s + n" "node_start (node_at s n) = s" "frame_count (node_at s n) = n"
  "node_end (b\<lparr>frame_count := k\<rparr>) = node_start b + k"
  by (simp_all add: node_end_def node_at_def)

lemma frame_range_simps [simp]: "range_start (frame_range s e) = s" "range_end (frame_range s e) = e"
  "range_frames (frame_range s e) = {s..<e}"
  by (simp_all add: frame_range_def range_frames_def)

lemma free_frames_simps [simp]: "free_frames [] = {}" "free_frames (b # l) = node_frames b \<union> free_frames l"
  by (simp_all add: free_frames_def)

lemma ivl_disjoint_iff: "(a::nat) < b \<Longrightarrow> c < d \<Longrightarrow> {a..<b} \<inter> {c..<d} = {} \<longleftrightarrow> b \<le> c \<or> d \<le> a"
  by (cases "a \<le> c") (auto simp: disjoint_iff not_le dest: spec[of _ a] spec[of _ c])

text \<open>a recursive reading of wf\<close>

lemma wf_free_Cons: "wf_free (b # l) \<longleftrightarrow>
   0 < frame_count b \<and> wf_free l \<and> (\<forall>c \<in> set l. node_end b < node_start c)"
proof (induction l arbitrary: b)
  case Nil
  then show ?case by simp
next
  case (Cons c l)
  show ?case
    using Cons[of c] by (fastforce simp: node_end_def)
qed

lemma wf_free_frames_above: "wf_free (b # l) \<Longrightarrow> f \<in> free_frames l \<Longrightarrow> node_end b < f"
  by (fastforce simp: wf_free_Cons free_frames_def node_frames_def)

lemma free_frames_alt: "f \<in> free_frames l \<longleftrightarrow> (\<exists>b \<in> set l. node_start b \<le> f \<and> f < node_end b)"
  by (auto simp: free_frames_def node_frames_def)

(* canonicity *)
lemma node_eqI: "node_start b = node_start c \<Longrightarrow> node_end b = node_end c \<Longrightarrow> (b::page_frame_node) = c"
  by (cases b; cases c) (simp add: node_end_def)

lemma wf_free_Nil_frames: "wf_free l \<Longrightarrow> free_frames l = {} \<longleftrightarrow> l = []"
  by (cases l) (auto simp: wf_free_Cons node_frames_def node_end_def)

lemma Least_free_frames: "wf_free (b # l) \<Longrightarrow> (LEAST f. f \<in> free_frames (b # l)) = node_start b"
  by (rule Least_equality)
     (fastforce simp: wf_free_Cons free_frames_alt node_frames_def node_end_def)+

lemma first_gap: "wf_free (b # l) \<Longrightarrow> (LEAST f. node_start b \<le> f \<and> f \<notin> free_frames (b # l)) = node_end b"
  by (rule Least_equality)
     (auto simp: wf_free_Cons free_frames_alt node_end_def node_frames_def dest: less_trans)

lemma free_frames_tail: "wf_free (b # l) \<Longrightarrow> free_frames l = free_frames (b # l) - node_frames b"
  using wf_free_frames_above by (fastforce simp: node_frames_def)

lemma wf_free_unique:
  "wf_free l \<Longrightarrow> wf_free m \<Longrightarrow> free_frames l = free_frames m \<Longrightarrow> l = m"
proof (induction l arbitrary: m)
  case Nil
  then show ?case using wf_free_Nil_frames[of m] by simp
next
  case (Cons b l)
  then have "m \<noteq> []" using wf_free_Nil_frames[of "b # l"] by auto
  then obtain c m' where m: "m = c # m'" by (cases m) auto
  have start: "node_start b = node_start c"
    using Least_free_frames[of b l] Least_free_frames[of c m'] Cons.prems m by metis
  have "node_end b = node_end c"
    using first_gap[of b l] first_gap[of c m'] Cons.prems start m by metis
  with start have "b = c" by (rule node_eqI)
  moreover have "free_frames l = free_frames m'"
    using Cons.prems m \<open>b = c\<close> free_frames_tail[of b l] free_frames_tail[of c m'] by metis
  then have "l = m'"
    using Cons.IH[of m'] Cons.prems m by (simp add: wf_free_Cons)
  ultimately show ?case using m by simp
qed

lemma wf_free_append: "wf_free (xs @ ys) \<longleftrightarrow>
   wf_free xs \<and> wf_free ys \<and> (\<forall>x \<in> set xs. \<forall>y \<in> set ys. node_end x < node_start y)"
  by (induction xs) (auto simp: wf_free_Cons)

lemma free_frames_append [simp]: "free_frames (xs @ ys) = free_frames xs \<union> free_frames ys"
  by (simp add: free_frames_def)

lemma wf_free_count: "wf_free l \<Longrightarrow> b \<in> set l \<Longrightarrow> 0 < frame_count b"
  by (induction l) (auto simp: wf_free_Cons)

lemma node_start_free: "wf_free l \<Longrightarrow> b \<in> set l \<Longrightarrow> node_start b \<in> free_frames l"
  using wf_free_count by (fastforce simp: free_frames_alt node_end_def)

text \<open>Prepending a block that lies below everything in \<open>l\<close>.\<close>

lemma wf_free_ConsI:
  assumes "0 < frame_count b" "wf_free l" "\<And>f. f \<in> free_frames l \<Longrightarrow> node_end b < f"
  shows "wf_free (b # l)"
  using assms node_start_free by (auto simp: wf_free_Cons)

lemma set_insert_loop [simp]: "set (insert_loop n l) = insert n (set l)"
  by (induction l) auto

lemma free_frames_insert_loop [simp]: "free_frames (insert_loop n l) = node_frames n \<union> free_frames l"
  by (simp add: free_frames_def)

lemma wf_insert_loop:
  "wf_free l \<Longrightarrow> 0 < frame_count n \<Longrightarrow> apart n l \<Longrightarrow> wf_free (insert_loop n l)"
  by (induction l) (fastforce simp: wf_free_Cons apart_def node_end_def)+

lemma insert_block_eq:
  "range_start r \<le> range_end r \<Longrightarrow>
   insert_block r l = Inr (insert_loop (node_at (range_start r) (range_end r - range_start r)) l)"
  by (simp add: insert_block_def Let_def)

lemma find_free_block_split:
  "find_free_block n l = Some (b, l') \<Longrightarrow>
   \<exists>xs ys. l = xs @ b # ys \<and> l' = xs @ ys \<and> n \<le> frame_count b \<and> (\<forall>x \<in> set xs. frame_count x < n)"
proof (induction l arbitrary: l')
  case Nil
  then show ?case by simp
next
  case (Cons a l)
  show ?case
  proof (cases "n \<le> frame_count a")
    case True
    with Cons.prems show ?thesis by (intro exI[of _ "[]"] exI[of _ l]) auto
  next
    case False
    with Cons.prems obtain l'' where l'': "find_free_block n l = Some (b, l'')" "l' = a # l''"
      by (auto split: option.splits)
    from Cons.IH[OF l''(1)] obtain xs ys where
      "l = xs @ b # ys \<and> l'' = xs @ ys \<and> n \<le> frame_count b \<and> (\<forall>x \<in> set xs. frame_count x < n)"
      by blast
    with False l'' show ?thesis by (intro exI[of _ "a # xs"] exI[of _ ys]) auto
  qed
qed

lemma find_free_block_None: "find_free_block n l = None \<longleftrightarrow> (\<forall>b \<in> set l. frame_count b < n)"
  by (induction l) (auto split: option.splits)

lemma wf_free_remove: "wf_free (xs @ b # ys) \<Longrightarrow> wf_free (xs @ ys)"
  by (auto simp: wf_free_append wf_free_Cons)

lemma free_frames_remove:
  "wf_free (xs @ b # ys) \<Longrightarrow> free_frames (xs @ ys) = free_frames (xs @ b # ys) - node_frames b"
  by (fastforce simp: wf_free_append wf_free_Cons free_frames_alt node_frames_def)

lemma apart_tail:
  assumes "wf_free (xs @ b # ys)" "n < frame_count b"
  shows "apart (node_at (node_start b + n) (frame_count b - n)) (xs @ ys)"
  using assms by (fastforce simp: apart_def wf_free_append wf_free_Cons node_end_def)

text \<open>What a successful allocation does, in terms of the block it took.\<close>

lemma alloc_block_cases:
  assumes "wf_free l" "alloc_block n l = Inr (r, l')"
  obtains xs b ys where "l = xs @ b # ys" "n \<le> frame_count b" "\<forall>x \<in> set xs. frame_count x < n"
    "r = frame_range (node_start b) (node_start b + n)"
    "l' = (if n < frame_count b
           then insert_loop (node_at (node_start b + n) (frame_count b - n)) (xs @ ys) else xs @ ys)"
proof -
  from assms(2) obtain b l0 where f: "find_free_block n l = Some (b, l0)"
    by (auto simp: alloc_block_def split: option.splits)
  from find_free_block_split[OF f] obtain xs ys where
    xs: "l = xs @ b # ys" "l0 = xs @ ys" "n \<le> frame_count b" "\<forall>x \<in> set xs. frame_count x < n" by blast
  show thesis
    using that[OF xs(1,3,4)] assms(2) f xs(2,3)
    by (cases "n < frame_count b") (simp_all add: alloc_block_def Let_def insert_block_eq node_end_def)
qed

lemma alloc_block_wf: "wf_free l \<Longrightarrow> alloc_block n l = Inr (r, l') \<Longrightarrow> wf_free l'"
  by (rule alloc_block_cases, assumption+) (use wf_insert_loop apart_tail wf_free_remove in auto)

lemma alloc_block_frames:
  assumes "wf_free l" "alloc_block n l = Inr (r, l')"
  shows "range_frames r \<subseteq> free_frames l" "free_frames l' = free_frames l - range_frames r"
    "range_end r = range_start r + n"
proof -
  from assms obtain xs b ys where c: "l = xs @ b # ys" "n \<le> frame_count b"
    "r = frame_range (node_start b) (node_start b + n)"
    "l' = (if n < frame_count b
           then insert_loop (node_at (node_start b + n) (frame_count b - n)) (xs @ ys) else xs @ ys)"
    by (rule alloc_block_cases)
  show "range_end r = range_start r + n" by (simp add: c)
  have sub: "range_frames r \<subseteq> node_frames b"
    using c(2) by (simp add: c(3) node_frames_def node_end_def)
  then show "range_frames r \<subseteq> free_frames l" by (auto simp: c(1))
  have "node_frames b = range_frames r \<union> {node_start b + n ..< node_end b}"
    using c(2) by (simp add: c(3) node_frames_def node_end_def ivl_disj_un_two(3))
  moreover have "free_frames l' = free_frames (xs @ ys) \<union> {node_start b + n ..< node_end b}"
    using c(2) by (auto simp: c(4) node_frames_def node_end_def)
  moreover have "node_frames b \<inter> free_frames (xs @ ys) = {}" "free_frames l = node_frames b \<union> free_frames (xs @ ys)"
    using free_frames_remove[of xs b ys] assms(1) by (auto simp: c(1))
  ultimately show "free_frames l' = free_frames l - range_frames r"
    using sub by (auto simp: c(3))
qed

lemma alloc_block_first_fit:
  assumes "wf_free l" "alloc_block n l = Inr (r, l')" "b \<in> set l" "n \<le> frame_count b"
  shows "range_start r \<le> node_start b"
proof -
  obtain xs c ys where c: "l = xs @ c # ys" "\<forall>x \<in> set xs. frame_count x < n" "range_start r = node_start c"
    using alloc_block_cases[OF assms(1,2)] by (metis frame_range_simps(1))
  then have "b = c \<or> b \<in> set ys" using assms(3,4) by auto
  then show ?thesis using assms(1) c by (fastforce simp: wf_free_append wf_free_Cons node_end_def)
qed

lemma alloc_block_fails: "alloc_block n l = Inl p \<longleftrightarrow> p = Out_Of_Memory \<and> (\<forall>b \<in> set l. frame_count b < n)"
proof (cases "find_free_block n l")
  case None
  then show ?thesis by (auto simp: alloc_block_def simp flip: find_free_block_None)
next
  case (Some p)
  then obtain b l0 where f: "find_free_block n l = Some (b, l0)" by (cases p) auto
  then have "n \<le> frame_count b" "b \<in> set l" using find_free_block_split[OF f] by auto
  with f show ?thesis
    by (auto simp: alloc_block_def Let_def insert_block_eq node_end_def not_less
        intro!: bexI[of _ b])
qed

lemma free_loop_None:
  assumes "wf_free l" "range_start r < range_end r" "range_frames r \<inter> free_frames l = {}"
    "free_loop r k l = None"
  shows "apart (node_at (range_start r) (range_end r - range_start r)) l"
  using assms
proof (induction l)
  case Nil
  then show ?case by (simp add: apart_def)
next
  case (Cons b l)
  have dis: "range_end r \<le> node_start b \<or> node_end b \<le> range_start r"
    using Cons.prems wf_free_count[OF Cons.prems(1), of b]
      ivl_disjoint_iff[of "range_start r" "range_end r" "node_start b" "node_end b"]
    by (simp add: range_frames_def node_frames_def node_end_def Int_Un_distrib)
  have neq: "range_end r \<noteq> node_start b" "node_end b \<noteq> range_start r"
    using Cons.prems(4) by (auto simp: Let_def split: if_splits list.splits)
  show ?case
  proof (cases "node_end b > range_start r")
    case True
    with dis neq Cons.prems(1,2) show ?thesis
      by (fastforce simp: apart_def wf_free_Cons node_end_def)
  next
    case False
    with neq Cons.prems(4) have "free_loop r k l = None" by (auto split: if_splits)
    with Cons have "apart (node_at (range_start r) (range_end r - range_start r)) l"
      by (auto simp: wf_free_Cons)
    with False neq show ?thesis by (auto simp: apart_def)
  qed
qed

lemma grow_node_correct:
  assumes "wf_free (b # l)" "\<forall>c \<in> set l. node_end b + k \<le> node_start c"
  shows "wf_free (grow_node b k l)"
    "free_frames (grow_node b k l) = {node_start b ..< node_end b + k} \<union> free_frames l"
proof -
  show "wf_free (grow_node b k l)"
    using assms by (fastforce simp: grow_node_def wf_free_Cons node_end_def split: list.splits)
  show "free_frames (grow_node b k l) = {node_start b ..< node_end b + k} \<union> free_frames l"
    using assms by (auto simp: grow_node_def node_frames_def node_end_def split: list.splits)
qed

lemma free_loop_Some:
  assumes "wf_free l" "range_start r < range_end r" "range_frames r \<inter> free_frames l = {}"
    "free_loop r (range_end r - range_start r) l = Some l'"
  shows "wf_free l' \<and> free_frames l' = free_frames l \<union> range_frames r"
  using assms
proof (induction l arbitrary: l')
  case Nil
  then show ?case by simp
next
  case (Cons b l)
  let ?k = "range_end r - range_start r"
  have b: "0 < frame_count b" "wf_free l" and above: "\<forall>c \<in> set l. node_end b < node_start c"
    using Cons.prems(1) by (auto simp: wf_free_Cons)
  consider (below) "range_end r = node_start b" | (top) "range_end r \<noteq> node_start b" "node_end b = range_start r"
    | (on) "range_end r \<noteq> node_start b" "node_end b < range_start r"
    using Cons.prems(4) by (fastforce split: if_splits)
  then show ?case
  proof cases
    case below
    then have l': "l' = node_at (range_start r) (frame_count b + ?k) # l" using Cons.prems(4) by simp
    have "node_end (node_at (range_start r) (frame_count b + ?k)) = node_end b"
      using below Cons.prems(2) by (simp add: node_end_def)
    with l' b above below Cons.prems(2) show ?thesis
      by (auto simp: wf_free_Cons node_frames_def range_frames_def node_end_def)
  next
    case top
    with Cons.prems(4) have l': "l' = grow_node b ?k l"
      by (auto simp: Let_def grow_node_def node_end_def split: list.splits if_splits)
    have low: "range_end r \<le> node_start c" if "c \<in> set l" for c
    proof -
      have "range_frames r \<inter> node_frames c = {}" using Cons.prems(3) that by (auto simp: free_frames_def)
      with Cons.prems(2) wf_free_count[OF b(2) that] show ?thesis
        using ivl_disjoint_iff[of "range_start r" "range_end r" "node_start c" "node_end c"] above that top
        by (auto simp: range_frames_def node_frames_def node_end_def)
    qed
    have ends: "node_end b + ?k = range_end r" using top Cons.prems(2) by simp
    have "node_frames b \<union> range_frames r = {node_start b ..< range_end r}"
      using top Cons.prems(2) b(1)
      by (simp add: node_frames_def range_frames_def node_end_def ivl_disj_un_two(3))
    with grow_node_correct[OF Cons.prems(1), of ?k] low show ?thesis
      by (auto simp: l' ends)
  next
    case on
    then obtain l'' where l'': "free_loop r ?k l = Some l''" "l' = b # l''"
      using Cons.prems(4) by auto
    have IH: "wf_free l'' \<and> free_frames l'' = free_frames l \<union> range_frames r"
      using Cons.IH[OF b(2) Cons.prems(2) _ l''(1)] Cons.prems(3) by auto
    have "node_end b < f" if "f \<in> free_frames l''" for f
      using that IH on(2) wf_free_frames_above[OF Cons.prems(1)] by (auto simp: range_frames_def)
    with IH b l''(2) show ?thesis by (auto intro: wf_free_ConsI)
  qed
qed

lemma free_block_correct:
  assumes "wf_free l" "range_start r < range_end r" "range_frames r \<inter> free_frames l = {}"
  shows "\<exists>l'. free_block r l = Inr l' \<and> wf_free l' \<and> free_frames l' = free_frames l \<union> range_frames r"
proof (cases "free_loop r (range_end r - range_start r) l")
  case None
  have "node_frames (node_at (range_start r) (range_end r - range_start r)) = range_frames r"
    using assms(2) by (simp add: node_frames_def range_frames_def)
  with None assms free_loop_None[OF assms None] show ?thesis
    by (auto simp: free_block_def insert_block_eq wf_insert_loop)
next
  case (Some l')
  with assms free_loop_Some[OF assms Some] show ?thesis by (simp add: free_block_def)
qed

lemma node_update: "(b::page_frame_node)\<lparr>frame_count := k\<rparr> = node_at (node_start b) k"
  by (simp add: node_at_def)

lemma reserve_loop_Nil [simp]: "reserve_loop r [] = Some (Inr [])"
  by (simp add: reserve_loop.simps)

lemma reserve_loop_above: "node_start b > range_end r \<Longrightarrow> reserve_loop r (b # l) = Some (Inr (b # l))"
  by (simp add: reserve_loop.simps)

lemma reserve_loop_below: "node_end b < range_start r \<Longrightarrow> range_start r \<le> range_end r \<Longrightarrow>
  reserve_loop r (b # l) = Option.bind (reserve_loop r l) (\<lambda>x. Some (and_then x (\<lambda>l'. Inr (b # l'))))"
  by (subst reserve_loop.simps) (auto simp: node_end_def)

lemma reserve_loop_head:
  "node_start b < range_start r \<Longrightarrow> range_start r \<le> node_end b \<Longrightarrow> node_end b \<le> range_end r \<Longrightarrow>
   reserve_loop r (b # l) = Option.bind (reserve_loop r l) (\<lambda>x. Some (and_then x (\<lambda>l'.
     Inr (node_at (node_start b) (range_start r - node_start b) # l'))))"
  by (subst reserve_loop.simps) (auto simp: node_end_def node_update add.commute)

lemma reserve_loop_tail:
  "range_start r \<le> node_start b \<Longrightarrow> node_start b \<le> range_end r \<Longrightarrow> range_end r < node_end b \<Longrightarrow>
   reserve_loop r (b # l) = Option.bind (reserve_loop r l) (\<lambda>x. Some (and_then x (\<lambda>l'.
     Inr (node_at (range_end r) (node_end b - range_end r) # l'))))"
  by (subst reserve_loop.simps) (auto simp: node_end_def node_update add.commute)

lemma reserve_loop_split:
  "range_start r \<le> range_end r \<Longrightarrow> node_start b < range_start r \<Longrightarrow> range_end r < node_end b \<Longrightarrow>
   reserve_loop r (b # l) = Option.bind (reserve_loop r l) (\<lambda>x. Some (and_then x (\<lambda>l'.
     Inr (node_at (node_start b) (range_start r - node_start b)
          # node_at (range_end r) (node_end b - range_end r) # l'))))"
  using reserve_loop_tail[of r "node_at (range_end r) (node_end b - range_end r)" l]
  by (subst reserve_loop.simps)
     (auto simp: node_end_def node_update and_then_def split: Option.bind_split sum.splits)

lemma reserve_loop_inside:
  "range_start r \<le> node_start b \<Longrightarrow> node_end b \<le> range_end r \<Longrightarrow>
   reserve_loop r (b # l) = (case l of [] \<Rightarrow> Some (Inl Unwrap_None)
     | c # m \<Rightarrow> Option.bind (reserve_loop r m) (\<lambda>x. Some (and_then x (\<lambda>l'. Inr (c # l')))))"
  by (subst reserve_loop.simps) (auto simp: node_end_def split: list.splits)

lemma reserve_cases:
  assumes "range_start r \<le> range_end r"
  obtains (above) "node_start b > range_end r" | (below) "node_end b < range_start r"
  | (inside) "range_start r \<le> node_start b" "node_end b \<le> range_end r"
  | (head) "node_start b < range_start r" "range_start r \<le> node_end b" "node_end b \<le> range_end r"
  | (tail) "range_start r \<le> node_start b" "node_start b \<le> range_end r" "range_end r < node_end b"
  | (split) "node_start b < range_start r" "range_end r < node_end b"
  using assms by linarith

lemma reserve_loop_returns:
  "range_start r \<le> range_end r \<Longrightarrow> \<exists>x. reserve_loop r l = Some x"
proof (induction l rule: length_induct)
  case (1 l)
  show ?case
  proof (cases l)
    case Nil
    then show ?thesis by simp
  next
    case (Cons b m)
    then obtain x where x: "reserve_loop r m = Some x" using 1 by auto
    have y: "\<exists>x. reserve_loop r m' = Some x" if "m = c # m'" for c m'
      using 1 Cons that by auto
    from \<open>range_start r \<le> range_end r\<close> show ?thesis
      by (cases rule: reserve_cases[where b = b])
        (use Cons x y 1(2) in \<open>auto simp: reserve_loop_above reserve_loop_below reserve_loop_head
           reserve_loop_tail reserve_loop_split reserve_loop_inside split: list.splits\<close>)
  qed
qed

lemma reserve_loop_correct:
  assumes "wf_free l" "range_start r < range_end r" "covers_no_block r l"
  shows "\<exists>l'. reserve_loop r l = Some (Inr l') \<and> wf_free l' \<and> free_frames l' = free_frames l - range_frames r"
  using assms
proof (induction l)
  case Nil
  then show ?case by simp
next
  case (Cons b l)
  then obtain l' where IH: "reserve_loop r l = Some (Inr l')" "wf_free l'"
    "free_frames l' = free_frames l - range_frames r"
    by (auto simp: wf_free_Cons covers_no_block_def)
  have low: "node_end b < f" if "f \<in> free_frames l'" for f
    using that IH(3) wf_free_frames_above[OF Cons.prems(1)] by auto
  have b: "0 < frame_count b" using Cons.prems(1) by (simp add: wf_free_Cons)
  have up: "\<And>f. f \<in> free_frames l \<Longrightarrow> node_end b < f" using wf_free_frames_above[OF Cons.prems(1)] by simp
  from less_imp_le[OF Cons.prems(2)] show ?case
  proof (cases rule: reserve_cases[where b = b])
    case above
    then show ?thesis using Cons.prems(1) up
      by (force simp: reserve_loop_above node_frames_def range_frames_def node_end_def)
  next
    case below
    have "node_frames b \<inter> range_frames r = {}"
      using below by (auto simp: node_frames_def range_frames_def)
    then show ?thesis using IH low b wf_free_ConsI[OF b IH(2)] Cons.prems(2)
      by (auto simp: reserve_loop_below[OF below])
  next
    case inside
    then show ?thesis using Cons.prems(3) b by (auto simp: covers_no_block_def node_end_def)
  next
    case head
    let ?n = "node_at (node_start b) (range_start r - node_start b)"
    have "wf_free (?n # l')" using head IH(2) low by (intro wf_free_ConsI) (auto dest: low)
    moreover have "node_frames ?n = node_frames b - range_frames r"
      using head by (auto simp: node_frames_def range_frames_def)
    ultimately show ?thesis using IH by (simp add: reserve_loop_head[OF head] Un_Diff)
  next
    case tail
    let ?n = "node_at (range_end r) (node_end b - range_end r)"
    have "wf_free (?n # l')" using tail IH(2) low by (intro wf_free_ConsI) auto
    moreover have "node_frames ?n = node_frames b - range_frames r"
      using tail by (auto simp: node_frames_def range_frames_def)
    ultimately show ?thesis using IH by (simp add: reserve_loop_tail[OF tail] Un_Diff)
  next
    case split
    let ?n = "node_at (node_start b) (range_start r - node_start b)"
      and ?m = "node_at (range_end r) (node_end b - range_end r)"
    have "wf_free (?n # ?m # l')"
      using split IH(2) low Cons.prems(2) by (intro wf_free_ConsI) (auto simp: node_frames_def dest: low)
    moreover have "node_frames ?n \<union> node_frames ?m = node_frames b - range_frames r"
      using split Cons.prems(2) by (auto simp: node_frames_def range_frames_def)
    ultimately show ?thesis using IH Cons.prems(2)
      by (simp add: reserve_loop_split[OF less_imp_le split] Un_Diff flip: Un_assoc)
  qed
qed

lemma sorted_wrt_remove1: "sorted_wrt P xs \<Longrightarrow> sorted_wrt P (remove1 x xs)"
proof (induction xs)
  case (Cons a xs)
  then show ?case using set_remove1_subset[of x xs] by auto
qed simp

lemma sorted_wrt_remove1_sep:
  "sorted_wrt P xs \<Longrightarrow> (\<And>a b. P a b \<Longrightarrow> P b a) \<Longrightarrow> x \<in> set xs \<Longrightarrow> y \<in> set (remove1 x xs) \<Longrightarrow> P x y"
  by (induction xs) (auto split: if_splits)

locale frame_allocator =
  fixes alloc :: "nat \<Rightarrow> 's \<Rightarrow> (phys_frame_range \<times> 's) result"
    and free :: "phys_frame_range \<Rightarrow> 's \<Rightarrow> 's result"
    and available :: "'s \<Rightarrow> nat set"
    and invar :: "'s \<Rightarrow> bool"
  assumes alloc_invar: "invar s \<Longrightarrow> alloc n s = Inr (r, s') \<Longrightarrow> invar s'"
    and alloc_subset: "invar s \<Longrightarrow> alloc n s = Inr (r, s') \<Longrightarrow> range_frames r \<subseteq> available s"
    and alloc_available:
      "invar s \<Longrightarrow> alloc n s = Inr (r, s') \<Longrightarrow> available s' = available s - range_frames r"
    and alloc_size: "invar s \<Longrightarrow> alloc n s = Inr (r, s') \<Longrightarrow> range_end r = range_start r + n"
    and free_spec:
      "invar s \<Longrightarrow> range_start r < range_end r \<Longrightarrow> range_frames r \<inter> available s = {} \<Longrightarrow>
       \<exists>s'. free r s = Inr s' \<and> invar s' \<and> available s' = available s \<union> range_frames r"
begin

lemma alloc_free_available:
  assumes "invar s" "alloc n s = Inr (r, s')" "0 < n"
  shows "\<exists>s''. free r s' = Inr s'' \<and> invar s'' \<and> available s'' = available s"
  using free_spec[of s' r] alloc_invar[OF assms(1,2)] alloc_available[OF assms(1,2)]
    alloc_size[OF assms(1,2)] alloc_subset[OF assms(1,2)] assms(3)
  by (auto simp: Un_absorb1)

lemma alloc_owned:
  assumes "invar s" "alloc n s = Inr (r, s')" "0 < n" "owned_ok (available s) own"
  shows "owned_ok (available s') (r # own)"
proof -
  have "range_frames r \<inter> range_frames q = {}" if "q \<in> set own" for q
    using assms(4) that alloc_subset[OF assms(1,2)] by (fastforce simp: owned_ok_def list_all_iff)
  with assms(3,4) alloc_available[OF assms(1,2)] alloc_size[OF assms(1,2)] show ?thesis
    by (auto simp: owned_ok_def list_all_iff)
qed

lemma free_owned:
  assumes "invar s" "owned_ok (available s) own" "r \<in> set own"
  shows "\<exists>s'. free r s = Inr s' \<and> invar s' \<and> available s' = available s \<union> range_frames r \<and>
           owned_ok (available s') (remove1 r own)"
proof -
  have r: "range_start r < range_end r" "range_frames r \<inter> available s = {}"
    using assms(2,3) by (auto simp: owned_ok_def list_all_iff)
  from free_spec[OF assms(1) r] obtain s' where
    s': "free r s = Inr s'" "invar s'" "available s' = available s \<union> range_frames r" by blast
  have "range_frames r \<inter> range_frames q = {}" if "q \<in> set (remove1 r own)" for q
    using assms(2,3) that sorted_wrt_remove1_sep[of "\<lambda>r q. range_frames r \<inter> range_frames q = {}" own r q]
    by (auto simp: owned_ok_def)
  then have "owned_ok (available s') (remove1 r own)"
    using assms(2) s'(3) by (auto simp: owned_ok_def list_all_iff sorted_wrt_remove1 dest: notin_set_remove1)
  with s' show ?thesis by blast
qed

end

locale canonical_allocator = frame_allocator +
  assumes unique: "invar s \<Longrightarrow> invar t \<Longrightarrow> available s = available t \<Longrightarrow> s = t"
begin

lemma alloc_free_identity:
  "invar s \<Longrightarrow> alloc n s = Inr (r, s') \<Longrightarrow> 0 < n \<Longrightarrow> free r s' = Inr s"
  using alloc_free_available unique by blast

lemma free_commute:
  assumes "invar s" "owned_ok (available s) [r, q]"
  shows "and_then (free r s) (free q) = and_then (free q s) (free r)"
proof -
  obtain s1 where s1: "free r s = Inr s1" "invar s1" "available s1 = available s \<union> range_frames r"
      "owned_ok (available s1) [q]"
    using free_owned[OF assms, of r] by (auto split: if_splits)
  obtain s2 where s2: "free q s = Inr s2" "invar s2" "available s2 = available s \<union> range_frames q"
      "owned_ok (available s2) [r]"
    using free_owned[OF assms, of q] assms(2) by (auto split: if_splits simp: owned_ok_def)
  obtain t1 t2 where "free q s1 = Inr t1" "invar t1" "available t1 = available s1 \<union> range_frames q"
      "free r s2 = Inr t2" "invar t2" "available t2 = available s2 \<union> range_frames r"
    using free_owned[OF s1(2,4), of q] free_owned[OF s2(2,4), of r] by auto
  then show ?thesis using s1 s2 unique[of t1 t2] by (simp add: Un_ac)
qed

end

interpretation pfa: canonical_allocator alloc_block free_block free_frames wf_free
  by unfold_locales
    (auto intro: alloc_block_wf wf_free_unique dest: alloc_block_frames free_block_correct)

interpretation phys: frame_allocator phys_alloc phys_free
    "\<lambda>st. free_frames (page_frame_allocator st)" "\<lambda>st. wf_free (page_frame_allocator st)"
proof unfold_locales
  fix st :: phys_state and r
  assume "wf_free (page_frame_allocator st)" "range_start r < range_end r"
    "range_frames r \<inter> free_frames (page_frame_allocator st) = {}"
  from pfa.free_spec[OF this] show "\<exists>s'. phys_free r st = Inr s' \<and> wf_free (page_frame_allocator s') \<and>
      free_frames (page_frame_allocator s') = free_frames (page_frame_allocator st) \<union> range_frames r"
    by (auto simp: phys_free_def)
qed (auto simp: phys_alloc_def result_simps intro: alloc_block_wf dest: alloc_block_frames)

text \<open>\<open>phys_insert\<close> frees the region without frame 0 and raises the limit.\<close>

lemma phys_insert_spec:
  assumes "wf_free (page_frame_allocator st)" "range_start r < range_end r"
    "range_frames r \<inter> free_frames (page_frame_allocator st) = {}"
  shows "\<exists>st'. phys_insert r st = Inr st' \<and> wf_free (page_frame_allocator st') \<and>
    free_frames (page_frame_allocator st') = free_frames (page_frame_allocator st) \<union> (range_frames r - {0}) \<and>
    phys_limit st' = Some (let l = (case phys_limit st of None \<Rightarrow> 0 | Some l \<Rightarrow> l) in
                           if range_frames r \<subseteq> {0} then l else max l (range_end r))"
proof (cases "range_start r = 0 \<and> range_end r \<le> 1")
  case True
  then have "range_frames r \<subseteq> {0}" by (auto simp: range_frames_def)
  with True assms(1) show ?thesis by (auto simp: phys_insert_def Let_def)
next
  case False
  define q where "q = (if range_start r = 0 then r\<lparr>range_start := 1\<rparr> else r)"
  have q: "range_start q < range_end q" "range_frames q = range_frames r - {0}" "range_end q = range_end r"
    using False assms(2) by (auto simp: q_def range_frames_def)
  have "\<not> range_frames r \<subseteq> {0}"
    using False assms(2) by (auto simp: range_frames_def subset_iff intro!: exI[of _ "range_end r - 1"])
  moreover obtain l' where "free_block q (page_frame_allocator st) = Inr l'" "wf_free l'"
    "free_frames l' = free_frames (page_frame_allocator st) \<union> range_frames q"
    using free_block_correct[of "page_frame_allocator st" q] assms q by auto
  ultimately show ?thesis
    using False q by (auto simp: phys_insert_def Let_def max_def simp flip: q_def)
qed

lemma owner_inv_boot: "owner_inv boot_state"
  by (simp add: owner_inv_def boot_state_def owned_ok_def frames_within_def)

lemma owner_step_inv: "owner_step s t \<Longrightarrow> owner_inv s \<Longrightarrow> owner_inv t"
proof (induction rule: owner_step.induct)
  case (boot_insert region st own st')
  let ?old = "case phys_limit st of None \<Rightarrow> 0 | Some l \<Rightarrow> l"
  have "range_frames region \<inter> free_frames (page_frame_allocator st) = {}" using boot_insert(2) by auto
  from phys_insert_spec[OF _ boot_insert(1) this] boot_insert(3,4) have
    st': "wf_free (page_frame_allocator st')"
      "free_frames (page_frame_allocator st') = free_frames (page_frame_allocator st) \<union> (range_frames region - {0})"
      "phys_limit st' = Some (if range_frames region \<subseteq> {0} then ?old else max ?old (range_end region))"
    by (auto simp: owner_inv_def Let_def)
  have own: "owned_ok (free_frames (page_frame_allocator st)) own" and lim: "frames_within (st, own)"
    using boot_insert(4) by (simp_all add: owner_inv_def)
  have "range_frames r \<inter> range_frames region = {}" if "r \<in> set own" for r
    using boot_insert(2) that by blast
  with own st'(2) have "owned_ok (free_frames (page_frame_allocator st')) own"
    by (fastforce simp: owned_ok_def list_all_iff)
  moreover have "f < range_end region" if "f \<in> range_frames region" for f
    using that by (simp add: range_frames_def)
  then have "frames_within (st', own)"
    using lim by (auto simp: frames_within_def st'(2,3) less_max_iff_disj)
  ultimately show ?case using st'(1) by (simp add: owner_inv_def)
next
  case (take_frames n st r st' own)
  then have inv: "wf_free (page_frame_allocator st)" "owned_ok (free_frames (page_frame_allocator st)) own"
    and lim: "frames_within (st, own)" by (simp_all add: owner_inv_def)
  have "phys_limit st' = phys_limit st" using take_frames(2) by (auto simp: phys_alloc_def result_simps)
  moreover note phys.alloc_subset[OF inv(1) take_frames(2)] phys.alloc_available[OF inv(1) take_frames(2)]
  ultimately have "frames_within (st', r # own)" using lim by (auto simp: frames_within_def)
  then show ?case
    using phys.alloc_owned[OF inv(1) take_frames(2,1) inv(2)] phys.alloc_invar[OF inv(1) take_frames(2)]
    by (simp add: owner_inv_def)
next
  case (give_back r own st st')
  then have inv: "wf_free (page_frame_allocator st)" "owned_ok (free_frames (page_frame_allocator st)) own"
    and lim: "frames_within (st, own)" by (simp_all add: owner_inv_def)
  have "phys_limit st' = phys_limit st" using give_back(2) by (auto simp: phys_free_def result_simps)
  moreover note phys.free_owned[OF inv give_back(1)] set_remove1_subset[of r own]
  ultimately show ?case using give_back(1,2) lim by (auto simp: owner_inv_def frames_within_def)
qed

lemma owner_reachable_inv: "owner_step\<^sup>*\<^sup>* boot_state s \<Longrightarrow> owner_inv s"
  by (induction rule: rtranclp_induct) (auto intro: owner_inv_boot owner_step_inv)

lemmas alloc_eval = alloc_block_def insert_block_def Let_def node_end_def node_at_def frame_range_def
  checked_sub_def

section \<open>Properties\<close>

text \<open>
  C2: a successful \<open>alloc_block\<close> of \<open>n\<close> frames keeps the free list well formed, returns exactly \<open>n\<close>
  contiguous frames that were free, removes exactly these from the free set, and takes them from the
  start of the lowest block that is large enough (first fit).
\<close>

theorem alloc_block_correct:
  assumes "wf_free l" and "alloc_block n l = Inr (r, l')"
  shows "wf_free l' \<and> range_end r = range_start r + n \<and> range_frames r \<subseteq> free_frames l \<and>
    free_frames l' = free_frames l - range_frames r \<and>
    (\<forall>b \<in> set l. n \<le> frame_count b \<longrightarrow> range_start r \<le> node_start b)"
  using alloc_block_frames[OF assms] alloc_block_wf[OF assms] alloc_block_first_fit[OF assms] by simp

theorem alloc_block_correct_witness:
  "range_frames (frame_range 10 13) \<subseteq> free_frames [node_at 5 2, node_at 10 8]"
  using alloc_block_correct[of "[node_at 5 2, node_at 10 8]" 3 "frame_range 10 13" "[node_at 5 2, node_at 13 5]"]
  by (simp add: alloc_eval)

text \<open>
  \<open>alloc_block\<close> panics only with "Out of memory", and does so exactly when every free block is
  smaller than the request.
\<close>

theorem alloc_block_out_of_memory:
  "alloc_block n l = Inl p \<longleftrightarrow> p = Out_Of_Memory \<and> list_all (\<lambda>b. frame_count b < n) l"
  by (simp add: alloc_block_fails list_all_iff)

text \<open>
  C3: \<open>free_block\<close> of a non-empty range that is not free never panics, keeps the list sorted and fully
  fused, and adds exactly the freed frames to the free set.
\<close>

theorem free_block_refines_union:
  assumes "wf_free l" and "range_start r < range_end r" and "range_frames r \<inter> free_frames l = {}"
  shows "\<exists>l'. free_block r l = Inr l' \<and> wf_free l' \<and> free_frames l' = free_frames l \<union> range_frames r"
  using assms by (rule pfa.free_spec)

theorem free_block_refines_union_witness:
  "\<exists>l'. free_block (frame_range 7 10) [node_at 5 2, node_at 10 8] = Inr l' \<and> wf_free l' \<and>
     free_frames l' = free_frames [node_at 5 2, node_at 10 8] \<union> range_frames (frame_range 7 10)"
  by (rule free_block_refines_union) (auto simp: node_frames_def node_end_def node_at_def)

text \<open>
  C38: freeing what was just allocated restores the very same free list, block by block: splitting a
  block for an allocation and fusing it on the release are exact inverses.
\<close>

theorem free_undoes_alloc:
  assumes "wf_free l" and "alloc_block n l = Inr (r, l')" and "0 < n"
  shows "free_block r l' = Inr l"
  using assms by (rule pfa.alloc_free_identity)

theorem free_undoes_alloc_witness:
  "free_block (frame_range 10 13) [node_at 5 2, node_at 13 5] = Inr [node_at 5 2, node_at 10 8]"
  by (rule free_undoes_alloc[of _ 3]) (simp_all add: alloc_eval)

text \<open>the order in which two held ranges are released does not change the resulting free list.\<close>

theorem free_order_irrelevant:
  assumes "wf_free l" and "owned_ok (free_frames l) [r, q]"
  shows "and_then (free_block r l) (free_block q) = and_then (free_block q l) (free_block r)"
  using assms by (rule pfa.free_commute)

theorem free_order_irrelevant_witness:
  "and_then (free_block (frame_range 2 4) [node_at 8 1]) (free_block (frame_range 4 8)) =
   and_then (free_block (frame_range 4 8) [node_at 8 1]) (free_block (frame_range 2 4))"
  by (rule free_order_irrelevant) (auto simp: owned_ok_def node_frames_def node_end_def node_at_def)

text \<open>
  \<open>reserve_block\<close> of a non-empty range that contains no free block completely terminates without a
  panic and removes exactly the reserved frames from the free set (the kernel image lies inside one
  available region, which is this case).
\<close>

theorem reserve_block_correct:
  assumes "wf_free l" and "range_start r < range_end r" and "covers_no_block r l"
  shows "\<exists>l'. reserve_block r l = Some (Inr l') \<and> wf_free l' \<and> free_frames l' = free_frames l - range_frames r"
  using assms unfolding reserve_block_def by (rule reserve_loop_correct)

theorem reserve_block_correct_witness:
  "\<exists>l'. reserve_block (frame_range 3 6) [node_at 1 3, node_at 5 10] = Some (Inr l') \<and> wf_free l' \<and>
     free_frames l' = free_frames [node_at 1 3, node_at 5 10] - range_frames (frame_range 3 6)"
  by (rule reserve_block_correct) (simp_all add: covers_no_block_def)

text \<open>the loop of \<open>reserve_block\<close> ends for every free list and every range.\<close>

theorem reserve_block_terminates:
  assumes "range_start r \<le> range_end r"
  shows "\<exists>x. reserve_block r l = Some x"
  using assms unfolding reserve_block_def by (rule reserve_loop_returns)

theorem reserve_block_terminates_witness:
  "\<exists>x. reserve_block (frame_range 3 6) [node_at 1 3, node_at 5 10] = Some x"
  by (rule reserve_block_terminates) simp

text \<open>
  when a free block lies completely inside the reserved range, the block after it is skipped: its
  frames stay free even where they are reserved, and if there is no such block the code panics on
  \<open>unwrap()\<close>.
\<close>

theorem reserve_block_skips_successor:
  assumes "range_start r \<le> node_start b" and "node_end b \<le> range_end r"
  shows "reserve_block r [b] = Some (Inl Unwrap_None) \<and>
    (reserve_block r (b # c # l) = Some (Inr l') \<longrightarrow> node_frames c \<subseteq> free_frames l')"
  using assms
  by (auto simp: reserve_block_def reserve_loop_inside result_simps split: Option.bind_splits)

theorem reserve_block_skips_successor_witness:
  "node_frames (node_at 16 5) \<subseteq> free_frames [node_at 16 5]"
  using reserve_block_skips_successor[of "frame_range 10 21" "node_at 10 5" "node_at 16 5" "[]" "[node_at 16 5]"]
  by (simp add: reserve_block_def reserve_loop_inside)

text \<open>
  C1: whatever callers insert, allocate and free (freeing only what they hold), live allocations never
  overlap each other or the free frames, frame 0 is never handed out, every frame lies below
  \<open>phys_limit\<close>, and giving back a held range never panics.
\<close>

theorem live_allocations_disjoint:
  assumes "owner_step\<^sup>*\<^sup>* boot_state (st, own)"
  shows "wf_free (page_frame_allocator st) \<and> owned_ok (free_frames (page_frame_allocator st)) own \<and>
    frames_within (st, own) \<and> list_all (\<lambda>r. is_ok (phys_free r st)) own"
proof -
  from owner_reachable_inv[OF assms] have inv: "wf_free (page_frame_allocator st)"
    "owned_ok (free_frames (page_frame_allocator st)) own" "frames_within (st, own)"
    by (simp_all add: owner_inv_def)
  with phys.free_owned[OF inv(1,2)] show ?thesis by (auto simp: list_all_iff is_ok_iff)
qed

theorem live_allocations_disjoint_witness:
  "list_all (\<lambda>r. is_ok (phys_free r \<lparr>page_frame_allocator = [node_at 3 6], phys_limit = Some 9\<rparr>))
     [frame_range 1 3]"
proof -
  let ?s1 = "\<lparr>page_frame_allocator = [node_at 1 8], phys_limit = Some 9\<rparr>"
    and ?s2 = "\<lparr>page_frame_allocator = [node_at 3 6], phys_limit = Some 9\<rparr>"
  have "owner_step boot_state (?s1, [])"
    unfolding boot_state_def
    by (rule boot_insert[of "frame_range 0 9"])
      (simp_all add: phys_insert_def free_block_def insert_block_def Let_def checked_sub_def frame_range_def)
  moreover have "owner_step (?s1, []) (?s2, [frame_range 1 3])"
    by (rule take_frames[of 2]) (simp_all add: phys_alloc_def alloc_eval)
  ultimately have "owner_step\<^sup>*\<^sup>* boot_state (?s2, [frame_range 1 3])" by auto
  from live_allocations_disjoint[OF this] show ?thesis by blast
qed

end
