(* ===== verification/Paging.thy ===== *)
theory Paging
  imports Physical_Memory
begin

text \<open>
  Address spaces of \<open>os/kernel/src/memory/virtual.rs\<close>: four-level page tables that live in page frames
  of the physical allocator, and the routines that map, unmap, translate, re-flag, copy and drop them.

  Page tables are reached through physical addresses, so the model keeps a store from frame numbers to
  tables (\<open>tables\<close>) next to the allocator state. A frame that has just been allocated holds whatever the
  store holds for it. Pages and frames are numbers (address divided by the page size).

  The page table entry comes from the \<open>x86_64\<close> crate: its operations are the parameter \<open>ops\<close> of the
  definitions, and what the code relies on are the laws of the locale \<open>page_table_entry\<close>, which the
  64 bit entry format of the processor satisfies.
\<close>

unbundle bit_operations_syntax

section \<open>Data\<close>

datatype memory_space = Kernel | User

text \<open>The operations of a page table entry; an address is given by its frame number.\<close>

record ('e, 'f) entry_ops =
  unused_entry :: 'e
  is_unused :: "'e \<Rightarrow> bool"
  entry_addr :: "'e \<Rightarrow> nat"
  entry_flags :: "'e \<Rightarrow> 'f"
  make_entry :: "nat \<Rightarrow> 'f \<Rightarrow> 'e"
  set_entry_flags :: "'f \<Rightarrow> 'e \<Rightarrow> 'e"

record page_range =
  page_start :: nat
  page_end :: nat

text \<open>The state the routines work on: the frame allocator and the tables in memory.\<close>

record 'e machine =
  frames_state :: phys_state
  tables :: "nat \<Rightarrow> 'e list"

record address_space =
  root_table :: nat
  depth :: nat

definition ENTRY_COUNT :: nat where "ENTRY_COUNT = 512"

section \<open>Single tables\<close>

definition page_table_index :: "nat \<Rightarrow> nat \<Rightarrow> nat result" where
  "page_table_index page level =
     and_then (checked_sub level 1) (\<lambda>l. Inr (page div 512 ^ l mod 512))"

definition set_entry :: "nat \<Rightarrow> nat \<Rightarrow> 'e \<Rightarrow> 'e machine \<Rightarrow> 'e machine" where
  "set_entry t i e m = m\<lparr>tables := (tables m)(t := (tables m t)[i := e])\<rparr>"

definition zero_table :: "('e, 'f) entry_ops \<Rightarrow> nat \<Rightarrow> 'e machine \<Rightarrow> 'e machine" where
  "zero_table ops t m = m\<lparr>tables := (tables m)(t := replicate 512 (unused_entry ops))\<rparr>"

definition alloc_frame :: "'e machine \<Rightarrow> (nat \<times> 'e machine) result" where
  "alloc_frame m =
     and_then (phys_alloc 1 (frames_state m)) (\<lambda>(r, st). Inr (range_start r, m\<lparr>frames_state := st\<rparr>))"

definition free_frame :: "nat \<Rightarrow> 'e machine \<Rightarrow> 'e machine result" where
  "free_frame t m =
     and_then (phys_free (frame_range t (t + 1)) (frames_state m)) (\<lambda>st. Inr (m\<lparr>frames_state := st\<rparr>))"

definition is_table_empty :: "('e, 'f) entry_ops \<Rightarrow> 'e list \<Rightarrow> bool" where
  "is_table_empty ops table = list_all (is_unused ops) table"

text \<open>A \<open>for\<close> loop over entry indices whose body says whether to break.\<close>

fun entry_loop :: "(nat \<Rightarrow> 's \<Rightarrow> ('s \<times> bool) result) \<Rightarrow> nat list \<Rightarrow> 's \<Rightarrow> 's result" where
  "entry_loop body [] s = Inr s"
| "entry_loop body (i # rest) s =
     and_then (body i s) (\<lambda>(s', stop). if stop then Inr s' else entry_loop body rest s')"

section \<open>Level 1: writing a run of entries\<close>

definition run_length :: "page_range \<Rightarrow> nat \<Rightarrow> nat result" where
  "run_length pages start_index =
     and_then (checked_sub (page_end pages) (page_start pages)) (\<lambda>n. Inr (min n (512 - start_index)))"

definition identity_map_kernel ::
  "('e, 'f) entry_ops \<Rightarrow> nat \<Rightarrow> page_range \<Rightarrow> 'f \<Rightarrow> 'e machine \<Rightarrow> (nat \<times> 'e machine) result" where
  "identity_map_kernel ops t pages flags m =
     and_then (page_table_index (page_start pages) 1) (\<lambda>start_index.
     and_then (run_length pages start_index) (\<lambda>alloc_count.
       and_then (entry_loop (\<lambda>i (m, frame_addr).
           Inr ((set_entry t i (make_entry ops frame_addr flags) m, frame_addr + 1), False))
         [start_index..<start_index + alloc_count] (m, page_start pages))
       (\<lambda>(m', _). Inr (alloc_count, m'))))"

definition map_user ::
  "('e, 'f) entry_ops \<Rightarrow> nat \<Rightarrow> page_range \<Rightarrow> 'f \<Rightarrow> 'e machine \<Rightarrow> (nat \<times> 'e machine) result" where
  "map_user ops t pages flags m =
     and_then (page_table_index (page_start pages) 1) (\<lambda>start_index.
     and_then (run_length pages start_index) (\<lambda>alloc_count.
       and_then (entry_loop (\<lambda>i m.
           and_then (alloc_frame m) (\<lambda>(phys_frame, m').
             Inr (set_entry t i (make_entry ops phys_frame flags) m', False)))
         [start_index..<start_index + alloc_count] m)
       (\<lambda>m'. Inr (alloc_count, m'))))"

text \<open>The frame iterator also skips \<open>start_index\<close> frames before the first entry is written.\<close>

definition map_user_physical ::
  "('e, 'f) entry_ops \<Rightarrow> nat \<Rightarrow> phys_frame_range \<Rightarrow> page_range \<Rightarrow> 'f \<Rightarrow> 'e machine \<Rightarrow> (nat \<times> 'e machine) result" where
  "map_user_physical ops t frames pages flags m =
     and_then (page_table_index (page_start pages) 1) (\<lambda>start_index.
     and_then (run_length pages start_index) (\<lambda>alloc_count.
       and_then (entry_loop (\<lambda>i (m, frame_iter).
           case frame_iter of
             [] \<Rightarrow> Inl Unwrap_None
           | f # frame_iter' \<Rightarrow> Inr ((set_entry t i (make_entry ops f flags) m, frame_iter'), False))
         [start_index..<start_index + alloc_count]
         (m, drop start_index [range_start frames..<range_end frames]))
       (\<lambda>(m', _). Inr (alloc_count, m'))))"

section \<open>Mapping\<close>

fun map_in_table ::
  "('e, 'f) entry_ops \<Rightarrow> nat \<Rightarrow> nat \<Rightarrow> phys_frame_range \<Rightarrow> page_range \<Rightarrow> memory_space \<Rightarrow> 'f \<Rightarrow>
     'e machine \<Rightarrow> (nat \<times> 'e machine) result" where
  "map_in_table ops 0 t frames pages space flags m = Inl Sub_Overflow"
| "map_in_table ops (Suc 0) t frames pages space flags m =
     (case space of
        Kernel \<Rightarrow> identity_map_kernel ops t pages flags m
      | User \<Rightarrow>
          if range_start frames = range_end frames then map_user ops t pages flags m
          else map_user_physical ops t frames pages flags m)"
| "map_in_table ops (Suc (Suc level)) t frames pages space flags m =
     and_then (page_table_index (page_start pages) (Suc (Suc level))) (\<lambda>start_index.
     and_then (entry_loop (\<lambda>i (m, frames, pages, total).
         and_then
           (if is_unused ops (tables m t ! i) then
              and_then (alloc_frame m) (\<lambda>(phys_frame, m1).
                let m2 = set_entry t i (make_entry ops phys_frame flags) m1 in
                Inr (zero_table ops (entry_addr ops (tables m2 t ! i)) m2))
            else Inr m)
         (\<lambda>m3.
         and_then (map_in_table ops (Suc level) (entry_addr ops (tables m3 t ! i)) frames pages space flags m3)
         (\<lambda>(allocated, m4).
           let pages' = pages\<lparr>page_start := page_start pages + allocated\<rparr>;
               frames' = (if range_start frames < range_end frames
                          then frames\<lparr>range_start := range_start frames + allocated\<rparr> else frames)
           in Inr ((m4, frames', pages', total + allocated), page_end pages' \<le> page_start pages'))))
       [start_index..<512] (m, frames, pages, 0))
     (\<lambda>(m', _, _, total). Inr (total, m')))"

section \<open>Unmapping\<close>

definition unmap_run ::
  "('e, 'f) entry_ops \<Rightarrow> nat \<Rightarrow> page_range \<Rightarrow> bool \<Rightarrow> 'e machine \<Rightarrow> (nat \<times> 'e machine) result" where
  "unmap_run ops t pages free_physical m =
     and_then (page_table_index (page_start pages) 1) (\<lambda>start_index.
     and_then (run_length pages start_index) (\<lambda>free_count.
       and_then (entry_loop (\<lambda>i m.
           if is_unused ops (tables m t ! i) then Inr (m, False)
           else
             and_then (if free_physical then free_frame (entry_addr ops (tables m t ! i)) m else Inr m)
               (\<lambda>m'. Inr (set_entry t i (unused_entry ops) m', False)))
         [start_index..<start_index + free_count] m)
       (\<lambda>m'. Inr (free_count, m'))))"

fun unmap_in_table ::
  "('e, 'f) entry_ops \<Rightarrow> nat \<Rightarrow> nat \<Rightarrow> page_range \<Rightarrow> bool \<Rightarrow> 'e machine \<Rightarrow> (nat \<times> 'e machine) result" where
  "unmap_in_table ops 0 t pages free_physical m = Inl Sub_Overflow"
| "unmap_in_table ops (Suc 0) t pages free_physical m = unmap_run ops t pages free_physical m"
| "unmap_in_table ops (Suc (Suc level)) t pages free_physical m =
     and_then (page_table_index (page_start pages) (Suc (Suc level))) (\<lambda>start_index.
     and_then (entry_loop (\<lambda>i (m, pages, total).
         if is_unused ops (tables m t ! i) then Inr ((m, pages, total), False)
         else
           (let next = entry_addr ops (tables m t ! i) in
            and_then (unmap_in_table ops (Suc level) next pages free_physical m) (\<lambda>(freed, m1).
              let pages' = pages\<lparr>page_start := page_start pages + freed\<rparr> in
              and_then
                (if is_table_empty ops (tables m1 next) then
                   and_then (free_frame (entry_addr ops (tables m1 t ! i)) m1) (\<lambda>m2.
                     Inr (set_entry t i (unused_entry ops) m2))
                 else Inr m1)
                (\<lambda>m3. Inr ((m3, pages', total + freed), page_end pages' \<le> page_start pages')))))
       [start_index..<512] (m, pages, 0))
     (\<lambda>(m', _, total). Inr (total, m')))"

section \<open>Flags\<close>

definition set_flags_run ::
  "('e, 'f) entry_ops \<Rightarrow> nat \<Rightarrow> page_range \<Rightarrow> 'f \<Rightarrow> 'e machine \<Rightarrow> (nat \<times> 'e machine) result" where
  "set_flags_run ops t pages flags m =
     and_then (page_table_index (page_start pages) 1) (\<lambda>start_index.
     and_then (run_length pages start_index) (\<lambda>edit_count.
       and_then (entry_loop (\<lambda>i m.
           Inr (set_entry t i (set_entry_flags ops flags (tables m t ! i)) m, False))
         [start_index..<start_index + edit_count] m)
       (\<lambda>m'. Inr (edit_count, m'))))"

fun set_flags_in_table ::
  "('e, 'f) entry_ops \<Rightarrow> nat \<Rightarrow> nat \<Rightarrow> page_range \<Rightarrow> 'f \<Rightarrow> 'e machine \<Rightarrow> (nat \<times> 'e machine) result" where
  "set_flags_in_table ops 0 t pages flags m = Inl Sub_Overflow"
| "set_flags_in_table ops (Suc 0) t pages flags m = set_flags_run ops t pages flags m"
| "set_flags_in_table ops (Suc (Suc level)) t pages flags m =
     and_then (page_table_index (page_start pages) (Suc (Suc level))) (\<lambda>start_index.
     and_then (entry_loop (\<lambda>i (m, pages, total).
         if is_unused ops (tables m t ! i) then Inr ((m, pages, total), False)
         else
           and_then (set_flags_in_table ops (Suc level) (entry_addr ops (tables m t ! i)) pages flags m)
             (\<lambda>(edited, m1).
               let pages' = pages\<lparr>page_start := page_start pages + edited\<rparr> in
               Inr ((m1, pages', total + edited), page_end pages' \<le> page_start pages')))
       [start_index..<512] (m, pages, 0))
     (\<lambda>(m', _, total). Inr (total, m')))"

section \<open>Translation\<close>

fun translate_in_table ::
  "('e, 'f) entry_ops \<Rightarrow> nat \<Rightarrow> nat \<Rightarrow> nat \<Rightarrow> 'e machine \<Rightarrow> nat option result" where
  "translate_in_table ops 0 t addr m = Inl Sub_Overflow"
| "translate_in_table ops (Suc level) t addr m =
     and_then (page_table_index (addr div PAGE_SIZE) (Suc level)) (\<lambda>index.
       if is_unused ops (tables m t ! index) then Inr None
       else if level > 0 then translate_in_table ops level (entry_addr ops (tables m t ! index)) addr m
       else Inr (Some (entry_addr ops (tables m t ! index) * PAGE_SIZE + addr mod PAGE_SIZE)))"

section \<open>Copying and dropping\<close>

fun copy_table ::
  "('e, 'f) entry_ops \<Rightarrow> nat \<Rightarrow> nat \<Rightarrow> nat \<Rightarrow> 'e machine \<Rightarrow> 'e machine result" where
  "copy_table ops (Suc (Suc level)) source target m =
     entry_loop (\<lambda>i m.
         if is_unused ops (tables m source ! i) then Inr (m, False)
         else
           and_then (alloc_frame m) (\<lambda>(phys_frame, m1).
             let flags = entry_flags ops (tables m1 source ! i);
                 m2 = set_entry target i (make_entry ops phys_frame flags) m1 in
             and_then (copy_table ops (Suc level) (entry_addr ops (tables m2 source ! i))
                 (entry_addr ops (tables m2 target ! i)) m2) (\<lambda>m3. Inr (m3, False))))
       [0..<512] m"
| "copy_table ops level source target m =
     entry_loop (\<lambda>i m.
         Inr (set_entry target i
           (make_entry ops (entry_addr ops (tables m source ! i)) (entry_flags ops (tables m source ! i))) m, False))
       [0..<512] m"

fun drop_table :: "('e, 'f) entry_ops \<Rightarrow> nat \<Rightarrow> nat \<Rightarrow> 'e machine \<Rightarrow> 'e machine result" where
  "drop_table ops (Suc (Suc level)) t m =
     and_then (entry_loop (\<lambda>i m.
         if entry_addr ops (tables m t ! i) = 0 then Inr (m, False)
         else
           and_then (drop_table ops (Suc level) (entry_addr ops (tables m t ! i)) m) (\<lambda>m'. Inr (m', False)))
       [0..<512] m)
     (\<lambda>m'. free_frame t (zero_table ops t m'))"
| "drop_table ops level t m = free_frame t (zero_table ops t m)"

section \<open>Address spaces\<close>

definition address_space_new :: "('e, 'f) entry_ops \<Rightarrow> nat \<Rightarrow> 'e machine \<Rightarrow> (address_space \<times> 'e machine) result" where
  "address_space_new ops d m =
     and_then (alloc_frame m) (\<lambda>(t, m').
       Inr (\<lparr>root_table = t, depth = d\<rparr>, zero_table ops t m'))"

definition address_space_from_other ::
  "('e, 'f) entry_ops \<Rightarrow> address_space \<Rightarrow> 'e machine \<Rightarrow> (address_space \<times> 'e machine) result" where
  "address_space_from_other ops other m =
     and_then (address_space_new ops (depth other) m) (\<lambda>(space, m1).
     and_then (copy_table ops (depth other) (root_table other) (root_table space) m1) (\<lambda>m2.
       Inr (space, m2)))"

definition page_table_address :: "address_space \<Rightarrow> nat" where
  "page_table_address a = root_table a * PAGE_SIZE"

definition map_pages ::
  "('e, 'f) entry_ops \<Rightarrow> address_space \<Rightarrow> page_range \<Rightarrow> memory_space \<Rightarrow> 'f \<Rightarrow> 'e machine \<Rightarrow> 'e machine result" where
  "map_pages ops a pages space flags m =
     and_then (map_in_table ops (depth a) (root_table a) (frame_range 0 0) pages space flags m) (\<lambda>(_, m'). Inr m')"

definition map_physical ::
  "('e, 'f) entry_ops \<Rightarrow> address_space \<Rightarrow> phys_frame_range \<Rightarrow> page_range \<Rightarrow> memory_space \<Rightarrow> 'f \<Rightarrow>
     'e machine \<Rightarrow> 'e machine result" where
  "map_physical ops a frames pages space flags m =
     and_then (checked_sub (range_end frames) (range_start frames)) (\<lambda>nf.
     and_then (checked_sub (page_end pages) (page_start pages)) (\<lambda>np.
     and_then (guard Assert_Failed (nf = np)) (\<lambda>_.
     and_then (map_in_table ops (depth a) (root_table a) frames pages space flags m) (\<lambda>(_, m'). Inr m'))))"

definition translate ::
  "('e, 'f) entry_ops \<Rightarrow> address_space \<Rightarrow> nat \<Rightarrow> 'e machine \<Rightarrow> nat option result" where
  "translate ops a addr m = translate_in_table ops (depth a) (root_table a) addr m"

definition unmap_pages ::
  "('e, 'f) entry_ops \<Rightarrow> address_space \<Rightarrow> page_range \<Rightarrow> bool \<Rightarrow> 'e machine \<Rightarrow> 'e machine result" where
  "unmap_pages ops a pages free_physical m =
     and_then (unmap_in_table ops (depth a) (root_table a) pages free_physical m) (\<lambda>(_, m'). Inr m')"

definition set_flags ::
  "('e, 'f) entry_ops \<Rightarrow> address_space \<Rightarrow> page_range \<Rightarrow> 'f \<Rightarrow> 'e machine \<Rightarrow> 'e machine result" where
  "set_flags ops a pages flags m =
     and_then (set_flags_in_table ops (depth a) (root_table a) pages flags m) (\<lambda>(_, m'). Inr m')"

definition address_space_drop :: "('e, 'f) entry_ops \<Rightarrow> address_space \<Rightarrow> 'e machine \<Rightarrow> 'e machine result" where
  "address_space_drop ops a m = drop_table ops (depth a) (root_table a) m"

section \<open>Page table entries\<close>

text \<open>
  What the code relies on: an entry written with valid flags (present, no address bits) is in use and
  gives back its frame and flags; an entry that is taken apart and put together again is unchanged.
\<close>

locale page_table_entry =
  fixes ops :: "('e, 'f) entry_ops" and valid_flags :: "'f \<Rightarrow> bool"
  assumes unused: "is_unused ops (unused_entry ops)"
    and used: "valid_flags fl \<Longrightarrow> \<not> is_unused ops (make_entry ops f fl)"
    and addr_make: "valid_flags fl \<Longrightarrow> f < 2 ^ 40 \<Longrightarrow> entry_addr ops (make_entry ops f fl) = f"
    and flags_make: "valid_flags fl \<Longrightarrow> f < 2 ^ 40 \<Longrightarrow> entry_flags ops (make_entry ops f fl) = fl"
    and make_parts: "make_entry ops (entry_addr ops e) (entry_flags ops e) = e"

text \<open>The 64 bit format: bits 12 to 51 hold the frame number, the other bits are flags.\<close>

definition addr_mask :: u64 where "addr_mask = push_bit 12 (mask 40)"

definition x86_entry_ops :: "(u64, u64) entry_ops" where
  "x86_entry_ops = \<lparr>unused_entry = 0, is_unused = (\<lambda>e. e = 0),
     entry_addr = (\<lambda>e. unat (take_bit 40 (drop_bit 12 e))), entry_flags = (\<lambda>e. e AND NOT addr_mask),
     make_entry = (\<lambda>f fl. push_bit 12 (of_nat f) OR fl),
     set_entry_flags = (\<lambda>fl e. (e AND addr_mask) OR fl)\<rparr>"

definition x86_valid_flags :: "u64 \<Rightarrow> bool" where
  "x86_valid_flags fl \<longleftrightarrow> bit fl 0 \<and> fl AND addr_mask = 0"

lemma addr_mask_bit: "bit addr_mask n \<longleftrightarrow> 12 \<le> n \<and> n < 52"
  by (auto simp: addr_mask_def bit_simps)

lemma valid_flags_bit: "x86_valid_flags fl \<Longrightarrow> 12 \<le> n \<Longrightarrow> n < 52 \<Longrightarrow> \<not> bit fl n"
  unfolding x86_valid_flags_def by (metis addr_mask_bit bit_0_eq bit_and_iff bot_apply bot_bool_def)

lemma frame_bit: "(f::nat) < 2 ^ 40 \<Longrightarrow> bit f n \<Longrightarrow> n < 40"
proof (rule ccontr)
  assume f: "f < 2 ^ 40" "bit f n" "\<not> n < 40"
  then have "(2::nat) ^ 40 \<le> 2 ^ n" by (intro power_increasing) auto
  then show False using f by (simp add: bit_iff_odd)
qed

interpretation x86: page_table_entry x86_entry_ops x86_valid_flags
proof
  fix f :: nat and e fl :: u64
  show "is_unused x86_entry_ops (unused_entry x86_entry_ops)" by (simp add: x86_entry_ops_def)
  show "\<not> is_unused x86_entry_ops (make_entry x86_entry_ops f fl)" if "x86_valid_flags fl"
  proof -
    have "bit (push_bit 12 (of_nat f) OR fl) 0" using that by (simp add: x86_valid_flags_def bit_simps)
    then show ?thesis by (auto simp: x86_entry_ops_def simp del: bit_0)
  qed
  assume fl: "x86_valid_flags fl" and f: "f < 2 ^ 40"
  have "take_bit 40 (drop_bit 12 (push_bit 12 (of_nat f) OR fl)) = (of_nat f :: u64)"
    by (rule bit_word_eqI) (use valid_flags_bit[OF fl] in \<open>auto simp: bit_simps dest: frame_bit[OF f]\<close>)
  then show "entry_addr x86_entry_ops (make_entry x86_entry_ops f fl) = f"
    using f by (simp add: x86_entry_ops_def unat_of_nat)
  show "entry_flags x86_entry_ops (make_entry x86_entry_ops f fl) = fl"
    unfolding x86_entry_ops_def
    by (rule bit_word_eqI) (use valid_flags_bit[OF fl] in \<open>auto simp: bit_simps addr_mask_bit dest: frame_bit[OF f]\<close>)
next
  fix e :: u64
  have "of_nat (unat (take_bit 40 (drop_bit 12 e))) = (take_bit 40 (drop_bit 12 e) :: u64)" by simp
  then show "make_entry x86_entry_ops (entry_addr x86_entry_ops e) (entry_flags x86_entry_ops e) = e"
    unfolding x86_entry_ops_def
    by (auto intro!: bit_word_eqI simp: bit_simps addr_mask_bit)
qed

end
