(* ===== verification/Paging_Correct.thy ===== *)
theory Paging_Correct
  imports Paging
begin

text \<open>
  Correctness of mapping (\<open>map_in_table\<close> of the theory \<open>Paging\<close>): what a walk through the tables finds
  after pages have been mapped.

  The tables of an address space form a tree of frames (\<open>wf_tab\<close>): the subtrees of different entries do
  not share a frame, and no table lies in a free frame. A page \<open>p\<close> uses the entry
  \<open>p div 512 ^ l mod 512\<close> of its table at level \<open>l + 1\<close>; a table of level \<open>l\<close> covers a block of \<open>512 ^ l\<close>
  pages, and one call maps the part of the range that lies in the block of its first page.

  \<open>map_post\<close> is the effect of mapping \<open>n\<close> pages from \<open>ps\<close> on: these pages and no others of the block
  get a new frame, tables change only inside the tree or in frames that were taken from the free list,
  and the tree stays well formed. It composes (\<open>map_post_trans\<close>), it lifts from a table to its parent
  (\<open>map_post_lift\<close>), it holds for one written entry and for hooking in an empty table; the mapping loops
  are then shown by invariant.
\<close>

section \<open>Walks, trees and the effect of mapping\<close>

definition free_of :: "'e machine \<Rightarrow> nat set" where
  "free_of m = free_frames (page_frame_allocator (frames_state m))"

definition wf_alloc :: "'e machine \<Rightarrow> bool" where
  "wf_alloc m \<longleftrightarrow> wf_free (page_frame_allocator (frames_state m)) \<and> (\<forall>f \<in> free_of m. f < 2 ^ 40)"

definition used :: "('e, 'f) entry_ops \<Rightarrow> 'e machine \<Rightarrow> nat \<Rightarrow> nat \<Rightarrow> bool" where
  "used ops m t i \<longleftrightarrow> \<not> is_unused ops (tables m t ! i)"

definition child :: "('e, 'f) entry_ops \<Rightarrow> 'e machine \<Rightarrow> nat \<Rightarrow> nat \<Rightarrow> nat" where
  "child ops m t i = entry_addr ops (tables m t ! i)"

fun walk :: "('e, 'f) entry_ops \<Rightarrow> nat \<Rightarrow> nat \<Rightarrow> nat \<Rightarrow> 'e machine \<Rightarrow> nat option" where
  "walk ops 0 t p m = None"
| "walk ops (Suc l) t p m =
     (let i = p div 512 ^ l mod 512 in
      if used ops m t i then (if l = 0 then Some (child ops m t i) else walk ops l (child ops m t i) p m) else None)"

fun tabs :: "('e, 'f) entry_ops \<Rightarrow> nat \<Rightarrow> nat \<Rightarrow> 'e machine \<Rightarrow> nat set" where
  "tabs ops 0 t m = {}"
| "tabs ops (Suc l) t m = insert t (\<Union>i \<in> {i. i < 512 \<and> used ops m t i}. tabs ops l (child ops m t i) m)"

fun wf_tab :: "('e, 'f) entry_ops \<Rightarrow> nat \<Rightarrow> nat \<Rightarrow> 'e machine \<Rightarrow> bool" where
  "wf_tab ops 0 t m = True"
| "wf_tab ops (Suc l) t m \<longleftrightarrow>
     length (tables m t) = 512 \<and>
     (\<forall>i < 512. used ops m t i \<longrightarrow> wf_tab ops l (child ops m t i) m \<and> t \<notin> tabs ops l (child ops m t i) m) \<and>
     (\<forall>i < 512. \<forall>j < 512. i \<noteq> j \<longrightarrow> used ops m t i \<longrightarrow> used ops m t j \<longrightarrow>
        tabs ops l (child ops m t i) m \<inter> tabs ops l (child ops m t j) m = {})"

text \<open>\<open>R\<close> relates a mapped page to its frame; with \<open>fresh\<close> the frames come from the free list.\<close>

definition mapped_by ::
  "('e, 'f) entry_ops \<Rightarrow> (nat \<Rightarrow> nat \<Rightarrow> bool) \<Rightarrow> bool \<Rightarrow> nat \<Rightarrow> nat \<Rightarrow> nat \<Rightarrow> nat \<Rightarrow> 'e machine \<Rightarrow> 'e machine \<Rightarrow>
     (nat \<Rightarrow> nat) \<Rightarrow> bool" where
  "mapped_by ops R fresh l t ps n m m' f \<longleftrightarrow>
     (\<forall>p \<in> {ps..<ps + n}. walk ops l t p m' = Some (f p) \<and> R p (f p)) \<and>
     (fresh \<longrightarrow> inj_on f {ps..<ps + n} \<and> f ` {ps..<ps + n} \<subseteq> free_of m - free_of m' \<and>
        f ` {ps..<ps + n} \<inter> tabs ops l t m' = {})"

definition map_post ::
  "('e, 'f) entry_ops \<Rightarrow> (nat \<Rightarrow> nat \<Rightarrow> bool) \<Rightarrow> bool \<Rightarrow> nat \<Rightarrow> nat \<Rightarrow> nat \<Rightarrow> nat \<Rightarrow> 'e machine \<Rightarrow> 'e machine \<Rightarrow> bool" where
  "map_post ops R fresh l t ps n m m' \<longleftrightarrow>
     wf_tab ops l t m' \<and> wf_alloc m' \<and> free_of m' \<subseteq> free_of m \<and>
     tabs ops l t m' \<subseteq> tabs ops l t m \<union> (free_of m - free_of m') \<and>
     (\<forall>u. u \<notin> tabs ops l t m \<longrightarrow> u \<notin> free_of m - free_of m' \<longrightarrow> tables m' u = tables m u) \<and>
     (\<forall>p. p div 512 ^ l = ps div 512 ^ l \<longrightarrow> p \<notin> {ps..<ps + n} \<longrightarrow> walk ops l t p m' = walk ops l t p m) \<and>
     (\<exists>f. mapped_by ops R fresh l t ps n m m' f)"

definition good :: "('e, 'f) entry_ops \<Rightarrow> nat \<Rightarrow> nat \<Rightarrow> 'e machine \<Rightarrow> bool" where
  "good ops l t m \<longleftrightarrow> wf_tab ops l t m \<and> wf_alloc m \<and> tabs ops l t m \<inter> free_of m = {}"

text \<open>The number of pages of \<open>ps..<pe\<close> that one call at level \<open>l\<close> maps.\<close>

definition chunk :: "nat \<Rightarrow> nat \<Rightarrow> nat \<Rightarrow> nat" where
  "chunk l ps pe = min (pe - ps) (512 ^ l - ps mod 512 ^ l)"

text \<open>
  The three ways of mapping: identity for the kernel, fresh frames, or given frames. For given frames the
  first page has to be the first of its level 1 table, since the code drops frames otherwise.
\<close>

definition mode :: "(nat \<Rightarrow> nat \<Rightarrow> bool) \<Rightarrow> bool \<Rightarrow> memory_space \<Rightarrow> phys_frame_range \<Rightarrow> page_range \<Rightarrow> bool" where
  "mode R fresh space frames pages \<longleftrightarrow>
     (space = Kernel \<and> \<not> fresh \<and> range_start frames = range_end frames \<and> page_end pages \<le> 2 ^ 40 \<and> (\<forall>p. R p p)) \<or>
     (space = User \<and> fresh \<and> range_start frames = range_end frames \<and> (\<forall>p f. R p f)) \<or>
     (space = User \<and> \<not> fresh \<and> range_start frames < range_end frames \<and> page_start pages mod 512 = 0 \<and>
        range_end frames \<le> 2 ^ 40 \<and>
        range_end frames - range_start frames = page_end pages - page_start pages \<and>
        (\<forall>p f. f + page_start pages = range_start frames + p \<longrightarrow> R p f))"

section \<open>Arithmetic of blocks\<close>

lemma block_index: "p div 512 ^ Suc l = q div 512 ^ Suc l \<Longrightarrow> p div 512 ^ l mod 512 = q div 512 ^ l mod 512 \<Longrightarrow>
   p div 512 ^ l = q div (512::nat) ^ l"
proof -
  assume a: "p div 512 ^ Suc l = q div 512 ^ Suc l" "p div 512 ^ l mod 512 = q div 512 ^ l mod 512"
  have "p div 512 ^ l = 512 * (p div 512 ^ Suc l) + p div 512 ^ l mod 512" for p :: nat
    using mult_div_mod_eq[of 512 "p div 512 ^ l"] by (simp add: div_mult2_eq[symmetric] mult.commute)
  then show ?thesis using a by metis
qed

lemma block_div: "p div 512 ^ l = q div 512 ^ l \<Longrightarrow> p div 512 ^ Suc l = q div (512::nat) ^ Suc l"
  using div_mult2_eq[of p "512 ^ l" 512] div_mult2_eq[of q "512 ^ l" 512] by (simp add: mult.commute)

lemma in_chunk: "p \<in> {ps..<ps + n} \<Longrightarrow> n \<le> B - ps mod B \<Longrightarrow> 0 < B \<Longrightarrow> p div B = ps div (B::nat)"
proof -
  assume a: "p \<in> {ps..<ps + n}" "n \<le> B - ps mod B" "0 < B"
  define q r where "q = ps div B" "r = ps mod B"
  then have ps: "ps = B * q + r" "r < B" using a(3) by simp_all
  have "B * q \<le> p" "p < B * q + B" using a ps by (auto simp: q_r_def(2)[symmetric])
  then have "B * (ps div B) \<le> p" "p < B * (ps div B) + B" by (simp_all add: q_r_def)
  then have "B * (ps div B) \<le> p \<and> p < B * Suc (ps div B)" by simp
  then show ?thesis by (metis a(3) div_nat_eqI mult.commute)
qed

lemma chunk_le: "chunk l ps pe \<le> 512 ^ l - ps mod 512 ^ l" "chunk l ps pe \<le> pe - ps"
  by (simp_all add: chunk_def)

lemma chunk_pos: "ps < pe \<Longrightarrow> 0 < chunk l ps pe"
  by (simp add: chunk_def)

section \<open>Frame rule\<close>

lemma agree_tab:
  "(\<And>u. u \<in> tabs ops l t m \<Longrightarrow> tables m' u = tables m u) \<Longrightarrow>
     walk ops l t p m' = walk ops l t p m \<and> tabs ops l t m' = tabs ops l t m \<and> wf_tab ops l t m' = wf_tab ops l t m"
proof (induction l arbitrary: t)
  case (Suc l)
  have t: "tables m' t = tables m t" using Suc.prems by simp
  then have uc: "used ops m' t i = used ops m t i" "child ops m' t i = child ops m t i" for i
    by (simp_all add: used_def child_def)
  have IH: "walk ops l (child ops m t i) p m' = walk ops l (child ops m t i) p m"
    "tabs ops l (child ops m t i) m' = tabs ops l (child ops m t i) m"
    "wf_tab ops l (child ops m t i) m' = wf_tab ops l (child ops m t i) m"
    if "i < 512" "used ops m t i" for i
    using Suc.IH[of "child ops m t i"] Suc.prems that by auto
  show ?case by (auto simp: t uc IH Let_def)
qed simp

lemma tabs_child: "i < 512 \<Longrightarrow> used ops m t i \<Longrightarrow> tabs ops l (child ops m t i) m \<subseteq> tabs ops (Suc l) t m"
  by auto

lemma translate_walk:
  "translate_in_table ops (Suc l) t addr m =
     Inr (map_option (\<lambda>f. f * PAGE_SIZE + addr mod PAGE_SIZE) (walk ops (Suc l) t (addr div PAGE_SIZE) m))"
proof (induction l arbitrary: t)
  case (Suc l)
  show ?case
    unfolding translate_in_table.simps(2)[of ops "Suc l"] walk.simps(2)[of ops "Suc l"] page_table_index_def
    by (simp add: Suc used_def child_def Let_def del: translate_in_table.simps walk.simps)
qed (simp add: page_table_index_def used_def child_def Let_def)

section \<open>Composition\<close>

lemma map_post_refl: "good ops l t m \<Longrightarrow> map_post ops R fresh l t ps 0 m m"
  by (simp add: map_post_def good_def mapped_by_def)

lemma map_post_good: "good ops l t m \<Longrightarrow> map_post ops R fresh l t ps n m m' \<Longrightarrow> good ops l t m'"
  by (auto simp: map_post_def good_def)

lemma map_post_trans:
  assumes good: "good ops l t m" and 1: "map_post ops R fresh l t ps a m m1"
    and 2: "map_post ops R fresh l t (ps + a) b m1 m2" and blk: "a + b \<le> 512 ^ l - ps mod 512 ^ l" "0 < b"
  shows "map_post ops R fresh l t ps (a + b) m m2"
proof -
  have B: "0 < (512::nat) ^ l" by simp
  have same: "(ps + a) div 512 ^ l = ps div 512 ^ l"
    by (rule in_chunk[of _ _ "a + b"]) (use blk in auto)
  have blocks: "p div 512 ^ l = ps div 512 ^ l" if "p \<in> {ps..<ps + (a + b)}" for p
    by (rule in_chunk[OF that blk(1) B])
  have F: "free_of m1 \<subseteq> free_of m" "free_of m2 \<subseteq> free_of m1"
    and T: "tabs ops l t m1 \<subseteq> tabs ops l t m \<union> (free_of m - free_of m1)"
      "tabs ops l t m2 \<subseteq> tabs ops l t m1 \<union> (free_of m1 - free_of m2)"
    using 1 2 by (auto simp: map_post_def)
  have U: "tables m2 u = tables m u" if "u \<notin> tabs ops l t m" "u \<notin> free_of m - free_of m2" for u
  proof -
    have "u \<notin> tabs ops l t m1" "u \<notin> free_of m1 - free_of m2" "u \<notin> free_of m - free_of m1"
      using that T F by auto
    then show ?thesis using 1 2 that by (auto simp: map_post_def)
  qed
  have W: "walk ops l t p m2 = walk ops l t p m" if "p div 512 ^ l = ps div 512 ^ l" "p \<notin> {ps..<ps + (a + b)}" for p
    using 1 2 that same unfolding map_post_def by force
  obtain f1 f2 where f1: "mapped_by ops R fresh l t ps a m m1 f1" and f2: "mapped_by ops R fresh l t (ps + a) b m1 m2 f2"
    using 1 2 by (auto simp: map_post_def)
  define f where "f = (\<lambda>p. if p < ps + a then f1 p else f2 p)"
  have w: "walk ops l t p m2 = Some (f p) \<and> R p (f p)" if p: "p \<in> {ps..<ps + (a + b)}" for p
  proof (cases "p < ps + a")
    case True
    have "walk ops l t p m2 = walk ops l t p m1"
      using 2 True blocks[OF p] same unfolding map_post_def by auto
    then show ?thesis using f1 True p by (simp add: mapped_by_def f_def)
  qed (use f2 p in \<open>simp add: mapped_by_def f_def\<close>)
  have im: "f ` {ps..<ps + (a + b)} = f1 ` {ps..<ps + a} \<union> f2 ` {ps + a..<ps + a + b}"
  proof -
    have "{ps..<ps + (a + b)} = {ps..<ps + a} \<union> {ps + a..<ps + a + b}" by auto
    moreover have "f ` {ps..<ps + a} = f1 ` {ps..<ps + a}" "f ` {ps + a..<ps + a + b} = f2 ` {ps + a..<ps + a + b}"
      by (rule image_cong; simp add: f_def)+
    ultimately show ?thesis by (simp only: image_Un)
  qed
  have fr: "inj_on f {ps..<ps + (a + b)} \<and> f ` {ps..<ps + (a + b)} \<subseteq> free_of m - free_of m2 \<and>
      f ` {ps..<ps + (a + b)} \<inter> tabs ops l t m2 = {}" if "fresh"
  proof (intro conjI)
    have f: "inj_on f1 {ps..<ps + a}" "f1 ` {ps..<ps + a} \<subseteq> free_of m - free_of m1" "f1 ` {ps..<ps + a} \<inter> tabs ops l t m1 = {}"
      "inj_on f2 {ps + a..<ps + a + b}" "f2 ` {ps + a..<ps + a + b} \<subseteq> free_of m1 - free_of m2"
      "f2 ` {ps + a..<ps + a + b} \<inter> tabs ops l t m2 = {}"
      using f1 f2 that by (simp_all add: mapped_by_def)
    show "f ` {ps..<ps + (a + b)} \<subseteq> free_of m - free_of m2" unfolding im using f(2,5) F by blast
    show "f ` {ps..<ps + (a + b)} \<inter> tabs ops l t m2 = {}" unfolding im using f(2,3,6) T(2) by blast
    show "inj_on f {ps..<ps + (a + b)}"
    proof (rule inj_onI)
      fix p q assume pq: "p \<in> {ps..<ps + (a + b)}" "q \<in> {ps..<ps + (a + b)}" "f p = f q"
      have ne: "f1 p' \<noteq> f2 q'" if "p' \<in> {ps..<ps + a}" "q' \<in> {ps + a..<ps + a + b}" for p' q'
        using f(2,5) that by blast
      show "p = q"
        using pq inj_onD[OF f(1), of p q] inj_onD[OF f(4), of p q] ne[of p q] ne[of q p] by (auto simp: f_def split: if_splits)
    qed
  qed
  have "mapped_by ops R fresh l t ps (a + b) m m2 f"
    unfolding mapped_by_def using w fr by blast
  moreover have "wf_tab ops l t m2" "wf_alloc m2" using 2 by (auto simp: map_post_def)
  moreover have "tabs ops l t m2 \<subseteq> tabs ops l t m \<union> (free_of m - free_of m2)" using T F by blast
  ultimately show ?thesis unfolding map_post_def using F U W by blast
qed

section \<open>From a table to its parent\<close>

lemma walk_index: "used ops m t i \<Longrightarrow> p div 512 ^ Suc l mod 512 = i \<Longrightarrow>
    walk ops (Suc (Suc l)) t p m = walk ops (Suc l) (child ops m t i) p m"
  by (simp del: walk.simps add: walk.simps(2)[of ops "Suc l"] Let_def)

lemma map_post_lift:
  assumes good: "good ops (Suc (Suc l)) t m" and i: "i = ps div 512 ^ Suc l mod 512" "used ops m t i"
    and n: "n \<le> 512 ^ Suc l - ps mod 512 ^ Suc l"
    and post: "map_post ops R fresh (Suc l) (child ops m t i) ps n m m'"
  shows "map_post ops R fresh (Suc (Suc l)) t ps n m m'"
proof -
  let ?c = "child ops m t i"
  have i512: "i < 512" using i by simp
  have T: "tabs ops (Suc l) ?c m \<subseteq> tabs ops (Suc (Suc l)) t m" using tabs_child[OF i512 i(2)] .
  have wf: "length (tables m t) = 512" "t \<notin> tabs ops (Suc l) ?c m"
    "\<And>j. j < 512 \<Longrightarrow> used ops m t j \<Longrightarrow> wf_tab ops (Suc l) (child ops m t j) m \<and> t \<notin> tabs ops (Suc l) (child ops m t j) m"
    "\<And>j k. j < 512 \<Longrightarrow> k < 512 \<Longrightarrow> j \<noteq> k \<Longrightarrow> used ops m t j \<Longrightarrow> used ops m t k \<Longrightarrow>
       tabs ops (Suc l) (child ops m t j) m \<inter> tabs ops (Suc l) (child ops m t k) m = {}"
    using good i512 i(2) unfolding good_def wf_tab.simps(2)[of ops "Suc l"] by blast+
  have tfree: "tabs ops (Suc (Suc l)) t m \<inter> free_of m = {}" using good by (simp only: good_def)
  have P: "wf_tab ops (Suc l) ?c m'" "wf_alloc m'" "free_of m' \<subseteq> free_of m"
    "tabs ops (Suc l) ?c m' \<subseteq> tabs ops (Suc l) ?c m \<union> (free_of m - free_of m')"
    "\<And>u. u \<notin> tabs ops (Suc l) ?c m \<Longrightarrow> u \<notin> free_of m - free_of m' \<Longrightarrow> tables m' u = tables m u"
    "\<And>p. p div 512 ^ Suc l = ps div 512 ^ Suc l \<Longrightarrow> p \<notin> {ps..<ps + n} \<Longrightarrow> walk ops (Suc l) ?c p m' = walk ops (Suc l) ?c p m"
    using post unfolding map_post_def by blast+
  have tt: "t \<in> tabs ops (Suc (Suc l)) t m" by simp
  then have t: "tables m' t = tables m t" using P(5)[OF wf(2)] tfree by blast
  then have uc: "used ops m' t j = used ops m t j" "child ops m' t j = child ops m t j" for j
    by (simp_all add: used_def child_def)
  have other: "walk ops (Suc l) (child ops m t j) p m' = walk ops (Suc l) (child ops m t j) p m"
    "tabs ops (Suc l) (child ops m t j) m' = tabs ops (Suc l) (child ops m t j) m"
    "wf_tab ops (Suc l) (child ops m t j) m' = wf_tab ops (Suc l) (child ops m t j) m"
    if j: "j < 512" "used ops m t j" "j \<noteq> i" for j p
  proof -
    have "tables m' u = tables m u" if u: "u \<in> tabs ops (Suc l) (child ops m t j) m" for u
    proof (rule P(5))
      show "u \<notin> tabs ops (Suc l) ?c m" using wf(4)[OF j(1) i512 j(3,2) i(2)] u by blast
      show "u \<notin> free_of m - free_of m'" using tabs_child[OF j(1,2), of l] tabs_child[OF j(1,2), of "Suc l"] u tfree by blast
    qed
    from agree_tab[of ops "Suc l" "child ops m t j" m m', OF this]
    show "walk ops (Suc l) (child ops m t j) p m' = walk ops (Suc l) (child ops m t j) p m"
      "tabs ops (Suc l) (child ops m t j) m' = tabs ops (Suc l) (child ops m t j) m"
      "wf_tab ops (Suc l) (child ops m t j) m' = wf_tab ops (Suc l) (child ops m t j) m" by blast+
  qed
  have tabs': "tabs ops (Suc l) (child ops m t j) m' \<subseteq> tabs ops (Suc l) (child ops m t j) m \<union>
      (if j = i then free_of m - free_of m' else {})" if "j < 512" "used ops m t j" for j
    using that P(4) other(2)[of j] by (cases "j = i") auto
  have W: "walk ops (Suc (Suc l)) t p m' = walk ops (Suc (Suc l)) t p m"
    if "p div 512 ^ Suc (Suc l) = ps div 512 ^ Suc (Suc l)" "p \<notin> {ps..<ps + n}" for p
  proof (cases "p div 512 ^ Suc l mod 512 = i")
    case True
    then have "p div 512 ^ Suc l = ps div 512 ^ Suc l" using block_index[OF that(1)] i(1) by simp
    then show ?thesis using P(6)[OF _ that(2)] walk_index[OF _ True, of ops m t] walk_index[OF _ True, of ops m' t] uc i(2) by simp
  next
    case False
    have "p div 512 ^ Suc l mod 512 < 512" by simp
    then show ?thesis using other(1)[of "p div 512 ^ Suc l mod 512" p] False
      by (simp add: walk.simps(2)[of ops "Suc l"] Let_def uc del: walk.simps)
  qed
  obtain f where f: "mapped_by ops R fresh (Suc l) ?c ps n m m' f" using post by (auto simp: map_post_def)
  have tabsL: "tabs ops (Suc (Suc l)) t m' \<subseteq> insert t (\<Union>j \<in> {j. j < 512 \<and> used ops m t j \<and> j \<noteq> i}. tabs ops (Suc l) (child ops m t j) m)
      \<union> tabs ops (Suc l) ?c m'"
    unfolding tabs.simps(2)[of ops "Suc l"] uc using other(2) by (auto simp del: tabs.simps)
  have "mapped_by ops R fresh (Suc (Suc l)) t ps n m m' f"
    unfolding mapped_by_def
  proof (intro conjI ballI impI)
    fix p assume p: "p \<in> {ps..<ps + n}"
    have "p div 512 ^ Suc l = ps div 512 ^ Suc l" by (rule in_chunk[OF p n]) simp
    then have "walk ops (Suc (Suc l)) t p m' = walk ops (Suc l) ?c p m'" using walk_index[of ops m' t i p l] uc i by simp
    then show "walk ops (Suc (Suc l)) t p m' = Some (f p)" using f p by (simp add: mapped_by_def del: walk.simps)
    show "R p (f p)" using f p by (simp add: mapped_by_def)
  next
    assume fresh
    then have ff: "inj_on f {ps..<ps + n}" "f ` {ps..<ps + n} \<subseteq> free_of m - free_of m'"
      "f ` {ps..<ps + n} \<inter> tabs ops (Suc l) ?c m' = {}" using f by (simp_all add: mapped_by_def del: tabs.simps)
    show "inj_on f {ps..<ps + n}" "f ` {ps..<ps + n} \<subseteq> free_of m - free_of m'" by (fact ff)+
    have "insert t (\<Union>j \<in> {j. j < 512 \<and> used ops m t j \<and> j \<noteq> i}. tabs ops (Suc l) (child ops m t j) m) \<subseteq> tabs ops (Suc (Suc l)) t m"
      unfolding tabs.simps(2)[of ops "Suc l"] by blast
    then have sub: "tabs ops (Suc (Suc l)) t m' \<subseteq> tabs ops (Suc (Suc l)) t m \<union> tabs ops (Suc l) ?c m'"
      by (rule order.trans[OF tabsL Un_mono[OF _ order_refl]])
    have "f ` {ps..<ps + n} \<inter> tabs ops (Suc (Suc l)) t m = {}" using ff(2) tfree by blast
    then show "f ` {ps..<ps + n} \<inter> tabs ops (Suc (Suc l)) t m' = {}" using ff(3) sub by (meson disjoint_iff UnE subsetD)
  qed
  moreover have "wf_tab ops (Suc (Suc l)) t m'"
    unfolding wf_tab.simps(2)[of ops "Suc l"] uc
  proof (intro conjI allI impI)
    show "length (tables m' t) = 512" using wf(1) t by simp
    fix j assume j: "j < 512" "used ops m t j"
    show "wf_tab ops (Suc l) (child ops m t j) m'" using P(1) other(3)[OF j] wf(3)[OF j] by (cases "j = i") auto
    show "t \<notin> tabs ops (Suc l) (child ops m t j) m'" using tabs'[OF j] wf(3)[OF j] tt tfree by (cases "j = i") auto
    fix k assume k: "k < 512" "j \<noteq> k" "used ops m t k"
    have "tabs ops (Suc l) (child ops m t j) m \<inter> free_of m = {}" "tabs ops (Suc l) (child ops m t k) m \<inter> free_of m = {}"
      using tabs_child[OF j, of "Suc l"] tabs_child[OF k(1,3), of "Suc l"] tfree by blast+
    moreover have "tabs ops (Suc l) (child ops m t j) m' \<subseteq> tabs ops (Suc l) (child ops m t j) m \<or>
        tabs ops (Suc l) (child ops m t k) m' \<subseteq> tabs ops (Suc l) (child ops m t k) m"
      using other(2)[OF j] other(2)[OF k(1,3)] k(2) by blast
    moreover have "tabs ops (Suc l) (child ops m t j) m' \<subseteq> tabs ops (Suc l) (child ops m t j) m \<union> free_of m"
      "tabs ops (Suc l) (child ops m t k) m' \<subseteq> tabs ops (Suc l) (child ops m t k) m \<union> free_of m"
      using tabs'[OF j] tabs'[OF k(1,3)] by (auto split: if_splits simp del: tabs.simps)
    ultimately show "tabs ops (Suc l) (child ops m t j) m' \<inter> tabs ops (Suc l) (child ops m t k) m' = {}"
      using wf(4)[OF j(1) k(1,2) j(2) k(3)] by blast
  qed
  moreover have "tabs ops (Suc (Suc l)) t m' \<subseteq> tabs ops (Suc (Suc l)) t m \<union> (free_of m - free_of m')"
  proof -
    have "tabs ops (Suc l) (child ops m t j) m' \<subseteq> tabs ops (Suc (Suc l)) t m \<union> (free_of m - free_of m')"
      if "j < 512" "used ops m t j" for j
      using tabs'[OF that] tabs_child[OF that, of "Suc l"] by (cases "j = i") (simp_all only: if_True if_False refl, blast+)
    then show ?thesis unfolding tabs.simps(2)[of ops "Suc l" t m'] uc using tt by blast
  qed
  moreover have "tables m' u = tables m u" if "u \<notin> tabs ops (Suc (Suc l)) t m" "u \<notin> free_of m - free_of m'" for u
    using P(5)[of u] that T by blast
  ultimately show ?thesis unfolding map_post_def using P(2,3) W by blast
qed

section \<open>Loops and allocation\<close>

text \<open>A loop that may break: \<open>I\<close> holds before index \<open>i\<close>, \<open>Q\<close> at the end. Only memory can run out.\<close>

lemma entry_loop_inv:
  assumes step: "\<And>i s. a \<le> i \<Longrightarrow> i < b \<Longrightarrow> I i s \<Longrightarrow>
      body i s = Inl Out_Of_Memory \<or> (\<exists>s' stop. body i s = Inr (s', stop) \<and> (if stop then Q s' else I (Suc i) s'))"
    and init: "I a s" "a \<le> b" and fin: "\<And>s. I b s \<Longrightarrow> Q s"
  shows "entry_loop body [a..<b] s = Inl Out_Of_Memory \<or> (\<exists>s'. entry_loop body [a..<b] s = Inr s' \<and> Q s')"
  using init step
proof (induction "b - a" arbitrary: a s)
  case 0
  then show ?case using fin by simp
next
  case (Suc k)
  then have ab: "a < b" by simp
  from Suc.prems(3)[OF _ ab Suc.prems(1)] consider "body a s = Inl Out_Of_Memory"
    | s' where "body a s = Inr (s', True)" "Q s'" | s' where "body a s = Inr (s', False)" "I (Suc a) s'"
    by (metis (full_types) order_refl)
  then show ?case
  proof cases
    case 3
    have "entry_loop body [Suc a..<b] s' = Inl Out_Of_Memory \<or> (\<exists>s''. entry_loop body [Suc a..<b] s' = Inr s'' \<and> Q s'')"
      by (rule Suc.hyps(1)) (use Suc.hyps(2) 3 ab Suc.prems(3) in auto)
    then show ?thesis using 3 ab by (simp add: upt_conv_Cons)
  qed (use ab in \<open>simp_all add: upt_conv_Cons\<close>)
qed

lemma alloc_frame_cases:
  assumes "wf_alloc m"
  obtains "alloc_frame m = Inl Out_Of_Memory"
  | f m1 where "alloc_frame m = Inr (f, m1)" "f \<in> free_of m" "free_of m1 = free_of m - {f}" "wf_alloc m1"
      "tables m1 = tables m" "f < 2 ^ 40"
proof (cases "phys_alloc 1 (frames_state m)")
  case (Inl p)
  then have "p = Out_Of_Memory"
    by (auto simp: phys_alloc_def and_then_eq_Inl alloc_block_fails)
  then show ?thesis using that(1) Inl by (simp add: alloc_frame_def)
next
  case (Inr x)
  obtain r st where x: "x = (r, st)" by (cases x)
  have wf: "wf_free (page_frame_allocator (frames_state m))" using assms by (simp add: wf_alloc_def)
  note a = Inr[unfolded x]
  have r: "range_end r = Suc (range_start r)" using phys.alloc_size[OF wf a] by simp
  then have rf: "range_frames r = {range_start r}" by (auto simp: range_frames_def)
  show ?thesis
    by (rule that(2)[of "range_start r" "m\<lparr>frames_state := st\<rparr>"])
       (use phys.alloc_invar[OF wf a] phys.alloc_subset[OF wf a] phys.alloc_available[OF wf a] assms rf a in
        \<open>auto simp: alloc_frame_def free_of_def wf_alloc_def\<close>)
qed

lemma set_entry_simps [simp]:
  "tables (set_entry t i e m) = (tables m)(t := (tables m t)[i := e])" "frames_state (set_entry t i e m) = frames_state m"
  "free_of (set_entry t i e m) = free_of m" "wf_alloc (set_entry t i e m) = wf_alloc m"
  by (simp_all add: set_entry_def free_of_def wf_alloc_def)

lemma zero_table_simps [simp]:
  "tables (zero_table ops t m) = (tables m)(t := replicate 512 (unused_entry ops))" "frames_state (zero_table ops t m) = frames_state m"
  "free_of (zero_table ops t m) = free_of m" "wf_alloc (zero_table ops t m) = wf_alloc m"
  by (simp_all add: zero_table_def free_of_def wf_alloc_def)

lemma wf_tab_1: "wf_tab ops (Suc 0) t m \<longleftrightarrow> length (tables m t) = 512" "tabs ops (Suc 0) t m = {t}"
  by auto

context page_table_entry
begin

lemma leaf_write:
  assumes good: "good ops (Suc 0) t m" and fl: "valid_flags fl" and fr: "fr < 2 ^ 40" and R: "R p fr"
    and m1: "tables m1 = tables m" "wf_alloc m1" "free_of m1 = (if fresh then free_of m - {fr} else free_of m)"
      "fresh \<longrightarrow> fr \<in> free_of m"
  shows "map_post ops R fresh (Suc 0) t p 1 m (set_entry t (p mod 512) (make_entry ops fr fl) m1)"
proof -
  let ?m = "set_entry t (p mod 512) (make_entry ops fr fl) m1"
  have len: "length (tables m t) = 512" and t: "t \<notin> free_of m" using good by (auto simp: good_def wf_tab_1)
  have w: "walk ops (Suc 0) t q ?m = (if q mod 512 = p mod 512 then Some fr else walk ops (Suc 0) t q m)" for q
    using len m1(1) used[OF fl] addr_make[OF fl fr] by (auto simp: used_def child_def nth_list_update Let_def)
  have "q mod 512 \<noteq> p mod 512" if "q div 512 ^ Suc 0 = p div 512 ^ Suc 0" "q \<notin> {p..<p + 1}" for q
  proof
    assume "q mod 512 = p mod 512"
    then have "q = p" using that(1) by (metis One_nat_def div_mult_mod_eq power_one_right)
    then show False using that(2) by simp
  qed
  then have W: "walk ops (Suc 0) t q ?m = walk ops (Suc 0) t q m"
    if "q div 512 ^ Suc 0 = p div 512 ^ Suc 0" "q \<notin> {p..<p + 1}" for q
    using w[of q] that by (metis (full_types))
  have "mapped_by ops R fresh (Suc 0) t p 1 m ?m (\<lambda>_. fr)"
    unfolding mapped_by_def wf_tab_1 using w[of p] R m1(3,4) t by auto
  then show ?thesis
    unfolding map_post_def wf_tab_1 using W len m1 by auto
qed

lemma hook_empty_table:
  assumes good: "good ops (Suc (Suc l)) t m" and fl: "valid_flags fl" and i: "i < 512" "\<not> used ops m t i"
    and m1: "tables m1 = tables m" "wf_alloc m1" "free_of m1 = free_of m - {f}" "f \<in> free_of m" "f < 2 ^ 40"
  defines "m3 \<equiv> zero_table ops f (set_entry t i (make_entry ops f fl) m1)"
  shows "map_post ops R fresh (Suc (Suc l)) t ps 0 m m3" "used ops m3 t i" "child ops m3 t i = f"
proof -
  have len: "length (tables m t) = 512" and tfree: "tabs ops (Suc (Suc l)) t m \<inter> free_of m = {}"
    using good by (auto simp: good_def)
  have ft: "f \<noteq> t" using tfree m1(4) by auto
  have tab_t: "tables m3 t = (tables m t)[i := make_entry ops f fl]" using ft by (simp add: m3_def m1)
  have tab_f: "tables m3 f = replicate 512 (unused_entry ops)" by (simp add: m3_def)
  have tab_u: "tables m3 u = tables m u" if "u \<noteq> t" "u \<noteq> f" for u using that by (simp add: m3_def m1)
  show ui: "used ops m3 t i" and ci: "child ops m3 t i = f"
    using i(1) len used[OF fl] addr_make[OF fl m1(5)] by (simp_all add: used_def child_def tab_t)
  have uc: "used ops m3 t j = used ops m t j" "child ops m3 t j = child ops m t j" if "j \<noteq> i" for j
    using that by (simp_all add: used_def child_def tab_t)
  have unused_f: "\<not> used ops m3 f j" if "j < 512" for j using that unused by (simp add: used_def tab_f)
  have f_tab: "tabs ops (Suc l) f m3 = {f}" "wf_tab ops (Suc l) f m3" "walk ops (Suc l) f p m3 = None" for p
    using unused_f tab_f by (auto simp: Let_def)
  have other: "walk ops (Suc l) (child ops m t j) p m3 = walk ops (Suc l) (child ops m t j) p m"
    "tabs ops (Suc l) (child ops m t j) m3 = tabs ops (Suc l) (child ops m t j) m"
    "wf_tab ops (Suc l) (child ops m t j) m3 = wf_tab ops (Suc l) (child ops m t j) m"
    if j: "j < 512" "used ops m t j" for j p
  proof -
    have "t \<notin> tabs ops (Suc l) (child ops m t j) m"
      using good j unfolding good_def wf_tab.simps(2)[of ops "Suc l"] by blast
    moreover have "f \<notin> tabs ops (Suc l) (child ops m t j) m"
      using tabs_child[OF j, of "Suc l"] tfree m1(4) by blast
    ultimately have "tables m3 u = tables m u" if "u \<in> tabs ops (Suc l) (child ops m t j) m" for u
      using tab_u[of u] that by blast
    from agree_tab[of ops "Suc l" "child ops m t j" m m3, OF this]
    show "walk ops (Suc l) (child ops m t j) p m3 = walk ops (Suc l) (child ops m t j) p m"
      "tabs ops (Suc l) (child ops m t j) m3 = tabs ops (Suc l) (child ops m t j) m"
      "wf_tab ops (Suc l) (child ops m t j) m3 = wf_tab ops (Suc l) (child ops m t j) m" by blast+
  qed
  have "walk ops (Suc (Suc l)) t p m3 = walk ops (Suc (Suc l)) t p m" for p
  proof -
    have "p div 512 ^ Suc l mod 512 < 512" by simp
    then show ?thesis using i(2) ui ci f_tab(3) uc other(1)[of "p div 512 ^ Suc l mod 512" p]
      by (cases "p div 512 ^ Suc l mod 512 = i") (simp_all add: walk.simps(2)[of ops "Suc l"] Let_def del: walk.simps)
  qed
  moreover have F: "free_of m3 = free_of m - {f}" "wf_alloc m3" using m1 by (simp_all add: m3_def)
  moreover have "tabs ops (Suc (Suc l)) t m3 = insert f (tabs ops (Suc (Suc l)) t m)"
  proof -
    have "{j. j < 512 \<and> used ops m3 t j} = insert i {j. j < 512 \<and> used ops m t j}" 
    proof (rule set_eqI)
      fix j show "j \<in> {j. j < 512 \<and> used ops m3 t j} \<longleftrightarrow> j \<in> insert i {j. j < 512 \<and> used ops m t j}"
        by (cases "j = i") (use i(1) ui uc(1)[of j] in auto)
    qed
    moreover have "(\<Union>j \<in> {j. j < 512 \<and> used ops m t j}. tabs ops (Suc l) (child ops m3 t j) m3) =
        (\<Union>j \<in> {j. j < 512 \<and> used ops m t j}. tabs ops (Suc l) (child ops m t j) m)"
    proof (rule SUP_cong[OF refl])
      fix j assume "j \<in> {j. j < 512 \<and> used ops m t j}"
      then have j: "j < 512" "used ops m t j" by auto
      then have "j \<noteq> i" using i(2) by auto
      then show "tabs ops (Suc l) (child ops m3 t j) m3 = tabs ops (Suc l) (child ops m t j) m"
        using uc(2) other(2)[OF j] by simp
    qed
    ultimately show ?thesis unfolding tabs.simps(2)[of ops "Suc l"] by (simp only: UN_insert ci f_tab(1)) blast
  qed
  moreover have "wf_tab ops (Suc (Suc l)) t m3"
    unfolding wf_tab.simps(2)[of ops "Suc l"]
  proof (intro conjI allI impI)
    have old: "wf_tab ops (Suc l) (child ops m t j) m" "t \<notin> tabs ops (Suc l) (child ops m t j) m"
      if "j < 512" "used ops m t j" for j
      using good that unfolding good_def wf_tab.simps(2)[of ops "Suc l"] by blast+
    have nf: "f \<notin> tabs ops (Suc l) (child ops m t j) m" if "j < 512" "used ops m t j" for j
      using tabs_child[OF that, of "Suc l"] tfree m1(4) by blast
    show "length (tables m3 t) = 512" using len by (simp add: tab_t)
    fix j assume j: "j < 512" "used ops m3 t j"
    show "wf_tab ops (Suc l) (child ops m3 t j) m3"
      using j f_tab(2) ci uc other(3)[of j] old(1)[of j] by (cases "j = i") (simp_all del: wf_tab.simps)
    show "t \<notin> tabs ops (Suc l) (child ops m3 t j) m3"
      using j f_tab(1) ci uc other(2)[of j] old(2)[of j] ft by (cases "j = i") (simp_all del: tabs.simps)
    fix k assume k: "k < 512" "j \<noteq> k" "used ops m3 t k"
    have "tabs ops (Suc l) (child ops m t j) m \<inter> tabs ops (Suc l) (child ops m t k) m = {}"
      if "j \<noteq> i" "k \<noteq> i"
      using good j k that uc unfolding good_def wf_tab.simps(2)[of ops "Suc l"] by blast
    then show "tabs ops (Suc l) (child ops m3 t j) m3 \<inter> tabs ops (Suc l) (child ops m3 t k) m3 = {}"
      using j k f_tab(1) ci uc other(2)[of j] other(2)[of k] nf[of j] nf[of k]
      by (cases "j = i"; cases "k = i") (simp_all del: tabs.simps)
  qed
  moreover have "tables m3 u = tables m u" if "u \<notin> tabs ops (Suc (Suc l)) t m" "u \<notin> free_of m - free_of m3" for u
    using tab_u[of u] that m1(4) F(1) by auto
  ultimately show "map_post ops R fresh (Suc (Suc l)) t ps 0 m m3"
    unfolding map_post_def mapped_by_def using m1(4) by auto
qed

lemma leaf_step:
  assumes good: "good ops (Suc 0) t m" and fl: "valid_flags fl"
    and post: "map_post ops R fresh (Suc 0) t ps (i - ps mod 512) m mc" and i: "ps mod 512 \<le> i" "i < 512"
    and fr: "fr < 2 ^ 40" "R (ps + (i - ps mod 512)) fr"
    and m1: "tables m1 = tables mc" "wf_alloc m1" "free_of m1 = (if fresh then free_of mc - {fr} else free_of mc)"
      "fresh \<longrightarrow> fr \<in> free_of mc"
  shows "map_post ops R fresh (Suc 0) t ps (Suc i - ps mod 512) m (set_entry t i (make_entry ops fr fl) m1)"
proof -
  have "(ps + (i - ps mod 512)) mod 512 = (ps mod 512 + (i - ps mod 512)) mod 512" by (simp only: mod_add_left_eq)
  then have p: "(ps + (i - ps mod 512)) mod 512 = i" using i by simp
  have "good ops (Suc 0) t mc" by (rule map_post_good[OF good post])
  from leaf_write[of t mc fl fr R "ps + (i - ps mod 512)" m1 fresh, OF this fl fr m1] p
  have "map_post ops R fresh (Suc 0) t (ps + (i - ps mod 512)) 1 mc (set_entry t i (make_entry ops fr fl) m1)" by simp
  from map_post_trans[OF good post this] show ?thesis using i by (simp add: Suc_diff_le)
qed

lemma leaf_map:
  assumes good: "good ops (Suc 0) t m" and fl: "valid_flags fl" and ne: "page_start pages < page_end pages"
    and md: "mode R fresh space frames pages"
  shows "map_in_table ops (Suc 0) t frames pages space fl m = Inl Out_Of_Memory \<or>
    (\<exists>m'. map_in_table ops (Suc 0) t frames pages space fl m = Inr (chunk (Suc 0) (page_start pages) (page_end pages), m') \<and>
       map_post ops R fresh (Suc 0) t (page_start pages) (chunk (Suc 0) (page_start pages) (page_end pages)) m m')"
proof -
  let ?ps = "page_start pages" and ?n = "chunk (Suc 0) (page_start pages) (page_end pages)"
  let ?s = "?ps mod 512"
  have idx: "page_table_index ?ps 1 = Inr ?s" "run_length pages ?s = Inr ?n"
    using ne by (simp_all add: page_table_index_def run_length_def chunk_def)
  have n: "?s + ?n \<le> 512" by (simp add: chunk_def)
  have bounds: "i < 512" "i - ?s < page_end pages - ?ps" if "?s \<le> i" "i < ?s + ?n" for i
    using that n chunk_le(2)[of "Suc 0" ?ps "page_end pages"] by auto
  note init = map_post_refl[OF good, of R fresh ?ps]
  from md consider (kernel) "space = Kernel" "\<not> fresh" "page_end pages \<le> 2 ^ 40" "\<forall>p. R p p"
    | (anon) "space = User" "fresh" "range_start frames = range_end frames" "\<forall>p f. R p f"
    | (phys) "space = User" "\<not> fresh" "range_start frames < range_end frames" "?s = 0" "range_end frames \<le> 2 ^ 40"
        "range_end frames - range_start frames = page_end pages - ?ps"
        "\<forall>p f. f + ?ps = range_start frames + p \<longrightarrow> R p f"
    unfolding mode_def by (elim disjE conjE) simp_all
  then show ?thesis
  proof cases
    case kernel
    let ?I = "\<lambda>i (mc, a). map_post ops R fresh (Suc 0) t ?ps (i - ?s) m mc \<and> a = ?ps + (i - ?s)"
    have "entry_loop (\<lambda>i (m, frame_addr). Inr ((set_entry t i (make_entry ops frame_addr fl) m, frame_addr + 1), False))
        [?s..<?s + ?n] (m, ?ps) = Inl Out_Of_Memory \<or>
      (\<exists>s'. entry_loop (\<lambda>i (m, frame_addr). Inr ((set_entry t i (make_entry ops frame_addr fl) m, frame_addr + 1), False))
        [?s..<?s + ?n] (m, ?ps) = Inr s' \<and> ?I (?s + ?n) s')"
    proof (rule entry_loop_inv[where I = ?I])
      fix i and st :: "'e machine \<times> nat"
      assume i: "?s \<le> i" "i < ?s + ?n" and I: "?I i st"
      obtain mc a where st: "st = (mc, a)" by (cases st)
      have "a < 2 ^ 40" using I st bounds[OF i] kernel(3) by simp
      then have "map_post ops R fresh (Suc 0) t ?ps (Suc i - ?s) m (set_entry t i (make_entry ops a fl) mc)"
        using leaf_step[OF good fl, of R fresh ?ps i mc a mc] I st i bounds(1)[OF i] kernel(2,4) good
        by (auto simp: map_post_def)
      then show "(case st of (m, frame_addr) \<Rightarrow> Inr ((set_entry t i (make_entry ops frame_addr fl) m, frame_addr + 1), False)) = Inl Out_Of_Memory \<or>
        (\<exists>s' stop. (case st of (m, frame_addr) \<Rightarrow> Inr ((set_entry t i (make_entry ops frame_addr fl) m, frame_addr + 1), False)) = Inr (s', stop) \<and>
           (if stop then ?I (?s + ?n) s' else ?I (Suc i) s'))"
        using I st i by (auto simp: Suc_diff_le)
    qed (use init in simp_all)
    then show ?thesis using kernel(1) idx by (auto simp: identity_map_kernel_def)
  next
    case anon
    let ?I = "\<lambda>i mc. map_post ops R fresh (Suc 0) t ?ps (i - ?s) m mc"
    let ?body = "\<lambda>i m. and_then (alloc_frame m) (\<lambda>(phys_frame, m'). Inr (set_entry t i (make_entry ops phys_frame fl) m', False))"
    have "entry_loop ?body [?s..<?s + ?n] m = Inl Out_Of_Memory \<or>
      (\<exists>s'. entry_loop ?body [?s..<?s + ?n] m = Inr s' \<and> ?I (?s + ?n) s')"
    proof (rule entry_loop_inv[where I = ?I])
      fix i mc
      assume i: "?s \<le> i" "i < ?s + ?n" and I: "?I i mc"
      have "wf_alloc mc" using I by (simp add: map_post_def)
      then show "?body i mc = Inl Out_Of_Memory \<or>
        (\<exists>s' stop. ?body i mc = Inr (s', stop) \<and> (if stop then ?I (?s + ?n) s' else ?I (Suc i) s'))"
      proof (cases rule: alloc_frame_cases)
        case (2 f m1)
        then show ?thesis using leaf_step[OF good fl I i(1) bounds(1)[OF i] 2(6), of m1] anon(2,4) by auto
      qed simp
    qed (use init in simp_all)
    then show ?thesis using anon(1,3) idx by (auto simp: map_user_def)
  next
    case phys
    let ?fs = "range_start frames" and ?fe = "range_end frames"
    let ?I = "\<lambda>i (mc, it). map_post ops R fresh (Suc 0) t ?ps (i - ?s) m mc \<and> it = [?fs + i..<?fe]"
    let ?body = "\<lambda>i (m, frame_iter). case frame_iter of [] \<Rightarrow> Inl Unwrap_None
           | f # frame_iter' \<Rightarrow> Inr ((set_entry t i (make_entry ops f fl) m, frame_iter'), False)"
    have "entry_loop ?body [?s..<?s + ?n] (m, drop ?s [?fs..<?fe]) = Inl Out_Of_Memory \<or>
      (\<exists>s'. entry_loop ?body [?s..<?s + ?n] (m, drop ?s [?fs..<?fe]) = Inr s' \<and> ?I (?s + ?n) s')"
    proof (rule entry_loop_inv[where I = ?I])
      fix i and st :: "'e machine \<times> nat list"
      assume i: "?s \<le> i" "i < ?s + ?n" and I: "?I i st"
      obtain mc it where st: "st = (mc, it)" by (cases st)
      have lt: "?fs + i < ?fe" using bounds(2)[OF i] phys(4,6) by simp
      then have it: "it = (?fs + i) # [?fs + Suc i..<?fe]" using I st by (simp add: upt_conv_Cons)
      have Rp: "R (?ps + (i - ?s)) (?fs + i)" using phys(4,7) by simp
      have "map_post ops R fresh (Suc 0) t ?ps (Suc i - ?s) m (set_entry t i (make_entry ops (?fs + i) fl) mc)"
        using leaf_step[OF good fl, of R fresh ?ps i mc "?fs + i" mc] i(1) bounds(1)[OF i] Rp I st lt phys(2,5)
        by (auto simp: map_post_def)
      then show "?body i st = Inl Out_Of_Memory \<or>
        (\<exists>s' stop. ?body i st = Inr (s', stop) \<and> (if stop then ?I (?s + ?n) s' else ?I (Suc i) s'))"
        using st it by auto
    qed (use init phys(4) in simp_all)
    then show ?thesis using phys(1,3) idx by (auto simp: map_user_physical_def)
  qed
qed

lemma good_child: "good ops (Suc l) t m \<Longrightarrow> i < 512 \<Longrightarrow> used ops m t i \<Longrightarrow> good ops l (child ops m t i) m"
  using tabs_child[of i ops m t l] by (auto simp: good_def simp del: tabs.simps)

lemma mode_advance:
  assumes "mode R fresh space frames pages" "tot < page_end pages - page_start pages"
    "tot = 0 \<or> (page_start pages + tot) mod 512 = 0"
  shows "mode R fresh space
    (if range_start frames < range_end frames then frames\<lparr>range_start := range_start frames + tot\<rparr> else frames)
    (pages\<lparr>page_start := page_start pages + tot\<rparr>)"
  using assms unfolding mode_def by auto

end

lemma block_step:
  fixes B q s :: nat
  assumes B: "0 < B" and P: "ps div B = 512 * q + s" "s < 512" and i: "s \<le> i" "i < 512"
    and d: "(ps + tot) div B = ps div B + (i - s)"
  shows "(ps + tot) div B mod 512 = i"
    "tot + (B - (ps + tot) mod B) \<le> 512 * B - ps mod (512 * B)"
    "(ps + tot + (B - (ps + tot) mod B)) div B = ps div B + (Suc i - s)"
    "(ps + tot + (B - (ps + tot) mod B)) mod B = 0"
proof -
  define A r where "A = ps + tot" "r = A mod B"
  have Ad: "A div B = 512 * q + i" using d P i by (simp add: A_r_def)
  have r: "r < B" using B by (simp add: A_r_def)
  have A: "A = B * (512 * q + i) + r" using Ad mult_div_mod_eq[of B A] by (simp add: A_r_def)
  show "(ps + tot) div B mod 512 = i" using Ad i by (simp add: A_r_def)
  have e: "A + (B - r) = B * Suc (512 * q + i)" using A r by simp
  then show "(ps + tot + (B - (ps + tot) mod B)) mod B = 0" by (simp add: A_r_def)
  show "(ps + tot + (B - (ps + tot) mod B)) div B = ps div B + (Suc i - s)"
    using e B P i by (simp add: A_r_def Suc_diff_le)
  have "ps div (512 * B) = q" using P by (simp add: mult.commute[of 512] div_mult2_eq)
  then have ps: "ps = 512 * B * q + ps mod (512 * B)" using mult_div_mod_eq[of "512 * B" ps] by simp
  have "B * Suc (512 * q + i) \<le> B * (512 * q + 512)" using i by (intro mult_le_mono2) simp
  also have "\<dots> = 512 * B * q + 512 * B" by (simp add: algebra_simps)
  finally have "ps + (tot + (B - r)) \<le> 512 * B * q + 512 * B" using e by (simp add: A_r_def)
  moreover have "ps mod (512 * B) < 512 * B" using B by simp
  ultimately show "tot + (B - (ps + tot) mod B) \<le> 512 * B - ps mod (512 * B)"
    using ps unfolding A_r_def by linarith
qed

lemma block_end:
  fixes B q s :: nat
  assumes B: "0 < B" and P: "ps div B = 512 * q + s" "s < 512"
    and d: "(ps + tot) div B = ps div B + (512 - s)" and z: "tot = 0 \<or> (ps + tot) mod B = 0"
  shows "tot = 512 * B - ps mod (512 * B)"
proof -
  have "tot \<noteq> 0" using d P by (cases "tot = 0") auto
  then have z: "(ps + tot) mod B = 0" using z by simp
  have "(ps + tot) div B = 512 * q + 512" using d P by simp
  then have A: "ps + tot = B * (512 * q + 512)" using mult_div_mod_eq[of B "ps + tot"] z by simp
  have "ps div (512 * B) = q" using P by (simp add: mult.commute[of 512] div_mult2_eq)
  then have "ps = 512 * B * q + ps mod (512 * B)" using mult_div_mod_eq[of "512 * B" ps] by simp
  moreover have "B * (512 * q + 512) = 512 * B * q + 512 * B" by (simp add: algebra_simps)
  ultimately show ?thesis using A by linarith
qed

context page_table_entry
begin

lemma map_entry:
  assumes good: "good ops (Suc (Suc l)) t m" and fl: "valid_flags fl" and ne: "page_start pages < page_end pages"
    and i: "i = page_start pages div 512 ^ Suc l mod 512" and md: "mode R fresh space frames pages"
    and IH: "\<And>t m. good ops (Suc l) t m \<Longrightarrow>
      map_in_table ops (Suc l) t frames pages space fl m = Inl Out_Of_Memory \<or>
      (\<exists>m'. map_in_table ops (Suc l) t frames pages space fl m = Inr (chunk (Suc l) (page_start pages) (page_end pages), m') \<and>
         map_post ops R fresh (Suc l) t (page_start pages) (chunk (Suc l) (page_start pages) (page_end pages)) m m')"
  defines "prep \<equiv> (if is_unused ops (tables m t ! i) then
              and_then (alloc_frame m) (\<lambda>(phys_frame, m1).
                let m2 = set_entry t i (make_entry ops phys_frame fl) m1 in
                Inr (zero_table ops (entry_addr ops (tables m2 t ! i)) m2))
            else Inr m)"
  defines "res \<equiv> and_then prep (\<lambda>m3. map_in_table ops (Suc l) (entry_addr ops (tables m3 t ! i)) frames pages space fl m3)"
  shows "res = Inl Out_Of_Memory \<or>
    (\<exists>m'. res = Inr (chunk (Suc l) (page_start pages) (page_end pages), m') \<and>
       map_post ops R fresh (Suc (Suc l)) t (page_start pages) (chunk (Suc l) (page_start pages) (page_end pages)) m m')"
proof -
  let ?ps = "page_start pages" and ?n = "chunk (Suc l) (page_start pages) (page_end pages)"
  have i512: "i < 512" using i by simp
  have len: "length (tables m t) = 512" using good by (simp add: good_def)
  have n: "?n \<le> 512 ^ Suc l - ?ps mod 512 ^ Suc l" "0 < ?n" using chunk_le(1) chunk_pos[OF ne] by blast+
  have big: "?n \<le> 512 ^ Suc (Suc l) - ?ps mod 512 ^ Suc (Suc l)"
  proof -
    have "512 ^ Suc l - ?ps mod 512 ^ Suc l \<le> 512 * 512 ^ Suc l - ?ps mod (512 * 512 ^ Suc l)"
      using block_step(2)[of "512 ^ Suc l" ?ps "?ps div 512 ^ Suc l div 512" i i 0] i i512
        mult_div_mod_eq[of 512 "?ps div 512 ^ Suc l"] by simp
    then show ?thesis using n(1) by simp
  qed
  have rest: "map_in_table ops (Suc l) (child ops m3 t i) frames pages space fl m3 = Inl Out_Of_Memory \<or>
      (\<exists>m'. map_in_table ops (Suc l) (child ops m3 t i) frames pages space fl m3 = Inr (?n, m') \<and>
         map_post ops R fresh (Suc (Suc l)) t ?ps ?n m m')"
    if m3: "map_post ops R fresh (Suc (Suc l)) t ?ps 0 m m3" "used ops m3 t i" for m3
  proof -
    have g3: "good ops (Suc (Suc l)) t m3" by (rule map_post_good[OF good m3(1)])
    from IH[OF good_child[OF g3 i512 m3(2)]] show ?thesis
    proof (elim disjE exE conjE)
      fix m' assume m': "map_in_table ops (Suc l) (child ops m3 t i) frames pages space fl m3 = Inr (?n, m')"
        "map_post ops R fresh (Suc l) (child ops m3 t i) ?ps ?n m3 m'"
      have "map_post ops R fresh (Suc (Suc l)) t (?ps + 0) ?n m3 m'"
        using map_post_lift[OF g3 i m3(2) n(1) m'(2)] by simp
      from map_post_trans[OF good m3(1) this] big n(2) m'(1) show ?thesis by simp
    qed simp
  qed
  show ?thesis
  proof (cases "used ops m t i")
    case True
    then have "res = map_in_table ops (Suc l) (child ops m t i) frames pages space fl m"
      by (simp add: res_def prep_def used_def child_def)
    then show ?thesis using rest[OF map_post_refl[OF good] True] by simp
  next
    case False
    have "wf_alloc m" using good by (simp add: good_def)
    then show ?thesis
    proof (cases rule: alloc_frame_cases)
      case 1
      then show ?thesis using False by (simp add: res_def prep_def used_def)
    next
      case (2 f m1)
      let ?m3 = "zero_table ops f (set_entry t i (make_entry ops f fl) m1)"
      note h = hook_empty_table[OF good fl i512 False 2(5,4,3,2,6)]
      have "prep = Inr ?m3"
        using False 2(1,5) i512 len addr_make[OF fl 2(6)] by (simp add: prep_def used_def Let_def)
      then have "res = map_in_table ops (Suc l) (child ops ?m3 t i) frames pages space fl ?m3"
        by (simp add: res_def child_def)
      then show ?thesis using rest[OF h(1,2)] by simp
    qed
  qed
qed

lemma map_in_table_correct:
  assumes "good ops (Suc l) t m" "valid_flags fl" "page_start pages < page_end pages" "mode R fresh space frames pages"
  shows "map_in_table ops (Suc l) t frames pages space fl m = Inl Out_Of_Memory \<or>
    (\<exists>m'. map_in_table ops (Suc l) t frames pages space fl m = Inr (chunk (Suc l) (page_start pages) (page_end pages), m') \<and>
       map_post ops R fresh (Suc l) t (page_start pages) (chunk (Suc l) (page_start pages) (page_end pages)) m m')"
  using assms
proof (induction l arbitrary: t frames pages m)
  case 0
  then show ?case by (rule leaf_map)
next
  case (Suc l)
  let ?ps = "page_start pages" and ?pe = "page_end pages" and ?B = "(512::nat) ^ Suc l"
  let ?s = "?ps div ?B mod 512" and ?q = "?ps div ?B div 512" and ?N = "chunk (Suc (Suc l)) ?ps ?pe"
  define body where "body = (\<lambda>i (m, frames, pages, tot).
         and_then
           (if is_unused ops (tables m t ! i) then
              and_then (alloc_frame m) (\<lambda>(phys_frame, m1).
                let m2 = set_entry t i (make_entry ops phys_frame fl) m1 in
                Inr (zero_table ops (entry_addr ops (tables m2 t ! i)) m2))
            else Inr m)
         (\<lambda>m3.
         and_then (map_in_table ops (Suc l) (entry_addr ops (tables m3 t ! i)) frames pages space fl m3)
         (\<lambda>(allocated, m4).
           let pages' = pages\<lparr>page_start := page_start pages + allocated\<rparr>;
               frames' = (if range_start frames < range_end frames
                          then frames\<lparr>range_start := range_start frames + allocated\<rparr> else frames)
           in Inr ((m4, frames', pages', tot + allocated), page_end pages' \<le> page_start pages'))))"
  have run: "map_in_table ops (Suc (Suc l)) t frames pages space fl m =
      and_then (entry_loop body [?s..<512] (m, frames, pages, 0)) (\<lambda>(m', _, _, tot). Inr (tot, m'))"
    by (simp add: body_def page_table_index_def)
  have P: "0 < ?B" "?ps div ?B = 512 * ?q + ?s" "?s < 512"
    using mult_div_mod_eq[of 512 "?ps div ?B"] by simp_all
  define adv where "adv = (\<lambda>tot. if range_start frames < range_end frames
      then frames\<lparr>range_start := range_start frames + tot\<rparr> else frames)"
  let ?I = "\<lambda>i (mc, frc, pgc, tot). map_post ops R fresh (Suc (Suc l)) t ?ps tot m mc \<and>
      frc = adv tot \<and> pgc = pages\<lparr>page_start := ?ps + tot\<rparr> \<and> tot < ?pe - ?ps \<and>
      (?ps + tot) div ?B = ?ps div ?B + (i - ?s) \<and> (tot = 0 \<or> (?ps + tot) mod ?B = 0)"
  let ?Q = "\<lambda>(mc, frc, pgc, tot). map_post ops R fresh (Suc (Suc l)) t ?ps ?N m mc \<and> tot = ?N"
  have "entry_loop body [?s..<512] (m, frames, pages, 0) = Inl Out_Of_Memory \<or>
    (\<exists>s'. entry_loop body [?s..<512] (m, frames, pages, 0) = Inr s' \<and> ?Q s')"
  proof (rule entry_loop_inv[where I = ?I])
    fix i st assume i: "?s \<le> i" "i < 512" and I: "?I i st"
    obtain mc frc pgc tot where st: "st = (mc, frc, pgc, tot)" by (cases st)
    define pg where "pg = pages\<lparr>page_start := ?ps + tot\<rparr>"
    define n where "n = chunk (Suc l) (?ps + tot) ?pe"
    have J: "map_post ops R fresh (Suc (Suc l)) t ?ps tot m mc" "frc = adv tot" "pgc = pg" "tot < ?pe - ?ps"
      "(?ps + tot) div ?B = ?ps div ?B + (i - ?s)" "tot = 0 \<or> (?ps + tot) mod ?B = 0"
      using I st by (simp_all add: pg_def)
    note bs = block_step[OF P i J(5)]
    have pg: "page_start pg = ?ps + tot" "page_end pg = ?pe" by (simp_all add: pg_def)
    have ne: "page_start pg < page_end pg" using J(4) pg by simp
    have m512: "tot = 0 \<or> (?ps + tot) mod 512 = 0"
    proof -
      have "(512::nat) dvd ?B" by simp
      then show ?thesis using J(6) by (metis mod_eq_0_iff_dvd dvd_trans)
    qed
    have md: "mode R fresh space frc pg"
      using mode_advance[OF Suc.prems(4) J(4) m512] unfolding J(2) adv_def pg_def .
    have gc: "good ops (Suc (Suc l)) t mc" by (rule map_post_good[OF Suc.prems(1) J(1)])
    have n: "n \<le> ?B - (?ps + tot) mod ?B" "n \<le> ?pe - (?ps + tot)" "0 < n"
      using chunk_le[of "Suc l" "?ps + tot" ?pe] chunk_pos[of "?ps + tot" ?pe] J(4) by (auto simp: n_def)
    have tn: "tot + n \<le> 512 ^ Suc (Suc l) - ?ps mod 512 ^ Suc (Suc l)" 
      using order.trans[OF add_left_mono[OF n(1)] bs(2)] by (simp only: power_Suc[of _ "Suc l"])
    let ?res = "and_then (if is_unused ops (tables mc t ! i) then
              and_then (alloc_frame mc) (\<lambda>(phys_frame, m1).
                let m2 = set_entry t i (make_entry ops phys_frame fl) m1 in
                Inr (zero_table ops (entry_addr ops (tables m2 t ! i)) m2))
            else Inr mc)
         (\<lambda>m3. map_in_table ops (Suc l) (entry_addr ops (tables m3 t ! i)) frc pg space fl m3)"
    have body: "body i st = and_then ?res (\<lambda>(allocated, m4).
           Inr ((m4, if range_start frc < range_end frc then frc\<lparr>range_start := range_start frc + allocated\<rparr> else frc,
                 pg\<lparr>page_start := page_start pg + allocated\<rparr>, tot + allocated), ?pe \<le> page_start pg + allocated))"
      unfolding body_def st J(3) prod.case and_then_def Let_def pg_def
      by (auto split: sum.splits)
    have idx: "i = page_start pg div ?B mod 512" using bs(1) pg(1) by simp
    have "?res = Inl Out_Of_Memory \<or> (\<exists>m'. ?res = Inr (chunk (Suc l) (page_start pg) (page_end pg), m') \<and>
         map_post ops R fresh (Suc (Suc l)) t (page_start pg) (chunk (Suc l) (page_start pg) (page_end pg)) mc m')"
      by (rule map_entry[OF gc Suc.prems(2) ne idx md]) (rule Suc.IH[OF _ Suc.prems(2) ne md])
    then show "body i st = Inl Out_Of_Memory \<or>
      (\<exists>s' stop. body i st = Inr (s', stop) \<and> (if stop then ?Q s' else ?I (Suc i) s'))"
    proof (elim disjE exE conjE)
      fix m' assume r: "?res = Inr (chunk (Suc l) (page_start pg) (page_end pg), m')"
        and post: "map_post ops R fresh (Suc (Suc l)) t (page_start pg) (chunk (Suc l) (page_start pg) (page_end pg)) mc m'"
      have post': "map_post ops R fresh (Suc (Suc l)) t ?ps (tot + n) m m'"
        by (rule map_post_trans[OF Suc.prems(1) J(1) _ tn n(3)]) (use post in \<open>simp add: pg n_def\<close>)
      have frc': "(if range_start frc < range_end frc then frc\<lparr>range_start := range_start frc + n\<rparr> else frc) = adv (tot + n)"
        if "\<not> ?pe \<le> ?ps + tot + n"
        using that md n(2) J(2) Suc.prems(4) by (auto simp: adv_def mode_def)
      have b: "body i st = Inr ((m', if range_start frc < range_end frc then frc\<lparr>range_start := range_start frc + n\<rparr> else frc,
           pages\<lparr>page_start := ?ps + tot + n\<rparr>, tot + n), ?pe \<le> ?ps + tot + n)"
        unfolding body r by (simp add: pg n_def pg_def)
      show ?thesis
      proof (cases "?pe \<le> ?ps + tot + n")
        case True
        then have "tot + n = ?N" using n(2) tn J(4) by (simp add: chunk_def)
        then show ?thesis using b True post' by auto
      next
        case False
        then have nB: "n = ?B - (?ps + tot) mod ?B" using n by (simp add: n_def chunk_def)
        have "(?ps + (tot + n)) div ?B = ?ps div ?B + (Suc i - ?s)" "(?ps + (tot + n)) mod ?B = 0"
          using bs(3,4) unfolding nB by (simp_all only: add.assoc)
        moreover have "body i st = Inr ((m', adv (tot + n), pages\<lparr>page_start := ?ps + (tot + n)\<rparr>, tot + n), False)"
          using b False frc'[OF False] by (simp only: add.assoc)
        moreover have "tot + n < ?pe - ?ps" using False by simp
        ultimately show ?thesis using post'
          by (intro disjI2 exI[of _ "(m', adv (tot + n), pages\<lparr>page_start := ?ps + (tot + n)\<rparr>, tot + n)"] exI[of _ False])
             (simp only: prod.case if_False simp_thms)
      qed
    qed (simp add: body)
  next
    show "?I ?s (m, frames, pages, 0)"
      using map_post_refl[OF Suc.prems(1)] Suc.prems(3) by (auto simp: adv_def)
    show "?s \<le> 512" by simp
    fix st assume I: "?I 512 st"
    obtain mc frc pgc tot where st: "st = (mc, frc, pgc, tot)" by (cases st)
    have "tot = 512 * ?B - ?ps mod (512 * ?B)" by (rule block_end[OF P]) (use I st in simp_all)
    then have "tot = ?N" using I st by (simp add: chunk_def)
    then show "?Q st" using I st by simp
  qed
  then show ?case unfolding run by auto
qed

text \<open>A whole range that lies inside the address space is mapped completely.\<close>

lemma chunk_whole: "pe \<le> 512 ^ d \<Longrightarrow> ps < pe \<Longrightarrow> chunk d ps pe = pe - ps"
  by (simp add: chunk_def)

lemma map_range_correct:
  assumes good: "good ops d t m" and d: "0 < d" and fl: "valid_flags fl" and ne: "page_start pages < page_end pages"
    "page_end pages \<le> 512 ^ d" and md: "mode R fresh space frames pages"
  shows "map_in_table ops d t frames pages space fl m = Inl Out_Of_Memory \<or>
    (\<exists>n m'. map_in_table ops d t frames pages space fl m = Inr (n, m') \<and> good ops d t m' \<and>
       map_post ops R fresh d t (page_start pages) (page_end pages - page_start pages) m m')"
proof -
  obtain l where l: "d = Suc l" using d by (cases d) auto
  from map_in_table_correct[OF good[unfolded l] fl ne(1) md]
  show ?thesis unfolding chunk_whole[OF ne(2,1), unfolded l] l
  proof (elim disjE exE conjE)
    fix m' assume "map_in_table ops (Suc l) t frames pages space fl m = Inr (page_end pages - page_start pages, m')"
      "map_post ops R fresh (Suc l) t (page_start pages) (page_end pages - page_start pages) m m'"
    then show "map_in_table ops (Suc l) t frames pages space fl m = Inl Out_Of_Memory \<or>
      (\<exists>n m'. map_in_table ops (Suc l) t frames pages space fl m = Inr (n, m') \<and> good ops (Suc l) t m' \<and>
         map_post ops R fresh (Suc l) t (page_start pages) (page_end pages - page_start pages) m m')"
      using map_post_good[OF good[unfolded l]] by blast
  qed simp
qed

end

end
