(* ===== verification/Paging_Props.thy ===== *)
theory Paging_Props
  imports Paging_Correct
begin

text \<open>
  Properties of address spaces (\<open>os/kernel/src/memory/virtual.rs\<close>): how much memory mapping takes, what
  \<open>map\<close> and \<open>map_physical\<close> do to the translation of every address, and two places where the code treats
  ranges differently from what its callers expect.
\<close>

section \<open>Loops\<close>

text \<open>One iteration on the upper levels, and the loop made of it.\<close>

definition ensure_table :: "('e, 'f) entry_ops \<Rightarrow> 'f \<Rightarrow> nat \<Rightarrow> nat \<Rightarrow> 'e machine \<Rightarrow> 'e machine result" where
  "ensure_table ops fl t i m = (if is_unused ops (tables m t ! i) then
              and_then (alloc_frame m) (\<lambda>(phys_frame, m1).
                let m2 = set_entry t i (make_entry ops phys_frame fl) m1 in
                Inr (zero_table ops (entry_addr ops (tables m2 t ! i)) m2))
            else Inr m)"

definition map_body ::
  "('e, 'f) entry_ops \<Rightarrow> nat \<Rightarrow> nat \<Rightarrow> memory_space \<Rightarrow> 'f \<Rightarrow> nat \<Rightarrow> 'e machine \<times> phys_frame_range \<times> page_range \<times> nat \<Rightarrow>
     (('e machine \<times> phys_frame_range \<times> page_range \<times> nat) \<times> bool) result" where
  "map_body ops l t space fl i = (\<lambda>(m, frames, pages, total). and_then (ensure_table ops fl t i m) (\<lambda>m3.
         and_then (map_in_table ops (Suc l) (entry_addr ops (tables m3 t ! i)) frames pages space fl m3)
         (\<lambda>(allocated, m4).
           let pages' = pages\<lparr>page_start := page_start pages + allocated\<rparr>;
               frames' = (if range_start frames < range_end frames
                          then frames\<lparr>range_start := range_start frames + allocated\<rparr> else frames)
           in Inr ((m4, frames', pages', total + allocated), page_end pages' \<le> page_start pages'))))"

lemma map_in_table_loop:
  "map_in_table ops (Suc (Suc l)) t frames pages space fl m =
     and_then (entry_loop (map_body ops l t space fl) [page_start pages div 512 ^ Suc l mod 512..<512] (m, frames, pages, 0))
       (\<lambda>(m', _, _, total). Inr (total, m'))"
proof -
  have idx: "page_table_index (page_start pages) (Suc (Suc l)) = Inr (page_start pages div 512 ^ Suc l mod 512)"
    by (simp add: page_table_index_def)
  show ?thesis unfolding map_in_table.simps(3) idx and_then_Inr map_body_def ensure_table_def ..
qed

lemma entry_loop_keeps:
  assumes "entry_loop body is s = Inr s'" "P s" "\<And>i s s1 stop. P s \<Longrightarrow> body i s = Inr (s1, stop) \<Longrightarrow> P s1"
  shows "P s'"
  using assms(1,2)
proof (induction "is" arbitrary: s)
  case (Cons i "is")
  then obtain s1 stop where "body i s = Inr (s1, stop)" "(if stop then Inr s1 else entry_loop body is s1) = Inr s'"
    by (auto simp: result_simps)
  then show ?case using Cons.IH assms(3) Cons.prems(2) by (auto split: if_splits)
qed simp

section \<open>Memory use\<close>

text \<open>
  Mapping \<open>n\<close> pages below a table of level \<open>l\<close> takes at most \<open>n * l\<close> frames: one per page and one for
  each table on the way. So it runs out of memory only with fewer free frames than that.
\<close>

lemma entry_loop_rule:
  assumes step: "\<And>i s. a \<le> i \<Longrightarrow> i < b \<Longrightarrow> I i s \<Longrightarrow>
      (case body i s of Inl e \<Rightarrow> E e | Inr (s', stop) \<Rightarrow> if stop then Q s' else I (Suc i) s')"
    and init: "I a s" "a \<le> b" and fin: "\<And>s. I b s \<Longrightarrow> Q s"
  shows "case entry_loop body [a..<b] s of Inl e \<Rightarrow> E e | Inr s' \<Rightarrow> Q s'"
  using init step
proof (induction "b - a" arbitrary: a s)
  case 0
  then show ?case using fin by simp
next
  case (Suc k)
  then have ab: "a < b" by simp
  note st = Suc.prems(3)[OF order_refl ab Suc.prems(1)]
  show ?case
  proof (cases "body a s")
    case (Inr x)
    obtain s' stop where x: "x = (s', stop)" by (cases x)
    show ?thesis
    proof (cases stop)
      case False
      then have "case entry_loop body [Suc a..<b] s' of Inl e \<Rightarrow> E e | Inr s' \<Rightarrow> Q s'"
        by (intro Suc.hyps(1)) (use st Inr x ab Suc.hyps(2) Suc.prems(3) in auto)
      then show ?thesis using Inr x False ab by (simp add: upt_conv_Cons)
    qed (use st Inr x ab in \<open>simp add: upt_conv_Cons\<close>)
  qed (use st ab in \<open>simp add: upt_conv_Cons\<close>)
qed

lemma finite_free: "finite (free_of m)"
  by (simp add: free_of_def free_frames_def node_frames_def)

text \<open>The budget: after \<open>m\<close> became \<open>m'\<close>, at most \<open>k\<close> frames are gone.\<close>

definition spent :: "'e machine \<Rightarrow> nat \<Rightarrow> 'e machine \<Rightarrow> bool" where
  "spent m k m' \<longleftrightarrow> wf_alloc m' \<and> card (free_of m) \<le> card (free_of m') + k"

definition costs :: "'e machine \<Rightarrow> nat \<Rightarrow> nat \<Rightarrow> (nat \<times> 'e machine) result \<Rightarrow> bool" where
  "costs m n l r = (case r of
     Inl e \<Rightarrow> e = Out_Of_Memory \<longrightarrow> card (free_of m) < n * l
   | Inr (k, m') \<Rightarrow> 0 < k \<and> k \<le> n \<and> spent m (k * l) m')"

lemma alloc_frame_cost: "wf_alloc m \<Longrightarrow>
    (case alloc_frame m of Inl e \<Rightarrow> e = Out_Of_Memory \<longrightarrow> card (free_of m) = 0 | Inr (f, m1) \<Rightarrow> spent m 1 m1)"
proof (cases rule: alloc_frame_cases)
  assume wf: "wf_alloc m" and oom: "alloc_frame m = Inl Out_Of_Memory"
  then have "\<forall>b \<in> set (page_frame_allocator (frames_state m)). frame_count b < 1"
    by (auto simp: alloc_frame_def phys_alloc_def result_simps alloc_block_fails split: prod.splits)
  then have "free_of m = {}" by (auto simp: free_of_def free_frames_alt node_end_def)
  then show ?thesis using oom by simp
next
  fix f m1 assume "alloc_frame m = Inr (f, m1)" "f \<in> free_of m" "free_of m1 = free_of m - {f}" "wf_alloc m1"
  then show ?thesis using finite_free[of m] by (simp add: spent_def card_Diff_singleton)
qed simp

lemma spent_refl: "wf_alloc m \<Longrightarrow> spent m k m"
  by (simp add: spent_def)

lemma spent_trans: "spent m j m1 \<Longrightarrow> spent m1 k m2 \<Longrightarrow> j + k \<le> n \<Longrightarrow> spent m n m2"
  by (simp add: spent_def)

lemma spent_more: "spent m (i - s) m' \<Longrightarrow> spent m (Suc i - s) m'"
  by (auto simp: spent_def)

lemma spent_writes [simp]: "spent m k (set_entry t i e m1) = spent m k m1" "spent m k (zero_table ops t m1) = spent m k m1"
  by (simp_all add: spent_def)

lemma leaf_cost:
  assumes wf: "wf_alloc m" and ne: "page_start pages < page_end pages"
  shows "costs m (page_end pages - page_start pages) 1 (map_in_table ops (Suc 0) t frames pages space fl m)"
proof -
  let ?s = "page_start pages mod 512" and ?N = "page_end pages - page_start pages"
  let ?n = "min ?N (512 - ?s)"
  have idx: "page_table_index (page_start pages) 1 = Inr ?s" "run_length pages ?s = Inr ?n"
    using ne by (simp_all add: page_table_index_def run_length_def)
  have n: "0 < ?n" "?n \<le> ?N" using ne by (auto simp: min_def)
  let ?E = "\<lambda>e. e = Out_Of_Memory \<longrightarrow> card (free_of m) < ?N"
  let ?I = "\<lambda>i mc. spent m (i - ?s) mc"
  consider "space = Kernel" | "space = User" "range_start frames = range_end frames"
    | "space = User" "range_start frames \<noteq> range_end frames" by (cases space) auto
  then show ?thesis
  proof cases
    case 1
    let ?body = "\<lambda>i (m, frame_addr). Inr ((set_entry t i (make_entry ops frame_addr fl) m, frame_addr + 1), False)"
    have "case entry_loop ?body [?s..<?s + ?n] (m, page_start pages) of Inl e \<Rightarrow> ?E e | Inr s' \<Rightarrow> ?I (?s + ?n) (fst s')"
      by (rule entry_loop_rule[where I = "\<lambda>i s. ?I i (fst s)"]) (use wf in \<open>auto simp: spent_refl intro: spent_more\<close>)
    then show ?thesis using 1 idx n by (auto simp: identity_map_kernel_def costs_def split: sum.splits prod.splits)
  next
    case 2
    let ?body = "\<lambda>i m. and_then (alloc_frame m) (\<lambda>(phys_frame, m').
             Inr (set_entry t i (make_entry ops phys_frame fl) m', False))"
    have "case entry_loop ?body [?s..<?s + ?n] m of Inl e \<Rightarrow> ?E e | Inr s' \<Rightarrow> ?I (?s + ?n) s'"
    proof (rule entry_loop_rule[where I = ?I])
      fix i mc assume i: "?s \<le> i" "i < ?s + ?n" and I: "?I i mc"
      have "wf_alloc mc" using I by (simp add: spent_def)
      from alloc_frame_cost[OF this] I i n(2) spent_trans[OF I, of 1 _ "Suc i - ?s"]
      show "case ?body i mc of Inl e \<Rightarrow> ?E e | Inr (s', stop) \<Rightarrow> if stop then ?I (?s + ?n) s' else ?I (Suc i) s'"
        by (cases "alloc_frame mc") (auto simp: spent_def[of m "i - ?s"] Suc_diff_le split: prod.splits)
    qed (use spent_refl[OF wf] in auto)
    then show ?thesis using 2 idx n by (auto simp: map_user_def costs_def split: sum.splits prod.splits)
  next
    case 3
    let ?body = "\<lambda>i (m, frame_iter). case frame_iter of [] \<Rightarrow> Inl Unwrap_None
           | f # frame_iter' \<Rightarrow> Inr ((set_entry t i (make_entry ops f fl) m, frame_iter'), False)"
    have "case entry_loop ?body [?s..<?s + ?n] (m, drop ?s [range_start frames..<range_end frames]) of
        Inl e \<Rightarrow> ?E e | Inr s' \<Rightarrow> ?I (?s + ?n) (fst s')"
      by (rule entry_loop_rule[where I = "\<lambda>i s. ?I i (fst s)"]) (use wf in \<open>auto simp: spent_refl intro: spent_more split: list.splits\<close>)
    then show ?thesis using 3 idx n by (auto simp: map_user_physical_def costs_def split: sum.splits prod.splits)
  qed
qed

lemma map_in_table_cost:
  assumes "wf_alloc m" "page_start pages < page_end pages"
  shows "costs m (page_end pages - page_start pages) (Suc l) (map_in_table ops (Suc l) t frames pages space fl m)"
  using assms
proof (induction l arbitrary: t frames pages m)
  case 0
  then show ?case unfolding One_nat_def[symmetric] by (rule leaf_cost[unfolded One_nat_def[symmetric]])
next
  case (Suc l)
  let ?ps = "page_start pages" and ?pe = "page_end pages"
  let ?s = "?ps div 512 ^ Suc l mod 512" and ?N = "?pe - ?ps" and ?L = "Suc (Suc l)"
  have prep: "case ensure_table ops fl t i mc of Inl e \<Rightarrow> e = Out_Of_Memory \<longrightarrow> card (free_of mc) = 0 | Inr m3 \<Rightarrow> spent mc 1 m3"
    if "wf_alloc mc" for i mc
    using alloc_frame_cost[OF that] spent_refl[OF that]
    by (auto simp: ensure_table_def Let_def split: sum.splits prod.splits)
  let ?body = "map_body ops l t space fl"
  let ?E = "\<lambda>e. e = Out_Of_Memory \<longrightarrow> card (free_of m) < ?N * ?L"
  let ?I = "\<lambda>i (mc, frc :: phys_frame_range, pgc, tot). pgc = pages\<lparr>page_start := ?ps + tot\<rparr> \<and> ?ps + tot < ?pe \<and>
      (?s < i \<longrightarrow> 0 < tot) \<and> spent m (tot * ?L) mc"
  let ?Q = "\<lambda>(mc, frc :: phys_frame_range, pgc :: page_range, tot). 0 < tot \<and> tot \<le> ?N \<and> spent m (tot * ?L) mc"
  have "case entry_loop ?body [?s..<512] (m, frames, pages, 0) of Inl e \<Rightarrow> ?E e | Inr s' \<Rightarrow> ?Q s'"
  proof (rule entry_loop_rule[where I = ?I])
    fix i st assume I: "?I i st"
    obtain mc frc pgc tot where st: "st = (mc, frc, pgc, tot)" by (cases st)
    have J: "pgc = pages\<lparr>page_start := ?ps + tot\<rparr>" "?ps + tot < ?pe" "spent m (tot * ?L) mc" "wf_alloc mc"
      using I st by (simp_all add: spent_def)
    have room: "(tot + 1) * ?L \<le> ?N * ?L" using J(2) by (intro mult_le_mono1) simp
    show "case ?body i st of Inl e \<Rightarrow> ?E e | Inr (s', stop) \<Rightarrow> if stop then ?Q s' else ?I (Suc i) s'"
    proof (cases "ensure_table ops fl t i mc")
      case (Inl e)
      then show ?thesis using prep[OF J(4), of i] J(3) room st by (auto simp: spent_def map_body_def)
    next
      case (Inr m3)
      then have m3: "spent mc 1 m3" using prep[OF J(4), of i] by simp
      let ?r = "map_in_table ops (Suc l) (entry_addr ops (tables m3 t ! i)) frc pgc space fl m3"
      have c: "costs m3 (page_end pgc - page_start pgc) (Suc l) ?r"
        by (rule Suc.IH) (use m3 J in \<open>auto simp: spent_def\<close>)
      show ?thesis
      proof (cases ?r)
        case (Inl e)
        have "tot * ?L + k * Suc l + k = (tot + k) * ?L" for k by (simp add: algebra_simps)
        from this[of "?N - tot"] have "tot * ?L + (?N - tot) * Suc l + (?N - tot) = ?N * ?L" using J(2) by simp
        then show ?thesis using c Inl Inr st J m3 by (auto simp: costs_def spent_def map_body_def)
      next
        case (Inr x)
        obtain k m4 where x: "x = (k, m4)" by (cases x)
        have k: "0 < k" "k \<le> ?N - tot" "spent m3 (k * Suc l) m4" using c Inr x J(1) by (auto simp: costs_def)
        have "spent m ((tot + k) * ?L) m4"
          by (rule spent_trans[OF J(3) spent_trans[OF m3 k(3) order_refl]]) (use k(1) in \<open>simp add: algebra_simps\<close>)
        moreover have "tot + k \<le> ?N" using k(2) J(2) by simp
        ultimately show ?thesis using k(1) Inr x \<open>ensure_table ops fl t i mc = Inr m3\<close> st J(1,2) by (simp add: Let_def add.assoc map_body_def)
      qed
    qed
  next
    fix st assume "?I 512 st"
    then show "?Q st" by (auto split: prod.splits)
  qed (use Suc.prems spent_refl[OF Suc.prems(1)] in auto)
  then show ?case unfolding map_in_table_loop by (auto simp: costs_def split: sum.splits prod.splits)
qed

text \<open>Mapping keeps the limit of physical memory.\<close>

definition limit_of :: "'e machine \<Rightarrow> nat option" where
  "limit_of m = phys_limit (frames_state m)"

lemma limit_of_writes [simp]: "limit_of (set_entry t i e m) = limit_of m" "limit_of (zero_table ops t m) = limit_of m"
  by (simp_all add: limit_of_def)

lemma alloc_frame_limit: "alloc_frame m = Inr (f, m1) \<Longrightarrow> limit_of m1 = limit_of m"
  by (auto simp: alloc_frame_def phys_alloc_def limit_of_def result_simps split: prod.splits)

lemma leaf_limit:
  assumes "map_in_table ops (Suc 0) t frames pages space fl m = Inr (n, m')"
  shows "limit_of m' = limit_of m"
proof -
  consider "space = Kernel" | "space = User" "range_start frames = range_end frames"
    | "space = User" "range_start frames \<noteq> range_end frames" by (cases space) auto
  then show ?thesis
  proof cases
    case 1
    with assms obtain s a where "entry_loop (\<lambda>i (m, frame_addr). Inr ((set_entry t i (make_entry ops frame_addr fl) m, frame_addr + 1), False)) s (m, page_start pages) = Inr (m', a)"
      by (auto simp: identity_map_kernel_def result_simps)
    from entry_loop_keeps[OF this, of "\<lambda>s. limit_of (fst s) = limit_of m"] show ?thesis by auto
  next
    case 2
    with assms obtain s where "entry_loop (\<lambda>i m. and_then (alloc_frame m) (\<lambda>(phys_frame, m').
             Inr (set_entry t i (make_entry ops phys_frame fl) m', False))) s m = Inr m'"
      by (auto simp: map_user_def result_simps)
    then show ?thesis
      by (rule entry_loop_keeps[where P = "\<lambda>s. limit_of s = limit_of m"]) (auto simp: result_simps dest: alloc_frame_limit)
  next
    case 3
    with assms obtain s a it where "entry_loop (\<lambda>i (m, frame_iter). case frame_iter of [] \<Rightarrow> Inl Unwrap_None
           | f # frame_iter' \<Rightarrow> Inr ((set_entry t i (make_entry ops f fl) m, frame_iter'), False)) s (m, it) = Inr (m', a)"
      by (auto simp: map_user_physical_def result_simps)
    then have "limit_of (fst (m', a)) = limit_of m"
      by (rule entry_loop_keeps[where P = "\<lambda>s. limit_of (fst s) = limit_of m"]) (auto split: list.splits)
    then show ?thesis by simp
  qed
qed

lemma map_in_table_limit:
  "map_in_table ops (Suc l) t frames pages space fl m = Inr (n, m') \<Longrightarrow> limit_of m' = limit_of m"
proof (induction l arbitrary: t frames pages m n m')
  case 0
  then show ?case by (rule leaf_limit)
next
  case (Suc l)
  let ?loop = "entry_loop (map_body ops l t space fl) [page_start pages div 512 ^ Suc l mod 512..<512] (m, frames, pages, 0)"
  obtain z where z: "?loop = Inr z" "fst z = m'" using Suc.prems unfolding map_in_table_loop
    by (cases ?loop) auto
  have step: "limit_of (fst s1) = limit_of (fst s)" if "map_body ops l t space fl i s = Inr (s1, stop)" for i s s1 stop
  proof -
    obtain mc fr pg tot where s: "s = (mc, fr, pg, tot)" by (cases s)
    from that obtain m3 k m4 where m3: "ensure_table ops fl t i mc = Inr m3"
      and m4: "map_in_table ops (Suc l) (entry_addr ops (tables m3 t ! i)) fr pg space fl m3 = Inr (k, m4)" and "fst s1 = m4"
      unfolding map_body_def s Let_def by (auto simp: result_simps simp del: map_in_table.simps)
    moreover have "limit_of m3 = limit_of mc"
      using m3 by (auto simp: ensure_table_def Let_def result_simps alloc_frame_limit split: if_splits)
    ultimately show ?thesis using Suc.IH s by simp
  qed
  from entry_loop_keeps[OF z(1), of "\<lambda>s. limit_of (fst s) = limit_of m"] step z(2) show ?case by auto
qed


lemma map_range_total:
  assumes ops: "page_table_entry ops valid_flags" and g: "good ops d t m" and d: "0 < d" and fl: "valid_flags fl"
    and ne: "page_start pages < page_end pages" "page_end pages \<le> 512 ^ d" and md: "mode R fresh space frames pages"
  shows "(map_in_table ops d t frames pages space fl m = Inl Out_Of_Memory \<and>
      card (free_of m) < (page_end pages - page_start pages) * d) \<or>
    (\<exists>n m'. map_in_table ops d t frames pages space fl m = Inr (n, m') \<and> good ops d t m' \<and>
       map_post ops R fresh d t (page_start pages) (page_end pages - page_start pages) m m')"
proof -
  have "costs m (page_end pages - page_start pages) d (map_in_table ops d t frames pages space fl m)"
    using map_in_table_cost[of m pages "d - 1"] g d ne(1) by (simp add: good_def del: map_in_table.simps)
  then show ?thesis using page_table_entry.map_range_correct[OF ops g d fl ne md] by (auto simp: costs_def)
qed

section \<open>Evaluation of single page mappings\<close>

text \<open>Mapping one page does one iteration at every level.\<close>

lemma map_single_page:
  assumes "page_end pages = page_start pages + 1"
    and idx: "i = page_start pages div 512 ^ Suc l mod 512"
    and prep: "(if is_unused ops (tables m t ! i) then
              and_then (alloc_frame m) (\<lambda>(phys_frame, m1).
                let m2 = set_entry t i (make_entry ops phys_frame fl) m1 in
                Inr (zero_table ops (entry_addr ops (tables m2 t ! i)) m2))
            else Inr m) = Inr m3"
    and rec: "map_in_table ops (Suc l) (entry_addr ops (tables m3 t ! i)) frames pages space fl m3 = Inr (1, m4)"
  shows "map_in_table ops (Suc (Suc l)) t frames pages space fl m = Inr (1, m4)"
proof -
  have i: "i < 512" using idx by simp
  have "page_table_index (page_start pages) (Suc (Suc l)) = Inr i" by (simp add: page_table_index_def idx)
  then show ?thesis
    unfolding map_in_table.simps(3) upt_conv_Cons[OF i] entry_loop.simps
    by (simp only: and_then_Inr prod.case upt_conv_Cons[OF i] entry_loop.simps prep rec)
       (simp add: assms(1) Let_def)
qed

lemma frames_run_out:
  "length it < length is \<Longrightarrow> entry_loop (\<lambda>i (m, frame_iter).
           case frame_iter of
             [] \<Rightarrow> Inl Unwrap_None
           | f # frame_iter' \<Rightarrow> Inr ((set_entry t i (make_entry ops f flags) m, frame_iter'), False)) is (m, it) = Inl Unwrap_None"
  by (induction "is" arbitrary: it m) (auto split: list.splits)

lemma run_short: "0 < s \<Longrightarrow> s < 512 \<Longrightarrow> 0 < n \<Longrightarrow> n < 512 \<Longrightarrow> n - s < min n (512 - (s::nat))"
  by auto

lemma map_unaligned_fails:
  assumes "page_start pages < page_end pages" "page_end pages - page_start pages < 512" "page_start pages mod 512 \<noteq> 0"
    "range_end frames = range_start frames + (page_end pages - page_start pages)"
  shows "map_in_table ops (Suc l) t frames pages User flags m \<noteq> Inr x"
proof (induction l arbitrary: t m x)
  case 0
  let ?s = "page_start pages mod 512" and ?N = "page_end pages - page_start pages"
  have "length (drop ?s [range_start frames..<range_end frames]) < length [?s..<?s + min ?N (512 - ?s)]"
    using run_short[of ?s ?N] assms by simp
  note out = frames_run_out[OF this, of t ops flags m]
  have "map_user_physical ops t frames pages flags m = Inl Unwrap_None"
    using assms(1) by (simp only: map_user_physical_def page_table_index_def run_length_def)
      (simp only: checked_sub_le and_then_Inr order_refl less_imp_le div_by_1 power_0 diff_self_eq_0 out and_then_Inl)
  moreover have "range_start frames \<noteq> range_end frames" using assms(1,4) by linarith
  ultimately show ?case by simp
next
  case (Suc l)
  have s: "page_start pages div 512 ^ Suc l mod 512 < 512" by simp
  have idx: "page_table_index (page_start pages) (Suc (Suc l)) = Inr (page_start pages div 512 ^ Suc l mod 512)"
    by (simp add: page_table_index_def)
  show ?case unfolding map_in_table.simps(3) idx and_then_Inr upt_conv_Cons[OF s] entry_loop.simps prod.case
    using Suc.IH by (auto simp only: result_simps)
qed

section \<open>Properties\<close>

text \<open>Walks in terms of the operations of an address space.\<close>

lemma translate_eq_walk: "0 < depth a \<Longrightarrow> translate ops a addr m =
    Inr (map_option (\<lambda>f. f * PAGE_SIZE + addr mod PAGE_SIZE) (walk ops (depth a) (root_table a) (addr div PAGE_SIZE) m))"
  using translate_walk[of ops "depth a - 1"] by (simp add: translate_def del: walk.simps translate_in_table.simps)

lemma map_post_translate:
  assumes post: "map_post ops R fresh (depth a) (root_table a) ps n m m'" and d: "0 < depth a" and b: "ps + n \<le> 512 ^ depth a"
    "0 < n"
  shows "\<exists>f. (\<forall>addr. addr div PAGE_SIZE \<in> {ps..<ps + n} \<longrightarrow>
        translate ops a addr m' = Inr (Some (f (addr div PAGE_SIZE) * PAGE_SIZE + addr mod PAGE_SIZE)) \<and>
        R (addr div PAGE_SIZE) (f (addr div PAGE_SIZE))) \<and>
      (\<forall>addr. addr div PAGE_SIZE < 512 ^ depth a \<longrightarrow> addr div PAGE_SIZE \<notin> {ps..<ps + n} \<longrightarrow>
        translate ops a addr m' = translate ops a addr m) \<and>
      (fresh \<longrightarrow> inj_on f {ps..<ps + n} \<and> f ` {ps..<ps + n} \<subseteq> free_of m - free_of m' \<and>
         f ` {ps..<ps + n} \<inter> tabs ops (depth a) (root_table a) m' = {})"
proof -
  obtain f where f: "mapped_by ops R fresh (depth a) (root_table a) ps n m m' f" using post by (auto simp: map_post_def)
  have "walk ops (depth a) (root_table a) p m' = walk ops (depth a) (root_table a) p m"
    if "p < 512 ^ depth a" "p \<notin> {ps..<ps + n}" for p
  proof -
    have "p div 512 ^ depth a = ps div 512 ^ depth a" using that(1) b by simp
    then show ?thesis using post that(2) unfolding map_post_def by blast
  qed
  then show ?thesis using f unfolding mapped_by_def translate_eq_walk[OF d] by (intro exI[of _ f]) auto
qed

definition example_machine :: "u64 machine" where
  "example_machine = \<lparr>frames_state = \<lparr>page_frame_allocator = [node_at 10 20], phys_limit = Some 30\<rparr>,
     tables = (\<lambda>_. replicate 512 0)\<rparr>"

definition example_space :: address_space where
  "example_space = \<lparr>root_table = 1, depth = 4\<rparr>"

lemma example_free: "free_of example_machine = {10..<30}"
  by (auto simp: free_of_def example_machine_def free_frames_def node_frames_def node_end_def node_at_def)

lemma example_good: "good x86_entry_ops 4 1 example_machine"
proof -
  have unused: "\<not> used x86_entry_ops example_machine t i" if "i < 512" for t i
    using that by (simp add: used_def example_machine_def x86_entry_ops_def)
  then have "wf_tab x86_entry_ops (Suc l) t example_machine" "tabs x86_entry_ops (Suc l) t example_machine = {t}" for l t
    by (auto simp: example_machine_def)
  from this[of 3 1] show ?thesis
    by (auto simp: good_def wf_alloc_def free_of_def example_machine_def free_frames_def node_frames_def node_end_def node_at_def
        simp del: wf_tab.simps tabs.simps)
qed

lemma example_space_good: "good x86_entry_ops (depth example_space) (root_table example_space) example_machine"
  using example_good by (simp add: example_space_def)

lemma valid_7: "x86_valid_flags 7"
  by (simp add: x86_valid_flags_def addr_mask_def mask_eq_exp_minus_1)

text \<open>
  C4: Mapping user pages: unless fewer frames are free than one per page and
  level, mapping a range of pages succeeds and gives every address in it a
  translation to the same offset in a frame of its own; the frames are taken from the free list, are
  pairwise different and are not used for page tables; every address outside the range keeps its
  translation; and the page tables still form a tree outside the free frames.
\<close>

theorem map_user_pages_correct:
  assumes "page_table_entry ops valid_flags" "good ops (depth a) (root_table a) m" "0 < depth a" "valid_flags flags"
    "page_start pages < page_end pages" "page_end pages \<le> 512 ^ depth a"
  shows "(map_pages ops a pages User flags m = Inl Out_Of_Memory \<and>
      card (free_of m) < (page_end pages - page_start pages) * depth a) \<or>
    (\<exists>m' f. map_pages ops a pages User flags m = Inr m' \<and> good ops (depth a) (root_table a) m' \<and>
      (\<forall>addr. addr div PAGE_SIZE \<in> {page_start pages..<page_end pages} \<longrightarrow>
        translate ops a addr m' = Inr (Some (f (addr div PAGE_SIZE) * PAGE_SIZE + addr mod PAGE_SIZE))) \<and>
      (\<forall>addr. addr div PAGE_SIZE < 512 ^ depth a \<longrightarrow> addr div PAGE_SIZE \<notin> {page_start pages..<page_end pages} \<longrightarrow>
        translate ops a addr m' = translate ops a addr m) \<and>
      inj_on f {page_start pages..<page_end pages} \<and> f ` {page_start pages..<page_end pages} \<subseteq> free_of m - free_of m' \<and>
      f ` {page_start pages..<page_end pages} \<inter> tabs ops (depth a) (root_table a) m' = {})"
proof -
  have "mode (\<lambda>_ _. True) True User (frame_range 0 0) pages" by (simp add: mode_def)
  from map_range_total[OF assms(1,2,3,4,5,6) this] show ?thesis
  proof (elim disjE exE conjE)
    fix n m' assume r: "map_in_table ops (depth a) (root_table a) (frame_range 0 0) pages User flags m = Inr (n, m')"
      "good ops (depth a) (root_table a) m'"
      and post: "map_post ops (\<lambda>_ _. True) True (depth a) (root_table a) (page_start pages) (page_end pages - page_start pages) m m'"
    have e: "page_start pages + (page_end pages - page_start pages) = page_end pages" using assms(5) by simp
    from map_post_translate[OF post assms(3), unfolded e, OF assms(6)] assms(5) r show ?thesis
      by (auto simp: map_pages_def)
  qed (simp add: map_pages_def)
qed

theorem map_user_pages_correct_witness:
  "\<exists>m' (f :: nat \<Rightarrow> nat). map_pages x86_entry_ops example_space \<lparr>page_start = 511, page_end = 514\<rparr> User 7 example_machine = Inr m' \<and>
    translate x86_entry_ops example_space (512 * PAGE_SIZE + 3) m' = Inr (Some (f 512 * PAGE_SIZE + 3)) \<and>
    f 511 \<noteq> f 512 \<and> f 512 \<in> {10..<30} \<and> f 512 \<notin> free_of m'"
proof -
  let ?pages = "\<lparr>page_start = 511, page_end = 514\<rparr>"
  have "page_start ?pages < page_end ?pages" "page_end ?pages \<le> 512 ^ depth example_space" "0 < depth example_space"
    by (simp_all add: example_space_def)
  from map_user_pages_correct[OF x86.page_table_entry_axioms example_space_good this(3) valid_7 this(1,2)]
  obtain m' f where m: "map_pages x86_entry_ops example_space ?pages User 7 example_machine = Inr m'"
    and t: "\<forall>addr. addr div PAGE_SIZE \<in> {511..<514} \<longrightarrow>
        translate x86_entry_ops example_space addr m' = Inr (Some (f (addr div PAGE_SIZE) * PAGE_SIZE + addr mod PAGE_SIZE))"
    and f: "inj_on f {511..<514}" "f ` {511..<514} \<subseteq> {10..<30} - free_of m'"
    by (auto simp: example_free example_space_def)
  have "f 511 \<noteq> f 512" using f(1) by (auto dest: inj_onD)
  moreover have "f 512 \<in> {10..<30} - free_of m'" using f(2) by (rule subsetD) simp
  ultimately show ?thesis using m t[rule_format, of "512 * PAGE_SIZE + 3"] by (auto simp: PAGE_SIZE_def)
qed

text \<open>
  C5: Identity mapping of the kernel: unless memory runs out (fewer free frames than one per page
  and level), mapping a range in kernel space translates every
  address of the range to itself and keeps all other translations.
\<close>

theorem map_kernel_pages_identity:
  assumes "page_table_entry ops valid_flags" "good ops (depth a) (root_table a) m" "0 < depth a" "valid_flags flags"
    "page_start pages < page_end pages" "page_end pages \<le> 512 ^ depth a" "page_end pages \<le> 2 ^ 40"
  shows "(map_pages ops a pages Kernel flags m = Inl Out_Of_Memory \<and>
      card (free_of m) < (page_end pages - page_start pages) * depth a) \<or>
    (\<exists>m'. map_pages ops a pages Kernel flags m = Inr m' \<and> good ops (depth a) (root_table a) m' \<and>
      (\<forall>addr. addr div PAGE_SIZE < 512 ^ depth a \<longrightarrow> translate ops a addr m' =
        (if addr div PAGE_SIZE \<in> {page_start pages..<page_end pages} then Inr (Some addr) else translate ops a addr m)))"
proof -
  have "mode (\<lambda>p f. f = p) False Kernel (frame_range 0 0) pages" using assms(7) by (simp add: mode_def)
  from map_range_total[OF assms(1,2,3,4,5,6) this] show ?thesis
  proof (elim disjE exE conjE)
    fix n m' assume r: "map_in_table ops (depth a) (root_table a) (frame_range 0 0) pages Kernel flags m = Inr (n, m')"
      "good ops (depth a) (root_table a) m'"
      and post: "map_post ops (\<lambda>p f. f = p) False (depth a) (root_table a) (page_start pages) (page_end pages - page_start pages) m m'"
    have e: "page_start pages + (page_end pages - page_start pages) = page_end pages" using assms(5) by simp
    from map_post_translate[OF post assms(3), unfolded e, OF assms(6)] assms(5) r show ?thesis
      by (auto simp: map_pages_def)
  qed (simp add: map_pages_def)
qed

theorem map_kernel_pages_identity_witness:
  "\<exists>m'. map_pages x86_entry_ops example_space \<lparr>page_start = 511, page_end = 514\<rparr> Kernel 7 example_machine = Inr m' \<and>
    translate x86_entry_ops example_space (512 * PAGE_SIZE + 3) m' = Inr (Some (512 * PAGE_SIZE + 3)) \<and>
    translate x86_entry_ops example_space 0 m' = translate x86_entry_ops example_space 0 example_machine"
proof -
  let ?pages = "\<lparr>page_start = 511, page_end = 514\<rparr>"
  have "page_start ?pages < page_end ?pages" "page_end ?pages \<le> 512 ^ depth example_space" "0 < depth example_space"
    "page_end ?pages \<le> 2 ^ 40" by (simp_all add: example_space_def)
  from map_kernel_pages_identity[OF x86.page_table_entry_axioms example_space_good this(3) valid_7 this(1,2,4)]
  obtain m' where m: "map_pages x86_entry_ops example_space ?pages Kernel 7 example_machine = Inr m'"
    and t: "\<And>addr. addr div PAGE_SIZE < 512 ^ 4 \<Longrightarrow> translate x86_entry_ops example_space addr m' =
        (if addr div PAGE_SIZE \<in> {511..<514} then Inr (Some addr) else translate x86_entry_ops example_space addr example_machine)"
    by (auto simp: example_free example_space_def)
  then show ?thesis using t[of "512 * PAGE_SIZE + 3"] t[of 0] by (auto simp: PAGE_SIZE_def)
qed

text \<open>
  Mapping given frames: if the first page is the first one of its level 1 table, \<open>map_physical\<close> maps the
  pages to the given frames in order and keeps all other translations, unless memory for tables runs out, which
  needs fewer free frames than one per page and level.
\<close>

theorem map_physical_correct:
  assumes "page_table_entry ops valid_flags" "good ops (depth a) (root_table a) m" "0 < depth a" "valid_flags flags"
    "page_start pages < page_end pages" "page_end pages \<le> 512 ^ depth a"
    "range_end frames = range_start frames + (page_end pages - page_start pages)" "range_end frames \<le> 2 ^ 40"
    "page_start pages mod 512 = 0"
  shows "(map_physical ops a frames pages User flags m = Inl Out_Of_Memory \<and>
      card (free_of m) < (page_end pages - page_start pages) * depth a) \<or>
    (\<exists>m'. map_physical ops a frames pages User flags m = Inr m' \<and> good ops (depth a) (root_table a) m' \<and>
      (\<forall>addr. addr div PAGE_SIZE < 512 ^ depth a \<longrightarrow> translate ops a addr m' =
        (if addr div PAGE_SIZE \<in> {page_start pages..<page_end pages}
         then Inr (Some ((range_start frames + (addr div PAGE_SIZE - page_start pages)) * PAGE_SIZE + addr mod PAGE_SIZE))
         else translate ops a addr m)))"
proof -
  have md: "mode (\<lambda>p f. f + page_start pages = range_start frames + p) False User frames pages"
    using assms(5,7,8,9) by (simp add: mode_def)
  have unf: "map_physical ops a frames pages User flags m =
      and_then (map_in_table ops (depth a) (root_table a) frames pages User flags m) (\<lambda>(_, m'). Inr m')"
    using assms(5,7) by (simp add: map_physical_def)
  from map_range_total[OF assms(1,2,3,4,5,6) md] show ?thesis
  proof (elim disjE exE conjE)
    fix n m' assume r: "map_in_table ops (depth a) (root_table a) frames pages User flags m = Inr (n, m')"
      "good ops (depth a) (root_table a) m'"
      and post: "map_post ops (\<lambda>p f. f + page_start pages = range_start frames + p) False (depth a) (root_table a)
        (page_start pages) (page_end pages - page_start pages) m m'"
    have e: "page_start pages + (page_end pages - page_start pages) = page_end pages" using assms(5) by simp
    from map_post_translate[OF post assms(3), unfolded e, OF assms(6)] assms(5) obtain f where
      f: "\<forall>addr. addr div PAGE_SIZE \<in> {page_start pages..<page_end pages} \<longrightarrow>
        translate ops a addr m' = Inr (Some (f (addr div PAGE_SIZE) * PAGE_SIZE + addr mod PAGE_SIZE)) \<and>
        f (addr div PAGE_SIZE) + page_start pages = range_start frames + addr div PAGE_SIZE"
      "\<forall>addr. addr div PAGE_SIZE < 512 ^ depth a \<longrightarrow> addr div PAGE_SIZE \<notin> {page_start pages..<page_end pages} \<longrightarrow>
        translate ops a addr m' = translate ops a addr m" by auto
    have "f (addr div PAGE_SIZE) = range_start frames + (addr div PAGE_SIZE - page_start pages)"
      if "addr div PAGE_SIZE \<in> {page_start pages..<page_end pages}" for addr
      using f(1) that by (metis Nat.add_diff_assoc add_diff_cancel_right' atLeastLessThan_iff)
    then show ?thesis using f r unfolding unf by auto
  qed (simp add: unf)
qed

theorem map_physical_correct_witness:
  "\<exists>m'. map_physical x86_entry_ops example_space (frame_range 100 102) \<lparr>page_start = 512, page_end = 514\<rparr> User 7
      example_machine = Inr m' \<and>
    translate x86_entry_ops example_space (513 * PAGE_SIZE + 3) m' = Inr (Some (101 * PAGE_SIZE + 3))"
proof -
  let ?pages = "\<lparr>page_start = 512, page_end = 514\<rparr>" and ?frames = "frame_range 100 102"
  have "page_start ?pages < page_end ?pages" "page_end ?pages \<le> 512 ^ depth example_space" "0 < depth example_space"
    "range_end ?frames = range_start ?frames + (page_end ?pages - page_start ?pages)" "range_end ?frames \<le> 2 ^ 40"
    "page_start ?pages mod 512 = 0" by (simp_all add: example_space_def)
  from map_physical_correct[OF x86.page_table_entry_axioms example_space_good this(3) valid_7 this(1,2,4-6)]
  obtain m' where m: "map_physical x86_entry_ops example_space ?frames ?pages User 7 example_machine = Inr m'"
    and t: "\<And>addr. addr div PAGE_SIZE < 512 ^ 4 \<Longrightarrow> translate x86_entry_ops example_space addr m' =
        (if addr div PAGE_SIZE \<in> {512..<514} then Inr (Some ((100 + (addr div PAGE_SIZE - 512)) * PAGE_SIZE + addr mod PAGE_SIZE))
         else translate x86_entry_ops example_space addr example_machine)"
    by (auto simp: example_free example_space_def)
  then show ?thesis using t[of "513 * PAGE_SIZE + 3"] by (auto simp: PAGE_SIZE_def)
qed

text \<open>
  Given frames and an unaligned start: a request of fewer than 512 pages whose first page is not the first of
  its level 1 table is never mapped by \<open>map_physical\<close>: \<open>map_user_physical\<close> drops as many frames as there are
  entries before the first page, then runs out of frames and panics (or memory for tables runs out before).
\<close>

theorem map_physical_unaligned_panics:
  assumes "page_start pages < page_end pages" "page_end pages - page_start pages < 512" "page_start pages mod 512 \<noteq> 0"
    "range_end frames = range_start frames + (page_end pages - page_start pages)" "0 < depth a"
  shows "\<not> is_ok (map_physical ops a frames pages User flags m)"
proof -
  have "map_in_table ops (Suc l) t frames pages User flags m \<noteq> Inr x" for l t m x
    by (rule map_unaligned_fails[OF assms(1-4)])
  from this[of "depth a - 1"] show ?thesis using assms(5)
    by (auto simp: map_physical_def is_ok_iff result_simps)
qed

theorem map_physical_unaligned_panics_witness:
  "\<not> is_ok (map_physical x86_entry_ops example_space (frame_range 100 102) \<lparr>page_start = 513, page_end = 515\<rparr> User 7
      example_machine)"
  by (rule map_physical_unaligned_panics) (simp_all add: example_space_def)

text \<open>
  Unmapping a page whose level 1 table does not exist: if the level 2 entry of page \<open>p\<close> is unused and the next
  one is in use, then the loop moves to the next table without moving on in the page range, and page
  \<open>p + 512\<close> loses its translation.
\<close>

theorem unmap_hits_next_table:
  assumes "i = p div 512 mod 512" "i < 511" "is_unused ops (tables m t ! i)" "\<not> is_unused ops (tables m t ! Suc i)"
    "u = entry_addr ops (tables m t ! Suc i)" "u \<noteq> t" "length (tables m u) = 512" "\<not> is_unused ops (tables m u ! (p mod 512))"
    "j < 512" "j \<noteq> p mod 512" "\<not> is_unused ops (tables m u ! j)" "is_unused ops (unused_entry ops)"
  shows "\<exists>m' f. unmap_in_table ops 2 t \<lparr>page_start = p, page_end = p + 1\<rparr> False m = Inr (1, m') \<and>
    translate_in_table ops 2 t ((p + 512) * PAGE_SIZE) m = Inr (Some f) \<and>
    translate_in_table ops 2 t ((p + 512) * PAGE_SIZE) m' = Inr None"
proof -
  define m' where "m' = set_entry u (p mod 512) (unused_entry ops) m"
  have run: "unmap_run ops u \<lparr>page_start = p, page_end = p + 1\<rparr> False m = Inr (1, m')"
  proof -
    have "[p mod 512..<Suc (p mod 512)] = [p mod 512]" by simp
    moreover have "min 1 (512 - p mod 512) = 1" by (simp add: min_def Suc_le_eq)
    ultimately show ?thesis
      using assms(8) by (simp add: unmap_run_def page_table_index_def run_length_def m'_def del: upt_Suc)
  qed
  have "tables m' u ! j = tables m u ! j" using assms(10) by (simp add: m'_def)
  then have "\<not> is_table_empty ops (tables m' u)"
    using assms(7,9,11) by (auto simp: is_table_empty_def list_all_length m'_def)
  moreover have "[i..<512] = i # Suc i # [Suc (Suc i)..<512]" using assms(2) by (simp add: upt_conv_Cons)
  ultimately have "unmap_in_table ops 2 t \<lparr>page_start = p, page_end = p + 1\<rparr> False m = Inr (1, m')"
    using assms(1,3,4,5) run by (simp add: numeral_2_eq_2 page_table_index_def Let_def)
  moreover have "(p + 512) div 512 mod 512 = Suc i" "(p + 512) mod 512 = p mod 512"
    using assms(1,2) div_plus_div_distrib_dvd_right[of 512 512 p] by (simp_all add: mod_Suc)
  moreover have "tables m' u ! (p mod 512) = unused_entry ops" "tables m' t = tables m t"
    using assms(6,7) by (simp_all add: m'_def)
  ultimately show ?thesis using assms(4,5,8,12)
    by (auto simp: numeral_2_eq_2 page_table_index_def PAGE_SIZE_def)
qed

definition example_two_tables :: "u64 machine" where
  "example_two_tables = example_machine\<lparr>tables := (\<lambda>_. replicate 512 0)
     (1 := (replicate 512 0)[1 := make_entry x86_entry_ops 2 7],
      2 := (replicate 512 0)[0 := make_entry x86_entry_ops 40 7, 1 := make_entry x86_entry_ops 41 7])\<rparr>"

theorem unmap_hits_next_table_witness:
  "\<exists>m' f. unmap_in_table x86_entry_ops 2 1 \<lparr>page_start = 0, page_end = 0 + 1\<rparr> False example_two_tables = Inr (1, m') \<and>
    translate_in_table x86_entry_ops 2 1 ((0 + 512) * PAGE_SIZE) example_two_tables = Inr (Some f) \<and>
    translate_in_table x86_entry_ops 2 1 ((0 + 512) * PAGE_SIZE) m' = Inr None"
proof -
  have e: "\<not> is_unused x86_entry_ops (make_entry x86_entry_ops f 7)" for f using x86.used[OF valid_7] .
  have u: "is_unused x86_entry_ops 0" "is_unused x86_entry_ops (unused_entry x86_entry_ops)"
    by (simp_all add: x86_entry_ops_def)
  show ?thesis
    by (rule unmap_hits_next_table[where i = 0 and u = 2 and j = 1])
       (use e u x86.addr_make[OF valid_7, of 2] in \<open>simp_all add: example_two_tables_def\<close>)
qed

end
