(* ===== verification/Paging_Cost.thy ===== *)
theory Paging_Cost
  imports Paging_Props
begin

text \<open>
  The memory that an identity mapping takes. \<open>identity_map_kernel\<close> writes entries but allocates nothing, so mapping a range in
  kernel space takes at most one frame for every table that covers a part of it: one per 512 pages, one per \<open>512\<^sup>2\<close> pages and so on. This
  bound, unlike one frame per page and level, stays below the amount of memory that is being mapped; the kernel needs that when it maps all of memory at boot.
\<close>

section \<open>Counting tables\<close>

text \<open>The blocks of \<open>B\<close> pages that \<open>a..<b\<close> meets, and the tables of the levels 1 to \<open>l\<close>.\<close>

definition blocks :: "nat \<Rightarrow> nat \<Rightarrow> nat \<Rightarrow> nat" where
  "blocks B a b = (if a < b then (b - 1) div B - a div B + 1 else 0)"

definition tables_for :: "nat \<Rightarrow> nat \<Rightarrow> nat \<Rightarrow> nat" where
  "tables_for l a b = (\<Sum>k = 1..l. blocks (512 ^ k) a b)"

definition kernel_costs :: "'e machine \<Rightarrow> nat \<Rightarrow> nat \<Rightarrow> nat \<Rightarrow> (nat \<times> 'e machine) result \<Rightarrow> bool" where
  "kernel_costs m l ps pe r = (case r of
     Inl e \<Rightarrow> e = Out_Of_Memory \<longrightarrow> card (free_of m) < tables_for l ps pe
   | Inr (k, m') \<Rightarrow> k = chunk (Suc l) ps pe \<and> spent m (tables_for l ps (ps + k)) m')"

lemma tables_for_simps [simp]: "tables_for 0 a b = 0" "tables_for (Suc l) a b = tables_for l a b + blocks (512 ^ Suc l) a b"
  "tables_for l a a = 0"
  by (simp_all add: tables_for_def blocks_def)

lemma blocks_split:
  assumes "a \<le> c" "c \<le> b" "c = a \<or> c mod B = 0" "0 < B"
  shows "blocks B a b = blocks B a c + blocks B c b"
proof (cases "a < c \<and> c < b")
  case True
  then have "c mod B = 0" using assms(3) by simp
  then obtain q where c: "c = q * B" by (auto simp: mod_eq_0_iff_dvd dvd_def mult.commute)
  then have q: "0 < q" using True by (cases q) auto
  have "(c - 1) div B = q - 1" by (rule div_nat_eqI) (use c q assms(4) in \<open>cases q; simp add: mult.commute\<close>)+
  moreover have "a div B \<le> (c - 1) div B" "c div B \<le> (b - 1) div B" using True by (auto intro!: div_le_mono)
  moreover have "c div B = q" using c assms(4) by simp
  ultimately show ?thesis using True q by (simp add: blocks_def)
qed (use assms in \<open>auto simp: blocks_def\<close>)

lemma blocks_one: "0 < k \<Longrightarrow> k \<le> B - a mod B \<Longrightarrow> 0 < B \<Longrightarrow> blocks B a (a + k) = 1"
proof -
  assume a: "0 < k" "k \<le> B - a mod B" "0 < B"
  have "(a + k - 1) div B = a div B" by (rule in_chunk[of _ a k]) (use a in auto)
  then show ?thesis using a(1) by (simp add: blocks_def)
qed

lemma dvd_power_512: "c mod 512 ^ l = 0 \<Longrightarrow> k \<le> l \<Longrightarrow> c mod (512::nat) ^ k = 0"
  by (meson dvd_eq_mod_eq_0 le_imp_power_dvd dvd_trans)

lemma tables_split:
  assumes "a \<le> c" "c \<le> b" "c = a \<or> c mod 512 ^ l = 0"
  shows "tables_for l a b = tables_for l a c + tables_for l c b"
proof -
  have "blocks (512 ^ k) a b = blocks (512 ^ k) a c + blocks (512 ^ k) c b" if "k \<in> {1..l}" for k
    by (rule blocks_split) (use assms that dvd_power_512[of c l k] in auto)
  then show ?thesis by (simp add: tables_for_def sum.distrib)
qed

lemma tables_more: "a < b \<Longrightarrow> tables_for l a b < tables_for (Suc l) a b"
  by (simp add: blocks_def)

lemma kernel_leaf_cost:
  assumes "wf_alloc m" "page_start pages < page_end pages"
  shows "kernel_costs m 0 (page_start pages) (page_end pages) (map_in_table ops (Suc 0) t frames pages Kernel fl m)"
proof -
  let ?s = "page_start pages mod 512" and ?N = "page_end pages - page_start pages"
  let ?n = "min ?N (512 - ?s)"
  have idx: "page_table_index (page_start pages) 1 = Inr ?s" "run_length pages ?s = Inr ?n"
    using assms(2) by (simp_all add: page_table_index_def run_length_def)
  let ?body = "\<lambda>i (m, frame_addr). Inr ((set_entry t i (make_entry ops frame_addr fl) m, frame_addr + 1), False)"
  have "case entry_loop ?body [?s..<?s + ?n] (m, page_start pages) of Inl e \<Rightarrow> False | Inr s' \<Rightarrow> spent m 0 (fst s')"
    by (rule entry_loop_rule[where I = "\<lambda>i s. spent m 0 (fst s)"]) (use assms(1) in \<open>auto simp: spent_refl\<close>)
  then show ?thesis
    using idx by (auto simp: identity_map_kernel_def kernel_costs_def chunk_def split: sum.splits prod.splits)
qed

lemma ensure_table_cost: "wf_alloc m \<Longrightarrow>
    (case ensure_table ops fl t i m of Inl e \<Rightarrow> e = Out_Of_Memory \<longrightarrow> card (free_of m) = 0 | Inr m3 \<Rightarrow> spent m 1 m3)"
  using alloc_frame_cost[of m] spent_refl[of m] by (auto simp: ensure_table_def Let_def split: sum.splits prod.splits)

text \<open>One iteration at level \<open>l + 2\<close>, from page \<open>p\<close> on.\<close>

lemma map_body_cost:
  assumes wf: "wf_alloc mc" and p: "page_start pgc = p" "p < page_end pgc"
    and rec: "\<And>t frames m. wf_alloc m \<Longrightarrow> kernel_costs m l p (page_end pgc) (map_in_table ops (Suc l) t frames pgc Kernel fl m)"
  shows "case map_body ops l t Kernel fl i (mc, frc, pgc, tot) of
      Inl e \<Rightarrow> e = Out_Of_Memory \<longrightarrow> card (free_of mc) < tables_for (Suc l) p (page_end pgc)
    | Inr ((m4, frc', pgc', tot'), stop) \<Rightarrow>
        let k = chunk (Suc l) p (page_end pgc) in
        pgc' = pgc\<lparr>page_start := p + k\<rparr> \<and> tot' = tot + k \<and> stop = (page_end pgc \<le> p + k) \<and> spent mc (tables_for (Suc l) p (p + k)) m4"
proof (cases "ensure_table ops fl t i mc")
  case (Inl e)
  then show ?thesis using ensure_table_cost[OF wf, of ops fl t i] tables_more[OF p(2), of l] by (auto simp: map_body_def)
next
  case (Inr m3)
  then have m3: "spent mc 1 m3" using ensure_table_cost[OF wf, of ops fl t i] by simp
  let ?r = "map_in_table ops (Suc l) (entry_addr ops (tables m3 t ! i)) frc pgc Kernel fl m3"
  have c: "kernel_costs m3 l p (page_end pgc) ?r" by (rule rec) (use m3 in \<open>simp add: spent_def\<close>)
  let ?k = "chunk (Suc l) p (page_end pgc)"
  have one: "blocks (512 ^ Suc l) p (p + ?k) = 1"
    by (rule blocks_one) (use chunk_pos[OF p(2)] chunk_le(1)[of "Suc l" p "page_end pgc"] in simp_all)
  show ?thesis
  proof (cases ?r)
    case (Inl e)
    then show ?thesis using c Inr m3 tables_more[OF p(2), of l] by (auto simp: kernel_costs_def spent_def map_body_def)
  next
    case (Inr x)
    then obtain m4 where x: "?r = Inr (?k, m4)" "spent m3 (tables_for l p (p + ?k)) m4"
      using c by (cases x) (auto simp: kernel_costs_def)
    have "spent mc (tables_for (Suc l) p (p + ?k)) m4"
      by (rule spent_trans[OF m3 x(2)]) (simp add: one del: power_Suc)
    then show ?thesis using x(1) \<open>ensure_table ops fl t i mc = Inr m3\<close> p by (simp add: map_body_def Let_def)
  qed
qed

lemma kernel_map_cost:
  assumes "wf_alloc m" "page_start pages < page_end pages"
  shows "kernel_costs m l (page_start pages) (page_end pages) (map_in_table ops (Suc l) t frames pages Kernel fl m)"
  using assms
proof (induction l arbitrary: t frames pages m)
  case 0
  then show ?case by (rule kernel_leaf_cost)
next
  case (Suc l)
  let ?ps = "page_start pages" and ?pe = "page_end pages" and ?B = "(512::nat) ^ Suc l" and ?L = "Suc l"
  let ?s = "?ps div ?B mod 512" and ?q = "?ps div ?B div 512"
  let ?T = "tables_for ?L ?ps"
  let ?E = "\<lambda>e. e = Out_Of_Memory \<longrightarrow> card (free_of m) < ?T ?pe"
  let ?I = "\<lambda>i (mc, frc :: phys_frame_range, pgc, tot). pgc = pages\<lparr>page_start := ?ps + tot\<rparr> \<and> ?ps + tot < ?pe \<and>
      (?ps + tot) div ?B = ?ps div ?B + (i - ?s) \<and> (tot = 0 \<or> (?ps + tot) mod ?B = 0) \<and> (?s < i \<longrightarrow> 0 < tot) \<and> spent m (?T (?ps + tot)) mc"
  let ?Q = "\<lambda>(mc, frc :: phys_frame_range, pgc :: page_range, tot). tot = chunk (Suc ?L) ?ps ?pe \<and> spent m (?T (?ps + tot)) mc"
  have P: "?ps div ?B = 512 * ?q + ?s" "?s < 512" by simp_all
  have "case entry_loop (map_body ops l t Kernel fl) [?s..<512] (m, frames, pages, 0) of Inl e \<Rightarrow> ?E e | Inr s' \<Rightarrow> ?Q s'"
  proof (rule entry_loop_rule[where I = ?I])
    fix i st assume i: "?s \<le> i" "i < 512" and I: "?I i st"
    obtain mc frc pgc tot where st: "st = (mc, frc, pgc, tot)" by (cases st)
    define p where "p = ?ps + tot"
    have J: "pgc = pages\<lparr>page_start := p\<rparr>" "p < ?pe" "p div ?B = ?ps div ?B + (i - ?s)" "tot = 0 \<or> p mod ?B = 0"
      "spent m (?T p) mc" "wf_alloc mc"
      using I st by (simp_all add: spent_def p_def del: power_Suc)
    let ?k = "chunk ?L p ?pe"
    have split: "?T b = ?T p + tables_for ?L p b" if "p \<le> b" for b
      by (rule tables_split) (use that J(4) in \<open>auto simp: p_def\<close>)
    have rec: "kernel_costs m' l p (page_end pgc) (map_in_table ops (Suc l) t' frames' pgc Kernel fl m')" if "wf_alloc m'" for t' frames' m'
      using Suc.IH[OF that, of pgc t' frames'] J(1,2) by simp
    have pgc: "page_start pgc = p" "p < page_end pgc" "page_end pgc = ?pe" "pgc\<lparr>page_start := p + ?k\<rparr> = pages\<lparr>page_start := p + ?k\<rparr>"
      using J(1,2) by simp_all
    note body = map_body_cost[OF J(6) pgc(1,2) rec, where t = t and i = i and frc = frc and tot = tot, folded st, unfolded Let_def pgc(3,4)]
    have "0 < ?B" by simp
    note bs = block_step[OF this P i, of tot, folded p_def, OF J(3)]
    show "case map_body ops l t Kernel fl i st of Inl e \<Rightarrow> ?E e | Inr (s', stop) \<Rightarrow> if stop then ?Q s' else ?I (Suc i) s'"
    proof (cases "map_body ops l t Kernel fl i st")
      case (Inl e)
      then show ?thesis using body J(2,5) split[of ?pe] by (auto simp: spent_def)
    next
      case (Inr y)
      then obtain m4 frc' stop where y: "y = ((m4, frc', pages\<lparr>page_start := p + ?k\<rparr>, tot + ?k), stop)" "stop = (?pe \<le> p + ?k)"
        "spent mc (tables_for ?L p (p + ?k)) m4" using body by (cases y) (auto simp del: tables_for_simps)
      have sp: "spent m (?T (p + ?k)) m4" by (rule spent_trans[OF J(5) y(3)]) (simp only: split[of "p + ?k"] le_add1 order_refl)
      have room: "tot + ?k \<le> 512 * ?B - ?ps mod (512 * ?B)" "?k \<le> ?pe - p" using bs(2) chunk_le[of ?L p ?pe] by linarith+
      have e: "?ps + (tot + ?k) = p + ?k" by (simp add: p_def)
      show ?thesis
      proof (cases stop)
        case True
        then have "tot + ?k = ?pe - ?ps" using y(2) room(2) J(2) unfolding p_def by linarith
        then have "chunk (Suc ?L) ?ps ?pe = tot + ?k" using room(1) by (simp add: chunk_def)
        then show ?thesis using Inr y(1) True sp by (simp add: e del: tables_for_simps)
      next
        case False
        then have "?k = ?B - p mod ?B" using y(2) J(2) by (simp add: chunk_def del: power_Suc split: if_splits)
        then have "(p + ?k) div ?B = ?ps div ?B + (Suc i - ?s)" "(p + ?k) mod ?B = 0" using bs(3,4) by simp_all
        then show ?thesis using Inr y(1,2) False sp chunk_pos[OF J(2), of ?L] by (simp add: e del: tables_for_simps power_Suc)
      qed
    qed
  next
    fix st assume I: "?I 512 st"
    obtain mc frc pgc tot where st: "st = (mc, frc, pgc, tot)" by (cases st)
    have "tot = 512 * ?B - ?ps mod (512 * ?B)" by (rule block_end[OF _ P]) (use I st in auto)
    then show "?Q st" using I st by (auto simp: chunk_def)
  qed (use Suc.prems spent_refl[OF Suc.prems(1)] P in auto)
  then show ?case unfolding map_in_table_loop by (auto simp: kernel_costs_def split: sum.splits prod.splits)
qed

text \<open>Identity mapping as a whole: out of memory only with fewer free frames than tables; what is left is known up to the tables.\<close>

lemma identity_map_total:
  assumes ops: "page_table_entry ops valid_flags" and g: "good ops (Suc l) t m" and fl: "valid_flags fl"
    and ne: "page_start pages < page_end pages" "page_end pages \<le> 512 ^ Suc l" "page_end pages \<le> 2 ^ 40"
    and a: "root_table a = t" "depth a = Suc l"
  shows "(map_pages ops a pages Kernel fl m = Inl Out_Of_Memory \<and> card (free_of m) < tables_for l (page_start pages) (page_end pages)) \<or>
    (\<exists>m'. map_pages ops a pages Kernel fl m = Inr m' \<and> good ops (Suc l) t m' \<and>
       map_post ops (\<lambda>p f. f = p) False (Suc l) t (page_start pages) (page_end pages - page_start pages) m m' \<and>
       card (free_of m) \<le> card (free_of m') + tables_for l (page_start pages) (page_end pages))"
proof -
  have wf: "wf_alloc m" using g by (simp add: good_def)
  have "mode (\<lambda>p f. f = p) False Kernel (frame_range 0 0) pages" using ne(3) by (simp add: mode_def)
  note map = page_table_entry.map_range_correct[OF ops g _ fl ne(1,2) this]
  have "chunk (Suc l) (page_start pages) (page_end pages) = page_end pages - page_start pages"
    using ne(1,2) by (simp add: chunk_def)
  then show ?thesis
    using map kernel_map_cost[OF wf ne(1), of l ops t "frame_range 0 0" fl] ne(1) a
    by (auto simp: map_pages_def kernel_costs_def spent_def simp del: map_in_table.simps)
qed

end
