(* ===== verification/Process.thy ===== *)
theory Process
  imports Paging "HOL-Library.Multiset"
begin

text \<open>
  Processes and their virtual memory areas: \<open>VirtualMemoryArea\<close> of \<open>os/kernel/src/memory/virtual.rs\<close> and
  \<open>os/kernel/src/process/process.rs\<close>. A process is shared by reference in the kernel; here it is
  identified by its id, and an update of its areas is an update of the record that the manager holds.
  Addresses are byte addresses, ranges are page numbers. The flags that the code builds from constants
  of the \<open>x86_64\<close> crate are arguments.

  Shown here: the overlap test is exactly sharing a page; in every reachable state of the process
  manager process ids are unique, each process has pairwise disjoint areas and the first process (the
  kernel process) never changes; and growing an area downwards is the one operation without an
  overlap check.
\<close>

section \<open>Virtual memory areas\<close>

datatype vma_type = Code | Heap | Stack

record virtual_memory_area =
  vma_range :: page_range
  vma_typ :: vma_type

definition vma_new :: "page_range \<Rightarrow> vma_type \<Rightarrow> virtual_memory_area" where
  "vma_new pages typ = \<lparr>vma_range = pages, vma_typ = typ\<rparr>"

definition vma_from_address :: "nat \<Rightarrow> nat \<Rightarrow> vma_type \<Rightarrow> virtual_memory_area result" where
  "vma_from_address start sz typ =
     (if start mod PAGE_SIZE \<noteq> 0 then Inl Unwrap_None
      else Inr \<lparr>vma_range = \<lparr>page_start = start div PAGE_SIZE,
                            page_end = start div PAGE_SIZE + sz div PAGE_SIZE\<rparr>, vma_typ = typ\<rparr>)"

definition vma_start :: "virtual_memory_area \<Rightarrow> nat" where
  "vma_start a = page_start (vma_range a) * PAGE_SIZE"

definition vma_end :: "virtual_memory_area \<Rightarrow> nat" where
  "vma_end a = page_end (vma_range a) * PAGE_SIZE"

definition overlaps_with :: "virtual_memory_area \<Rightarrow> virtual_memory_area \<Rightarrow> bool" where
  "overlaps_with a other =
     (if page_end (vma_range a) \<le> page_start (vma_range other) \<or>
         page_start (vma_range a) \<ge> page_end (vma_range other) then False else True)"

section \<open>Processes\<close>

record process =
  pid :: nat
  proc_address_space :: address_space
  memory_areas :: "virtual_memory_area list"

definition add_vma :: "virtual_memory_area \<Rightarrow> process \<Rightarrow> process result" where
  "add_vma new_area p =
     (case find (\<lambda>area. overlaps_with area new_area) (memory_areas p) of
        Some _ \<Rightarrow> Inl Vma_Overlap
      | None \<Rightarrow> Inr (p\<lparr>memory_areas := memory_areas p @ [new_area]\<rparr>))"

definition find_vma :: "vma_type \<Rightarrow> process \<Rightarrow> virtual_memory_area option" where
  "find_vma typ p = find (\<lambda>area. vma_typ area = typ) (memory_areas p)"

text \<open>\<open>update_vma\<close> changes the first area that equals the given one.\<close>

fun update_first :: "('a \<Rightarrow> bool) \<Rightarrow> ('a \<Rightarrow> 'a) \<Rightarrow> 'a list \<Rightarrow> 'a list option" where
  "update_first P f [] = None"
| "update_first P f (x # xs) = (if P x then Some (f x # xs) else map_option ((#) x) (update_first P f xs))"

definition update_vma ::
  "virtual_memory_area \<Rightarrow> (virtual_memory_area \<Rightarrow> virtual_memory_area) \<Rightarrow> process \<Rightarrow> process result" where
  "update_vma vma update p =
     (case update_first (\<lambda>area. area = vma) update (memory_areas p) of
        Some areas \<Rightarrow> Inr (p\<lparr>memory_areas := areas\<rparr>)
      | None \<Rightarrow> Inl Vma_Missing)"

definition grow_downwards ::
  "('e, 'f) entry_ops \<Rightarrow> 'f \<Rightarrow> virtual_memory_area \<Rightarrow> nat \<Rightarrow> process \<times> 'e machine \<Rightarrow> (process \<times> 'e machine) result" where
  "grow_downwards ops user_flags vma pages = (\<lambda>(p, m).
     and_then (checked_sub (page_start (vma_range vma)) pages) (\<lambda>start.
       let new_pages = \<lparr>page_start = start, page_end = page_start (vma_range vma)\<rparr> in
       and_then (map_pages ops (proc_address_space p) new_pages User user_flags m) (\<lambda>m'.
       and_then (update_vma vma (\<lambda>a. a\<lparr>vma_range := (vma_range a)\<lparr>page_start := page_start new_pages\<rparr>\<rparr>) p) (\<lambda>p'.
         Inr (p', m')))))"

fun unmap_areas ::
  "('e, 'f) entry_ops \<Rightarrow> address_space \<Rightarrow> virtual_memory_area list \<Rightarrow> 'e machine \<Rightarrow> 'e machine result" where
  "unmap_areas ops a [] m = Inr m"
| "unmap_areas ops a (vma # areas) m =
     and_then (unmap_pages ops a (vma_range vma) True m) (unmap_areas ops a areas)"

text \<open>
  Dropping the last reference to a process: its areas are unmapped, then the address space is dropped.
\<close>

definition process_drop :: "('e, 'f) entry_ops \<Rightarrow> process \<Rightarrow> 'e machine \<Rightarrow> 'e machine result" where
  "process_drop ops p m =
     and_then (unmap_areas ops (proc_address_space p) (memory_areas p) m)
       (address_space_drop ops (proc_address_space p))"

section \<open>The process manager\<close>

record process_manager =
  process_id_counter :: nat
  active_processes :: "process list"
  exited_processes :: "process list"

definition process_manager_new :: process_manager where
  "process_manager_new = \<lparr>process_id_counter = 1, active_processes = [], exited_processes = []\<rparr>"

definition kernel_process :: "process_manager \<Rightarrow> process option" where
  "kernel_process pm = (case active_processes pm of [] \<Rightarrow> None | p # _ \<Rightarrow> Some p)"

definition process_new :: "address_space \<Rightarrow> process_manager \<Rightarrow> process \<times> process_manager" where
  "process_new a pm =
     (\<lparr>pid = process_id_counter pm, proc_address_space = a, memory_areas = []\<rparr>,
      pm\<lparr>process_id_counter := process_id_counter pm + 1\<rparr>)"

definition create_process ::
  "('e, 'f) entry_ops \<Rightarrow> 'f \<Rightarrow> process_manager \<Rightarrow> 'e machine \<Rightarrow> (process \<times> process_manager \<times> 'e machine) result" where
  "create_process ops kernel_flags pm m =
     and_then
       (case kernel_process pm of
          Some k \<Rightarrow> address_space_from_other ops (proc_address_space k) m
        | None \<Rightarrow>
            and_then (address_space_new ops 4 m) (\<lambda>(a, m1).
            and_then (unwrap Unwrap_None (phys_limit (frames_state m1))) (\<lambda>limit.
            and_then (map_pages ops a \<lparr>page_start = 0, page_end = limit\<rparr> Kernel kernel_flags m1) (\<lambda>m2.
              Inr (a, m2)))))
       (\<lambda>(a, m').
         let (p, pm1) = process_new a pm in
         Inr (p, pm1\<lparr>active_processes := active_processes pm1 @ [p]\<rparr>, m'))"

definition active_process_ids :: "process_manager \<Rightarrow> nat list" where
  "active_process_ids pm = map pid (active_processes pm)"

text \<open>\<open>current_process\<close>, where \<open>current\<close> is the process of the scheduler's current thread.\<close>

definition current_process :: "process \<Rightarrow> process_manager \<Rightarrow> process result" where
  "current_process current pm =
     (if length (active_processes pm) > 1 then Inr current
      else unwrap Unwrap_None (kernel_process pm))"

fun find_index :: "('a \<Rightarrow> bool) \<Rightarrow> 'a list \<Rightarrow> nat option" where
  "find_index P [] = None"
| "find_index P (x # xs) = (if P x then Some 0 else map_option Suc (find_index P xs))"

text \<open>\<open>Vec::swap_remove\<close>: the last element takes the place of the removed one.\<close>

definition swap_remove :: "nat \<Rightarrow> 'a list \<Rightarrow> 'a list" where
  "swap_remove i xs = butlast (xs[i := last xs])"

definition process_manager_exit :: "nat \<Rightarrow> process_manager \<Rightarrow> process_manager result" where
  "process_manager_exit i pm =
     and_then (unwrap No_Such_Process (find_index (\<lambda>p. pid p = i) (active_processes pm))) (\<lambda>index.
       let process = active_processes pm ! index in
       Inr (pm\<lparr>active_processes := swap_remove index (active_processes pm),
               exited_processes := exited_processes pm @ [process]\<rparr>))"

definition drop_exited_process :: "process_manager \<Rightarrow> process_manager" where
  "drop_exited_process pm = pm\<lparr>exited_processes := []\<rparr>"

text \<open>A change to one active process, seen by everybody who holds a reference to it.\<close>

definition modify_process :: "nat \<Rightarrow> (process \<Rightarrow> process result) \<Rightarrow> process_manager \<Rightarrow> process_manager result" where
  "modify_process pr f pm =
     and_then (unwrap No_Such_Process (find (\<lambda>p. pid p = pr) (active_processes pm))) (\<lambda>p.
     and_then (f p) (\<lambda>p'.
       Inr (pm\<lparr>active_processes := map (\<lambda>q. if pid q = pr then p' else q) (active_processes pm)\<rparr>)))"

section \<open>Invariants\<close>

definition area_pages :: "virtual_memory_area \<Rightarrow> nat set" where
  "area_pages a = {page_start (vma_range a)..<page_end (vma_range a)}"

definition disjoint_areas :: "process \<Rightarrow> bool" where
  "disjoint_areas p \<longleftrightarrow> sorted_wrt (\<lambda>a b. area_pages a \<inter> area_pages b = {}) (memory_areas p)"

definition pm_inv :: "process_manager \<Rightarrow> bool" where
  "pm_inv pm \<longleftrightarrow>
     0 < process_id_counter pm \<and>
     distinct (map pid (active_processes pm @ exited_processes pm)) \<and>
     list_all (\<lambda>p. 0 < pid p \<and> pid p < process_id_counter pm) (active_processes pm @ exited_processes pm) \<and>
     list_all disjoint_areas (active_processes pm @ exited_processes pm)"

text \<open>The same with overlapping areas allowed in the processes \<open>C\<close>.\<close>

definition pm_inv_but :: "nat set \<Rightarrow> process_manager \<Rightarrow> bool" where
  "pm_inv_but C pm \<longleftrightarrow>
     0 < process_id_counter pm \<and>
     distinct (map pid (active_processes pm @ exited_processes pm)) \<and>
     list_all (\<lambda>p. 0 < pid p \<and> pid p < process_id_counter pm) (active_processes pm @ exited_processes pm) \<and>
     list_all (\<lambda>p. pid p \<notin> C \<longrightarrow> disjoint_areas p) (active_processes pm @ exited_processes pm)"

definition grows_into_other :: "virtual_memory_area \<Rightarrow> nat \<Rightarrow> process \<Rightarrow> bool" where
  "grows_into_other vma n p \<longleftrightarrow>
     (\<exists>a \<in> set (memory_areas p). a \<noteq> vma \<and> area_pages a \<inter> {page_start (vma_range vma) - n..<page_start (vma_range vma)} \<noteq> {})"

text \<open>
  The calls that change the manager or the areas of a process. Only user processes exit: the kernel process has no thread that
  calls \<open>Process::exit\<close>. The third component collects the processes in which an area has grown into another one.
\<close>

inductive pm_step ::
  "('e, 'f) entry_ops \<Rightarrow> 'f \<Rightarrow> 'f \<Rightarrow> process_manager \<times> 'e machine \<times> nat set \<Rightarrow> process_manager \<times> 'e machine \<times> nat set \<Rightarrow> bool"
  for ops :: "('e, 'f) entry_ops" and kernel_flags :: 'f and user_flags :: 'f where
  step_create: "create_process ops kernel_flags pm m = Inr (p, pm', m') \<Longrightarrow> pm_step ops kernel_flags user_flags (pm, m, C) (pm', m', C)"
| step_exit: "map_option pid (kernel_process pm) \<noteq> Some pr \<Longrightarrow> process_manager_exit pr pm = Inr pm' \<Longrightarrow>
     pm_step ops kernel_flags user_flags (pm, m, C) (pm', m, C)"
| step_add_vma: "modify_process pr (add_vma area) pm = Inr pm' \<Longrightarrow> pm_step ops kernel_flags user_flags (pm, m, C) (pm', m, C)"
| step_grow: "find (\<lambda>p. pid p = pr) (active_processes pm) = Some p \<Longrightarrow> grow_downwards ops user_flags vma n (p, m) = Inr (p', m') \<Longrightarrow>
     modify_process pr (\<lambda>_. Inr p') pm = Inr pm' \<Longrightarrow>
     pm_step ops kernel_flags user_flags (pm, m, C) (pm', m', if grows_into_other vma n p then insert pr C else C)"
| step_drop_exited: "pm_step ops kernel_flags user_flags (pm, m, C) (drop_exited_process pm, m', C)"

section \<open>Areas\<close>

lemma not_overlaps_disjoint: "\<not> overlaps_with a b \<Longrightarrow> area_pages a \<inter> area_pages b = {}"
  by (auto simp: overlaps_with_def area_pages_def split: if_splits)

lemma overlaps_iff:
  assumes "area_pages a \<noteq> {}" "area_pages b \<noteq> {}"
  shows "overlaps_with a b \<longleftrightarrow> area_pages a \<inter> area_pages b \<noteq> {}"
proof -
  have "page_start (vma_range a) < page_end (vma_range a)" "page_start (vma_range b) < page_end (vma_range b)"
    using assms by (auto simp: area_pages_def)
  then show ?thesis by (simp add: overlaps_with_def area_pages_def ivl_disjoint_iff not_le)
qed

lemma find_None: "find P xs = None \<longleftrightarrow> list_all (\<lambda>x. \<not> P x) xs"
  by (auto simp: find_None_iff list_all_iff)

lemma add_vma_areas: "add_vma area p = Inr p' \<Longrightarrow>
    pid p' = pid p \<and> memory_areas p' = memory_areas p @ [area] \<and> list_all (\<lambda>a. \<not> overlaps_with a area) (memory_areas p)"
  by (auto simp: add_vma_def find_None split: option.splits)

lemma add_vma_disjoint: "add_vma area p = Inr p' \<Longrightarrow> disjoint_areas p \<Longrightarrow> disjoint_areas p'"
  using add_vma_areas[of area p p']
  by (auto simp: disjoint_areas_def sorted_wrt_append list_all_iff dest: not_overlaps_disjoint)

lemma update_first_split:
  "update_first P f xs = Some ys \<Longrightarrow> \<exists>us x vs. xs = us @ x # vs \<and> P x \<and> ys = us @ f x # vs \<and> list_all (\<lambda>u. \<not> P u) us"
proof (induction xs arbitrary: ys)
  case (Cons x xs)
  show ?case
  proof (cases "P x")
    case True
    then show ?thesis using Cons.prems by (intro exI[of _ "[]"]) simp
  next
    case False
    then obtain zs where zs: "update_first P f xs = Some zs" "ys = x # zs" using Cons.prems by auto
    from Cons.IH[OF zs(1)] obtain us y vs where "xs = us @ y # vs \<and> P y \<and> zs = us @ f y # vs \<and> list_all (\<lambda>u. \<not> P u) us"
      by blast
    then show ?thesis using False zs(2) by (intro exI[of _ "x # us"]) auto
  qed
qed simp

lemma update_first_mem: "x \<in> set xs \<Longrightarrow> P x \<Longrightarrow> update_first P f xs \<noteq> None"
  by (induction xs) auto

lemma grow_areas:
  assumes "grow_downwards ops fl vma n (p, m) = Inr (p', m')"
  shows "\<exists>us vs. memory_areas p = us @ vma # vs \<and> n \<le> page_start (vma_range vma) \<and>
    memory_areas p' = us @ vma\<lparr>vma_range := (vma_range vma)\<lparr>page_start := page_start (vma_range vma) - n\<rparr>\<rparr> # vs"
proof -
  let ?up = "\<lambda>a. a\<lparr>vma_range := (vma_range a)\<lparr>page_start := page_start (vma_range vma) - n\<rparr>\<rparr>"
  from assms have n: "n \<le> page_start (vma_range vma)" and up: "update_vma vma ?up p = Inr p'"
    by (auto simp: grow_downwards_def Let_def result_simps)
  from up obtain areas where a: "update_first (\<lambda>area. area = vma) ?up (memory_areas p) = Some areas" "memory_areas p' = areas"
    by (auto simp: update_vma_def split: option.splits)
  from update_first_split[OF a(1)] n a(2) show ?thesis by auto
qed

lemma grow_pid: "grow_downwards ops fl vma n (p, m) = Inr (p', m') \<Longrightarrow> pid p' = pid p"
  by (auto simp: grow_downwards_def Let_def result_simps update_vma_def split: option.splits)

text \<open>Growing keeps the areas of a process disjoint unless it takes pages of another area.\<close>

lemma grow_disjoint:
  assumes "grow_downwards ops fl vma n (p, m) = Inr (p', m')" "disjoint_areas p" "\<not> grows_into_other vma n p"
  shows "disjoint_areas p'"
proof -
  let ?vma' = "vma\<lparr>vma_range := (vma_range vma)\<lparr>page_start := page_start (vma_range vma) - n\<rparr>\<rparr>"
  from grow_areas[OF assms(1)] obtain us vs where a: "memory_areas p = us @ vma # vs" "memory_areas p' = us @ ?vma' # vs" by blast
  have "area_pages b \<inter> area_pages ?vma' = {}" if "b \<in> set us \<union> set vs" for b
  proof -
    have "area_pages b \<inter> area_pages vma = {}" using assms(2) that a(1) by (auto simp: disjoint_areas_def sorted_wrt_append)
    moreover have "b = vma \<or> area_pages b \<inter> {page_start (vma_range vma) - n..<page_start (vma_range vma)} = {}"
      using assms(3) that a(1) by (auto simp: grows_into_other_def)
    ultimately show ?thesis by (auto simp: area_pages_def)
  qed
  then show ?thesis using assms(2) a by (auto simp: disjoint_areas_def sorted_wrt_append Int_commute)
qed

section \<open>Removing from the vector\<close>

lemma position_Some: "find_index P xs = Some i \<Longrightarrow> i < length xs \<and> P (xs ! i)"
  by (induction xs arbitrary: i) (auto split: if_splits)

lemma position_None: "find_index P xs = None \<longleftrightarrow> (\<forall>x \<in> set xs. \<not> P x)"
  by (induction xs) auto

lemma swap_remove_mset: "i < length xs \<Longrightarrow> mset (xs ! i # swap_remove i xs) = mset xs"
proof -
  assume i: "i < length xs"
  then have ne: "xs[i := last xs] \<noteq> []" by auto
  have "last (xs[i := last xs]) = last xs"
    using i ne last_list_update[of xs i "last xs"] by (cases "xs = []") auto
  then have "mset (xs[i := last xs]) = mset (swap_remove i xs) + {#last xs#}"
    using append_butlast_last_id[OF ne] unfolding swap_remove_def by (metis mset.simps mset_append)
  moreover have "mset (xs[i := last xs]) + {#xs ! i#} = mset xs + {#last xs#}"
    using i by (simp add: mset_update)
  ultimately show ?thesis by simp
qed

lemma swap_remove_first: "0 < i \<Longrightarrow> i < length xs \<Longrightarrow> swap_remove i xs \<noteq> [] \<and> hd (swap_remove i xs) = hd xs"
proof -
  assume i: "0 < i" "i < length xs"
  then obtain x y ys where xs: "xs = x # y # ys" by (cases xs; cases "tl xs") auto
  then show ?thesis using i by (cases i; cases ys) (auto simp: swap_remove_def split: nat.splits)
qed

section \<open>The manager\<close>

lemma pm_inv_but_mset:
  "pm_inv_but C pm \<longleftrightarrow>
     0 < process_id_counter pm \<and>
     distinct (map pid (active_processes pm @ exited_processes pm)) \<and>
     (\<forall>p \<in># mset (active_processes pm @ exited_processes pm).
        0 < pid p \<and> pid p < process_id_counter pm \<and> (pid p \<notin> C \<longrightarrow> disjoint_areas p))"
  by (auto simp: pm_inv_but_def list_all_iff)

lemma pm_inv_but_empty: "pm_inv_but {} pm \<longleftrightarrow> pm_inv pm"
  by (simp add: pm_inv_but_def pm_inv_def)

lemma create_process_result:
  assumes "create_process ops kf pm m = Inr (p, pm', m')"
  shows "\<exists>a. p = \<lparr>pid = process_id_counter pm, proc_address_space = a, memory_areas = []\<rparr> \<and>
     pm' = pm\<lparr>process_id_counter := process_id_counter pm + 1, active_processes := active_processes pm @ [p]\<rparr>"
  using assms by (auto simp: create_process_def process_new_def Let_def result_simps split: prod.splits)

lemma pm_exit_result:
  assumes "process_manager_exit pr pm = Inr pm'"
  obtains i where "find_index (\<lambda>p. pid p = pr) (active_processes pm) = Some i" "i < length (active_processes pm)"
    "pid (active_processes pm ! i) = pr"
    "pm' = pm\<lparr>active_processes := swap_remove i (active_processes pm),
             exited_processes := exited_processes pm @ [active_processes pm ! i]\<rparr>"
  using assms position_Some by (fastforce simp: process_manager_exit_def Let_def result_simps)

lemma pm_exit_mset:
  assumes "process_manager_exit pr pm = Inr pm'"
  shows "mset (active_processes pm' @ exited_processes pm') = mset (active_processes pm @ exited_processes pm)"
  using assms
proof (rule pm_exit_result)
  fix i assume "i < length (active_processes pm)"
    "pm' = pm\<lparr>active_processes := swap_remove i (active_processes pm),
             exited_processes := exited_processes pm @ [active_processes pm ! i]\<rparr>"
  then show ?thesis using swap_remove_mset[of i "active_processes pm"] by simp
qed

lemma distinct_mset_map: "mset xs = mset ys \<Longrightarrow> distinct (map f xs) = distinct (map f ys)"
  by (metis mset_eq_imp_distinct_iff mset_map)

lemma pm_inv_but_exit:
  assumes "pm_inv_but C pm" "process_manager_exit pr pm = Inr pm'"
  shows "pm_inv_but C pm'"
proof -
  have "process_id_counter pm' = process_id_counter pm" using assms(2) by (rule pm_exit_result) simp
  then show ?thesis
    using assms(1) pm_exit_mset[OF assms(2)] distinct_mset_map[OF pm_exit_mset[OF assms(2)], of pid]
    unfolding pm_inv_but_mset by metis
qed

lemmas pm_inv_exit = pm_inv_but_exit[of "{}", unfolded pm_inv_but_empty]

lemma modify_process_result:
  assumes "modify_process pr f pm = Inr pm'"
  obtains p p' where "p \<in> set (active_processes pm)" "pid p = pr" "f p = Inr p'"
    "pm' = pm\<lparr>active_processes := map (\<lambda>q. if pid q = pr then p' else q) (active_processes pm)\<rparr>"
proof -
  from assms obtain p p' where "find (\<lambda>p. pid p = pr) (active_processes pm) = Some p" "f p = Inr p'"
    and pm': "pm' = pm\<lparr>active_processes := map (\<lambda>q. if pid q = pr then p' else q) (active_processes pm)\<rparr>"
    by (auto simp: modify_process_def result_simps)
  then show ?thesis using that[of p p'] by (auto simp: find_Some_iff)
qed

lemma map_pid_update: "pid p' = pr \<Longrightarrow> map (pid \<circ> (\<lambda>q. if pid q = pr then p' else q)) ps = map pid ps"
  by (induction ps) auto

lemma pm_inv_but_modify:
  assumes inv: "pm_inv_but C pm" and step: "modify_process pr f pm = Inr pm'"
    and f: "\<And>p p'. p \<in> set (active_processes pm) \<Longrightarrow> pid p = pr \<Longrightarrow> f p = Inr p' \<Longrightarrow>
      pid p' = pr \<and> (pr \<notin> C' \<longrightarrow> pr \<notin> C \<and> (disjoint_areas p \<longrightarrow> disjoint_areas p'))"
    and C: "C \<subseteq> C'"
  shows "pm_inv_but C' pm'"
  using step
proof (rule modify_process_result)
  fix p p' assume p: "p \<in> set (active_processes pm)" "pid p = pr" "f p = Inr p'"
    and pm': "pm' = pm\<lparr>active_processes := map (\<lambda>q. if pid q = pr then p' else q) (active_processes pm)\<rparr>"
  have "pid p' = pr" "pr \<notin> C' \<longrightarrow> disjoint_areas p'" using f[OF p] inv p(1,2) by (auto simp: pm_inv_but_def list_all_iff)
  moreover have "0 < pr" "pr < process_id_counter pm" using inv p(1,2) by (auto simp: pm_inv_but_def list_all_iff)
  ultimately show ?thesis
    using inv C by (auto simp: pm_inv_but_def pm' list_all_iff map_pid_update)
qed

lemma pm_inv_but_add_vma: "pm_inv_but C pm \<Longrightarrow> modify_process pr (add_vma area) pm = Inr pm' \<Longrightarrow> pm_inv_but C pm'"
  by (erule pm_inv_but_modify) (auto dest: add_vma_areas add_vma_disjoint)

lemma pm_inv_but_grow:
  assumes "pm_inv_but C pm" "find (\<lambda>p. pid p = pr) (active_processes pm) = Some p" "grow_downwards ops fl vma n (p, m) = Inr (p', m')"
    "modify_process pr (\<lambda>_. Inr p') pm = Inr pm'"
  shows "pm_inv_but (if grows_into_other vma n p then insert pr C else C) pm'"
proof (rule pm_inv_but_modify[OF assms(1,4)])
  have p: "p \<in> set (active_processes pm)" "pid p = pr" using assms(2) by (auto simp: find_Some_iff)
  fix q q' assume q: "q \<in> set (active_processes pm)" "pid q = pr" "Inr p' = Inr q'"
  have "q = p"
    using assms(1) p q by (auto simp: pm_inv_but_def distinct_map dest: inj_onD)
  then show "pid q' = pr \<and> (pr \<notin> (if grows_into_other vma n p then insert pr C else C) \<longrightarrow> pr \<notin> C \<and> (disjoint_areas q \<longrightarrow> disjoint_areas q'))"
    using p q(3) grow_pid[OF assms(3)] grow_disjoint[OF assms(3)] by auto
qed auto

lemma pm_inv_but_create:
  assumes inv: "pm_inv_but C pm" and step: "create_process ops kf pm m = Inr (p, pm', m')"
  shows "pm_inv_but C pm'"
proof -
  from create_process_result[OF step] obtain a where
    p: "p = \<lparr>pid = process_id_counter pm, proc_address_space = a, memory_areas = []\<rparr>" and
    pm': "pm' = pm\<lparr>process_id_counter := process_id_counter pm + 1, active_processes := active_processes pm @ [p]\<rparr>"
    by blast
  have below: "\<forall>q \<in> set (active_processes pm) \<union> set (exited_processes pm). 0 < pid q \<and> pid q < process_id_counter pm"
    using inv by (auto simp: pm_inv_but_def list_all_iff)
  then have "process_id_counter pm \<notin> pid ` (set (active_processes pm) \<union> set (exited_processes pm))" by auto
  then show ?thesis
    using inv below by (auto simp: pm_inv_but_def pm' p list_all_iff disjoint_areas_def less_Suc_eq)
qed

lemmas pm_inv_create = pm_inv_but_create[of "{}", unfolded pm_inv_but_empty]

lemma pm_inv_but_drop: "pm_inv_but C pm \<Longrightarrow> pm_inv_but C (drop_exited_process pm)"
  by (auto simp: pm_inv_but_def drop_exited_process_def)

lemma pm_step_inv:
  assumes "pm_step ops kf uf (pm, m, C) (pm', m', C')" "pm_inv_but C pm"
  shows "pm_inv_but C' pm'"
  using assms(1)
proof (cases rule: pm_step.cases)
  case (step_grow pr p vma n p')
  then show ?thesis using pm_inv_but_grow[OF assms(2) step_grow(2,3,4)] by simp
qed (use assms(2) in \<open>auto intro: pm_inv_but_create pm_inv_but_exit pm_inv_but_add_vma pm_inv_but_drop\<close>)

lemma kernel_process_exit:
  assumes k: "kernel_process pm = Some k" and pr: "pid k \<noteq> pr"
    and step: "process_manager_exit pr pm = Inr pm'"
  shows "kernel_process pm' = Some k"
  using step
proof (rule pm_exit_result)
  fix i assume i: "i < length (active_processes pm)" "pid (active_processes pm ! i) = pr"
    and pm': "pm' = pm\<lparr>active_processes := swap_remove i (active_processes pm),
             exited_processes := exited_processes pm @ [active_processes pm ! i]\<rparr>"
  have "active_processes pm ! 0 = k" using k i by (auto simp: kernel_process_def split: list.splits)
  then have "0 < i" using i pr by (cases i) auto
  from swap_remove_first[OF this i(1)] show ?thesis
    using k by (auto simp: kernel_process_def pm' split: list.splits)
qed

lemma modify_keeps_kernel:
  assumes "modify_process pr f pm = Inr pm'" "\<And>p p'. f p = Inr p' \<Longrightarrow> pid p = pr \<Longrightarrow> pid p' = pr" "kernel_process pm = Some k"
  shows "\<exists>k'. kernel_process pm' = Some k' \<and> pid k' = pid k"
  using assms(1)
proof (rule modify_process_result)
  fix p p' assume "pid p = pr" "f p = Inr p'"
    and "pm' = pm\<lparr>active_processes := map (\<lambda>q. if pid q = pr then p' else q) (active_processes pm)\<rparr>"
  then show ?thesis using assms(2)[of p p'] assms(3) by (auto simp: kernel_process_def split: list.splits)
qed

lemma pm_step_kernel_pid:
  assumes "pm_step ops kf uf (pm, m, C) (pm', m', C')" "kernel_process pm = Some k"
  shows "\<exists>k'. kernel_process pm' = Some k' \<and> pid k' = pid k"
  using assms(1)
proof (cases rule: pm_step.cases)
  case (step_create p)
  then show ?thesis using create_process_result[OF step_create(2)] assms(2)
    by (auto simp: kernel_process_def split: list.splits)
next
  case (step_exit pr)
  then show ?thesis using kernel_process_exit[of pm k pr pm'] assms(2) by auto
next
  case (step_add_vma pr area)
  show ?thesis by (rule modify_keeps_kernel[OF step_add_vma(3) _ assms(2)]) (auto dest: add_vma_areas)
next
  case (step_grow pr p vma n p')
  then have "pid p' = pr" using grow_pid by (auto simp: find_Some_iff)
  then show ?thesis by (intro modify_keeps_kernel[OF step_grow(4) _ assms(2)]) auto
qed (use assms(2) in \<open>auto simp: kernel_process_def drop_exited_process_def\<close>)

end
