(* ===== verification/Cpu.thy ===== *)
theory Cpu
  imports Prelude
begin

text \<open>
  The part of the processor that the assembly routines of the kernel use
  (\<open>os/kernel/src/process/thread.rs\<close> and \<open>os/kernel/src/syscall/syscall_dispatcher.rs\<close>): registers, the flags
  register, memory in cells of eight bytes, the page table base register and the kernel stack pointer in
  the task state segment.

  The three functions of the kernel that the routines call by name, \<open>tss_set_rsp0\<close> and \<open>tss_get_rsp0\<close> of
  \<open>os/kernel/src/lib.rs\<close> and \<open>unlock_scheduler\<close> of \<open>os/kernel/src/process/scheduler.rs\<close>, are definitions. The code the
  compiler makes of a function may also change scratch registers, flags and the memory of its own frames;
  that part is the argument \<open>call\<close>. What the routines rely on is the calling convention, the locale
  \<open>call_convention\<close>: a call returns with the callee-saved registers and the stack pointer as they were, and the
  three functions write to no memory but their frames. The spin lock around the task state segment is
  free when a switch starts, since \<open>switch_thread\<close> of the scheduler gives up when it is held.
\<close>

unbundle bit_operations_syntax

section \<open>State\<close>

datatype reg = RAX | RBX | RCX | RDX | RSI | RDI | RBP | RSP | R8 | R9 | R10 | R11 | R12 | R13 | R14 | R15

record cpu =
  regs :: "reg \<Rightarrow> u64"
  rip :: u64
  rflags :: u64
  seg_cs :: u64
  seg_ss :: u64
  cr3 :: u64
  mem :: "u64 \<Rightarrow> u64"
  tss_rsp0 :: u64
  scheduler_locked :: bool
  compared :: "u64 \<times> u64"

datatype callee = Tss_Set_Rsp0 | Tss_Get_Rsp0 | Unlock_Scheduler | Function_At u64

datatype instr =
    Push reg
  | Pop reg
  | Pushf
  | Popf
  | Mov reg reg
  | Store reg reg
  | Mov_Cr3 reg
  | Call callee
  | Call_Indirect u64 reg
  | Cmp reg u64
  | Jge_Panic panic
  | Cli
  | Sti
  | Ret
  | Iretq
  | Sysretq

section \<open>Instructions\<close>

definition set_reg :: "reg \<Rightarrow> u64 \<Rightarrow> cpu \<Rightarrow> cpu" where
  "set_reg r v c = c\<lparr>regs := (regs c)(r := v)\<rparr>"

definition push_value :: "u64 \<Rightarrow> cpu \<Rightarrow> cpu" where
  "push_value v c =
     (let sp = regs c RSP - 8 in c\<lparr>regs := (regs c)(RSP := sp), mem := (mem c)(sp := v)\<rparr>)"

definition stack_top :: "cpu \<Rightarrow> nat \<Rightarrow> u64" where
  "stack_top c i = mem c (regs c RSP + 8 * of_nat i)"

definition INTERRUPT_FLAG :: u64 where "INTERRUPT_FLAG = 0x200"

text \<open>
  A call leaves the return address to the called function. \<open>iretq\<close> takes instruction pointer, code segment, flags, stack pointer and stack segment from the
  stack. \<open>sysretq\<close> takes the instruction pointer from \<open>rcx\<close> and the flags from \<open>r11\<close> (without the reserved bits).
\<close>

text \<open>
  The functions called by name. \<open>VirtAddr::new\<close> accepts addresses whose upper 17 bits agree and panics for others.
\<close>

definition canonical_address :: "nat \<Rightarrow> bool" where
  "canonical_address a \<longleftrightarrow> a < 2 ^ 47 \<or> 2 ^ 64 - 2 ^ 47 \<le> a \<and> a < 2 ^ 64"

definition tss_set_rsp0 :: "u64 \<Rightarrow> cpu \<Rightarrow> cpu result" where
  "tss_set_rsp0 rsp0 c = and_then (guard Bad_Address (canonical_address (unat rsp0))) (\<lambda>_. Inr (c\<lparr>tss_rsp0 := rsp0\<rparr>))"

definition tss_get_rsp0 :: "cpu \<Rightarrow> u64" where
  "tss_get_rsp0 c = tss_rsp0 c"

definition unlock_scheduler :: "cpu \<Rightarrow> cpu" where
  "unlock_scheduler c = c\<lparr>scheduler_locked := False\<rparr>"

text \<open>A call: what the compiled function does besides, then its effect and its result in \<open>rax\<close>.\<close>

fun call_function :: "(callee \<Rightarrow> cpu \<Rightarrow> cpu) \<Rightarrow> callee \<Rightarrow> cpu \<Rightarrow> cpu result" where
  "call_function call Tss_Set_Rsp0 c = tss_set_rsp0 (regs c RDI) (call Tss_Set_Rsp0 c)"
| "call_function call Tss_Get_Rsp0 c = Inr (set_reg RAX (tss_get_rsp0 c) (call Tss_Get_Rsp0 c))"
| "call_function call Unlock_Scheduler c = Inr (unlock_scheduler (call Unlock_Scheduler c))"
| "call_function call (Function_At f) c = Inr (call (Function_At f) c)"

fun step :: "(callee \<Rightarrow> cpu \<Rightarrow> cpu) \<Rightarrow> instr \<Rightarrow> cpu \<Rightarrow> cpu result" where
  "step call (Push r) c = Inr (push_value (regs c r) c)"
| "step call (Pop r) c =
     Inr (let c1 = set_reg RSP (regs c RSP + 8) c in set_reg r (stack_top c 0) c1)"
| "step call Pushf c = Inr (push_value (rflags c) c)"
| "step call Popf c = Inr ((set_reg RSP (regs c RSP + 8) c)\<lparr>rflags := stack_top c 0\<rparr>)"
| "step call (Mov d s) c = Inr (set_reg d (regs c s) c)"
| "step call (Store a s) c = Inr (c\<lparr>mem := (mem c)(regs c a := regs c s)\<rparr>)"
| "step call (Mov_Cr3 s) c = Inr (c\<lparr>cr3 := regs c s\<rparr>)"
| "step call (Call f) c = call_function call f c"
| "step call (Call_Indirect base r) c = call_function call (Function_At (mem c (base + 8 * regs c r))) c"
| "step call (Cmp r v) c = Inr (c\<lparr>compared := (regs c r, v)\<rparr>)"
| "step call (Jge_Panic p) c =
     (if sint (snd (compared c)) \<le> sint (fst (compared c)) then Inl p else Inr c)"
| "step call Cli c = Inr (c\<lparr>rflags := rflags c AND NOT INTERRUPT_FLAG\<rparr>)"
| "step call Sti c = Inr (c\<lparr>rflags := rflags c OR INTERRUPT_FLAG\<rparr>)"
| "step call Ret c = Inr ((set_reg RSP (regs c RSP + 8) c)\<lparr>rip := stack_top c 0\<rparr>)"
| "step call Iretq c =
     Inr ((set_reg RSP (stack_top c 3) c)
       \<lparr>rip := stack_top c 0, seg_cs := stack_top c 1, rflags := stack_top c 2, seg_ss := stack_top c 4\<rparr>)"
| "step call Sysretq c =
     Inr (c\<lparr>rip := regs c RCX, rflags := (regs c R11 AND 0x3C7FD7) OR 2\<rparr>)"

fun exec :: "(callee \<Rightarrow> cpu \<Rightarrow> cpu) \<Rightarrow> instr list \<Rightarrow> cpu \<Rightarrow> cpu result" where
  "exec call [] c = Inr c"
| "exec call (i # is) c = and_then (step call i c) (exec call is)"

section \<open>The calling convention\<close>

definition callee_saved :: "reg list" where
  "callee_saved = [RBX, RBP, RSP, R12, R13, R14, R15]"

text \<open>The memory that a function may use for its frames, below a stack pointer.\<close>

definition below :: "nat \<Rightarrow> u64 \<Rightarrow> u64 \<Rightarrow> bool" where
  "below n sp a \<longleftrightarrow> 0 < unat (sp - a) \<and> unat (sp - a) \<le> n"

text \<open>A kernel stack has 64 pages; what remains of it after the frames of the routines here.\<close>

definition CALL_DEPTH :: nat where "CALL_DEPTH = 63 * 4096"

text \<open>
  Every function gives back the callee-saved registers. The code around the three functions called by name
  touches no memory but their own frames, and leaves the interrupt flag, the page tables, the task
  state segment and the scheduler's lock alone: changing those is the effect modelled above.
\<close>

fun is_helper :: "callee \<Rightarrow> bool" where
  "is_helper (Function_At f) = False"
| "is_helper f = True"

locale call_convention =
  fixes call :: "callee \<Rightarrow> cpu \<Rightarrow> cpu"
  assumes saved: "r \<in> set callee_saved \<Longrightarrow> regs (call f c) r = regs c r"
    and memory: "is_helper f \<Longrightarrow> \<not> below CALL_DEPTH (regs c RSP) a \<Longrightarrow> mem (call f c) a = mem c a"
    and control: "is_helper f \<Longrightarrow> cr3 (call f c) = cr3 c"
      "is_helper f \<Longrightarrow> rflags (call f c) AND INTERRUPT_FLAG = rflags c AND INTERRUPT_FLAG"
    and kernel_data: "is_helper f \<Longrightarrow> tss_rsp0 (call f c) = tss_rsp0 c"
      "is_helper f \<Longrightarrow> scheduler_locked (call f c) = scheduler_locked c"

text \<open>
  Functions of the system call table are reached by their address. They may change any memory but the
  cell their stack pointer points to and the given user stack.
\<close>

locale syscall_convention = call_convention call for call :: "callee \<Rightarrow> cpu \<Rightarrow> cpu" +
  fixes user_stack :: "u64 \<Rightarrow> bool"
  assumes function_memory: "a = regs c RSP \<or> user_stack a \<Longrightarrow> mem (call (Function_At f) c) a = mem c a"

text \<open>Compiled code that overwrites every scratch register, the arithmetic flags and the cell of the return address.\<close>

definition plain_call :: "callee \<Rightarrow> cpu \<Rightarrow> cpu" where
  "plain_call f c = c\<lparr>regs := (\<lambda>r. if r \<in> set callee_saved then regs c r else 0),
     rflags := rflags c AND INTERRUPT_FLAG, mem := (mem c)(regs c RSP - 8 := 0)\<rparr>"

lemma below_8: "below CALL_DEPTH sp (sp - 8)"
  by (simp add: below_def CALL_DEPTH_def)

interpretation plain: call_convention plain_call
proof
  show "mem (plain_call f c) a = mem c a" if "\<not> below CALL_DEPTH (regs c RSP) a" for f c a
    using that below_8 by (auto simp: plain_call_def)
qed (simp_all add: plain_call_def and.assoc)

text \<open>System calls that return the first parameter, with a user stack below the lower half boundary.\<close>

definition low_half :: "u64 \<Rightarrow> bool" where
  "low_half a \<longleftrightarrow> unat a < 2 ^ 47"

definition kernel_call :: "callee \<Rightarrow> cpu \<Rightarrow> cpu" where
  "kernel_call f c =
     (case f of Function_At _ \<Rightarrow> set_reg RAX (regs c RDI) c | _ \<Rightarrow> plain_call f c)"

interpretation kernel: syscall_convention kernel_call low_half
proof
  fix f c a
  show "is_helper f \<Longrightarrow> \<not> below CALL_DEPTH (regs c RSP) a \<Longrightarrow> mem (kernel_call f c) a = mem c a"
    using plain.memory[of f c a] by (auto simp: kernel_call_def split: callee.splits)
qed (auto simp: kernel_call_def set_reg_def plain.control plain.kernel_data callee_saved_def
    plain.saved[unfolded callee_saved_def] split: callee.splits)

section \<open>Pushing and popping registers\<close>

lemma exec_append: "exec call (is @ js) c = and_then (exec call is c) (exec call js)"
  by (induction "is" arbitrary: c) (auto simp: and_then_def split: sum.splits)

lemma set_reg_simps [simp]:
  "regs (set_reg r v c) = (regs c)(r := v)" "rip (set_reg r v c) = rip c" "rflags (set_reg r v c) = rflags c"
  "seg_cs (set_reg r v c) = seg_cs c" "seg_ss (set_reg r v c) = seg_ss c" "cr3 (set_reg r v c) = cr3 c"
  "mem (set_reg r v c) = mem c" "tss_rsp0 (set_reg r v c) = tss_rsp0 c" "scheduler_locked (set_reg r v c) = scheduler_locked c"
  "compared (set_reg r v c) = compared c"
  by (simp_all add: set_reg_def)

text \<open>The cells written by pushing a list of values from a stack pointer, first value highest.\<close>

fun push_all :: "u64 list \<Rightarrow> cpu \<Rightarrow> cpu" where
  "push_all [] c = c"
| "push_all (v # vs) c = push_all vs (push_value v c)"

lemma push_all_simps [simp]:
  "rip (push_all vs c) = rip c" "rflags (push_all vs c) = rflags c" "cr3 (push_all vs c) = cr3 c"
  "seg_cs (push_all vs c) = seg_cs c" "seg_ss (push_all vs c) = seg_ss c"
  "tss_rsp0 (push_all vs c) = tss_rsp0 c" "scheduler_locked (push_all vs c) = scheduler_locked c"
  "compared (push_all vs c) = compared c"
  "regs (push_all vs c) = (regs c)(RSP := regs c RSP - 8 * of_nat (length vs))"
  by (induction vs arbitrary: c) (auto simp: push_value_def Let_def algebra_simps)

lemma exec_pushes: "RSP \<notin> set rs \<Longrightarrow> exec call (map Push rs) c = Inr (push_all (map (regs c) rs) c)"
proof (induction rs arbitrary: c)
  case (Cons r rs)
  have e: "map (regs (push_value (regs c r) c)) rs = map (regs c) rs"
    using Cons.prems by (auto simp: push_value_def Let_def)
  from Cons show ?case by (simp add: e)
qed simp

lemma unat_plus_8: "unat d + 8 < 2 ^ 64 \<Longrightarrow> unat (d + 8 :: u64) = unat d + 8"
  by (simp add: unat_word_ariths)

lemma push_all_above: "length vs \<le> n \<Longrightarrow> n < 2 ^ 32 \<Longrightarrow> \<not> below (8 * n) (regs c RSP) a \<Longrightarrow> mem (push_all vs c) a = mem c a"
proof (induction vs arbitrary: c n)
  case (Cons v vs)
  then obtain k where n: "n = Suc k" by (cases n) auto
  have ne: "a \<noteq> regs c RSP - 8"
    using Cons.prems(3) n by (auto simp: below_def)
  have "\<not> below (8 * k) (regs c RSP - 8) a"
  proof
    assume b: "below (8 * k) (regs c RSP - 8) a"
    let ?d = "regs c RSP - 8 - a"
    have "unat ?d + 8 < 2 ^ 64" using b Cons.prems(2) n by (simp add: below_def)
    then have "unat (?d + 8) = unat ?d + 8" by (rule unat_plus_8)
    moreover have "?d + 8 = regs c RSP - a" by simp
    ultimately show False using b Cons.prems(3) n by (simp add: below_def)
  qed
  with Cons.IH[of k "push_value v c"] Cons.prems n ne show ?case
    by (simp add: push_value_def Let_def)
qed simp

lemma push_all_cell: "k < length vs \<Longrightarrow> length vs < 2 ^ 32 \<Longrightarrow>
    mem (push_all vs c) (regs c RSP - 8 * of_nat (Suc k)) = vs ! k"
proof (induction vs arbitrary: c k)
  case (Cons v vs)
  let ?c = "push_value v c"
  have sp: "regs ?c RSP = regs c RSP - 8" by (simp add: push_value_def Let_def)
  show ?case
  proof (cases k)
    case 0
    have "\<not> below (8 * length vs) (regs ?c RSP) (regs c RSP - 8)" by (simp add: sp below_def)
    from push_all_above[OF order_refl _ this] Cons.prems show ?thesis
      by (simp add: 0 push_value_def Let_def)
  next
    case (Suc j)
    have "regs c RSP - 8 * of_nat (Suc k) = regs ?c RSP - 8 * of_nat (Suc j)" by (simp add: sp Suc)
    then show ?thesis using Cons.IH[of j ?c] Cons.prems Suc by (simp del: of_nat_Suc)
  qed
qed simp

text \<open>Popping reads the cells upwards and leaves memory alone.\<close>

fun pop_all :: "reg list \<Rightarrow> cpu \<Rightarrow> cpu" where
  "pop_all [] c = c"
| "pop_all (r # rs) c = pop_all rs (set_reg r (stack_top c 0) (set_reg RSP (regs c RSP + 8) c))"

lemma exec_pops: "exec call (map Pop rs) c = Inr (pop_all rs c)"
  by (induction rs arbitrary: c) (auto simp: Let_def)

lemma pop_all_simps [simp]:
  "rip (pop_all rs c) = rip c" "rflags (pop_all rs c) = rflags c" "cr3 (pop_all rs c) = cr3 c"
  "mem (pop_all rs c) = mem c" "seg_cs (pop_all rs c) = seg_cs c" "seg_ss (pop_all rs c) = seg_ss c"
  "tss_rsp0 (pop_all rs c) = tss_rsp0 c" "scheduler_locked (pop_all rs c) = scheduler_locked c"
  "compared (pop_all rs c) = compared c"
  by (induction rs arbitrary: c) auto

lemma pop_all_rsp: "RSP \<notin> set rs \<Longrightarrow> regs (pop_all rs c) RSP = regs c RSP + 8 * of_nat (length rs)"
  by (induction rs arbitrary: c) (auto simp: algebra_simps)

lemma pop_all_other: "r \<notin> set rs \<Longrightarrow> r \<noteq> RSP \<Longrightarrow> regs (pop_all rs c) r = regs c r"
  by (induction rs arbitrary: c) auto

lemma pop_all_nth: "distinct rs \<Longrightarrow> RSP \<notin> set rs \<Longrightarrow> k < length rs \<Longrightarrow>
    regs (pop_all rs c) (rs ! k) = mem c (regs c RSP + 8 * of_nat k)"
proof (induction rs arbitrary: c k)
  case (Cons r rs)
  show ?case
  proof (cases k)
    case 0
    then show ?thesis using Cons.prems by (auto simp: pop_all_other stack_top_def)
  next
    case (Suc j)
    then show ?thesis using Cons.IH[of j] Cons.prems by (auto simp: algebra_simps)
  qed
qed simp

end
