(* ===== verification/Context_Switch.thy ===== *)
theory Context_Switch
  imports Cpu Paging
begin

text \<open>
  Thread stacks and the context switch of \<open>os/kernel/src/process/thread.rs\<close>: how the first frames of a
  thread are laid out (\<open>prepare_kernel_stack\<close>, \<open>switch_to_user_mode\<close>), and the assembly routines
  \<open>thread_kernel_start\<close>, \<open>thread_user_start\<close> and \<open>thread_switch\<close> as instruction lists.

  Shown here: a thread that is switched away and later switched back to has all its registers and flags
  loaded again when the switch calls \<open>unlock_scheduler\<close>, and continues with its stack pointer,
  callee-saved registers, interrupt flag and return address as they were; the layout written for a new
  thread is the one that the start routine takes apart; and entering user mode loads the entry point,
  the ring 3 segments and a stack pointer inside the user stack.
\<close>

unbundle bit_operations_syntax

section \<open>Stacks\<close>

record stacks =
  kernel_stack :: "u64 list"
  kernel_ptr :: u64
  kernel_capacity :: nat
  user_stack :: "u64 list"
  user_ptr :: u64
  user_capacity :: nat
  old_rsp0 :: u64

definition USER_STACK_END :: nat where "USER_STACK_END = 0x400000000000"

definition KERNEL_STACK_PAGES :: nat where "KERNEL_STACK_PAGES = 64"

text \<open>\<open>Stacks::new\<close> on two empty vectors given by their address and capacity.\<close>

definition stacks_new :: "u64 \<times> nat \<Rightarrow> u64 \<times> nat \<Rightarrow> stacks" where
  "stacks_new k u = \<lparr>kernel_stack = [], kernel_ptr = fst k, kernel_capacity = snd k,
     user_stack = [], user_ptr = fst u, user_capacity = snd u, old_rsp0 = 0\<rparr>"

text \<open>Indexed assignment \<open>v[n - k] = x\<close> for a vector.\<close>

definition store_from_top :: "nat \<Rightarrow> nat \<Rightarrow> u64 \<Rightarrow> u64 list \<Rightarrow> u64 list result" where
  "store_from_top n k x xs =
     and_then (checked_sub n k) (\<lambda>i. if i < length xs then Inr (xs[i := x]) else Inl Index_Out_Of_Bounds)"

fun store_all :: "nat \<Rightarrow> (nat \<times> u64) list \<Rightarrow> u64 list \<Rightarrow> u64 list result" where
  "store_all n [] xs = Inr xs"
| "store_all n ((k, x) # ws) xs = and_then (store_from_top n k x xs) (store_all n ws)"

text \<open>The frame of a new thread: return addresses, flags and fifteen cleared registers.\<close>

definition kernel_frame :: "u64 \<Rightarrow> (nat \<times> u64) list" where
  "kernel_frame kickoff =
     [(1, 0x00DEAD00), (2, kickoff), (3, 0x202),
      (4, 0), (5, 0), (6, 0), (7, 0), (8, 0), (9, 0), (10, 0), (11, 0),
      (12, 0), (13, 0), (14, 0), (15, 0), (16, 0), (17, 0), (18, 0)]"

definition prepare_kernel_stack :: "u64 \<Rightarrow> stacks \<Rightarrow> stacks result" where
  "prepare_kernel_stack kickoff st =
     (let stack_addr = kernel_ptr st; capacity = kernel_capacity st;
          filled = kernel_stack st @ replicate capacity 0
      in and_then (store_all capacity (kernel_frame kickoff) filled) (\<lambda>ks.
         and_then (checked_sub capacity 18) (\<lambda>i.
           Inr (st\<lparr>kernel_stack := ks, old_rsp0 := stack_addr + of_nat (i * 8)\<rparr>))))"

definition thread_is_kernel :: "stacks \<Rightarrow> bool" where
  "thread_is_kernel st \<longleftrightarrow> user_capacity st = 0"

definition kernel_stack_addr :: "stacks \<Rightarrow> u64" where
  "kernel_stack_addr st = kernel_ptr st + of_nat (kernel_capacity st * 8)"

definition user_stack_start :: "stacks \<Rightarrow> u64" where
  "user_stack_start st = user_ptr st"

definition segment_selector :: "u16 \<Rightarrow> u16 \<Rightarrow> u16" where
  "segment_selector index rpl = push_bit 3 index OR rpl"

text \<open>Entering user mode: the frame for \<open>iretq\<close>.\<close>

definition switch_to_user_mode :: "u64 \<Rightarrow> stacks \<Rightarrow> stacks result" where
  "switch_to_user_mode entry st =
     (let kernel_addr = kernel_ptr st; user_addr = user_ptr st; capacity = kernel_capacity st;
          us = user_stack st @ replicate (user_capacity st) 0
      in and_then (store_from_top capacity 6 entry (kernel_stack st)) (\<lambda>k1.
         and_then (store_from_top capacity 5 (ucast (segment_selector 4 3)) k1) (\<lambda>k2.
         and_then (store_from_top capacity 4 0x202 k2) (\<lambda>k3.
         and_then (checked_sub (user_capacity st) 1) (\<lambda>top.
         and_then (store_from_top capacity 3 (user_addr + of_nat top * 8) k3) (\<lambda>k4.
         and_then (store_from_top capacity 2 (ucast (segment_selector 3 3)) k4) (\<lambda>k5.
         and_then (store_from_top capacity 1 0x00DEAD00 k5) (\<lambda>k6.
         and_then (checked_sub capacity 6) (\<lambda>i.
           Inr (st\<lparr>kernel_stack := k6, user_stack := us, old_rsp0 := kernel_addr + of_nat (i * 8)\<rparr>))))))))))"

section \<open>Assembly routines\<close>

definition thread_kernel_start :: "instr list" where
  "thread_kernel_start =
     Mov RSP RDI #
     map Pop [RBP, RDI, RSI, RDX, RCX, RBX, RAX, R15, R14, R13, R12, R11, R10, R9, R8] @
     [Popf, Call Unlock_Scheduler, Ret]"

definition thread_user_start :: "instr list" where
  "thread_user_start = [Mov RSP RDI, Iretq]"

definition thread_switch :: "instr list" where
  "thread_switch =
     Pushf #
     map Push [R8, R9, R10, R11, R12, R13, R14, R15, RAX, RBX, RCX, RDX, RSI, RDI, RBP] @
     [Store RDI RSP,
      Mov R12 RSI, Mov R13 RCX,
      Mov RDI RDX, Call Tss_Set_Rsp0,
      Mov RCX R13, Mov RSI R12,
      Mov_Cr3 RCX,
      Mov RSP RSI] @
     map Pop [RBP, RDI, RSI, RDX, RCX, RBX, RAX, R15, R14, R13, R12, R11, R10, R9, R8] @
     [Popf, Call Unlock_Scheduler, Ret]"

text \<open>
  \<open>Thread::switch\<close> passes the address of the current thread's \<open>old_rsp0\<close>, the next thread's stack pointer
  and stack end, and its page table; \<open>Thread::start_first\<close> passes the stack pointer.
\<close>

definition switch ::
  "(callee \<Rightarrow> cpu \<Rightarrow> cpu) \<Rightarrow> u64 \<Rightarrow> stacks \<Rightarrow> address_space \<Rightarrow> cpu \<Rightarrow> cpu result" where
  "switch call current_rsp0 nxt space c =
     exec call thread_switch
       (set_reg RCX (of_nat (page_table_address space)) (set_reg RDX (kernel_stack_addr nxt)
         (set_reg RSI (old_rsp0 nxt) (set_reg RDI current_rsp0 c))))"

definition start_first :: "(callee \<Rightarrow> cpu \<Rightarrow> cpu) \<Rightarrow> stacks \<Rightarrow> cpu \<Rightarrow> cpu result" where
  "start_first call st c = exec call thread_kernel_start (set_reg RDI (old_rsp0 st) c)"

section \<open>Frames\<close>

text \<open>A frame in memory: fifteen registers, the flags and the return address.\<close>

definition frame_at :: "(u64 \<Rightarrow> u64) \<Rightarrow> u64 \<Rightarrow> u64 list" where
  "frame_at m s = map (\<lambda>k. m (s + 8 * of_nat k)) [0..<17]"

definition frame_cell :: "u64 \<Rightarrow> u64 \<Rightarrow> bool" where
  "frame_cell s a \<longleftrightarrow> (\<exists>k < 17. a = s + 8 * of_nat k)"

definition frame_regs :: "reg list" where
  "frame_regs = [RBP, RDI, RSI, RDX, RCX, RBX, RAX, R15, R14, R13, R12, R11, R10, R9, R8]"

definition frame_of :: "cpu \<Rightarrow> u64 list" where
  "frame_of c = map (regs c) frame_regs @ [rflags c, mem c (regs c RSP)]"

text \<open>The stack that a switch uses below the stack pointer it is entered with.\<close>

definition switch_area :: "u64 \<Rightarrow> u64 \<Rightarrow> bool" where
  "switch_area sp a \<longleftrightarrow> below (CALL_DEPTH + 128) sp a"

text \<open>The state with the registers and flags of a frame loaded, before the scheduler is unlocked.\<close>

definition restored :: "u64 list \<Rightarrow> u64 \<Rightarrow> cpu \<Rightarrow> bool" where
  "restored fr s c \<longleftrightarrow> map (regs c) frame_regs = take 15 fr \<and> rflags c = fr ! 15 \<and> regs c RSP = s + 128"

text \<open>The state in which a thread with the given frame continues.\<close>

definition resumed :: "u64 list \<Rightarrow> u64 \<Rightarrow> cpu \<Rightarrow> bool" where
  "resumed fr s c \<longleftrightarrow>
     regs c RBP = fr ! 0 \<and> regs c RBX = fr ! 5 \<and> regs c R15 = fr ! 7 \<and> regs c R14 = fr ! 8 \<and>
     regs c R13 = fr ! 9 \<and> regs c R12 = fr ! 10 \<and> regs c RSP = s + 136 \<and>
     rflags c AND INTERRUPT_FLAG = (fr ! 15) AND INTERRUPT_FLAG \<and> rip c = fr ! 16 \<and> \<not> scheduler_locked c"

text \<open>A vector in memory.\<close>

definition vec_in_memory :: "(u64 \<Rightarrow> u64) \<Rightarrow> u64 \<Rightarrow> u64 list \<Rightarrow> bool" where
  "vec_in_memory m addr xs \<longleftrightarrow> (\<forall>i < length xs. m (addr + 8 * of_nat i) = xs ! i)"

section \<open>Restoring a frame\<close>

lemma below_self [simp]: "\<not> below n sp sp"
  by (simp add: below_def)

lemma frame_regs_facts: "distinct frame_regs" "RSP \<notin> set frame_regs" "length frame_regs = 15"
  by (simp_all add: frame_regs_def)

lemma unat_plus_128: "unat d + 128 < 2 ^ 64 \<Longrightarrow> unat (d + 128 :: u64) = unat d + 128"
  by (simp add: unat_word_ariths)

lemma below_shift: "below n (sp - 128) a \<Longrightarrow> n < 2 ^ 63 \<Longrightarrow> below (n + 128) (sp :: u64) a"
proof -
  assume b: "below n (sp - 128) a" and n: "n < 2 ^ 63"
  let ?d = "sp - 128 - a"
  have "unat ?d + 128 < 2 ^ 64" using b n by (simp add: below_def)
  then have "unat (?d + 128) = unat ?d + 128" by (rule unat_plus_128)
  moreover have "?d + 128 = sp - a" by simp
  ultimately show ?thesis using b by (simp add: below_def)
qed

lemma below_mono: "below n sp a \<Longrightarrow> n \<le> k \<Longrightarrow> below k sp a"
  by (simp add: below_def)

lemma area_calls: "\<not> switch_area sp a \<Longrightarrow> \<not> below CALL_DEPTH (sp - 128) a"
  using below_shift[of CALL_DEPTH sp a] by (auto simp: switch_area_def CALL_DEPTH_def)

lemma area_pushes: "\<not> switch_area sp a \<Longrightarrow> \<not> below 128 sp a"
  using below_mono[of 128 sp a] by (auto simp: switch_area_def)

context call_convention
begin

lemma load_frame:
  "\<exists>cu. exec call (map Pop frame_regs @ [Popf]) c = Inr cu \<and> restored (frame_at (mem c) (regs c RSP)) (regs c RSP) cu \<and>
     mem cu = mem c \<and> cr3 cu = cr3 c \<and> tss_rsp0 cu = tss_rsp0 c"
proof -
  define c1 where "c1 = pop_all frame_regs c"
  define c2 where "c2 = (set_reg RSP (regs c1 RSP + 8) c1)\<lparr>rflags := stack_top c1 0\<rparr>"
  have run: "exec call (map Pop frame_regs @ [Popf]) c = Inr c2"
    by (simp add: exec_append exec_pops c1_def[symmetric] c2_def[symmetric])
  have sp1: "regs c1 RSP = regs c RSP + 120"
    using pop_all_rsp[OF frame_regs_facts(2)] by (simp add: c1_def frame_regs_facts)
  have nth: "regs c2 (frame_regs ! k) = mem c (regs c RSP + 8 * of_nat k)" if "k < 15" for k
  proof -
    have "frame_regs ! k \<noteq> RSP" using frame_regs_facts(2,3) that by (metis nth_mem)
    moreover have "regs c1 (frame_regs ! k) = mem c (regs c RSP + 8 * of_nat k)"
      unfolding c1_def by (rule pop_all_nth) (use that frame_regs_facts in auto)
    ultimately show ?thesis by (simp add: c2_def)
  qed
  have "map (regs c2) frame_regs = take 15 (frame_at (mem c) (regs c RSP))"
    by (rule nth_equalityI) (simp_all add: frame_regs_facts frame_at_def nth)
  moreover have "mem c1 = mem c" by (simp add: c1_def)
  then have "rflags c2 = frame_at (mem c) (regs c RSP) ! 15" by (simp add: c2_def stack_top_def sp1 frame_at_def)
  moreover have "regs c2 RSP = regs c RSP + 128" by (simp add: c2_def sp1 add.commute)
  ultimately have "restored (frame_at (mem c) (regs c RSP)) (regs c RSP) c2" by (simp add: restored_def)
  then show ?thesis using run by (auto simp: c2_def c1_def)
qed

lemma return_from_switch:
  assumes "restored fr s c" "mem c (s + 128) = fr ! 16" "length fr = 17"
  shows "\<exists>c'. exec call [Call Unlock_Scheduler, Ret] c = Inr c' \<and> resumed fr s c' \<and> cr3 c' = cr3 c \<and> tss_rsp0 c' = tss_rsp0 c \<and>
     (\<forall>a. \<not> below CALL_DEPTH (s + 128) a \<longrightarrow> mem c' a = mem c a)"
proof -
  define c3 where "c3 = unlock_scheduler (call Unlock_Scheduler c)"
  define c4 where "c4 = (set_reg RSP (regs c3 RSP + 8) c3)\<lparr>rip := stack_top c3 0\<rparr>"
  have run: "exec call [Call Unlock_Scheduler, Ret] c = Inr c4" by (simp add: c3_def[symmetric] c4_def[symmetric])
  have r3: "regs c3 r = regs c r" if "r \<in> set callee_saved" for r using saved[OF that] by (simp add: c3_def unlock_scheduler_def)
  have sp: "regs c RSP = s + 128" and fl: "rflags c = fr ! 15" and fr: "map (regs c) frame_regs = take 15 fr"
    using assms(1) by (simp_all add: restored_def)
  have nth: "regs c (frame_regs ! k) = fr ! k" if "k < 15" for k
    using arg_cong[OF fr, of "\<lambda>xs. xs ! k"] that frame_regs_facts(3) by simp
  have m3: "mem c3 a = mem c a" if "\<not> below CALL_DEPTH (s + 128) a" for a
    using memory[of Unlock_Scheduler c a] that by (simp add: c3_def sp unlock_scheduler_def)
  have "rflags c3 AND INTERRUPT_FLAG = fr ! 15 AND INTERRUPT_FLAG"
    using control(2)[of Unlock_Scheduler c] by (simp add: c3_def fl unlock_scheduler_def)
  moreover have "\<not> scheduler_locked c3" by (simp add: c3_def unlock_scheduler_def)
  moreover have "mem c3 (s + 128) = fr ! 16" using m3[of "s + 128"] assms(2) by simp
  ultimately have "resumed fr s c4"
    using nth[of 0] nth[of 5] nth[of 7] nth[of 8] nth[of 9] nth[of 10] r3
    by (simp add: resumed_def c4_def callee_saved_def stack_top_def sp frame_regs_def add.commute)
  moreover have "cr3 c4 = cr3 c" "tss_rsp0 c4 = tss_rsp0 c"
    using control(1)[of Unlock_Scheduler c] kernel_data(1)[of Unlock_Scheduler c] by (simp_all add: c4_def c3_def unlock_scheduler_def)
  moreover have "mem c4 = mem c3" by (simp add: c4_def)
  ultimately show ?thesis using run m3 by auto
qed

lemma resume:
  "\<exists>cu c'. exec call (map Pop frame_regs @ [Popf]) c = Inr cu \<and> restored (frame_at (mem c) (regs c RSP)) (regs c RSP) cu \<and>
     exec call [Call Unlock_Scheduler, Ret] cu = Inr c' \<and>
     resumed (frame_at (mem c) (regs c RSP)) (regs c RSP) c' \<and> cr3 c' = cr3 c \<and> tss_rsp0 c' = tss_rsp0 c \<and>
     (\<forall>a. \<not> below CALL_DEPTH (regs c RSP + 128) a \<longrightarrow> mem c' a = mem c a)"
proof -
  let ?fr = "frame_at (mem c) (regs c RSP)"
  from load_frame[of c] obtain cu where cu: "exec call (map Pop frame_regs @ [Popf]) c = Inr cu" "restored ?fr (regs c RSP) cu"
    "mem cu = mem c" "cr3 cu = cr3 c" "tss_rsp0 cu = tss_rsp0 c" by blast
  have "mem cu (regs c RSP + 128) = ?fr ! 16" by (simp add: cu(3) frame_at_def)
  moreover have "length ?fr = 17" by (simp add: frame_at_def)
  ultimately show ?thesis using return_from_switch[OF cu(2)] cu by metis
qed

text \<open>The first half of a switch: the frame is pushed, its address stored, the next thread's values loaded.\<close>

lemma suspend:
  fixes c
  defines "vs \<equiv> rflags c # map (regs c) [R8, R9, R10, R11, R12, R13, R14, R15, RAX, RBX, RCX, RDX, RSI, RDI, RBP]"
  assumes "canonical_address (unat (regs c RDX))"
  shows "\<exists>c'. exec call (Pushf # map Push [R8, R9, R10, R11, R12, R13, R14, R15, RAX, RBX, RCX, RDX, RSI, RDI, RBP] @
      [Store RDI RSP, Mov R12 RSI, Mov R13 RCX, Mov RDI RDX, Call Tss_Set_Rsp0, Mov RCX R13, Mov RSI R12,
       Mov_Cr3 RCX, Mov RSP RSI]) c = Inr c' \<and>
    regs c' RSP = regs c RSI \<and> cr3 c' = regs c RCX \<and> tss_rsp0 c' = regs c RDX \<and>
    (\<forall>a. \<not> below CALL_DEPTH (regs c RSP - 128) a \<longrightarrow>
       mem c' a = ((mem (push_all vs c))(regs c RDI := regs c RSP - 128)) a)"
proof -
  let ?rs = "[R8, R9, R10, R11, R12, R13, R14, R15, RAX, RBX, RCX, RDX, RSI, RDI, RBP]"
  let ?c = "push_value (rflags c) c"
  have rg: "map (regs ?c) ?rs = map (regs c) ?rs" by (simp add: push_value_def Let_def)
  have "exec call (map Push ?rs) ?c = Inr (push_all (map (regs c) ?rs) ?c)"
    using exec_pushes[of ?rs call ?c] unfolding rg by simp
  then have p: "exec call (Pushf # map Push ?rs) c = Inr (push_all vs c)" by (simp add: vs_def)
  define c1 where "c1 = push_all vs c"
  have r1: "regs c1 = (regs c)(RSP := regs c RSP - 128)" by (simp add: c1_def vs_def del: push_all.simps)
  define c2 where "c2 = set_reg RDI (regs c RDX) (set_reg R13 (regs c RCX) (set_reg R12 (regs c RSI)
      (c1\<lparr>mem := (mem c1)(regs c RDI := regs c RSP - 128)\<rparr>)))"
  define c3 where "c3 = (call Tss_Set_Rsp0 c2)\<lparr>tss_rsp0 := regs c RDX\<rparr>"
  define c4 where "c4 = set_reg RSP (regs c3 R12) ((set_reg RSI (regs c3 R12) (set_reg RCX (regs c3 R13) c3))\<lparr>cr3 := regs c3 R13\<rparr>)"
  have r2: "regs c2 = (regs c)(RSP := regs c RSP - 128, R12 := regs c RSI, R13 := regs c RCX, RDI := regs c RDX)"
    by (simp add: c2_def r1)
  have "exec call [Store RDI RSP, Mov R12 RSI, Mov R13 RCX, Mov RDI RDX, Call Tss_Set_Rsp0, Mov RCX R13, Mov RSI R12,
       Mov_Cr3 RCX, Mov RSP RSI] c1 = Inr c4"
    using assms(2) by (simp add: r1 c2_def[symmetric] r2 tss_set_rsp0_def guard_def c3_def[symmetric] c4_def)
  then have run: "exec call (Pushf # map Push ?rs @ [Store RDI RSP, Mov R12 RSI, Mov R13 RCX, Mov RDI RDX,
      Call Tss_Set_Rsp0, Mov RCX R13, Mov RSI R12, Mov_Cr3 RCX, Mov RSP RSI]) c = Inr c4"
    using p exec_append[of call "Pushf # map Push ?rs"] by (simp only: append_Cons c1_def and_then_Inr)
  have "regs c3 R12 = regs c RSI" "regs c3 R13 = regs c RCX"
    using saved[of R12 Tss_Set_Rsp0 c2] saved[of R13 Tss_Set_Rsp0 c2] by (simp_all add: c3_def r2 callee_saved_def)
  moreover have "tss_rsp0 c3 = regs c RDX" by (simp add: c3_def)
  moreover have "mem c4 a = ((mem (push_all vs c))(regs c RDI := regs c RSP - 128)) a"
    if "\<not> below CALL_DEPTH (regs c RSP - 128) a" for a
  proof -
    have "mem c2 = (mem (push_all vs c))(regs c RDI := regs c RSP - 128)" by (simp add: c2_def c1_def)
    moreover have "regs c2 RSP = regs c RSP - 128" by (simp add: r2)
    ultimately show ?thesis using memory[of Tss_Set_Rsp0 c2 a] that by (simp add: c4_def c3_def)
  qed
  moreover have "regs c4 RSP = regs c3 R12" "cr3 c4 = regs c3 R13" "tss_rsp0 c4 = tss_rsp0 c3" by (simp_all add: c4_def)
  ultimately have "regs c4 RSP = regs c RSI" "cr3 c4 = regs c RCX" "tss_rsp0 c4 = regs c RDX"
    "\<forall>a. \<not> below CALL_DEPTH (regs c RSP - 128) a \<longrightarrow>
       mem c4 a = ((mem (push_all vs c))(regs c RDI := regs c RSP - 128)) a" by simp_all
  with run show ?thesis by blast
qed

end

text \<open>The pushed frame reads back as \<open>frame_of\<close>.\<close>

lemma pushed_frame:
  fixes c
  defines "vs \<equiv> rflags c # map (regs c) [R8, R9, R10, R11, R12, R13, R14, R15, RAX, RBX, RCX, RDX, RSI, RDI, RBP]"
  shows "frame_at (mem (push_all vs c)) (regs c RSP - 128) = frame_of c"
proof -
  have len: "length vs = 16" by (simp add: vs_def)
  have cell: "mem (push_all vs c) (regs c RSP - 128 + 8 * of_nat k) = vs ! (15 - k)" if "k < 16" for k
  proof -
    have e: "8 * of_nat (Suc (15 - k)) = (128 - 8 * of_nat k :: u64)" using that by (simp add: of_nat_diff algebra_simps)
    have a: "regs c RSP - 128 + 8 * of_nat k = regs c RSP - 8 * of_nat (Suc (15 - k))" unfolding e by simp
    show ?thesis unfolding a by (rule push_all_cell) (simp_all add: len)
  qed
  have "mem (push_all vs c) (regs c RSP) = mem c (regs c RSP)"
    by (rule push_all_above[of _ 16]) (simp_all add: len)
  then have top: "mem (push_all vs c) (regs c RSP - 128 + 8 * of_nat 16) = mem c (regs c RSP)" by simp
  have "map (\<lambda>k. mem (push_all vs c) (regs c RSP - 128 + 8 * of_nat k)) [0..<16] = rev vs"
    by (rule nth_equalityI) (simp_all add: len cell rev_nth del: push_all.simps)
  moreover have "[0..<17] = [0..<16] @ [16::nat]" using upt_Suc[of 0 16] by simp
  moreover have "frame_of c = rev vs @ [mem c (regs c RSP)]" by (simp add: frame_of_def frame_regs_def vs_def)
  ultimately show ?thesis using top unfolding frame_at_def by (simp only: map_append list.map)
qed

text \<open>A whole switch: which thread continues, and what is left behind for the suspended one.\<close>

lemma frame_at_cong: "(\<And>a. frame_cell s a \<Longrightarrow> m a = m' a) \<Longrightarrow> frame_at m s = frame_at m' s"
  unfolding frame_at_def frame_cell_def by (rule map_cong) auto

definition clear_of_switch :: "cpu \<Rightarrow> bool" where
  "clear_of_switch c \<longleftrightarrow> (\<forall>a. frame_cell (regs c RSI) a \<longrightarrow> \<not> switch_area (regs c RSP) a \<and> a \<noteq> regs c RDI)"

definition clear_of_next :: "cpu \<Rightarrow> bool" where
  "clear_of_next c \<longleftrightarrow> (\<forall>a. frame_cell (regs c RSP - 128) a \<longrightarrow> \<not> below CALL_DEPTH (regs c RSI + 128) a \<and> a \<noteq> regs c RDI)"

context call_convention
begin

lemma frame_above: "frame_cell s a \<Longrightarrow> \<not> below CALL_DEPTH s a"
proof -
  assume "frame_cell s a"
  then obtain k where k: "k < 17" "a = s + 8 * of_nat k" by (auto simp: frame_cell_def)
  show ?thesis
  proof (cases "k = 0")
    case False
    then have "unat (- of_nat (8 * k) :: u64) = 2 ^ 64 - 8 * k"
      using k(1) unat_sub_if'[of 0 "of_nat (8 * k) :: u64"] by (simp add: unat_of_nat del: of_nat_mult)
    moreover have "s - a = - of_nat (8 * k)" using k(2) by simp
    ultimately show ?thesis using k(1) by (simp only: below_def CALL_DEPTH_def) simp
  qed (use k in \<open>simp\<close>)
qed

lemma switch_effect:
  assumes "canonical_address (unat (regs c RDX))"
  shows "\<exists>code cu c'. thread_switch = code @ [Call Unlock_Scheduler, Ret] \<and> exec call code c = Inr cu \<and>
    (clear_of_switch c \<longrightarrow> restored (frame_at (mem c) (regs c RSI)) (regs c RSI) cu) \<and>
    exec call thread_switch c = Inr c' \<and> cr3 c' = regs c RCX \<and> tss_rsp0 c' = regs c RDX \<and>
    (clear_of_switch c \<longrightarrow> resumed (frame_at (mem c) (regs c RSI)) (regs c RSI) c') \<and>
    (clear_of_next c \<longrightarrow> frame_at (mem c') (regs c RSP - 128) = frame_of c) \<and>
    (\<not> switch_area (regs c RSP) (regs c RDI) \<longrightarrow> \<not> below CALL_DEPTH (regs c RSI + 128) (regs c RDI) \<longrightarrow>
       mem c' (regs c RDI) = regs c RSP - 128)"
proof -
  let ?vs = "rflags c # map (regs c) [R8, R9, R10, R11, R12, R13, R14, R15, RAX, RBX, RCX, RDX, RSI, RDI, RBP]"
  let ?m = "(mem (push_all ?vs c))(regs c RDI := regs c RSP - 128)"
  let ?first = "Pushf # map Push [R8, R9, R10, R11, R12, R13, R14, R15, RAX, RBX, RCX, RDX, RSI, RDI, RBP] @
      [Store RDI RSP, Mov R12 RSI, Mov R13 RCX, Mov RDI RDX, Call Tss_Set_Rsp0, Mov RCX R13, Mov RSI R12,
       Mov_Cr3 RCX, Mov RSP RSI]"
  let ?code = "?first @ map Pop frame_regs @ [Popf]"
  have code: "thread_switch = ?code @ [Call Unlock_Scheduler, Ret]"
    by (simp add: thread_switch_def frame_regs_def)
  from suspend[OF assms] obtain c1 where c1: "exec call ?first c = Inr c1"
      "regs c1 RSP = regs c RSI" "cr3 c1 = regs c RCX" "tss_rsp0 c1 = regs c RDX"
    and m1: "\<And>a. \<not> below CALL_DEPTH (regs c RSP - 128) a \<Longrightarrow> mem c1 a = ?m a" by blast
  from resume[of c1] obtain cu c2 where cu: "exec call (map Pop frame_regs @ [Popf]) c1 = Inr cu"
      "restored (frame_at (mem c1) (regs c RSI)) (regs c RSI) cu"
    and c2: "exec call [Call Unlock_Scheduler, Ret] cu = Inr c2"
      "resumed (frame_at (mem c1) (regs c RSI)) (regs c RSI) c2" "cr3 c2 = regs c RCX" "tss_rsp0 c2 = regs c RDX"
    and m2: "\<And>a. \<not> below CALL_DEPTH (regs c RSI + 128) a \<Longrightarrow> mem c2 a = mem c1 a"
    unfolding c1(2-4) by blast
  have run1: "exec call ?code c = Inr cu"
    unfolding exec_append[of call ?first] c1(1) and_then_Inr by (rule cu(1))
  have run: "exec call thread_switch c = Inr c2"
    unfolding code exec_append[of call ?code] run1 and_then_Inr by (rule c2(1))
  have nxt: "frame_at (mem c1) (regs c RSI) = frame_at (mem c) (regs c RSI)" if "clear_of_switch c"
  proof (rule frame_at_cong)
    fix a assume "frame_cell (regs c RSI) a"
    then have a: "\<not> switch_area (regs c RSP) a" "a \<noteq> regs c RDI" using that by (auto simp: clear_of_switch_def)
    have "mem (push_all ?vs c) a = mem c a" by (rule push_all_above[of _ 16]) (use area_pushes[OF a(1)] in simp_all)
    then show "mem c1 a = mem c a" using m1[OF area_calls[OF a(1)]] a(2) by simp
  qed
  have own: "frame_at (mem c2) (regs c RSP - 128) = frame_of c" if "clear_of_next c"
    unfolding pushed_frame[of c, symmetric]
  proof (rule frame_at_cong)
    fix a assume f: "frame_cell (regs c RSP - 128) a"
    then have a: "\<not> below CALL_DEPTH (regs c RSI + 128) a" "a \<noteq> regs c RDI" using that by (auto simp: clear_of_next_def)
    show "mem c2 a = mem (push_all ?vs c) a" using m2[OF a(1)] m1[OF frame_above[OF f]] a(2) by simp
  qed
  have "mem c2 (regs c RDI) = regs c RSP - 128"
    if "\<not> switch_area (regs c RSP) (regs c RDI)" "\<not> below CALL_DEPTH (regs c RSI + 128) (regs c RDI)"
    using m2[OF that(2)] m1[OF area_calls[OF that(1)]] by simp
  with run nxt own c2 cu have "exec call thread_switch c = Inr c2 \<and>
    (clear_of_switch c \<longrightarrow> restored (frame_at (mem c) (regs c RSI)) (regs c RSI) cu) \<and> cr3 c2 = regs c RCX \<and> tss_rsp0 c2 = regs c RDX \<and>
    (clear_of_switch c \<longrightarrow> resumed (frame_at (mem c) (regs c RSI)) (regs c RSI) c2) \<and>
    (clear_of_next c \<longrightarrow> frame_at (mem c2) (regs c RSP - 128) = frame_of c) \<and>
    (\<not> switch_area (regs c RSP) (regs c RDI) \<longrightarrow> \<not> below CALL_DEPTH (regs c RSI + 128) (regs c RDI) \<longrightarrow>
       mem c2 (regs c RDI) = regs c RSP - 128)" by auto
  then show ?thesis using code run1 by blast
qed

end

section \<open>New threads\<close>

lemma store_top: "k \<le> n \<Longrightarrow> 0 < k \<Longrightarrow> length xs = n \<Longrightarrow> store_from_top n k x xs = Inr (xs[n - k := x])"
  by (simp add: store_from_top_def)

lemma new_kernel_stack:
  assumes "18 \<le> kernel_capacity st" "kernel_stack st = []"
  shows "prepare_kernel_stack kickoff st =
    Inr (st\<lparr>kernel_stack := replicate (kernel_capacity st - 18) 0 @ replicate 15 0 @ [0x202, kickoff, 0x00DEAD00],
            old_rsp0 := kernel_ptr st + 8 * of_nat (kernel_capacity st - 18)\<rparr>)"
proof -
  obtain m where m: "kernel_capacity st = m + 18" using assms(1) le_Suc_ex by (metis add.commute)
  have "replicate (m + 18) (0::u64) = replicate m 0 @ [0, 0, 0, 0, 0, 0, 0, 0, 0, 0, 0, 0, 0, 0, 0, 0, 0, 0]"
    by (simp only: replicate_add) (simp add: numeral_eq_Suc)
  moreover have "replicate 15 (0::u64) = [0, 0, 0, 0, 0, 0, 0, 0, 0, 0, 0, 0, 0, 0, 0]" by (simp add: numeral_eq_Suc)
  ultimately show ?thesis
    using assms(2) by (simp add: prepare_kernel_stack_def m kernel_frame_def store_from_top_def Let_def list_update_append mult.commute)
qed

lemma vec_frame:
  assumes "vec_in_memory m addr (xs @ fr @ ys)" "length fr = 17"
  shows "frame_at m (addr + 8 * of_nat (length xs)) = fr"
proof (rule nth_equalityI)
  fix k assume "k < length (frame_at m (addr + 8 * of_nat (length xs)))"
  then have k: "k < 17" by (simp add: frame_at_def)
  have "m (addr + 8 * of_nat (length xs + k)) = (xs @ fr @ ys) ! (length xs + k)"
    using assms k unfolding vec_in_memory_def by (simp del: of_nat_add)
  then show "frame_at m (addr + 8 * of_nat (length xs)) ! k = fr ! k"
    using k assms(2) by (simp add: frame_at_def nth_append algebra_simps)
qed (simp add: frame_at_def assms(2))

context call_convention
begin

lemma start_resumes:
  "\<exists>c'. start_first call st c = Inr c' \<and> resumed (frame_at (mem c) (old_rsp0 st)) (old_rsp0 st) c' \<and>
     cr3 c' = cr3 c \<and> tss_rsp0 c' = tss_rsp0 c"
proof -
  let ?c = "set_reg RSP (old_rsp0 st) (set_reg RDI (old_rsp0 st) c)"
  have "start_first call st c = exec call ((map Pop frame_regs @ [Popf]) @ [Call Unlock_Scheduler, Ret]) ?c"
    unfolding start_first_def thread_kernel_start_def frame_regs_def append_assoc
    by (simp only: append_Cons append_Nil exec.simps step.simps and_then_Inr set_reg_simps fun_upd_same)
  moreover from resume[of ?c] obtain cu c' where "exec call (map Pop frame_regs @ [Popf]) ?c = Inr cu"
    "exec call [Call Unlock_Scheduler, Ret] cu = Inr c'"
    "resumed (frame_at (mem c) (old_rsp0 st)) (old_rsp0 st) c'" "cr3 c' = cr3 c" "tss_rsp0 c' = tss_rsp0 c"
    by (simp only: set_reg_simps fun_upd_same) blast
  ultimately show ?thesis by (simp only: exec_append and_then_Inr) blast
qed

end

section \<open>Properties\<close>

text \<open>
  C12: A context switch is undone by switching back: a thread that calls \<open>thread_switch\<close> and is switched to again
  later, with its frame and its saved stack pointer untouched in between, has all fifteen general registers,
  the flags and the stack pointer of its call again at the moment \<open>thread_switch\<close> calls \<open>unlock_scheduler\<close>. That call is
  free to use the scratch registers and the arithmetic flags; the thread continues after its own call with
  its stack pointer, callee-saved registers, interrupt flag and return address, with the page table and
  kernel stack of the last switch loaded and the scheduler unlocked.
\<close>

theorem context_switch_round_trip:
  assumes "call_convention call" "exec call thread_switch c0 = Inr c1" "clear_of_next c0"
    "canonical_address (unat (regs c0 RDX))" "\<not> switch_area (regs c0 RSP) (regs c0 RDI)" "\<not> below CALL_DEPTH (regs c0 RSI + 128) (regs c0 RDI)"
    "\<And>a. frame_cell (regs c0 RSP - 128) a \<or> a = regs c0 RDI \<Longrightarrow> mem c2 a = mem c1 a"
    "regs c2 RSI = mem c2 (regs c0 RDI)" "clear_of_switch c2" "canonical_address (unat (regs c2 RDX))"
  shows "\<exists>code cu c3. thread_switch = code @ [Call Unlock_Scheduler, Ret] \<and> exec call code c2 = Inr cu \<and>
    list_all (\<lambda>r. regs cu r = regs c0 r) [RAX, RBX, RCX, RDX, RSI, RDI, RBP, RSP, R8, R9, R10, R11, R12, R13, R14, R15] \<and>
    rflags cu = rflags c0 \<and>
    exec call thread_switch c2 = Inr c3 \<and>
    list_all (\<lambda>r. regs c3 r = regs c0 r) [RBX, RBP, R12, R13, R14, R15] \<and> regs c3 RSP = regs c0 RSP + 8 \<and>
    rip c3 = mem c0 (regs c0 RSP) \<and> rflags c3 AND INTERRUPT_FLAG = rflags c0 AND INTERRUPT_FLAG \<and>
    cr3 c3 = regs c2 RCX \<and> tss_rsp0 c3 = regs c2 RDX \<and> \<not> scheduler_locked c3"
proof -
  let ?s = "regs c0 RSP - 128"
  from call_convention.switch_effect[OF assms(1,4)] assms(2,3,5,6)
  have "frame_at (mem c1) ?s = frame_of c0" and slot: "mem c1 (regs c0 RDI) = ?s" by auto
  moreover have "frame_at (mem c2) ?s = frame_at (mem c1) ?s" by (rule frame_at_cong) (simp add: assms(7))
  moreover have s: "regs c2 RSI = ?s" using assms(7)[of "regs c0 RDI"] assms(8) slot by simp
  ultimately have fr: "frame_at (mem c2) (regs c2 RSI) = frame_of c0" by simp
  from call_convention.switch_effect[OF assms(1,10)] assms(9)
  obtain code cu c3 where code: "thread_switch = code @ [Call Unlock_Scheduler, Ret]" "exec call code c2 = Inr cu"
    and cu: "restored (frame_of c0) ?s cu"
    and c3: "exec call thread_switch c2 = Inr c3" "resumed (frame_of c0) ?s c3" "cr3 c3 = regs c2 RCX" "tss_rsp0 c3 = regs c2 RDX"
    unfolding fr unfolding s by blast
  have "list_all (\<lambda>r. regs cu r = regs c0 r) [RAX, RBX, RCX, RDX, RSI, RDI, RBP, RSP, R8, R9, R10, R11, R12, R13, R14, R15]"
    "rflags cu = rflags c0"
    using cu by (simp_all add: restored_def frame_of_def frame_regs_def)
  then show ?thesis using code c3
    by (intro exI[of _ code] exI[of _ cu] exI[of _ c3]) (simp add: resumed_def frame_of_def frame_regs_def)
qed

definition example_cpu :: cpu where
  "example_cpu = \<lparr>regs = (\<lambda>_. 5)(RSP := 0x100000, RDI := 0x900000, RSI := 0x1FFF80, RCX := 0x3000, RDX := 0x280000),
     rip = 0x7000, rflags = 0x202, seg_cs = 8, seg_ss = 16, cr3 = 0x1000, mem = (\<lambda>_. 0x4242), tss_rsp0 = 0, scheduler_locked = True,
     compared = (0, 0)\<rparr>"

definition example_back :: "cpu \<Rightarrow> cpu" where
  "example_back c = c\<lparr>regs := (regs c)(RSP := 0x1FFFF8, RDI := 0x900008, RSI := mem c 0x900000, RCX := 0x1000, RDX := 0x140000)\<rparr>"

lemma frame_all: "(\<forall>a. frame_cell s a \<longrightarrow> P a) \<longleftrightarrow> list_all (\<lambda>k. P (s + 8 * of_nat k)) [0..<17]"
  unfolding frame_cell_def list_all_iff by force

theorem context_switch_round_trip_witness:
  "\<exists>c1 c3. exec plain_call thread_switch example_cpu = Inr c1 \<and> exec plain_call thread_switch (example_back c1) = Inr c3 \<and>
    list_all (\<lambda>r. regs c3 r = 5) [RBX, RBP, R12, R13, R14, R15] \<and> regs c3 RSP = 0x100008 \<and> rip c3 = 0x4242 \<and> cr3 c3 = 0x1000 \<and>
    (\<exists>code cu. thread_switch = code @ [Call Unlock_Scheduler, Ret] \<and> exec plain_call code (example_back c1) = Inr cu \<and>
       list_all (\<lambda>r. regs cu r = regs example_cpu r) [RAX, RCX, RDX, RSI, RDI, RSP, R8, R9, R10, R11] \<and> rflags cu = 0x202)"
proof -
  have nxt: "clear_of_next example_cpu"
    unfolding clear_of_next_def frame_all by (simp add: example_cpu_def below_def CALL_DEPTH_def upt_rec)
  have slot: "canonical_address (unat (regs example_cpu RDX))" "\<not> switch_area (regs example_cpu RSP) (regs example_cpu RDI)"
    "\<not> below CALL_DEPTH (regs example_cpu RSI + 128) (regs example_cpu RDI)"
    by (simp_all add: example_cpu_def switch_area_def below_def CALL_DEPTH_def canonical_address_def)
  from plain.switch_effect[OF slot(1)] slot obtain c1 where c1: "exec plain_call thread_switch example_cpu = Inr c1"
    and m: "mem c1 0x900000 = 0xFFF80" by (auto simp: example_cpu_def)
  have clear: "clear_of_switch (example_back c1)" "canonical_address (unat (regs (example_back c1) RDX))"
    unfolding clear_of_switch_def frame_all
    by (simp_all add: example_back_def m switch_area_def below_def CALL_DEPTH_def upt_rec canonical_address_def)
  have same: "mem (example_back c1) a = mem c1 a" "regs (example_back c1) RSI = mem (example_back c1) (regs example_cpu RDI)" for a
    by (simp_all add: example_back_def example_cpu_def)
  from context_switch_round_trip[OF plain.call_convention_axioms c1 nxt slot same clear]
  obtain code cu c3 where r: "thread_switch = code @ [Call Unlock_Scheduler, Ret]" "exec plain_call code (example_back c1) = Inr cu"
    "list_all (\<lambda>r. regs cu r = regs example_cpu r) [RAX, RBX, RCX, RDX, RSI, RDI, RBP, RSP, R8, R9, R10, R11, R12, R13, R14, R15]"
    "rflags cu = rflags example_cpu" "exec plain_call thread_switch (example_back c1) = Inr c3"
    "list_all (\<lambda>r. regs c3 r = regs example_cpu r) [RBX, RBP, R12, R13, R14, R15]" "regs c3 RSP = regs example_cpu RSP + 8"
    "rip c3 = mem example_cpu (regs example_cpu RSP)" "cr3 c3 = regs (example_back c1) RCX" by blast
  have "list_all (\<lambda>r. regs cu r = regs example_cpu r) [RAX, RCX, RDX, RSI, RDI, RSP, R8, R9, R10, R11]" "rflags cu = 0x202"
    using r(3,4) by (simp_all add: example_cpu_def)
  moreover have "list_all (\<lambda>r. regs c3 r = 5) [RBX, RBP, R12, R13, R14, R15]" "regs c3 RSP = 0x100008" "rip c3 = 0x4242" "cr3 c3 = 0x1000"
    using r(6-9) by (simp_all add: example_cpu_def example_back_def)
  ultimately show ?thesis using c1 r(1,2,5) by blast
qed

text \<open>
  A new thread starts: if the kernel stack has room for the initial frame, \<open>prepare_kernel_stack\<close> does not panic,
  and starting the thread on the prepared stack jumps to the kickoff function with interrupts enabled,
  cleared callee-saved registers, the scheduler unlocked, and the dummy return address on top of the stack.
\<close>

theorem new_thread_starts_at_kickoff:
  assumes "call_convention call" "18 \<le> kernel_capacity st" "kernel_stack st = []"
  shows "\<exists>st'. prepare_kernel_stack kickoff st = Inr st' \<and> length (kernel_stack st') = kernel_capacity st \<and>
    kernel_stack st' ! (kernel_capacity st - 1) = 0x00DEAD00 \<and>
    (vec_in_memory (mem c) (kernel_ptr st) (kernel_stack st') \<longrightarrow>
      (\<exists>c'. start_first call st' c = Inr c' \<and> rip c' = kickoff \<and> rflags c' AND INTERRUPT_FLAG = INTERRUPT_FLAG \<and>
         list_all (\<lambda>r. regs c' r = 0) [RBX, RBP, R12, R13, R14, R15] \<and>
         regs c' RSP = kernel_ptr st + 8 * of_nat (kernel_capacity st - 1) \<and> \<not> scheduler_locked c'))"
proof -
  let ?n = "kernel_capacity st - 18"
  let ?ks = "replicate ?n 0 @ (replicate 15 0 @ [0x202, kickoff]) @ [0x00DEAD00]"
  define st' where "st' = st\<lparr>kernel_stack := ?ks, old_rsp0 := kernel_ptr st + 8 * of_nat ?n\<rparr>"
  have p: "prepare_kernel_stack kickoff st = Inr st'" using new_kernel_stack[OF assms(2,3)] by (simp add: st'_def)
  have n: "kernel_capacity st - 1 = ?n + 17" using assms(2) by simp
  have len: "length (kernel_stack st') = kernel_capacity st" using assms(2) by (simp add: st'_def)
  have top: "kernel_stack st' ! (kernel_capacity st - 1) = 0x00DEAD00" unfolding n by (simp add: st'_def nth_append)
  have "\<exists>c'. start_first call st' c = Inr c' \<and> rip c' = kickoff \<and> rflags c' AND INTERRUPT_FLAG = INTERRUPT_FLAG \<and>
         list_all (\<lambda>r. regs c' r = 0) [RBX, RBP, R12, R13, R14, R15] \<and>
         regs c' RSP = kernel_ptr st + 8 * of_nat (kernel_capacity st - 1) \<and> \<not> scheduler_locked c'"
    if v: "vec_in_memory (mem c) (kernel_ptr st) (kernel_stack st')"
  proof -
    have "frame_at (mem c) (old_rsp0 st') = replicate 15 0 @ [0x202, kickoff]"
      using vec_frame[of "mem c" "kernel_ptr st" "replicate ?n 0" "replicate 15 0 @ [0x202, kickoff]" "[0x00DEAD00]"] v
      by (simp add: st'_def)
    with call_convention.start_resumes[OF assms(1), of st' c] obtain c' where c': "start_first call st' c = Inr c'"
      and r: "resumed (replicate 15 0 @ [0x202, kickoff]) (old_rsp0 st') c'" by auto
    have "old_rsp0 st' + 136 = kernel_ptr st + 8 * of_nat (kernel_capacity st - 1)" unfolding n by (simp add: st'_def)
    then show ?thesis using r c' by (intro exI[of _ c']) (simp add: resumed_def nth_append INTERRUPT_FLAG_def)
  qed
  then show ?thesis using p len top by blast
qed

definition example_stacks :: stacks where
  "example_stacks = stacks_new (0x100000, 20) (0, 0)"

lemma vec_memory: "length xs < 2 ^ 32 \<Longrightarrow> vec_in_memory (\<lambda>a. xs ! (unat (a - p) div 8)) p xs"
  unfolding vec_in_memory_def
proof (intro allI impI)
  fix i assume "i < length xs" "length xs < 2 ^ 32"
  then have "unat (of_nat (8 * i) :: u64) = 8 * i" by (subst unat_of_nat) simp
  then show "xs ! (unat (p + 8 * of_nat i - p) div 8) = xs ! i" by simp
qed

theorem new_thread_starts_at_kickoff_witness:
  "\<exists>st'. prepare_kernel_stack 0x5555 example_stacks = Inr st' \<and>
     vec_in_memory (\<lambda>a. kernel_stack st' ! (unat (a - 0x100000) div 8)) 0x100000 (kernel_stack st') \<and>
     (\<exists>c'. start_first plain_call st' (example_cpu\<lparr>mem := (\<lambda>a. kernel_stack st' ! (unat (a - 0x100000) div 8))\<rparr>) = Inr c' \<and>
        rip c' = 0x5555)"
proof -
  have st: "18 \<le> kernel_capacity example_stacks" "kernel_stack example_stacks = []" "kernel_ptr example_stacks = 0x100000"
    "kernel_capacity example_stacks = 20"
    by (simp_all add: example_stacks_def stacks_new_def)
  obtain st' where st': "prepare_kernel_stack 0x5555 example_stacks = Inr st'" "length (kernel_stack st') = 20"
    using new_thread_starts_at_kickoff[OF plain.call_convention_axioms st(1,2), of "0x5555"] st(4) by auto
  let ?m = "\<lambda>a. kernel_stack st' ! (unat (a - 0x100000) div 8)"
  have v: "vec_in_memory ?m 0x100000 (kernel_stack st')" using st'(2) by (simp add: vec_memory)
  show ?thesis
    using new_thread_starts_at_kickoff[OF plain.call_convention_axioms st(1,2), of "0x5555" "example_cpu\<lparr>mem := ?m\<rparr>"] st' v st(3)
    by auto
qed

text \<open>
  Entering user mode: with a kernel stack filled to its capacity and a non-empty user stack, \<open>switch_to_user_mode\<close>
  does not panic, and \<open>iretq\<close> on the frame it writes continues at the entry point in ring 3 (code and data
  segment 4 and 3), with interrupts enabled and the stack pointer at the last word of the user stack.
\<close>

theorem user_mode_entry:
  assumes "6 \<le> kernel_capacity st" "length (kernel_stack st) = kernel_capacity st" "0 < user_capacity st"
  shows "\<exists>st'. switch_to_user_mode entry st = Inr st' \<and>
    (vec_in_memory (mem c) (kernel_ptr st) (kernel_stack st') \<longrightarrow>
      (\<exists>c'. exec call thread_user_start (set_reg RDI (old_rsp0 st') c) = Inr c' \<and> rip c' = entry \<and> seg_cs c' = 0x23 \<and>
         seg_ss c' = 0x1B \<and> rflags c' = 0x202 \<and> regs c' RSP = user_ptr st + 8 * of_nat (user_capacity st - 1)))"
proof -
  let ?n = "kernel_capacity st - 6"
  let ?usp = "user_ptr st + 8 * of_nat (user_capacity st - 1)"
  let ?fr = "[entry, 0x23, 0x202, ?usp, 0x1B, 0x00DEAD00]"
  obtain xs where xs: "take ?n (kernel_stack st) = xs" "length xs = ?n" using assms(2) by auto
  obtain ys where ks: "kernel_stack st = xs @ ys" "length ys = 6" using xs assms(1,2) by (metis append_take_drop_id length_drop diff_diff_cancel)
  then obtain y1 y2 y3 y4 y5 y6 where ys: "ys = [y1, y2, y3, y4, y5, y6]" by (auto simp: length_Suc_conv numeral_eq_Suc)
  have cap: "kernel_capacity st = length xs + 6" using xs(2) assms(1) by simp
  define st' where "st' = st\<lparr>kernel_stack := xs @ ?fr, user_stack := user_stack st @ replicate (user_capacity st) 0,
      old_rsp0 := kernel_ptr st + 8 * of_nat ?n\<rparr>"
  have run: "switch_to_user_mode entry st = Inr st'"
    using assms(3) ks(1) ys
    by (simp add: switch_to_user_mode_def store_from_top_def cap list_update_append segment_selector_def st'_def Let_def mult.commute)
  have "\<exists>c'. exec call thread_user_start (set_reg RDI (old_rsp0 st') c) = Inr c' \<and> rip c' = entry \<and> seg_cs c' = 0x23 \<and>
         seg_ss c' = 0x1B \<and> rflags c' = 0x202 \<and> regs c' RSP = ?usp"
    if v: "vec_in_memory (mem c) (kernel_ptr st) (kernel_stack st')"
  proof -
    have "mem c (old_rsp0 st' + 8 * of_nat k) = ?fr ! k" if "k < 6" for k
    proof -
      have "mem c (kernel_ptr st + 8 * of_nat (length xs + k)) = (xs @ ?fr) ! (length xs + k)"
        using v that unfolding vec_in_memory_def by (simp add: st'_def del: of_nat_add)
      then show ?thesis using xs(2) by (simp add: st'_def nth_append algebra_simps)
    qed
    from this[of 0] this[of 1] this[of 2] this[of 3] this[of 4] show ?thesis
      by (simp add: thread_user_start_def stack_top_def)
  qed
  then show ?thesis using run by blast
qed

definition example_user_stacks :: stacks where
  "example_user_stacks = \<lparr>kernel_stack = replicate 6 0, kernel_ptr = 0x100000, kernel_capacity = 6,
      user_stack = [], user_ptr = 0x3FFFFFFFF000, user_capacity = 512, old_rsp0 = 0\<rparr>"

theorem user_mode_entry_witness:
  "\<exists>st' c'. switch_to_user_mode 0x10000000000 example_user_stacks = Inr st' \<and>
     exec plain_call thread_user_start (set_reg RDI (old_rsp0 st')
       (example_cpu\<lparr>mem := (\<lambda>a. kernel_stack st' ! (unat (a - 0x100000) div 8))\<rparr>)) = Inr c' \<and>
     rip c' = 0x10000000000 \<and> seg_cs c' = 0x23 \<and> regs c' RSP = 0x3FFFFFFFFFF8"
proof -
  have st: "6 \<le> kernel_capacity example_user_stacks" "length (kernel_stack example_user_stacks) = kernel_capacity example_user_stacks"
    "0 < user_capacity example_user_stacks" by (simp_all add: example_user_stacks_def)
  define st' where "st' = example_user_stacks\<lparr>kernel_stack := [0x10000000000, 0x23, 0x202, 0x3FFFFFFFFFF8, 0x1B, 0xDEAD00],
      user_stack := replicate 512 0, old_rsp0 := 0x100000\<rparr>"
  have run: "switch_to_user_mode 0x10000000000 example_user_stacks = Inr st'"
  proof -
    have "replicate 6 (0::u64) = [0, 0, 0, 0, 0, 0]" by (simp add: numeral_eq_Suc)
    then show ?thesis
      by (simp add: switch_to_user_mode_def example_user_stacks_def st'_def store_from_top_def segment_selector_def Let_def)
  qed
  let ?m = "\<lambda>a. kernel_stack st' ! (unat (a - 0x100000) div 8)"
  have v: "vec_in_memory ?m (kernel_ptr example_user_stacks) (kernel_stack st')"
    by (simp add: example_user_stacks_def vec_memory st'_def)
  from user_mode_entry[OF st, of "0x10000000000" "example_cpu\<lparr>mem := ?m\<rparr>" plain_call] run v show ?thesis
    by (auto simp: example_user_stacks_def)
qed

end
