(* ===== verification/Process_Props.thy ===== *)
theory Process_Props
  imports Process Paging_Props
begin

text \<open>
  Properties of processes (\<open>os/kernel/src/process/process.rs\<close>) and their virtual memory areas
  (\<open>os/kernel/src/memory/virtual.rs\<close>): the invariant of the process manager over all sequences of its
  operations, the exact condition under which an area is accepted, and the missing overlap check when
  an area grows.
\<close>

section \<open>Reachable managers\<close>

lemmas rtranclp_induct3 =
  rtranclp_induct[of _ "(ax, ay, az)" "(bx, by, bz)", split_rule, consumes 1, case_names refl step]

lemma pm_steps_inv:
  assumes "(pm_step ops kf uf)\<^sup>*\<^sup>* (pm, m, C) (pm', m', C')" "pm_inv_but C pm"
  shows "pm_inv_but C' pm'"
  using assms(1)
proof (induction rule: rtranclp_induct3)
  case refl
  show ?case by (rule assms(2))
next
  case (step pm1 m1 C1 pm2 m2 C2)
  show ?case by (rule pm_step_inv[OF step.hyps(2) step.IH])
qed

lemma pm_steps_kernel:
  assumes "(pm_step ops kf uf)\<^sup>*\<^sup>* (pm, m, C) (pm', m', C')" "kernel_process pm = Some k"
  shows "\<exists>k'. kernel_process pm' = Some k' \<and> pid k' = pid k"
  using assms(1)
proof (induction rule: rtranclp_induct3)
  case refl
  show ?case using assms(2) by simp
next
  case (step pm1 m1 C1 pm2 m2 C2)
  then show ?case using pm_step_kernel_pid[OF step.hyps(2)] by metis
qed

section \<open>Properties\<close>

text \<open>
  C11: In every state the process manager can reach from a well formed one, by creating processes, exiting user
  processes, dropping exited ones, adding areas and growing areas, the ids of all processes are pairwise different, the kernel process is still the first one, and
  the areas of a process are pairwise disjoint unless one of them has grown into another (which nothing checks).
\<close>

theorem process_manager_invariant:
  assumes "(pm_step ops kernel_flags user_flags)\<^sup>*\<^sup>* (pm, m, {}) (pm', m', C)" "pm_inv pm" "kernel_process pm = Some k"
  shows "distinct (map pid (active_processes pm' @ exited_processes pm')) \<and>
    list_all (\<lambda>p. pid p \<notin> C \<longrightarrow> disjoint_areas p) (active_processes pm') \<and>
    map_option pid (kernel_process pm') = Some (pid k)"
proof -
  have "pm_inv_but C pm'" by (rule pm_steps_inv[OF assms(1)]) (simp add: pm_inv_but_empty assms(2))
  then show ?thesis using pm_steps_kernel[OF assms(1,3)] by (auto simp: pm_inv_but_def)
qed

definition example_process :: "nat \<Rightarrow> process" where
  "example_process i = \<lparr>pid = i, proc_address_space = example_space, memory_areas = []\<rparr>"

definition example_area :: "nat \<Rightarrow> nat \<Rightarrow> vma_type \<Rightarrow> virtual_memory_area" where
  "example_area s e typ = vma_new \<lparr>page_start = s, page_end = e\<rparr> typ"

definition example_manager :: process_manager where
  "example_manager = \<lparr>process_id_counter = 4, active_processes = map example_process [1, 2, 3], exited_processes = []\<rparr>"

definition example_manager_end :: process_manager where
  "example_manager_end = \<lparr>process_id_counter = 4,
     active_processes = [example_process 1, (example_process 3)\<lparr>memory_areas := [example_area 8 9 Heap]\<rparr>],
     exited_processes = [example_process 2]\<rparr>"

lemma example_manager_steps:
  "(pm_step x86_entry_ops 3 7)\<^sup>*\<^sup>* (example_manager, example_machine, {}) (example_manager_end, example_machine, {})"
proof -
  let ?pm = "example_manager\<lparr>active_processes := map example_process [1, 3], exited_processes := [example_process 2]\<rparr>"
  have "pm_step x86_entry_ops 3 7 (example_manager, example_machine, {}) (?pm, example_machine, {})"
    by (rule step_exit[of _ 2])
       (simp_all add: example_manager_def kernel_process_def example_process_def process_manager_exit_def swap_remove_def)
  moreover have "pm_step x86_entry_ops 3 7 (?pm, example_machine, {}) (example_manager_end, example_machine, {})"
    by (rule step_add_vma[of 3 "example_area 8 9 Heap"])
       (simp add: example_manager_def example_manager_end_def modify_process_def add_vma_def example_process_def)
  ultimately show ?thesis by (meson rtranclp.rtrancl_into_rtrancl rtranclp.rtrancl_refl)
qed

theorem process_manager_invariant_witness:
  "distinct (map pid (active_processes example_manager_end @ exited_processes example_manager_end)) \<and>
   list_all disjoint_areas (active_processes example_manager_end) \<and>
   map_option pid (kernel_process example_manager_end) = Some (pid (example_process 1))"
  using process_manager_invariant[OF example_manager_steps, of "example_process 1"]
  by (simp add: example_manager_def pm_inv_def example_process_def kernel_process_def)
     (simp add: disjoint_areas_def)

text \<open>
  Adding an area: a non-empty area is rejected exactly if it shares a page with one of the (non-empty)
  areas of the process; otherwise it is appended and nothing else changes.
\<close>

theorem add_vma_rejects_exactly_overlaps:
  assumes "area_pages area \<noteq> {}" "list_all (\<lambda>a. area_pages a \<noteq> {}) (memory_areas p)"
  shows "add_vma area p =
    (if list_ex (\<lambda>a. area_pages a \<inter> area_pages area \<noteq> {}) (memory_areas p) then Inl Vma_Overlap
     else Inr (p\<lparr>memory_areas := memory_areas p @ [area]\<rparr>))"
proof -
  have "overlaps_with a area \<longleftrightarrow> area_pages a \<inter> area_pages area \<noteq> {}" if "a \<in> set (memory_areas p)" for a
    by (rule overlaps_iff) (use assms that in \<open>auto simp: list_all_iff\<close>)
  then have "list_ex (\<lambda>a. area_pages a \<inter> area_pages area \<noteq> {}) (memory_areas p) \<longleftrightarrow>
      find (\<lambda>a. overlaps_with a area) (memory_areas p) \<noteq> None"
    by (simp only: find_None_iff list_ex_iff) blast
  then show ?thesis by (auto simp: add_vma_def)
qed

theorem add_vma_rejects_exactly_overlaps_witness:
  "add_vma (example_area 8 10 Heap) ((example_process 1)\<lparr>memory_areas := [example_area 9 12 Code]\<rparr>) = Inl Vma_Overlap \<and>
   is_ok (add_vma (example_area 8 9 Heap) ((example_process 1)\<lparr>memory_areas := [example_area 9 12 Code]\<rparr>))"
  using add_vma_rejects_exactly_overlaps[of "example_area 8 10 Heap" "(example_process 1)\<lparr>memory_areas := [example_area 9 12 Code]\<rparr>"]
    add_vma_rejects_exactly_overlaps[of "example_area 8 9 Heap" "(example_process 1)\<lparr>memory_areas := [example_area 9 12 Code]\<rparr>"]
  by (auto simp: example_area_def vma_new_def area_pages_def)

text \<open>
  Growing an area does not look at its neighbours: whenever \<open>grow_downwards\<close> returns and another area of
  the process holds the page below the grown one, the areas of the process overlap afterwards.
\<close>

theorem grow_downwards_may_overlap:
  assumes "grow_downwards ops user_flags vma 1 (p, m) = Inr (p', m')"
    "other \<in> set (memory_areas p)" "other \<noteq> vma" "page_start (vma_range vma) - 1 \<in> area_pages other"
    "area_pages vma \<noteq> {}"
  shows "\<not> disjoint_areas p'"
proof -
  let ?vma' = "vma\<lparr>vma_range := (vma_range vma)\<lparr>page_start := page_start (vma_range vma) - 1\<rparr>\<rparr>"
  from grow_areas[OF assms(1)] obtain us vs where a: "memory_areas p = us @ vma # vs" "memory_areas p' = us @ ?vma' # vs"
    by blast
  have "page_start (vma_range vma) - 1 \<in> area_pages ?vma'" using assms(5) by (auto simp: area_pages_def)
  then have "area_pages other \<inter> area_pages ?vma' \<noteq> {}" using assms(4) by blast
  moreover have "other \<in> set us \<union> set vs" using assms(2,3) a(1) by auto
  ultimately show ?thesis using a(2) by (auto simp: disjoint_areas_def sorted_wrt_append Int_commute)
qed

theorem grow_downwards_may_overlap_witness:
  "\<exists>p' m'. grow_downwards x86_entry_ops 7 (example_area 512 513 Stack) 1
      ((example_process 2)\<lparr>memory_areas := [example_area 8 512 Heap, example_area 512 513 Stack]\<rparr>, example_machine) = Inr (p', m') \<and>
    \<not> disjoint_areas p'"
proof -
  let ?p = "(example_process 2)\<lparr>memory_areas := [example_area 8 512 Heap, example_area 512 513 Stack]\<rparr>"
  let ?pages = "\<lparr>page_start = 511, page_end = 512\<rparr> :: page_range"
  have "mode (\<lambda>_ _. True) True User (frame_range 0 0) ?pages" by (simp add: mode_def)
  from map_range_total[OF x86.page_table_entry_axioms example_good _ valid_7 _ _ this]
  obtain k m' where "map_in_table x86_entry_ops 4 1 (frame_range 0 0) ?pages User 7 example_machine = Inr (k, m')"
    by (auto simp: example_free)
  then have g: "grow_downwards x86_entry_ops 7 (example_area 512 513 Stack) 1 (?p, example_machine) =
      Inr (?p\<lparr>memory_areas := [example_area 8 512 Heap, example_area 511 513 Stack]\<rparr>, m')"
    by (simp add: grow_downwards_def example_area_def vma_new_def example_process_def example_space_def map_pages_def
        update_vma_def del: map_in_table.simps)
  from grow_downwards_may_overlap[OF g, of "example_area 8 512 Heap"]
  have "\<not> disjoint_areas (?p\<lparr>memory_areas := [example_area 8 512 Heap, example_area 511 513 Stack]\<rparr>)"
    by (auto simp: example_area_def vma_new_def area_pages_def)
  with g show ?thesis by blast
qed

end
