(* ===== verification/Threads.thy ===== *)
theory Threads
  imports Context_Switch Process_Props
begin

text \<open>
  Creating threads and growing their stacks: the constructors of \<open>os/kernel/src/process/thread.rs\<close>, the
  \<open>StackAllocator\<close> of \<open>os/kernel/src/memory/alloc.rs\<close> and the page fault handler of
  \<open>os/kernel/src/interrupt/interrupt_dispatcher.rs\<close>.

  The ELF file is parsed by the \<open>goblin\<close> crate: its program headers and entry point are arguments, and the
  bytes of the file are a function from offsets, since the code reads them through a raw pointer.
  The bytes of physical memory are a function as well; frames that hold page tables are disjoint from
  the frames allocated for a program, so the tables are kept apart.

  Shown here: a loaded segment can be read at its virtual address, file contents first and zeros up
  to its size in memory; and a fault in the page below the user stack, except at the first byte of that
  page, gives the stack one more page that is mapped, with the area of the stack, the stack vector and
  the mapping in step.
\<close>

section \<open>Stack allocator\<close>

definition stack_allocate :: "nat \<Rightarrow> nat \<Rightarrow> 'e machine \<Rightarrow> ((nat \<times> nat) option \<times> 'e machine) result" where
  "stack_allocate sz align m =
     (if align = 0 then Inl Div_Zero
      else if PAGE_SIZE mod align \<noteq> 0 then Inr (None, m)
      else
        let frame_count = (if sz mod PAGE_SIZE = 0 then sz div PAGE_SIZE else sz div PAGE_SIZE + 1) in
        and_then (phys_alloc frame_count (frames_state m)) (\<lambda>(frames, st).
        and_then (guard Unwrap_None (range_start frames * PAGE_SIZE \<noteq> 0)) (\<lambda>_.
        and_then (checked_sub (range_end frames) (range_start frames)) (\<lambda>n.
          Inr (Some (range_start frames * PAGE_SIZE, n * PAGE_SIZE), m\<lparr>frames_state := st\<rparr>)))))"

definition stack_deallocate :: "nat \<Rightarrow> nat \<Rightarrow> nat \<Rightarrow> 'e machine \<Rightarrow> 'e machine result" where
  "stack_deallocate ptr sz align m =
     and_then (unwrap Unwrap_None (phys_limit (frames_state m))) (\<lambda>limit.
       if ptr < limit * PAGE_SIZE then
         and_then (guard Assert_Failed (PAGE_SIZE mod align = 0)) (\<lambda>_.
         and_then (guard Assert_Failed (sz mod PAGE_SIZE = 0)) (\<lambda>_.
         and_then (guard Unwrap_None (ptr mod PAGE_SIZE = 0)) (\<lambda>_.
         and_then (phys_free (frame_range (ptr div PAGE_SIZE) (ptr div PAGE_SIZE + sz div PAGE_SIZE)) (frames_state m)) (\<lambda>st.
           Inr (m\<lparr>frames_state := st\<rparr>)))))
       else Inr m)"

text \<open>An empty vector of words with a capacity; dropping a vector gives its memory back.\<close>

definition vec_with_capacity :: "nat \<Rightarrow> 'e machine \<Rightarrow> ((u64 \<times> nat) \<times> 'e machine) result" where
  "vec_with_capacity capacity m =
     (if capacity = 0 then Inr ((8, 0), m)
      else
        and_then (stack_allocate (capacity * 8) 8 m) (\<lambda>(block, m').
        and_then (unwrap Out_Of_Memory block) (\<lambda>(ptr, sz).
          Inr ((of_nat ptr, capacity), m'))))"

definition drop_vec :: "u64 \<Rightarrow> nat \<Rightarrow> 'e machine \<Rightarrow> 'e machine result" where
  "drop_vec ptr capacity m = (if capacity = 0 then Inr m else stack_deallocate (unat ptr) (capacity * 8) 8 m)"

section \<open>Kernel threads\<close>

definition KERNEL_STACK_WORDS :: nat where
  "KERNEL_STACK_WORDS = KERNEL_STACK_PAGES * PAGE_SIZE div 8"

record thread_object =
  thread_id :: nat
  thread_stacks :: stacks
  thread_pid :: nat
  thread_entry :: u64

definition new_kernel_thread ::
  "u64 \<Rightarrow> u64 \<Rightarrow> process_manager \<Rightarrow> nat \<times> 'e machine \<Rightarrow> (thread_object \<times> nat \<times> 'e machine) result" where
  "new_kernel_thread kickoff entry pm = (\<lambda>(counter, m).
     and_then (vec_with_capacity KERNEL_STACK_WORDS m) (\<lambda>(kernel_vec, m1).
     and_then (vec_with_capacity 0 m1) (\<lambda>(user_vec, m2).
     and_then (unwrap Unwrap_None (kernel_process pm)) (\<lambda>process.
     and_then (prepare_kernel_stack kickoff (stacks_new kernel_vec user_vec)) (\<lambda>st.
       Inr (\<lparr>thread_id = counter, thread_stacks = st, thread_pid = pid process, thread_entry = entry\<rparr>,
            counter + 1, m2))))))"

section \<open>User threads\<close>

record program_header =
  p_type :: nat
  p_offset :: nat
  p_vaddr :: nat
  p_filesz :: nat
  p_memsz :: nat

definition PT_LOAD :: nat where "PT_LOAD = 1"

type_synonym bytes = "nat \<Rightarrow> u8"

definition copy_bytes :: "bytes \<Rightarrow> nat \<Rightarrow> nat \<Rightarrow> nat \<Rightarrow> bytes \<Rightarrow> bytes" where
  "copy_bytes elf_buffer offset target n b = (\<lambda>a. if target \<le> a \<and> a < target + n then elf_buffer (offset + (a - target)) else b a)"

definition zero_bytes :: "nat \<Rightarrow> nat \<Rightarrow> bytes \<Rightarrow> bytes" where
  "zero_bytes target n b = (\<lambda>a. if target \<le> a \<and> a < target + n then 0 else b a)"

definition pages_for :: "nat \<Rightarrow> nat" where
  "pages_for sz = (if sz mod PAGE_SIZE = 0 then sz div PAGE_SIZE else sz div PAGE_SIZE + 1)"

definition load_segment ::
  "('e, 'f) entry_ops \<Rightarrow> 'f \<Rightarrow> bytes \<Rightarrow> program_header \<Rightarrow> process \<times> 'e machine \<times> bytes \<Rightarrow> (process \<times> 'e machine \<times> bytes) result" where
  "load_segment ops user_flags elf_buffer header = (\<lambda>(p, m, b).
     let page_count = pages_for (p_memsz header) in
     and_then (phys_alloc page_count (frames_state m)) (\<lambda>(frames, st).
     and_then (guard Unwrap_None (canonical_address (p_vaddr header) \<and> p_vaddr header mod PAGE_SIZE = 0)) (\<lambda>_.
       let virt_start = p_vaddr header div PAGE_SIZE;
           pages = \<lparr>page_start = virt_start, page_end = virt_start + page_count\<rparr>;
           target = range_start frames * PAGE_SIZE;
           b1 = copy_bytes elf_buffer (p_offset header) target (p_filesz header) b
       in
       and_then (checked_sub (p_memsz header) (p_filesz header)) (\<lambda>rest.
         let b2 = zero_bytes (target + p_filesz header) rest b1 in
         and_then (map_physical ops (proc_address_space p) frames pages User user_flags (m\<lparr>frames_state := st\<rparr>)) (\<lambda>m1.
         and_then (add_vma (vma_new pages Code) p) (\<lambda>p1. Inr (p1, m1, b2)))))))"

fun load_segments ::
  "('e, 'f) entry_ops \<Rightarrow> 'f \<Rightarrow> bytes \<Rightarrow> program_header list \<Rightarrow> process \<times> 'e machine \<times> bytes \<Rightarrow> (process \<times> 'e machine \<times> bytes) result" where
  "load_segments ops user_flags elf_buffer [] s = Inr s"
| "load_segments ops user_flags elf_buffer (h # hs) s =
     (if p_type h = PT_LOAD
      then and_then (load_segment ops user_flags elf_buffer h s) (load_segments ops user_flags elf_buffer hs)
      else load_segments ops user_flags elf_buffer hs s)"

text \<open>\<open>elf\<close> is the result of parsing: the program headers and the entry point.\<close>

definition new_user_thread ::
  "('e, 'f) entry_ops \<Rightarrow> 'f \<Rightarrow> 'f \<Rightarrow> u64 \<Rightarrow> (program_header list \<times> u64) option \<Rightarrow> bytes \<Rightarrow>
     nat \<times> process_manager \<times> 'e machine \<times> bytes \<Rightarrow> (thread_object \<times> nat \<times> process_manager \<times> 'e machine \<times> bytes) result" where
  "new_user_thread ops kernel_flags user_flags kickoff elf elf_buffer = (\<lambda>(counter, pm, m, b).
     and_then (create_process ops kernel_flags pm m) (\<lambda>(p, pm1, m1).
     and_then (unwrap Elf_Invalid elf) (\<lambda>(headers, entry).
     and_then (load_segments ops user_flags elf_buffer headers (p, m1, b)) (\<lambda>(p2, m2, b2).
     and_then (vec_with_capacity KERNEL_STACK_WORDS m2) (\<lambda>(kernel_vec, m3).
       let user_stack_end = USER_STACK_END div PAGE_SIZE;
           user_stack_pages = \<lparr>page_start = user_stack_end - 1, page_end = user_stack_end\<rparr>;
           user_vec = (of_nat (page_start user_stack_pages * PAGE_SIZE), PAGE_SIZE div 8)
       in
       and_then (map_pages ops (proc_address_space p2) user_stack_pages User user_flags m3) (\<lambda>m4.
       and_then (add_vma (vma_new user_stack_pages Stack) p2) (\<lambda>p3.
       and_then (prepare_kernel_stack kickoff (stacks_new kernel_vec user_vec)) (\<lambda>st.
       and_then (modify_process (pid p) (\<lambda>_. Inr p3) pm1) (\<lambda>pm2.
         Inr (\<lparr>thread_id = counter, thread_stacks = st, thread_pid = pid p, thread_entry = entry\<rparr>,
              counter + 1, pm2, m4, b2))))))))))"

section \<open>Growing the user stack\<close>

definition grow_user_stack ::
  "('e, 'f) entry_ops \<Rightarrow> 'f \<Rightarrow> stacks \<times> process \<times> 'e machine \<Rightarrow> (stacks \<times> process \<times> 'e machine) result" where
  "grow_user_stack ops user_flags = (\<lambda>(st, p, m).
     and_then (unwrap Unwrap_None (find_vma Stack p)) (\<lambda>vma.
     and_then (grow_downwards ops user_flags vma 1 (p, m)) (\<lambda>(p1, m1).
       let user_stack_capacity = user_capacity st + PAGE_SIZE div 8 in
       and_then (checked_sub USER_STACK_END (user_stack_capacity * 8)) (\<lambda>user_stack_start.
       and_then (drop_vec (user_ptr st) (user_capacity st) m1) (\<lambda>m2.
         Inr (st\<lparr>user_stack := [], user_ptr := of_nat user_stack_start, user_capacity := user_stack_capacity\<rparr>, p1, m2))))))"

definition handle_page_fault ::
  "('e, 'f) entry_ops \<Rightarrow> 'f \<Rightarrow> bool \<Rightarrow> nat \<Rightarrow> stacks \<times> process \<times> 'e machine \<Rightarrow> (stacks \<times> process \<times> 'e machine) result" where
  "handle_page_fault ops user_flags stacks_locked fault_addr = (\<lambda>(st, p, m).
     if stacks_locked then Inl Page_Fault
     else
       and_then (checked_sub (unat (user_stack_start st)) PAGE_SIZE) (\<lambda>lower.
         if fault_addr > lower \<and> fault_addr < unat (user_stack_start st)
         then grow_user_stack ops user_flags (st, p, m)
         else Inl Page_Fault))"

text \<open>The stack area, the stack vector and the end of the user stack agree.\<close>

definition stack_in_step :: "stacks \<Rightarrow> process \<Rightarrow> bool" where
  "stack_in_step st p \<longleftrightarrow>
     (case find_vma Stack p of
        None \<Rightarrow> False
      | Some vma \<Rightarrow> vma_start vma = unat (user_ptr st) \<and> vma_end vma = USER_STACK_END \<and>
                    unat (user_ptr st) + 8 * user_capacity st = USER_STACK_END)"

section \<open>Taking frames\<close>

lemma phys_alloc_good:
  assumes g: "good ops d t m" and a: "phys_alloc n (frames_state m) = Inr (r, st)"
  shows "good ops d t (m\<lparr>frames_state := st\<rparr>)" "range_frames r \<subseteq> free_of m" "free_of (m\<lparr>frames_state := st\<rparr>) = free_of m - range_frames r"
    "range_end r = range_start r + n"
proof -
  have wf: "wf_free (page_frame_allocator (frames_state m))" using g by (simp add: good_def wf_alloc_def)
  let ?m = "m\<lparr>frames_state := st\<rparr>"
  have t: "tabs ops d u ?m = tabs ops d u m" "wf_tab ops d u ?m = wf_tab ops d u m" for u
  proof (induction d arbitrary: u)
    case (Suc d)
    { case 1 show ?case using Suc by (simp add: used_def child_def) }
    { case 2 show ?case using Suc by (simp add: used_def child_def) }
  qed simp_all
  show f: "free_of ?m = free_of m - range_frames r" and s: "range_frames r \<subseteq> free_of m" and "range_end r = range_start r + n"
    using phys.alloc_subset[OF wf a] phys.alloc_available[OF wf a] phys.alloc_size[OF wf a] by (auto simp: free_of_def)
  have "wf_alloc ?m" using phys.alloc_invar[OF wf a] g f by (auto simp: good_def wf_alloc_def)
  then show "good ops d t ?m" using g t f by (auto simp: good_def)
qed

section \<open>Loading segments\<close>

lemma pages_for_bounds: "0 < n \<Longrightarrow> 0 < pages_for n" "n \<le> pages_for n * PAGE_SIZE"
  using mod_div_mult_eq[of n PAGE_SIZE] by (auto simp: pages_for_def PAGE_SIZE_def algebra_simps intro: Suc_leI)

text \<open>Mapping with the frames of an allocation, for a range that starts at a table boundary.\<close>

lemma map_physical_frames:
  assumes ops: "page_table_entry ops valid_flags" and g: "good ops (depth a) (root_table a) m" and d: "0 < depth a"
    and fl: "valid_flags fl" and n: "0 < n" "s + n \<le> 512 ^ depth a" "s mod 512 = 0" "range_end fr = range_start fr + n" "range_end fr \<le> 2 ^ 40"
    and room: "n * depth a \<le> card (free_of m)"
  shows "\<exists>m'. map_physical ops a fr \<lparr>page_start = s, page_end = s + n\<rparr> User fl m = Inr m' \<and>
    (\<forall>addr. addr div PAGE_SIZE \<in> {s..<s + n} \<longrightarrow>
       translate ops a addr m' = Inr (Some ((range_start fr + (addr div PAGE_SIZE - s)) * PAGE_SIZE + addr mod PAGE_SIZE)))"
proof -
  let ?pages = "\<lparr>page_start = s, page_end = s + n\<rparr>"
  have md: "mode (\<lambda>p f. f + s = range_start fr + p) False User fr ?pages" using n by (simp add: mode_def)
  from map_range_total[OF ops g d fl _ _ md] n(1,2) room obtain k m' where
    r: "map_in_table ops (depth a) (root_table a) fr ?pages User fl m = Inr (k, m')" and
    post: "map_post ops (\<lambda>p f. f + s = range_start fr + p) False (depth a) (root_table a) s n m m'" by auto
  from map_post_translate[OF post d n(2,1)] obtain f where
    f: "\<forall>addr. addr div PAGE_SIZE \<in> {s..<s + n} \<longrightarrow>
        translate ops a addr m' = Inr (Some (f (addr div PAGE_SIZE) * PAGE_SIZE + addr mod PAGE_SIZE)) \<and>
        f (addr div PAGE_SIZE) + s = range_start fr + addr div PAGE_SIZE" by blast
  have "f (addr div PAGE_SIZE) = range_start fr + (addr div PAGE_SIZE - s)" if "addr div PAGE_SIZE \<in> {s..<s + n}" for addr
    using f that by (metis Nat.add_diff_assoc add_diff_cancel_right' atLeastLessThan_iff)
  moreover have "map_physical ops a fr ?pages User fl m = Inr m'" using n(4) r by (simp add: map_physical_def)
  ultimately show ?thesis using f by (intro exI[of _ m']) simp
qed

text \<open>Bytes of a copied and cleared segment.\<close>

lemma loaded_bytes:
  assumes "filesz \<le> memsz" "i < memsz"
  shows "zero_bytes (target + filesz) (memsz - filesz) (copy_bytes file off target filesz b) (target + i) =
    (if i < filesz then file (off + i) else 0)"
  using assms by (auto simp: zero_bytes_def copy_bytes_def)

section \<open>Growing the stack\<close>

lemma update_first_find:
  "find P xs = Some x \<Longrightarrow> P (f x) \<Longrightarrow> \<exists>ys. update_first (\<lambda>y. y = x) f xs = Some ys \<and> find P ys = Some (f x)"
  by (induction xs) (auto split: if_splits)

text \<open>Growing the stack area by one page.\<close>

lemma grow_one_page:
  assumes ops: "page_table_entry ops valid_flags" and g: "good ops (depth a) (root_table a) m" and d: "0 < depth a" "a = proc_address_space p"
    and fl: "valid_flags fl" and v: "find_vma typ p = Some vma" and s: "0 < page_start (vma_range vma)"
    "page_start (vma_range vma) \<le> 512 ^ depth a" and room: "depth a \<le> card (free_of m)"
  shows "\<exists>p' m' f. grow_downwards ops fl vma 1 (p, m) = Inr (p', m') \<and> limit_of m' = limit_of m \<and> good ops (depth a) (root_table a) m' \<and>
    find_vma typ p' = Some (vma\<lparr>vma_range := (vma_range vma)\<lparr>page_start := page_start (vma_range vma) - 1\<rparr>\<rparr>) \<and>
    (\<forall>addr. addr div PAGE_SIZE = page_start (vma_range vma) - 1 \<longrightarrow> translate ops a addr m' = Inr (Some (f * PAGE_SIZE + addr mod PAGE_SIZE))) \<and>
    (\<forall>addr. addr div PAGE_SIZE < 512 ^ depth a \<longrightarrow> addr div PAGE_SIZE \<noteq> page_start (vma_range vma) - 1 \<longrightarrow>
       translate ops a addr m' = translate ops a addr m)"
proof -
  let ?s = "page_start (vma_range vma)"
  let ?pages = "\<lparr>page_start = ?s - 1, page_end = ?s\<rparr>"
  let ?up = "\<lambda>b. b\<lparr>vma_range := (vma_range b)\<lparr>page_start := ?s - 1\<rparr>\<rparr>"
  have md: "mode (\<lambda>_ _. True) True User (frame_range 0 0) ?pages" by (simp add: mode_def)
  have n: "?s - (?s - 1) = 1" using s(1) by simp
  from map_range_total[OF ops g d(1) fl _ _ md] s room n obtain k m' where
    r: "map_in_table ops (depth a) (root_table a) (frame_range 0 0) ?pages User fl m = Inr (k, m')" "good ops (depth a) (root_table a) m'"
    and post: "map_post ops (\<lambda>_ _. True) True (depth a) (root_table a) (?s - 1) 1 m m'" by auto
  have b: "?s - 1 + 1 \<le> 512 ^ depth a" using s by simp
  from map_post_translate[OF post d(1) b] obtain f where
    f: "\<forall>addr. addr div PAGE_SIZE \<in> {?s - 1..<?s - 1 + 1} \<longrightarrow>
        translate ops a addr m' = Inr (Some (f (addr div PAGE_SIZE) * PAGE_SIZE + addr mod PAGE_SIZE))"
      "\<forall>addr. addr div PAGE_SIZE < 512 ^ depth a \<longrightarrow> addr div PAGE_SIZE \<notin> {?s - 1..<?s - 1 + 1} \<longrightarrow>
        translate ops a addr m' = translate ops a addr m" by auto
  have ty: "vma_typ vma = typ" using v by (auto simp: find_vma_def find_Some_iff)
  from update_first_find[OF v[unfolded find_vma_def], of ?up] ty obtain areas where
    u: "update_first (\<lambda>y. y = vma) ?up (memory_areas p) = Some areas" "find (\<lambda>area. vma_typ area = typ) areas = Some (?up vma)" by auto
  have "grow_downwards ops fl vma 1 (p, m) = Inr (p\<lparr>memory_areas := areas\<rparr>, m')"
    using s(1) r(1) u(1) d(2) by (simp add: grow_downwards_def map_pages_def update_vma_def)
  moreover have "limit_of m' = limit_of m" using map_in_table_limit[of ops "depth a - 1"] r(1) d(1) by simp
  ultimately show ?thesis using r(2) u(2) f
    by (intro exI[of _ "p\<lparr>memory_areas := areas\<rparr>"] exI[of _ m'] exI[of _ "f (?s - 1)"]) (simp add: find_vma_def)
qed

lemma below_page: "s * PAGE_SIZE - PAGE_SIZE < a \<Longrightarrow> a < s * PAGE_SIZE \<Longrightarrow> 0 < s \<Longrightarrow> a div PAGE_SIZE = s - 1"
proof -
  assume a: "s * PAGE_SIZE - PAGE_SIZE < a" "a < s * PAGE_SIZE" "0 < s"
  then obtain k where "s = Suc k" by (cases s) auto
  then show ?thesis using a by (intro div_nat_eqI) (simp_all add: algebra_simps)
qed

section \<open>Properties\<close>

text \<open>A segment at a 2 MiB boundary is loaded, and its bytes are found at its addresses.\<close>

lemma aligned_segment_loaded:
  assumes "page_table_entry ops valid_flags" "good ops (depth (proc_address_space p)) (root_table (proc_address_space p)) m"
    "0 < depth (proc_address_space p)" "valid_flags user_flags"
    "0 < p_memsz h" "p_filesz h \<le> p_memsz h" "p_vaddr h mod (512 * PAGE_SIZE) = 0"
    "p_vaddr h div PAGE_SIZE + pages_for (p_memsz h) \<le> 512 ^ depth (proc_address_space p)"
    "phys_alloc (pages_for (p_memsz h)) (frames_state m) = Inr (frames, st)"
    "pages_for (p_memsz h) * depth (proc_address_space p) \<le> card (free_of (m\<lparr>frames_state := st\<rparr>))"
    "list_all (\<lambda>a. \<not> overlaps_with a (vma_new \<lparr>page_start = p_vaddr h div PAGE_SIZE,
       page_end = p_vaddr h div PAGE_SIZE + pages_for (p_memsz h)\<rparr> Code)) (memory_areas p)"
    "canonical_address (p_vaddr h)"
  shows "\<exists>p' m' b'. load_segment ops user_flags elf_buffer h (p, m, b) = Inr (p', m', b') \<and>
    (\<forall>i < p_memsz h. \<exists>pa. translate ops (proc_address_space p) (p_vaddr h + i) m' = Inr (Some pa) \<and>
       b' pa = (if i < p_filesz h then elf_buffer (p_offset h + i) else 0))"
proof -
  let ?n = "pages_for (p_memsz h)" and ?s = "p_vaddr h div PAGE_SIZE" and ?a = "proc_address_space p"
  let ?pages = "\<lparr>page_start = ?s, page_end = ?s + ?n\<rparr>" and ?m = "m\<lparr>frames_state := st\<rparr>"
  note A = phys_alloc_good[OF assms(2,9)]
  have n: "0 < ?n" by (rule pages_for_bounds(1)[OF assms(5)])
  have al: "p_vaddr h mod PAGE_SIZE = 0" "?s mod 512 = 0" using assms(7) by (auto simp: PAGE_SIZE_def)
  then have va: "p_vaddr h = ?s * PAGE_SIZE" using div_mult_mod_eq[of "p_vaddr h" PAGE_SIZE] by simp
  have "range_end frames - 1 \<in> free_of m" using A(2,4) n by (auto simp: range_frames_def)
  then have "range_end frames \<le> 2 ^ 40" using assms(2) by (fastforce simp: good_def wf_alloc_def)
  from map_physical_frames[OF assms(1) A(1) assms(3,4) n assms(8) al(2) A(4) this assms(10)]
  obtain m' where m': "map_physical ops ?a frames ?pages User user_flags ?m = Inr m'" and
    t: "\<And>addr. addr div PAGE_SIZE \<in> {?s..<?s + ?n} \<Longrightarrow>
       translate ops ?a addr m' = Inr (Some ((range_start frames + (addr div PAGE_SIZE - ?s)) * PAGE_SIZE + addr mod PAGE_SIZE))"
    by blast
  let ?t = "range_start frames * PAGE_SIZE"
  let ?b = "zero_bytes (?t + p_filesz h) (p_memsz h - p_filesz h) (copy_bytes elf_buffer (p_offset h) ?t (p_filesz h) b)"
  have "find (\<lambda>area. overlaps_with area (vma_new ?pages Code)) (memory_areas p) = None"
    using assms(11) by (simp add: find_None)
  then have run: "load_segment ops user_flags elf_buffer h (p, m, b) = Inr (p\<lparr>memory_areas := memory_areas p @ [vma_new ?pages Code]\<rparr>, m', ?b)"
    using assms(6,9,12) al m' by (simp add: load_segment_def Let_def add_vma_def)
  have "\<exists>pa. translate ops ?a (p_vaddr h + i) m' = Inr (Some pa) \<and> ?b pa = (if i < p_filesz h then elf_buffer (p_offset h + i) else 0)"
    if i: "i < p_memsz h" for i
  proof -
    have "i < ?n * PAGE_SIZE" using pages_for_bounds(2)[of "p_memsz h"] i by simp
    then have d: "i div PAGE_SIZE < ?n" by (simp add: less_mult_imp_div_less)
    have q: "(p_vaddr h + i) div PAGE_SIZE = ?s + i div PAGE_SIZE" "(p_vaddr h + i) mod PAGE_SIZE = i mod PAGE_SIZE"
      using va mod_add_left_eq[of "p_vaddr h" PAGE_SIZE i] al(1)
      by (simp_all add: div_plus_div_distrib_dvd_left PAGE_SIZE_def)
    have "translate ops ?a (p_vaddr h + i) m' = Inr (Some ((range_start frames + i div PAGE_SIZE) * PAGE_SIZE + i mod PAGE_SIZE))"
      using t[of "p_vaddr h + i"] d by (simp add: q)
    moreover have "(range_start frames + i div PAGE_SIZE) * PAGE_SIZE + i mod PAGE_SIZE = ?t + i"
      by (simp add: distrib_right)
    ultimately show ?thesis using loaded_bytes[OF assms(6) i, of ?t elf_buffer "p_offset h" b] by auto
  qed
  then show ?thesis using run by blast
qed

text \<open>A segment of fewer than 512 pages anywhere else is not loaded.\<close>

lemma unaligned_segment_fails:
  assumes "phys_alloc (pages_for (p_memsz h)) (frames_state m) = Inr (frames, st)"
    "range_end frames = range_start frames + pages_for (p_memsz h)"
    "0 < pages_for (p_memsz h)" "pages_for (p_memsz h) < 512" "p_vaddr h mod (512 * PAGE_SIZE) \<noteq> 0" "0 < depth (proc_address_space p)"
  shows "\<not> is_ok (load_segment ops user_flags elf_buffer h (p, m, b))"
proof (cases "p_vaddr h mod PAGE_SIZE = 0")
  case True
  let ?pages = "\<lparr>page_start = p_vaddr h div PAGE_SIZE, page_end = p_vaddr h div PAGE_SIZE + pages_for (p_memsz h)\<rparr>"
  have "p_vaddr h mod (PAGE_SIZE * 512) = PAGE_SIZE * (p_vaddr h div PAGE_SIZE mod 512) + p_vaddr h mod PAGE_SIZE" by (rule mod_mult2_eq)
  then have "p_vaddr h div PAGE_SIZE mod 512 \<noteq> 0" using assms(5) True by (auto simp: mult.commute)
  then have "map_in_table ops (Suc l) t frames ?pages User user_flags m1 \<noteq> Inr x" for l t m1 x
    using assms(2,3,4) by (intro map_unaligned_fails) simp_all
  from this[of "depth (proc_address_space p) - 1"] have "\<not> is_ok (map_physical ops (proc_address_space p) frames ?pages User user_flags m1)" for m1
    using assms(6) by (auto simp: map_physical_def is_ok_iff result_simps)
  then show ?thesis using assms(1) by (auto simp: load_segment_def is_ok_iff result_simps Let_def guard_def)
qed (use assms(1) in \<open>auto simp: load_segment_def is_ok_iff result_simps Let_def guard_def\<close>)

text \<open>
  C13: Loading a program segment: with enough free memory, a canonical address and no area of the process in the way,
  a segment whose virtual address is a multiple of 2 MiB is loaded, and reading the process memory at the segment's virtual
  addresses gives the bytes of the file and zeros behind them, up to the size of the segment in memory.
  A segment of fewer than 512 pages at any other address, also at a page boundary, is never loaded:
  \<open>load_segment\<close> panics. (For 512 pages and more at other page boundaries nothing is said here; \<open>map_user_physical\<close>
  leaves out frames then.)
\<close>

theorem segment_visible:
  assumes "page_table_entry ops valid_flags" "good ops (depth (proc_address_space p)) (root_table (proc_address_space p)) m"
    "0 < depth (proc_address_space p)" "valid_flags user_flags"
    "0 < p_memsz h" "p_filesz h \<le> p_memsz h"
    "p_vaddr h div PAGE_SIZE + pages_for (p_memsz h) \<le> 512 ^ depth (proc_address_space p)"
    "phys_alloc (pages_for (p_memsz h)) (frames_state m) = Inr (frames, st)"
    "pages_for (p_memsz h) * depth (proc_address_space p) \<le> card (free_of (m\<lparr>frames_state := st\<rparr>))"
    "list_all (\<lambda>a. \<not> overlaps_with a (vma_new \<lparr>page_start = p_vaddr h div PAGE_SIZE,
       page_end = p_vaddr h div PAGE_SIZE + pages_for (p_memsz h)\<rparr> Code)) (memory_areas p)"
    "canonical_address (p_vaddr h)"
  shows "if p_vaddr h mod 0x200000 = 0
    then \<exists>p' m' b'. load_segment ops user_flags elf_buffer h (p, m, b) = Inr (p', m', b') \<and>
      (\<forall>i < p_memsz h. \<exists>pa. translate ops (proc_address_space p) (p_vaddr h + i) m' = Inr (Some pa) \<and>
         b' pa = (if i < p_filesz h then elf_buffer (p_offset h + i) else 0))
    else pages_for (p_memsz h) < 512 \<longrightarrow> \<not> is_ok (load_segment ops user_flags elf_buffer h (p, m, b))"
proof -
  have two: "512 * PAGE_SIZE = 0x200000" by (simp add: PAGE_SIZE_def)
  note n = pages_for_bounds(1)[OF assms(5)] and A = phys_alloc_good[OF assms(2,8)]
  show ?thesis
    using aligned_segment_loaded[OF assms(1-6) _ assms(7-11), of elf_buffer b]
      unaligned_segment_fails[OF assms(8) A(4) n _ _ assms(3), of ops user_flags elf_buffer b]
    unfolding two by simp
qed

definition example_header :: program_header where
  "example_header = \<lparr>p_type = 1, p_offset = 16, p_vaddr = 0x200000, p_filesz = 100, p_memsz = 5000\<rparr>"

theorem segment_visible_witness:
  "\<exists>p' m' b' pa pb. load_segment x86_entry_ops 7 of_nat example_header (example_process 2, example_machine, \<lambda>_. 1) = Inr (p', m', b') \<and>
     translate x86_entry_ops example_space 0x200007 m' = Inr (Some pa) \<and> b' pa = 23 \<and>
     translate x86_entry_ops example_space 0x201000 m' = Inr (Some pb) \<and> b' pb = 0"
proof -
  let ?p = "example_process 2" and ?h = example_header
  have sp: "proc_address_space ?p = example_space" "memory_areas ?p = []" by (simp_all add: example_process_def)
  have n: "pages_for (p_memsz ?h) = 2" by (simp add: example_header_def pages_for_def PAGE_SIZE_def)
  obtain frames st where al: "phys_alloc (pages_for (p_memsz ?h)) (frames_state example_machine) = Inr (frames, st)"
    unfolding n by (simp add: phys_alloc_def example_machine_def alloc_eval find_free_block.simps)
  have g: "good x86_entry_ops (depth (proc_address_space ?p)) (root_table (proc_address_space ?p)) example_machine"
    unfolding sp by (rule example_space_good)
  note A = phys_alloc_good[OF g al]
  have "card (free_of (example_machine\<lparr>frames_state := st\<rparr>)) = 18"
    using A(2,3,4) n by (simp add: card_Diff_subset example_free range_frames_def)
  then have room: "pages_for (p_memsz ?h) * depth (proc_address_space ?p) \<le> card (free_of (example_machine\<lparr>frames_state := st\<rparr>))"
    by (simp add: n sp example_space_def)
  have h: "0 < depth (proc_address_space ?p)" "0 < p_memsz ?h" "p_filesz ?h \<le> p_memsz ?h"
    "p_vaddr ?h div PAGE_SIZE + pages_for (p_memsz ?h) \<le> 512 ^ depth (proc_address_space ?p)"
    by (simp_all add: example_header_def sp example_space_def PAGE_SIZE_def pages_for_def)
  have e: "p_vaddr ?h = 0x200000" "p_memsz ?h = 5000" "p_filesz ?h = 100" "p_offset ?h = 16" by (simp_all add: example_header_def)
  have c: "canonical_address (p_vaddr ?h)" by (simp add: example_header_def canonical_address_def)
  have v: "list_all (\<lambda>a. \<not> overlaps_with a (vma_new \<lparr>page_start = p_vaddr ?h div PAGE_SIZE,
       page_end = p_vaddr ?h div PAGE_SIZE + pages_for (p_memsz ?h)\<rparr> Code)) (memory_areas ?p)" by (simp add: sp(2))
  have "p_vaddr ?h mod 0x200000 = 0" by (simp add: example_header_def)
  from segment_visible[OF x86.page_table_entry_axioms g h(1) valid_7 h(2-4) al room v c, of of_nat "\<lambda>_. 1", unfolded if_P[OF this]]
  obtain p' m' b' where r: "load_segment x86_entry_ops 7 of_nat ?h (?p, example_machine, \<lambda>_. 1) = Inr (p', m', b')"
    and v: "\<And>i. i < 5000 \<Longrightarrow> \<exists>pa. translate x86_entry_ops example_space (0x200000 + i) m' = Inr (Some pa) \<and>
       b' pa = (if i < 100 then of_nat (16 + i) else 0)"
    unfolding sp(1) e by auto
  from v[of 7] v[of "0x1000"] r show ?thesis by auto
qed

text \<open>
  C14: Page faults: with the stack area, the stack vector and the end of the user stack in step and enough memory,
  a fault in the page right below the user stack, except at its first byte, maps that page and lowers the
  start of the stack by one page, with everything still in step; a fault anywhere else panics.
\<close>

theorem page_fault_grows_stack:
  assumes "page_table_entry ops valid_flags" "good ops (depth (proc_address_space p)) (root_table (proc_address_space p)) m"
    "USER_STACK_END \<le> 512 ^ depth (proc_address_space p) * PAGE_SIZE" "0 < depth (proc_address_space p)" "valid_flags user_flags"
    "stack_in_step st p" "PAGE_SIZE \<le> unat (user_ptr st)" "0 < user_capacity st"
    "depth (proc_address_space p) \<le> card (free_of m)"
    "phys_limit (frames_state m) = Some limit" "limit * PAGE_SIZE \<le> unat (user_ptr st)"
  shows "if unat (user_ptr st) - PAGE_SIZE < fault_addr \<and> fault_addr < unat (user_ptr st)
    then \<exists>st' p' m' pa. handle_page_fault ops user_flags False fault_addr (st, p, m) = Inr (st', p', m') \<and>
      stack_in_step st' p' \<and> unat (user_ptr st') = unat (user_ptr st) - PAGE_SIZE \<and>
      translate ops (proc_address_space p) fault_addr m' = Inr (Some pa)
    else handle_page_fault ops user_flags False fault_addr (st, p, m) = Inl Page_Fault"
proof (cases "unat (user_ptr st) - PAGE_SIZE < fault_addr \<and> fault_addr < unat (user_ptr st)")
  case False
  then show ?thesis unfolding if_not_P[OF False] using assms(7) by (auto simp: handle_page_fault_def user_stack_start_def)
next
  case True
  let ?u = "unat (user_ptr st)"
  obtain vma where v: "find_vma Stack p = Some vma" "vma_start vma = ?u" "vma_end vma = USER_STACK_END" "?u + 8 * user_capacity st = USER_STACK_END"
    using assms(6) by (auto simp: stack_in_step_def split: option.splits)
  let ?s = "page_start (vma_range vma)"
  have u: "?u = ?s * PAGE_SIZE" using v(2) by (simp add: vma_start_def)
  have s: "0 < ?s" using assms(7) u by (cases ?s) (auto simp: PAGE_SIZE_def)
  have "?s * PAGE_SIZE \<le> 512 ^ depth (proc_address_space p) * PAGE_SIZE" using u v(4) assms(3) by linarith
  then have s2: "?s \<le> 512 ^ depth (proc_address_space p)" by (simp add: PAGE_SIZE_def)
  from grow_one_page[OF assms(1,2,4) refl assms(5) v(1) s s2 assms(9)] obtain p' m' f where
    gr: "grow_downwards ops user_flags vma 1 (p, m) = Inr (p', m')" "limit_of m' = limit_of m"
      "find_vma Stack p' = Some (vma\<lparr>vma_range := (vma_range vma)\<lparr>page_start := ?s - 1\<rparr>\<rparr>)"
    and t: "\<And>addr. addr div PAGE_SIZE = ?s - 1 \<Longrightarrow> translate ops (proc_address_space p) addr m' = Inr (Some (f * PAGE_SIZE + addr mod PAGE_SIZE))"
    by blast
  let ?cap = "user_capacity st + PAGE_SIZE div 8"
  have cap: "USER_STACK_END - ?cap * 8 = ?u - PAGE_SIZE" "?cap * 8 \<le> USER_STACK_END"
    using v(4) assms(7) by (simp_all add: PAGE_SIZE_def)
  have small: "?u - PAGE_SIZE < 2 ^ 64" using unsigned_less[of "user_ptr st", where ?'a = nat] by simp
  let ?st = "st\<lparr>user_stack := [], user_ptr := of_nat (?u - PAGE_SIZE), user_capacity := ?cap\<rparr>"
  have un: "unat (user_ptr ?st) = ?u - PAGE_SIZE" using small by (simp add: unat_of_nat take_bit_nat_eq_self[of _ 64, simplified] del: of_nat_diff)
  have "drop_vec (user_ptr st) (user_capacity st) m' = Inr m'"
    using gr(2) assms(10,11) by (simp add: drop_vec_def stack_deallocate_def limit_of_def)
  then have run: "grow_user_stack ops user_flags (st, p, m) = Inr (?st, p', m')"
    using v(1) gr(1) cap by (simp add: grow_user_stack_def Let_def)
  have "stack_in_step ?st p'"
    using un gr(3) v(3,4) u s assms(7) by (auto simp: stack_in_step_def vma_start_def vma_end_def PAGE_SIZE_def algebra_simps)
  moreover have "handle_page_fault ops user_flags False fault_addr (st, p, m) = Inr (?st, p', m')"
    using True assms(7) run by (simp add: handle_page_fault_def user_stack_start_def)
  moreover have "fault_addr div PAGE_SIZE = ?s - 1" using True u s by (intro below_page) auto
  ultimately show ?thesis unfolding if_P[OF True] using t un by blast
qed


definition example_stack_process :: process where
  "example_stack_process = (example_process 2)\<lparr>memory_areas := [example_area 0x3FFFFFFFF 0x400000000 Stack]\<rparr>"

theorem page_fault_grows_stack_witness:
  "(\<exists>st' p' m' pa. handle_page_fault x86_entry_ops 7 False 0x3FFFFFFFEFF8 (example_user_stacks, example_stack_process, example_machine) =
       Inr (st', p', m') \<and> stack_in_step st' p' \<and> unat (user_ptr st') = 0x3FFFFFFFE000 \<and>
       translate x86_entry_ops example_space 0x3FFFFFFFEFF8 m' = Inr (Some pa)) \<and>
   handle_page_fault x86_entry_ops 7 False 0x3FFFFFFFE000 (example_user_stacks, example_stack_process, example_machine) = Inl Page_Fault"
proof -
  let ?p = "example_stack_process" and ?st = "example_user_stacks"
  have sp: "proc_address_space ?p = example_space" by (simp add: example_stack_process_def example_process_def)
  have c: "USER_STACK_END \<le> 512 ^ depth (proc_address_space ?p) * PAGE_SIZE" "0 < depth (proc_address_space ?p)"
    "depth (proc_address_space ?p) \<le> card (free_of example_machine)"
    by (simp_all add: sp example_space_def USER_STACK_END_def PAGE_SIZE_def example_free)
  have st: "stack_in_step ?st ?p" "PAGE_SIZE \<le> unat (user_ptr ?st)" "0 < user_capacity ?st"
    by (simp_all add: stack_in_step_def find_vma_def example_stack_process_def example_area_def vma_new_def vma_start_def vma_end_def
        USER_STACK_END_def PAGE_SIZE_def example_user_stacks_def example_process_def)
  have l: "phys_limit (frames_state example_machine) = Some 30" "30 * PAGE_SIZE \<le> unat (user_ptr ?st)"
    by (simp_all add: example_machine_def example_user_stacks_def PAGE_SIZE_def)
  note pf = page_fault_grows_stack[OF x86.page_table_entry_axioms _ c(1,2) valid_7 st c(3) l]
  have "good x86_entry_ops (depth (proc_address_space ?p)) (root_table (proc_address_space ?p)) example_machine"
    unfolding sp by (rule example_space_good)
  from pf[OF this, of "0x3FFFFFFFEFF8"] pf[OF this, of "0x3FFFFFFFE000"] show ?thesis
    unfolding sp by (simp add: example_user_stacks_def PAGE_SIZE_def)
qed

end
