(* ===== verification/Boot.thy ===== *)
theory Boot
  imports Paging_Cost Process Context_Switch Threads
begin

text \<open>
  The start of the kernel: \<open>os/kernel/src/boot.rs\<close> with the initial ramdisk of \<open>os/kernel/src/lib.rs\<close> and \<open>init\<close> of
  \<open>syscall/syscall_dispatcher.rs\<close>. The memory map of the boot loader fills the page frame allocator, the kernel image is reserved, the heap is
  allocated and the kernel process with its identity mapping is created; later the frame buffer is mapped and the frames of the
  initial ramdisk are reserved. The descriptor table and the segment registers are set up in between.

  What the boot loader passes is the record \<open>boot_information\<close>; \<open>efi_handles\<close> says that the image handle and the system table are there and
  valid, \<open>exit_boot_services\<close> is the memory map that the firmware returns. A \<open>PhysAddr\<close> lies below \<open>2\<^sup>52\<close>, everything else panics.

  Shown here: with enough memory the memory part of \<open>start\<close> succeeds, keeps heap, page tables, kernel image and free memory apart and maps all of
  memory to itself; the ramdisk, however, is reserved only after memory has been handed out, and a memory area that is smaller than a page panics.
\<close>

unbundle bit_operations_syntax

section \<open>The memory map\<close>

record efi_memory_descriptor =
  area_ty :: u32
  phys_start :: nat
  page_count :: nat

definition LOADER_CODE :: u32 where "LOADER_CODE = 1"
definition LOADER_DATA :: u32 where "LOADER_DATA = 2"
definition BOOT_SERVICES_CODE :: u32 where "BOOT_SERVICES_CODE = 3"
definition BOOT_SERVICES_DATA :: u32 where "BOOT_SERVICES_DATA = 4"
definition CONVENTIONAL :: u32 where "CONVENTIONAL = 7"

record memory_area =
  area_available :: bool
  area_start_address :: nat
  area_end_address :: nat

definition phys_addr :: "nat \<Rightarrow> nat result" where
  "phys_addr a = and_then (guard Bad_Address (a < 2 ^ 52)) (\<lambda>_. Inr a)"

text \<open>\<open>PhysFrame::from_start_address(PhysAddr::new(a).align_up(PAGE_SIZE)).unwrap()\<close>, and the same with \<open>align_down\<close>.\<close>

definition frame_align_up :: "nat \<Rightarrow> nat result" where
  "frame_align_up a = and_then (phys_addr a) (\<lambda>a. and_then (phys_addr ((a + PAGE_SIZE - 1) div PAGE_SIZE * PAGE_SIZE)) (\<lambda>b. Inr (b div PAGE_SIZE)))"

definition frame_align_down :: "nat \<Rightarrow> nat result" where
  "frame_align_down a = and_then (phys_addr a) (\<lambda>a. Inr (a div PAGE_SIZE))"

definition efi_area_frames :: "efi_memory_descriptor \<Rightarrow> phys_frame_range result" where
  "efi_area_frames area =
     and_then (frame_align_up (phys_start area)) (\<lambda>start.
     and_then (phys_addr ((start + page_count area) * PAGE_SIZE)) (\<lambda>e.
       Inr (frame_range start (e div PAGE_SIZE))))"

definition multiboot2_area_frames :: "memory_area \<Rightarrow> phys_frame_range result" where
  "multiboot2_area_frames area =
     and_then (frame_align_up (area_start_address area)) (\<lambda>start.
     and_then (frame_align_down (area_end_address area)) (\<lambda>e.
       Inr (frame_range start e)))"

fun insert_areas :: "('a \<Rightarrow> phys_frame_range result) \<Rightarrow> 'a list \<Rightarrow> phys_state \<Rightarrow> phys_state result" where
  "insert_areas frames_of [] st = Inr st"
| "insert_areas frames_of (area # areas) st =
     and_then (frames_of area) (\<lambda>r. and_then (phys_insert r st) (insert_areas frames_of areas))"

definition usable_type :: "u32 \<Rightarrow> bool" where
  "usable_type ty \<longleftrightarrow> ty = CONVENTIONAL \<or> ty = LOADER_CODE \<or> ty = LOADER_DATA \<or> ty = BOOT_SERVICES_CODE \<or> ty = BOOT_SERVICES_DATA"

definition scan_efi_memory_map :: "efi_memory_descriptor list \<Rightarrow> phys_state \<Rightarrow> phys_state result" where
  "scan_efi_memory_map memory_map = insert_areas efi_area_frames (filter (\<lambda>area. usable_type (area_ty area)) memory_map)"

definition scan_efi_multiboot2_memory_map :: "efi_memory_descriptor list \<Rightarrow> phys_state \<Rightarrow> phys_state result" where
  "scan_efi_multiboot2_memory_map memory_map = insert_areas efi_area_frames (filter (\<lambda>area. usable_type (area_ty area)) memory_map)"

definition scan_multiboot2_memory_map :: "memory_area list \<Rightarrow> phys_state \<Rightarrow> phys_state result" where
  "scan_multiboot2_memory_map memory_map = insert_areas multiboot2_area_frames (filter area_available memory_map)"

section \<open>Memory management\<close>

record framebuffer_info =
  fb_address :: nat
  fb_pitch :: nat
  fb_height :: nat

record boot_information =
  multiboot2_magic :: u32
  efi_bs_not_exited :: bool
  efi_handles :: bool
  exit_boot_services :: "efi_memory_descriptor list"
  efi_memory_map :: "efi_memory_descriptor list option"
  memory_map :: "memory_area list option"
  framebuffer_tag :: "framebuffer_info option"
  initrd_module :: "(nat \<times> nat) option"

definition MAGIC :: u32 where "MAGIC = 0x36D76289"

definition find_memory :: "boot_information \<Rightarrow> phys_state \<Rightarrow> phys_state result" where
  "find_memory bi st =
     (if efi_bs_not_exited bi then
        and_then (guard Bad_Boot_Information (efi_handles bi)) (\<lambda>_. scan_efi_memory_map (exit_boot_services bi) st)
      else
        (case efi_memory_map bi of
           Some mm \<Rightarrow> scan_efi_multiboot2_memory_map mm st
         | None \<Rightarrow>
             (case memory_map bi of
                Some mm \<Rightarrow> scan_multiboot2_memory_map mm st
              | None \<Rightarrow> Inl Bad_Boot_Information)))"

text \<open>\<open>kernel_image_region\<close>, where the two arguments are the addresses of the linker symbols.\<close>

definition kernel_image_region :: "nat \<Rightarrow> nat \<Rightarrow> phys_frame_range result" where
  "kernel_image_region data_start data_end =
     and_then (phys_addr data_start) (\<lambda>a.
     and_then (guard Unwrap_None (a mod PAGE_SIZE = 0)) (\<lambda>_.
     and_then (frame_align_up data_end) (\<lambda>e.
       Inr (frame_range (a div PAGE_SIZE) e))))"

definition INIT_HEAP_PAGES :: nat where "INIT_HEAP_PAGES = 0x400"

record 'e booted =
  boot_heap :: phys_frame_range
  boot_kernel :: process
  boot_manager :: process_manager
  boot_machine :: "'e machine"

text \<open>\<open>start\<close> up to the kernel process; \<open>None\<close> if the loop of \<open>reserve\<close> does not end.\<close>

definition start_memory ::
  "('e, 'f) entry_ops \<Rightarrow> 'f \<Rightarrow> nat \<Rightarrow> nat \<Rightarrow> boot_information \<Rightarrow> 'e machine \<Rightarrow> 'e booted result option" where
  "start_memory ops kernel_flags data_start data_end bi m =
     (case and_then (guard Bad_Boot_Information (multiboot2_magic bi = MAGIC)) (\<lambda>_.
           and_then (find_memory bi (frames_state m)) (\<lambda>st.
           and_then (kernel_image_region data_start data_end) (\<lambda>image_region. Inr (st, image_region)))) of
        Inl p \<Rightarrow> Some (Inl p)
      | Inr (st, image_region) \<Rightarrow>
          Option.bind (phys_reserve image_region st) (\<lambda>reserved. Some (
            and_then reserved (\<lambda>st1.
            and_then (phys_alloc INIT_HEAP_PAGES st1) (\<lambda>(heap_region, st2).
            and_then (create_process ops kernel_flags process_manager_new (m\<lparr>frames_state := st2\<rparr>)) (\<lambda>(kernel_proc, pm, m1).
              Inr \<lparr>boot_heap = heap_region, boot_kernel = kernel_proc, boot_manager = pm, boot_machine = m1\<rparr>))))))"

text \<open>The pages of the frame buffer; its size is computed in 32 bits.\<close>

definition map_framebuffer ::
  "('e, 'f) entry_ops \<Rightarrow> 'f \<Rightarrow> boot_information \<Rightarrow> process \<Rightarrow> 'e machine \<Rightarrow> 'e machine result" where
  "map_framebuffer ops no_cache bi kernel_proc m =
     and_then (unwrap Unwrap_None (framebuffer_tag bi)) (\<lambda>fb.
     and_then (guard Bad_Address (canonical_address (fb_address fb))) (\<lambda>_.
     and_then (guard Unwrap_None (fb_address fb mod PAGE_SIZE = 0)) (\<lambda>_.
     and_then (u32_mul (fb_height fb) (fb_pitch fb)) (\<lambda>sz.
     and_then (usize_add (fb_address fb) sz) (\<lambda>e.
     and_then (guard Bad_Address (canonical_address e)) (\<lambda>_.
       map_pages ops (proc_address_space kernel_proc)
         \<lparr>page_start = fb_address fb div PAGE_SIZE, page_end = (e + PAGE_SIZE - 1) div PAGE_SIZE\<rparr> Kernel no_cache m))))))"

text \<open>\<open>init_initrd\<close>: the frames of the module are reserved, its bytes are the ramdisk.\<close>

definition initrd_frames :: "nat \<times> nat \<Rightarrow> phys_frame_range result" where
  "initrd_frames module =
     and_then (phys_addr (fst module)) (\<lambda>a.
     and_then (guard Unwrap_None (a mod PAGE_SIZE = 0)) (\<lambda>_.
     and_then (frame_align_up (snd module)) (\<lambda>e.
       Inr (frame_range (a div PAGE_SIZE) e))))"

definition init_initrd :: "boot_information \<Rightarrow> bytes \<Rightarrow> phys_state \<Rightarrow> (u8 list \<times> phys_state) result option" where
  "init_initrd bi ram st =
     (case initrd_module bi of
        None \<Rightarrow> Some (Inl Unwrap_None)
      | Some module \<Rightarrow>
          (case initrd_frames module of
             Inl p \<Rightarrow> Some (Inl p)
           | Inr frames \<Rightarrow>
               Option.bind (phys_reserve frames st) (\<lambda>reserved. Some (
                 and_then reserved (\<lambda>st1.
                 and_then (checked_sub (snd module) (fst module)) (\<lambda>len.
                   Inr (map (\<lambda>i. ram (fst module + i)) [0..<len], st1)))))))"

section \<open>Segments\<close>

text \<open>
  The descriptors that \<open>init_gdt\<close> adds; the descriptor of the task state segment takes two entries. The table of the \<open>x86_64\<close>
  crate starts with a null entry and has room for eight.
\<close>

datatype gdt_descriptor = Null_Segment | Kernel_Code_Segment | Kernel_Data_Segment | User_Data_Segment | User_Code_Segment | Tss_Low | Tss_High

definition gdt_add_entry :: "gdt_descriptor list \<Rightarrow> gdt_descriptor list \<Rightarrow> gdt_descriptor list result" where
  "gdt_add_entry entry gdt = and_then (guard Index_Out_Of_Bounds (length gdt + length entry \<le> 8)) (\<lambda>_. Inr (gdt @ entry))"

record segment_state =
  seg_gdt :: "gdt_descriptor list"
  seg_tr :: u16
  reg_cs :: u16
  reg_ss :: u16
  reg_ds :: u16
  reg_es :: u16
  reg_fs :: u16
  reg_gs :: u16

definition init_gdt :: "segment_state result" where
  "init_gdt =
     and_then (gdt_add_entry [Kernel_Code_Segment] [Null_Segment]) (\<lambda>g1.
     and_then (gdt_add_entry [Kernel_Data_Segment] g1) (\<lambda>g2.
     and_then (gdt_add_entry [User_Data_Segment] g2) (\<lambda>g3.
     and_then (gdt_add_entry [User_Code_Segment] g3) (\<lambda>g4.
     and_then (gdt_add_entry [Tss_Low, Tss_High] g4) (\<lambda>g5.
       Inr \<lparr>seg_gdt = g5, seg_tr = segment_selector 5 0, reg_cs = segment_selector 1 0, reg_ss = segment_selector 2 0,
            reg_ds = segment_selector 0 0, reg_es = segment_selector 0 0, reg_fs = segment_selector 0 0, reg_gs = segment_selector 0 0\<rparr>)))))"

text \<open>
  \<open>init\<close> of the system call dispatcher. \<open>Star::write\<close> checks that the selectors lie as the processor expects them and stores two bases:
  \<open>syscall\<close> loads the second one and the selector after it, \<open>sysretq\<close> loads the selectors two and one after the first, both with privilege level 3.
\<close>

record syscall_registers =
  efer_sce :: bool
  star_sysret :: u16
  star_syscall :: u16
  lstar :: u64

definition star_write :: "u16 \<Rightarrow> u16 \<Rightarrow> u16 \<Rightarrow> u16 \<Rightarrow> (u16 \<times> u16) option" where
  "star_write cs_sysret ss_sysret cs_syscall ss_syscall =
     (if cs_sysret - 16 \<noteq> ss_sysret - 8 \<or> cs_syscall \<noteq> ss_syscall - 8 \<or> ss_sysret AND 3 \<noteq> 3 \<or> ss_syscall AND 3 \<noteq> 0 then None
      else Some (ss_sysret - 8, cs_syscall))"

definition syscall_init :: "u64 \<Rightarrow> syscall_registers \<Rightarrow> syscall_registers result" where
  "syscall_init handler r =
     and_then (unwrap Unwrap_None (star_write (segment_selector 4 3) (segment_selector 3 3) (segment_selector 1 0) (segment_selector 2 0)))
       (\<lambda>(sysret, syscall). Inr (r\<lparr>efer_sce := True, star_sysret := sysret, star_syscall := syscall, lstar := handler\<rparr>))"

text \<open>The descriptor and the privilege level of a selector.\<close>

definition selected :: "segment_state \<Rightarrow> u16 \<Rightarrow> gdt_descriptor \<times> nat" where
  "selected s sel = (seg_gdt s ! (unat sel div 8), unat sel mod 4)"

section \<open>What the memory map announces\<close>

fun area_ranges :: "('a \<Rightarrow> phys_frame_range result) \<Rightarrow> 'a list \<Rightarrow> phys_frame_range list result" where
  "area_ranges frames_of [] = Inr []"
| "area_ranges frames_of (area # areas) = and_then (frames_of area) (\<lambda>r. and_then (area_ranges frames_of areas) (\<lambda>rs. Inr (r # rs)))"

definition announced :: "boot_information \<Rightarrow> phys_frame_range list result" where
  "announced bi =
     (if efi_bs_not_exited bi then
        and_then (guard Bad_Boot_Information (efi_handles bi)) (\<lambda>_.
          area_ranges efi_area_frames (filter (\<lambda>area. usable_type (area_ty area)) (exit_boot_services bi)))
      else
        (case (efi_memory_map bi, memory_map bi) of
           (Some mm, _) \<Rightarrow> area_ranges efi_area_frames (filter (\<lambda>area. usable_type (area_ty area)) mm)
         | (None, Some mm) \<Rightarrow> area_ranges multiboot2_area_frames (filter area_available mm)
         | (None, None) \<Rightarrow> Inl Bad_Boot_Information))"

definition proper_ranges :: "phys_frame_range list \<Rightarrow> bool" where
  "proper_ranges rs \<longleftrightarrow> list_all (\<lambda>r. range_start r < range_end r) rs \<and> sorted_wrt (\<lambda>r q. range_frames r \<inter> range_frames q = {}) rs"

definition available :: "phys_frame_range list \<Rightarrow> nat set" where
  "available rs = (\<Union>r \<in> set rs. range_frames r) - {0}"

fun highest :: "phys_frame_range list \<Rightarrow> nat" where
  "highest [] = 0"
| "highest (r # rs) = max (if range_end r \<le> 1 then 0 else range_end r) (highest rs)"

fun insert_ranges :: "phys_frame_range list \<Rightarrow> phys_state \<Rightarrow> phys_state result" where
  "insert_ranges [] st = Inr st"
| "insert_ranges (r # rs) st = and_then (phys_insert r st) (insert_ranges rs)"

definition no_frames :: phys_state where
  "no_frames = \<lparr>page_frame_allocator = [], phys_limit = None\<rparr>"

text \<open>What memory looks like after booting from the announced ranges \<open>rs\<close> with the image \<open>im\<close>.\<close>

definition sound_boot :: "('e, 'f) entry_ops \<Rightarrow> phys_frame_range list \<Rightarrow> phys_frame_range \<Rightarrow> 'e booted \<Rightarrow> bool" where
  "sound_boot ops rs im b \<longleftrightarrow>
    range_end (boot_heap b) = range_start (boot_heap b) + INIT_HEAP_PAGES \<and>
    range_frames (boot_heap b) \<subseteq> available rs - range_frames im \<and>
    free_of (boot_machine b) \<subseteq> available rs - range_frames im - range_frames (boot_heap b) \<and>
    tabs ops 4 (root_table (proc_address_space (boot_kernel b))) (boot_machine b)
      \<subseteq> available rs - range_frames im - range_frames (boot_heap b) - free_of (boot_machine b) \<and>
    kernel_process (boot_manager b) = Some (boot_kernel b) \<and>
    (\<forall>addr < highest rs * PAGE_SIZE. translate ops (proc_address_space (boot_kernel b)) addr (boot_machine b) = Inr (Some addr))"

text \<open>The address space is well formed, and at most \<open>n\<close> frames of \<open>F\<close> have been taken.\<close>

definition spacious_boot :: "('e, 'f) entry_ops \<Rightarrow> nat set \<Rightarrow> nat \<Rightarrow> 'e booted \<Rightarrow> bool" where
  "spacious_boot ops F n b \<longleftrightarrow>
    good ops 4 (root_table (proc_address_space (boot_kernel b))) (boot_machine b) \<and> depth (proc_address_space (boot_kernel b)) = 4 \<and>
    free_of (boot_machine b) \<subseteq> F \<and> card F \<le> card (free_of (boot_machine b)) + n"

text \<open>127 MiB from 1 MiB on; the kernel image takes the second megabyte of it, the ramdisk the third.\<close>

definition example_boot :: boot_information where
  "example_boot = \<lparr>multiboot2_magic = MAGIC, efi_bs_not_exited = False, efi_handles = False, exit_boot_services = [], efi_memory_map = None,
     memory_map = Some [\<lparr>area_available = True, area_start_address = 0x100000, area_end_address = 0x8000000\<rparr>],
     framebuffer_tag = None, initrd_module = Some (0x300000, 0x400000)\<rparr>"

definition blank_machine :: "u64 machine" where
  "blank_machine = \<lparr>frames_state = no_frames, tables = (\<lambda>_. replicate 512 0)\<rparr>"

section \<open>Lemmas\<close>

lemma insert_areas_ranges: "area_ranges frames_of areas = Inr rs \<Longrightarrow> insert_areas frames_of areas st = insert_ranges rs st"
proof (induction areas arbitrary: rs st)
  case (Cons area areas)
  then obtain r rs' where "frames_of area = Inr r" "area_ranges frames_of areas = Inr rs'" "rs = r # rs'" by (auto simp: result_simps)
  with Cons.IH show ?case by (cases "phys_insert r st") auto
qed simp

lemma find_memory_ranges: "announced bi = Inr rs \<Longrightarrow> find_memory bi st = insert_ranges rs st"
  by (auto simp: find_memory_def announced_def scan_efi_memory_map_def scan_efi_multiboot2_memory_map_def
      scan_multiboot2_memory_map_def insert_areas_ranges result_simps split: if_splits option.splits)

lemma insert_ranges_spec:
  assumes "wf_free (page_frame_allocator st)" "proper_ranges rs" "\<forall>r \<in> set rs. range_frames r \<inter> free_frames (page_frame_allocator st) = {}"
  shows "\<exists>st'. insert_ranges rs st = Inr st' \<and> wf_free (page_frame_allocator st') \<and>
    free_frames (page_frame_allocator st') = free_frames (page_frame_allocator st) \<union> available rs \<and>
    (case phys_limit st' of None \<Rightarrow> 0 | Some l \<Rightarrow> l) = max (case phys_limit st of None \<Rightarrow> 0 | Some l \<Rightarrow> l) (highest rs) \<and>
    (rs \<noteq> [] \<or> phys_limit st \<noteq> None \<longrightarrow> phys_limit st' \<noteq> None)"
  using assms
proof (induction rs arbitrary: st)
  case (Cons r rs)
  have r: "range_start r < range_end r" "range_frames r \<inter> free_frames (page_frame_allocator st) = {}"
    using Cons.prems by (simp_all add: proper_ranges_def)
  obtain st1 where st1: "phys_insert r st = Inr st1" "wf_free (page_frame_allocator st1)"
    "free_frames (page_frame_allocator st1) = free_frames (page_frame_allocator st) \<union> (range_frames r - {0})"
    "phys_limit st1 \<noteq> None"
    "(case phys_limit st1 of None \<Rightarrow> 0 | Some l \<Rightarrow> l) = max (case phys_limit st of None \<Rightarrow> 0 | Some l \<Rightarrow> l) (if range_end r \<le> 1 then 0 else range_end r)"
  proof -
    have "range_frames r \<subseteq> {0} \<longleftrightarrow> range_end r \<le> 1"
      using r(1) by (auto simp: range_frames_def subset_iff dest: spec[of _ "range_end r - 1"])
    then show ?thesis using phys_insert_spec[OF Cons.prems(1) r] that by (auto simp: Let_def split: if_splits)
  qed
  have "proper_ranges rs" "\<forall>q \<in> set rs. range_frames q \<inter> free_frames (page_frame_allocator st1) = {}"
    using Cons.prems st1(3) by (auto simp: proper_ranges_def)
  from Cons.IH[OF st1(2) this] st1 show ?case by (auto simp: available_def)
qed (auto simp: available_def)

lemma available_below: "f \<in> available rs \<Longrightarrow> f < highest rs"
  by (induction rs) (auto simp: available_def range_frames_def less_max_iff_disj)

text \<open>A free interval lies in one block, since touching blocks are fused.\<close>

lemma interval_in_block:
  assumes "wf_free l" "{a..<b} \<subseteq> free_frames l" "a < b"
  shows "\<exists>c \<in> set l. node_start c \<le> a \<and> b \<le> node_end c"
  using assms
proof (induction l)
  case (Cons c l)
  note above = wf_free_frames_above[OF Cons.prems(1)]
  have a: "a \<in> free_frames (c # l)" using Cons.prems(2,3) by auto
  show ?case
  proof (cases "a < node_end c")
    case True
    have "node_start c \<le> a" using a above[of a] True by (auto simp: node_frames_def)
    moreover have "b \<le> node_end c"
    proof (rule ccontr)
      assume "\<not> b \<le> node_end c"
      then have "node_end c \<in> {a..<b}" using True by simp
      then have "node_end c \<in> free_frames (c # l)" using Cons.prems(2) by blast
      then show False using above[of "node_end c"] by (auto simp: node_frames_def)
    qed
    ultimately show ?thesis by auto
  next
    case False
    have "{a..<b} \<subseteq> free_frames l" using Cons.prems(2) False by (auto simp: node_frames_def)
    then show ?thesis using Cons.IH Cons.prems(1,3) by (auto simp: wf_free_Cons)
  qed
qed simp

lemma blocks_disjoint: "wf_free l \<Longrightarrow> b \<in> set l \<Longrightarrow> c \<in> set l \<Longrightarrow> f \<in> node_frames b \<Longrightarrow> f \<in> node_frames c \<Longrightarrow> b = c"
  by (induction l) (fastforce simp: wf_free_Cons node_frames_def)+

text \<open>An image with a free frame on either side covers no free block.\<close>

lemma surrounded_covers_no_block:
  assumes wf: "wf_free l" and "{range_start r - 1..range_end r} \<subseteq> free_frames l" "0 < range_start r" "range_start r < range_end r"
  shows "covers_no_block r l"
proof -
  have "{range_start r - 1..<Suc (range_end r)} \<subseteq> free_frames l" using assms(2) by (simp add: atLeastLessThanSuc_atLeastAtMost)
  moreover have "range_start r - 1 < Suc (range_end r)" using assms(4) by simp
  ultimately obtain c where c: "c \<in> set l" "node_start c \<le> range_start r - 1" "Suc (range_end r) \<le> node_end c"
    using interval_in_block[OF wf] by blast
  have "node_start b < range_start r \<or> range_end r < node_end b" if b: "b \<in> set l" for b
  proof (rule ccontr)
    assume n: "\<not> (node_start b < range_start r \<or> range_end r < node_end b)"
    have "node_start b \<in> node_frames b" using wf_free_count[OF wf b] by (simp add: node_frames_def node_end_def)
    moreover from this have "node_start b \<in> node_frames c" using n c by (auto simp: node_frames_def)
    ultimately have "b = c" using blocks_disjoint[OF wf b c(1)] by blast
    then show False using n c assms(3) by auto
  qed
  then show ?thesis by (simp add: covers_no_block_def list_all_iff)
qed

lemma new_space_good:
  assumes ops: "page_table_entry ops valid_flags" and wf: "wf_alloc m" and mem: "0 < card (free_of m)"
  shows "\<exists>t m1. address_space_new ops (Suc l) m = Inr (\<lparr>root_table = t, depth = Suc l\<rparr>, m1) \<and> good ops (Suc l) t m1 \<and>
    t \<in> free_of m \<and> free_of m1 = free_of m - {t} \<and> tabs ops (Suc l) t m1 = {t} \<and> limit_of m1 = limit_of m"
proof -
  have "alloc_frame m \<noteq> Inl Out_Of_Memory" using alloc_frame_cost[OF wf] mem by (auto split: sum.splits)
  then obtain t m0 where a: "alloc_frame m = Inr (t, m0)" "t \<in> free_of m" "free_of m0 = free_of m - {t}" "wf_alloc m0"
    using alloc_frame_cases[OF wf] by metis
  let ?m1 = "zero_table ops t m0"
  have "\<not> used ops ?m1 t i" if "i < 512" for i using page_table_entry.unused[OF ops] that by (simp add: used_def)
  then have "wf_tab ops (Suc l) t ?m1" "tabs ops (Suc l) t ?m1 = {t}" by auto
  then show ?thesis using a alloc_frame_limit[OF a(1)]
    by (auto simp: address_space_new_def good_def simp del: wf_tab.simps tabs.simps)
qed

lemma kernel_process_created:
  assumes ops: "page_table_entry ops valid_flags" and fl: "valid_flags fl" and wf: "wf_alloc m"
    and limit: "limit_of m = Some limit" "0 < limit" "limit \<le> 512 ^ 4" and mem: "1 + tables_for 3 0 limit \<le> card (free_of m)"
  shows "\<exists>p pm m'. create_process ops fl process_manager_new m = Inr (p, pm, m') \<and> kernel_process pm = Some p \<and>
    depth (proc_address_space p) = 4 \<and> free_of m' \<subseteq> free_of m \<and>
    tabs ops 4 (root_table (proc_address_space p)) m' \<subseteq> free_of m - free_of m' \<and>
    (\<forall>addr < limit * PAGE_SIZE. translate ops (proc_address_space p) addr m' = Inr (Some addr)) \<and>
    good ops 4 (root_table (proc_address_space p)) m' \<and> card (free_of m) \<le> card (free_of m') + (1 + tables_for 3 0 limit)"
proof -
  have "0 < card (free_of m)" using mem by simp
  from new_space_good[OF ops wf this, of 3] obtain t m1 where t: "address_space_new ops 4 m = Inr (\<lparr>root_table = t, depth = 4\<rparr>, m1)"
    "good ops 4 t m1" "t \<in> free_of m" "free_of m1 = free_of m - {t}" "tabs ops 4 t m1 = {t}" "limit_of m1 = Some limit"
    using limit(1) by (auto simp: eval_nat_numeral simp del: tabs.simps)
  let ?a = "\<lparr>root_table = t, depth = 4\<rparr>" and ?pages = "\<lparr>page_start = 0, page_end = limit\<rparr>"
  have c: "tables_for 3 0 limit \<le> card (free_of m1)" using mem t(3,4) finite_free[of m] by (simp add: card_Diff_singleton)
  have "(4::nat) = Suc 3" by simp
  have "(map_pages ops ?a ?pages Kernel fl m1 = Inl Out_Of_Memory \<and> card (free_of m1) < tables_for 3 (page_start ?pages) (page_end ?pages)) \<or>
    (\<exists>m'. map_pages ops ?a ?pages Kernel fl m1 = Inr m' \<and> good ops (Suc 3) t m' \<and>
       map_post ops (\<lambda>p f. f = p) False (Suc 3) t (page_start ?pages) (page_end ?pages - page_start ?pages) m1 m' \<and>
       card (free_of m1) \<le> card (free_of m') + tables_for 3 (page_start ?pages) (page_end ?pages))"
    by (rule identity_map_total[OF ops _ fl]) (use t(2) limit in simp_all)
  then obtain m' where m': "map_pages ops ?a ?pages Kernel fl m1 = Inr m'" "good ops 4 t m'" "card (free_of m1) \<le> card (free_of m') + tables_for 3 0 limit"
    and post: "map_post ops (\<lambda>p f. f = p) False 4 t 0 limit m1 m'"
    using c by (auto simp del: tables_for_simps)
  have free: "free_of m' \<subseteq> free_of m1" "tabs ops 4 t m' \<subseteq> {t} \<union> (free_of m1 - free_of m')"
    using post t(5) by (auto simp: map_post_def simp del: tabs.simps)
  have "translate ops ?a addr m' = Inr (Some addr)" if "addr < limit * PAGE_SIZE" for addr
  proof -
    have "addr div PAGE_SIZE \<in> {0..<0 + limit}" using that by (simp add: less_mult_imp_div_less)
    then show ?thesis using map_post_translate[of ops _ False ?a 0 limit m1 m'] post limit(2,3) by fastforce
  qed
  moreover have "card (free_of m) \<le> card (free_of m') + (1 + tables_for 3 0 limit)"
    using m'(3) t(3,4) finite_free[of m] by (simp add: card_Diff_singleton del: tables_for_simps)
  ultimately show ?thesis using t m'(1,2) free
    by (auto simp: create_process_def kernel_process_def process_manager_new_def process_new_def limit_of_def Let_def simp del: tabs.simps)
qed

text \<open>The allocator once the memory map has been read and the image has been reserved.\<close>

lemma memory_after_reserve:
  assumes "announced bi = Inr rs" "proper_ranges rs" "range_start im < range_end im" "{range_start im - 1..range_end im} \<subseteq> available rs"
  shows "\<exists>st st1. find_memory bi no_frames = Inr st \<and> phys_reserve im st = Some (Inr st1) \<and> wf_free (page_frame_allocator st1) \<and>
    free_frames (page_frame_allocator st1) = available rs - range_frames im \<and> phys_limit st1 = Some (highest rs)"
proof -
  obtain st where st: "insert_ranges rs no_frames = Inr st" "wf_free (page_frame_allocator st)" "free_frames (page_frame_allocator st) = available rs"
    "(case phys_limit st of None \<Rightarrow> 0 | Some l \<Rightarrow> l) = highest rs" "rs \<noteq> [] \<longrightarrow> phys_limit st \<noteq> None"
    using insert_ranges_spec[of no_frames rs] assms(2) by (auto simp: no_frames_def)
  have "rs \<noteq> []" using assms(3,4) by (auto simp: available_def)
  then have limit: "phys_limit st = Some (highest rs)" using st(4,5) by (auto split: option.splits)
  have "0 < range_start im"
  proof (rule ccontr)
    assume "\<not> 0 < range_start im"
    then have "0 \<in> {range_start im - 1..range_end im}" by simp
    then show False using assms(4) by (auto simp: available_def)
  qed
  then have "covers_no_block im (page_frame_allocator st)"
    using surrounded_covers_no_block[OF st(2)] assms(3,4) st(3) by simp
  from reserve_loop_correct[OF st(2) assms(3) this] obtain l where "reserve_block im (page_frame_allocator st) = Some (Inr l)" "wf_free l"
    "free_frames l = available rs - range_frames im" using st(3) by (auto simp: reserve_block_def)
  then show ?thesis using st(1) limit find_memory_ranges[OF assms(1), of no_frames] by (auto simp: phys_reserve_def)
qed

lemma heap_allocated:
  assumes "wf_free (page_frame_allocator st)" "{h..<h + n} \<subseteq> free_frames (page_frame_allocator st)" "0 < n"
  shows "\<exists>r st'. phys_alloc n st = Inr (r, st') \<and> wf_free (page_frame_allocator st') \<and> range_end r = range_start r + n \<and>
    range_frames r \<subseteq> free_frames (page_frame_allocator st) \<and>
    free_frames (page_frame_allocator st') = free_frames (page_frame_allocator st) - range_frames r \<and> phys_limit st' = phys_limit st"
proof -
  obtain c where c: "c \<in> set (page_frame_allocator st)" "node_start c \<le> h" "h + n \<le> node_end c"
    using interval_in_block[OF assms(1,2)] assms(3) by auto
  then have "n \<le> frame_count c" by (simp add: node_end_def)
  then have "alloc_block n (page_frame_allocator st) \<noteq> Inl p" for p using c(1) by (auto simp: alloc_block_fails not_less)
  then obtain r l where "alloc_block n (page_frame_allocator st) = Inr (r, l)" by (cases "alloc_block n (page_frame_allocator st)") auto
  then show ?thesis using alloc_block_frames[OF assms(1)] alloc_block_wf[OF assms(1)] by (auto simp: phys_alloc_def)
qed

lemma boot_memory_runs:
  assumes "page_table_entry ops valid_flags" "valid_flags fl" "frames_state m = no_frames"
    and "multiboot2_magic bi = MAGIC" "announced bi = Inr rs" "proper_ranges rs" "highest rs \<le> 512 ^ 4"
    and "kernel_image_region data_start data_end = Inr im" "range_start im < range_end im"
      "{range_start im - 1..range_end im} \<subseteq> available rs"
    and "{h..<h + INIT_HEAP_PAGES} \<subseteq> available rs - range_frames im"
    and "INIT_HEAP_PAGES + 1 + tables_for 3 0 (highest rs) \<le> card (available rs - range_frames im)"
  shows "\<exists>b. start_memory ops fl data_start data_end bi m = Some (Inr b) \<and> sound_boot ops rs im b \<and>
    spacious_boot ops (available rs - range_frames im - range_frames (boot_heap b)) (1 + tables_for 3 0 (highest rs)) b"
proof -
  obtain st st1 where st: "find_memory bi (frames_state m) = Inr st" "phys_reserve im st = Some (Inr st1)"
    "wf_free (page_frame_allocator st1)" "free_frames (page_frame_allocator st1) = available rs - range_frames im"
    "phys_limit st1 = Some (highest rs)" using memory_after_reserve[OF assms(5,6,9,10)] assms(3) by auto
  have "0 < INIT_HEAP_PAGES" by (simp add: INIT_HEAP_PAGES_def)
  from heap_allocated[OF st(3) _ this, of h] obtain r st2 where r: "phys_alloc INIT_HEAP_PAGES st1 = Inr (r, st2)"
    "wf_free (page_frame_allocator st2)" "range_end r = range_start r + INIT_HEAP_PAGES" "range_frames r \<subseteq> available rs - range_frames im"
    "free_frames (page_frame_allocator st2) = available rs - range_frames im - range_frames r" "phys_limit st2 = Some (highest rs)"
    using st(4,5) assms(11) by auto
  let ?m = "m\<lparr>frames_state := st2\<rparr>"
  have free: "free_of ?m = available rs - range_frames im - range_frames r" using r(5) by (simp add: free_of_def)
  have low: "f < highest rs" if "f \<in> free_of ?m" for f using that free available_below by auto
  have wf: "wf_alloc ?m" using r(2) low assms(7) by (force simp: wf_alloc_def)
  have "card (range_frames r) = INIT_HEAP_PAGES" using r(3) by (simp add: range_frames_def)
  then have mem: "1 + tables_for 3 0 (highest rs) \<le> card (free_of ?m)"
    using assms(12) r(4) by (simp add: free card_Diff_subset range_frames_def)
  then have "free_of ?m \<noteq> {}" by auto
  then have "0 < highest rs" using low by (metis ex_in_conv gr0I not_less0)
  from kernel_process_created[OF assms(1,2) wf _ this assms(7) mem] obtain p pm m' where
    p: "create_process ops fl process_manager_new ?m = Inr (p, pm, m')" "kernel_process pm = Some p" "free_of m' \<subseteq> free_of ?m"
      "tabs ops 4 (root_table (proc_address_space p)) m' \<subseteq> free_of ?m - free_of m'"
      "\<forall>addr < highest rs * PAGE_SIZE. translate ops (proc_address_space p) addr m' = Inr (Some addr)"
      "good ops 4 (root_table (proc_address_space p)) m'" "card (free_of ?m) \<le> card (free_of m') + (1 + tables_for 3 0 (highest rs))"
      "depth (proc_address_space p) = 4"
    using r(6) by (auto simp: limit_of_def simp del: tables_for_simps tabs.simps)
  have "start_memory ops fl data_start data_end bi m =
      Some (Inr \<lparr>boot_heap = r, boot_kernel = p, boot_manager = pm, boot_machine = m'\<rparr>)"
    using assms(4,8) st(1,2) r(1) p(1) by (simp add: start_memory_def)
  moreover have "sound_boot ops rs im \<lparr>boot_heap = r, boot_kernel = p, boot_manager = pm, boot_machine = m'\<rparr>"
    using r(3,4) p(2-5) by (auto simp: free sound_boot_def simp del: tabs.simps)
  moreover have "spacious_boot ops (available rs - range_frames im - range_frames r) (1 + tables_for 3 0 (highest rs))
      \<lparr>boot_heap = r, boot_kernel = p, boot_manager = pm, boot_machine = m'\<rparr>"
    using p(3,6-8) by (simp add: spacious_boot_def free del: tables_for_simps)
  ultimately show ?thesis by auto
qed

lemma example_ranges: "announced example_boot = Inr [frame_range 0x100 0x8000]"
  by (simp add: announced_def example_boot_def multiboot2_area_frames_def frame_align_up_def frame_align_down_def phys_addr_def PAGE_SIZE_def)

lemma example_image: "kernel_image_region 0x200000 0x300000 = Inr (frame_range 0x200 0x300)"
  by (simp add: kernel_image_region_def frame_align_up_def phys_addr_def PAGE_SIZE_def)

lemma example_available: "available [frame_range 0x100 0x8000] = {0x100..<0x8000}" "highest [frame_range 0x100 0x8000] = 0x8000"
  by (auto simp: available_def)

lemma example_room:
  "INIT_HEAP_PAGES + 1 + tables_for 3 0 (highest [frame_range 0x100 0x8000])
     \<le> card (available [frame_range 0x100 0x8000] - range_frames (frame_range 0x200 0x300))"
  "{0x300..<0x300 + INIT_HEAP_PAGES} \<subseteq> available [frame_range 0x100 0x8000] - range_frames (frame_range 0x200 0x300)"
proof -
  have "card ({0x100..<0x8000} - {0x200..<0x300::nat}) = 0x7E00" by (subst card_Diff_subset) auto
  moreover have "{1..3::nat} = {1, 2, 3}" by auto
  then have "tables_for 3 0 0x8000 = 66" by (simp add: tables_for_def blocks_def)
  ultimately show "INIT_HEAP_PAGES + 1 + tables_for 3 0 (highest [frame_range 0x100 0x8000])
     \<le> card (available [frame_range 0x100 0x8000] - range_frames (frame_range 0x200 0x300))"
    by (simp add: example_available INIT_HEAP_PAGES_def del: tables_for_simps)
  show "{0x300..<0x300 + INIT_HEAP_PAGES} \<subseteq> available [frame_range 0x100 0x8000] - range_frames (frame_range 0x200 0x300)"
    by (auto simp: example_available INIT_HEAP_PAGES_def)
qed

lemma example_boot_facts:
  "x86_valid_flags 3" "frames_state blank_machine = no_frames" "multiboot2_magic example_boot = MAGIC" "proper_ranges [frame_range 0x100 0x8000]"
  "highest [frame_range 0x100 0x8000] \<le> 512 ^ 4" "range_start (frame_range 0x200 0x300) < range_end (frame_range 0x200 0x300)"
  "{range_start (frame_range 0x200 0x300) - 1..range_end (frame_range 0x200 0x300)} \<subseteq> available [frame_range 0x100 0x8000]"
  by (auto simp: x86_valid_flags_def addr_mask_def mask_eq_exp_minus_1 blank_machine_def example_boot_def proper_ranges_def available_def)

lemma example_boots: "\<exists>b. start_memory x86_entry_ops 3 0x200000 0x300000 example_boot blank_machine = Some (Inr b)"
  using boot_memory_runs[OF x86.page_table_entry_axioms example_boot_facts(1-3) example_ranges example_boot_facts(4,5) example_image
      example_boot_facts(6,7) example_room(2,1)] by blast

section \<open>Properties\<close>





text \<open>
  a memory area inside one page. An area of the Multiboot2 map that is marked available but contains neither a page boundary nor a whole page is
  not skipped: its start is rounded up past its rounded down end, and the subtraction in \<open>free_block\<close> panics.
\<close>

theorem area_inside_a_page_panics:
  assumes "area_available area" "area_start_address area mod PAGE_SIZE \<noteq> 0"
    "area_start_address area div PAGE_SIZE = area_end_address area div PAGE_SIZE" "area_end_address area < 2 ^ 52 - PAGE_SIZE"
  shows "scan_multiboot2_memory_map (area # areas) st = Inl Sub_Overflow"
proof -
  define q r where "q = area_start_address area div 4096" "r = area_start_address area mod 4096"
  have s: "area_start_address area = 4096 * q + r" "0 < r" "r < 4096" using assms(2) by (simp_all add: q_r_def PAGE_SIZE_def)
  have e: "area_end_address area div 4096 = q" using assms(3) by (simp add: q_r_def PAGE_SIZE_def)
  then have le: "4096 * q \<le> area_end_address area" by (metis mult.commute div_times_less_eq_dividend)
  have "area_end_address area < 2 ^ 52 - 4096" using assms(4) by (simp add: PAGE_SIZE_def)
  moreover from this s le have "area_start_address area < 2 ^ 52" "Suc q * 4096 < 2 ^ 52" by simp_all
  moreover have "(4095 + area_start_address area) div 4096 = Suc q" unfolding s(1) by (rule div_nat_eqI) (use s in simp_all)
  ultimately have "multiboot2_area_frames area = Inr (frame_range (Suc q) q)"
    using e by (simp add: multiboot2_area_frames_def frame_align_up_def frame_align_down_def phys_addr_def PAGE_SIZE_def)
  then show ?thesis using assms(1)
    by (simp add: scan_multiboot2_memory_map_def phys_insert_def Let_def free_block_def checked_sub_def)
qed

theorem area_inside_a_page_panics_witness:
  "scan_multiboot2_memory_map [\<lparr>area_available = True, area_start_address = 0x9F400, area_end_address = 0x9FC00\<rparr>] no_frames = Inl Sub_Overflow"
  by (rule area_inside_a_page_panics) (simp_all add: PAGE_SIZE_def)

lemma store_from_top_length: "store_from_top n k x xs = Inr ys \<Longrightarrow> length ys = length xs"
  by (auto simp: store_from_top_def result_simps split: if_splits)

lemma user_mode_stack_length:
  assumes "switch_to_user_mode entry st = Inr st'"
  shows "length (kernel_stack st') = length (kernel_stack st)"
proof -
  from assms obtain k1 k2 k3 k4 k5 k6 top i where
    "store_from_top (kernel_capacity st) 6 entry (kernel_stack st) = Inr k1"
    "store_from_top (kernel_capacity st) 5 (ucast (segment_selector 4 3)) k1 = Inr k2"
    "store_from_top (kernel_capacity st) 4 0x202 k2 = Inr k3" "store_from_top (kernel_capacity st) 3 (user_ptr st + of_nat top * 8) k3 = Inr k4"
    "store_from_top (kernel_capacity st) 2 (ucast (segment_selector 3 3)) k4 = Inr k5" "store_from_top (kernel_capacity st) 1 0xDEAD00 k5 = Inr k6"
    "st' = st\<lparr>kernel_stack := k6, user_stack := user_stack st @ replicate (user_capacity st) 0, old_rsp0 := kernel_ptr st + of_nat (i * 8)\<rparr>"
    unfolding switch_to_user_mode_def Let_def and_then_eq_Inr sum.inject by (elim exE conjE) (metis (no_types))
  then show ?thesis by (simp add: store_from_top_length)
qed

text \<open>
  C22: every selector names the segment it is used for. With the table that \<open>init_gdt\<close> builds and the registers that \<open>syscall_init\<close> writes, the kernel runs on
  the kernel segments, \<open>syscall\<close> enters the kernel segments at the handler and \<open>sysretq\<close> leaves to the user segments with privilege level 3; the task
  register points to the task state segment. A new user thread, whose kernel stack is full and whose user stack is not empty, gets a frame from
  \<open>switch_to_user_mode\<close> on which \<open>thread_user_start\<close> continues at the entry point in the user code segment, on the user data segment, both with
  privilege level 3, with interrupts on and the stack pointer at the last word of the user stack.
\<close>

theorem selectors_name_their_segments:
  assumes "6 \<le> kernel_capacity st" "length (kernel_stack st) = kernel_capacity st" "0 < user_capacity st"
  shows "\<exists>s r st'. init_gdt = Inr s \<and> syscall_init handler old = Inr r \<and> efer_sce r \<and> lstar r = handler \<and>
     selected s (reg_cs s) = (Kernel_Code_Segment, 0) \<and> selected s (reg_ss s) = (Kernel_Data_Segment, 0) \<and>
     selected s (seg_tr s) = (Tss_Low, 0) \<and>
     selected s (star_syscall r) = (Kernel_Code_Segment, 0) \<and> selected s (star_syscall r + 8) = (Kernel_Data_Segment, 0) \<and>
     selected s (star_sysret r + 16) = (User_Code_Segment, 3) \<and> selected s (star_sysret r + 8) = (User_Data_Segment, 3) \<and>
     switch_to_user_mode entry st = Inr st' \<and>
     (vec_in_memory (mem c) (kernel_ptr st) (kernel_stack st') \<longrightarrow>
       (\<exists>c'. exec call thread_user_start (set_reg RDI (old_rsp0 st') c) = Inr c' \<and> rip c' = entry \<and>
          selected s (ucast (seg_cs c')) = (User_Code_Segment, 3) \<and> selected s (ucast (seg_ss c')) = (User_Data_Segment, 3) \<and>
          rflags c' AND INTERRUPT_FLAG = INTERRUPT_FLAG \<and> regs c' RSP = user_ptr st + 8 * of_nat (user_capacity st - 1)))"
proof -
  obtain s r where g: "init_gdt = Inr s" "syscall_init handler old = Inr r" "efer_sce r" "lstar r = handler"
     "selected s (reg_cs s) = (Kernel_Code_Segment, 0)" "selected s (reg_ss s) = (Kernel_Data_Segment, 0)" "selected s (seg_tr s) = (Tss_Low, 0)"
     "selected s (star_syscall r) = (Kernel_Code_Segment, 0)" "selected s (star_syscall r + 8) = (Kernel_Data_Segment, 0)"
     "selected s (star_sysret r + 16) = (User_Code_Segment, 3)" "selected s (star_sysret r + 8) = (User_Data_Segment, 3)"
     and sel: "selected s 0x23 = (User_Code_Segment, 3)" "selected s 0x1B = (User_Data_Segment, 3)"
    by (simp add: init_gdt_def gdt_add_entry_def syscall_init_def star_write_def segment_selector_def selected_def)
  from user_mode_entry[OF assms, of entry c call] obtain st' where st': "switch_to_user_mode entry st = Inr st'"
    and run: "vec_in_memory (mem c) (kernel_ptr st) (kernel_stack st') \<longrightarrow>
      (\<exists>c'. exec call thread_user_start (set_reg RDI (old_rsp0 st') c) = Inr c' \<and> rip c' = entry \<and> seg_cs c' = 0x23 \<and>
         seg_ss c' = 0x1B \<and> rflags c' = 0x202 \<and> regs c' RSP = user_ptr st + 8 * of_nat (user_capacity st - 1))" by blast
  have "ucast (0x23 :: u64) = (0x23 :: u16)" "ucast (0x1B :: u64) = (0x1B :: u16)" "(0x202 :: u64) AND INTERRUPT_FLAG = INTERRUPT_FLAG"
    by (simp_all add: INTERRUPT_FLAG_def)
  with run sel have "vec_in_memory (mem c) (kernel_ptr st) (kernel_stack st') \<longrightarrow>
       (\<exists>c'. exec call thread_user_start (set_reg RDI (old_rsp0 st') c) = Inr c' \<and> rip c' = entry \<and>
          selected s (ucast (seg_cs c')) = (User_Code_Segment, 3) \<and> selected s (ucast (seg_ss c')) = (User_Data_Segment, 3) \<and>
          rflags c' AND INTERRUPT_FLAG = INTERRUPT_FLAG \<and> regs c' RSP = user_ptr st + 8 * of_nat (user_capacity st - 1))" by auto
  with g st' show ?thesis by blast
qed

theorem selectors_name_their_segments_witness:
  "\<exists>s st' c'. init_gdt = Inr s \<and> switch_to_user_mode 0x10000000000 example_user_stacks = Inr st' \<and>
     exec plain_call thread_user_start (set_reg RDI (old_rsp0 st')
       (example_cpu\<lparr>mem := (\<lambda>a. kernel_stack st' ! (unat (a - 0x100000) div 8))\<rparr>)) = Inr c' \<and>
     rip c' = 0x10000000000 \<and> selected s (ucast (seg_cs c')) = (User_Code_Segment, 3)"
proof -
  have st: "6 \<le> kernel_capacity example_user_stacks" "length (kernel_stack example_user_stacks) = kernel_capacity example_user_stacks"
    "0 < user_capacity example_user_stacks" "kernel_ptr example_user_stacks = 0x100000" by (simp_all add: example_user_stacks_def)
  note rule = selectors_name_their_segments[OF st(1-3), where entry = "0x10000000000" and call = plain_call and handler = 0]
  obtain st' where st': "switch_to_user_mode 0x10000000000 example_user_stacks = Inr st'" using rule by blast
  then have len: "length (kernel_stack st') = 6" using user_mode_stack_length st(2) by (simp add: example_user_stacks_def)
  let ?c = "example_cpu\<lparr>mem := (\<lambda>a. kernel_stack st' ! (unat (a - 0x100000) div 8))\<rparr>"
  have "vec_in_memory (mem ?c) (kernel_ptr example_user_stacks) (kernel_stack st')"
    unfolding st(4) using len by (simp add: vec_memory)
  moreover from rule[where c = ?c and old = "\<lparr>efer_sce = False, star_sysret = 0, star_syscall = 0, lstar = 0\<rparr>"] st'
  obtain s where "init_gdt = Inr s" "vec_in_memory (mem ?c) (kernel_ptr example_user_stacks) (kernel_stack st') \<longrightarrow>
       (\<exists>c'. exec plain_call thread_user_start (set_reg RDI (old_rsp0 st') ?c) = Inr c' \<and> rip c' = 0x10000000000 \<and>
          selected s (ucast (seg_cs c')) = (User_Code_Segment, 3))" by auto
  ultimately show ?thesis using st' by blast
qed

end
