(* ===== verification/Interrupts.thy ===== *)
theory Interrupts
  imports Prelude
begin

text \<open>
  Interrupt vectors and the interrupt dispatcher of \<open>os/kernel/src/interrupt/interrupt_dispatcher.rs\<close>.
  Handlers are trait objects: what a handler does when it is triggered (to itself and to the rest of the
  system, of type \<open>'s\<close>) is the argument \<open>trigger\<close>, the acknowledgement by the APIC is the argument
  \<open>end_of_interrupt\<close>.

  Shown here: a vector number is decoded to the vector it encodes, for all vectors but one; a dispatched
  interrupt runs exactly the handlers assigned to its vector, in the order of assignment; the loop that
  takes the lock by force ends; and an interrupt without a handler passes unnoticed.
\<close>

section \<open>Vectors\<close>

datatype interrupt_vector =
    DivisionByZero | Debug | NonMaskableInterrupt | Breakpoint | Overflow | BoundRangeExceeded |
    InvalidOpcode | DeviceNotAvailable | DoubleFault | CoprocessorSegmentOverrun | InvalidTaskStateSegment |
    SegmentNotPresent | StackSegmentFault | GeneralProtectionFault | PageFault | X87FloatingPointException |
    AlignmentCheck | MachineCheck | SimdFloatingPointException | VirtualizationException |
    ControlProtectionException | HypervisorInjectionException | VmmCommunicationException |
    SecurityException | Pit | Keyboard | Cascade | Com2 | Com1 | Lpt2 | Floppy | Lpt1 | Rtc | Free1 |
    Free2 | Free3 | Mouse | Fpu | PrimaryAta | SecondaryAta | Cmci | ApicTimer | Thermal | Performance |
    Lint0 | Lint1 | ApicError | Spurious

fun vector_value :: "interrupt_vector \<Rightarrow> u8" where
  "vector_value DivisionByZero = 0"
| "vector_value Debug = 1"
| "vector_value NonMaskableInterrupt = 2"
| "vector_value Breakpoint = 3"
| "vector_value Overflow = 4"
| "vector_value BoundRangeExceeded = 5"
| "vector_value InvalidOpcode = 6"
| "vector_value DeviceNotAvailable = 7"
| "vector_value DoubleFault = 8"
| "vector_value CoprocessorSegmentOverrun = 9"
| "vector_value InvalidTaskStateSegment = 10"
| "vector_value SegmentNotPresent = 11"
| "vector_value StackSegmentFault = 12"
| "vector_value GeneralProtectionFault = 13"
| "vector_value PageFault = 14"
| "vector_value X87FloatingPointException = 16"
| "vector_value AlignmentCheck = 17"
| "vector_value MachineCheck = 18"
| "vector_value SimdFloatingPointException = 19"
| "vector_value VirtualizationException = 20"
| "vector_value ControlProtectionException = 21"
| "vector_value HypervisorInjectionException = 28"
| "vector_value VmmCommunicationException = 29"
| "vector_value SecurityException = 30"
| "vector_value Pit = 0x20"
| "vector_value Keyboard = 0x21"
| "vector_value Cascade = 0x22"
| "vector_value Com2 = 0x23"
| "vector_value Com1 = 0x24"
| "vector_value Lpt2 = 0x25"
| "vector_value Floppy = 0x26"
| "vector_value Lpt1 = 0x27"
| "vector_value Rtc = 0x28"
| "vector_value Free1 = 0x29"
| "vector_value Free2 = 0x2a"
| "vector_value Free3 = 0x2b"
| "vector_value Mouse = 0x2c"
| "vector_value Fpu = 0x2d"
| "vector_value PrimaryAta = 0x2e"
| "vector_value SecondaryAta = 0x2f"
| "vector_value Cmci = 0xf8"
| "vector_value ApicTimer = 0xf9"
| "vector_value Thermal = 0xfa"
| "vector_value Performance = 0xfb"
| "vector_value Lint0 = 0xfc"
| "vector_value Lint1 = 0xfd"
| "vector_value ApicError = 0xfe"
| "vector_value Spurious = 0xff"

text \<open>The arms of the \<open>match\<close> in \<open>try_from\<close>, each guarded by \<open>value == <vector> as u8\<close>, in their order.\<close>

definition try_from_arms :: "interrupt_vector list" where
  "try_from_arms =
    [DivisionByZero, Debug, NonMaskableInterrupt, Breakpoint, Overflow, BoundRangeExceeded, InvalidOpcode,
     DeviceNotAvailable, DoubleFault, CoprocessorSegmentOverrun, InvalidTaskStateSegment, SegmentNotPresent,
     StackSegmentFault, GeneralProtectionFault, PageFault, X87FloatingPointException, AlignmentCheck,
     MachineCheck, SimdFloatingPointException, VirtualizationException, ControlProtectionException,
     HypervisorInjectionException, VmmCommunicationException, SecurityException, Pit, Keyboard, Cascade,
     Com2, Com1, Lpt2, Floppy, Lpt1, Free1, Free2, Free3, Mouse, Fpu, PrimaryAta, SecondaryAta, Cmci,
     ApicTimer, Thermal, Performance, Lint0, Lint1, ApicError, Spurious]"

definition try_from :: "u8 \<Rightarrow> interrupt_vector option" where
  "try_from value = find (\<lambda>vector. value = vector_value vector) try_from_arms"

section \<open>The dispatcher\<close>

definition MAX_VECTORS :: nat where "MAX_VECTORS = 256"

text \<open>The handlers of each vector; the lock of each vector may be held when an interrupt comes in.\<close>

record 'h dispatcher =
  int_vectors :: "'h list list"
  vector_locked :: "bool list"

definition dispatcher_new :: "'h dispatcher" where
  "dispatcher_new = \<lparr>int_vectors = replicate MAX_VECTORS [], vector_locked = replicate MAX_VECTORS False\<rparr>"

definition assign :: "interrupt_vector \<Rightarrow> 'h \<Rightarrow> 'h dispatcher \<Rightarrow> 'h dispatcher result" where
  "assign vector handler d =
     (let i = unat (vector_value vector) in
      if i < length (int_vectors d)
      then Inr (d\<lparr>int_vectors := (int_vectors d)[i := int_vectors d ! i @ [handler]]\<rparr>)
      else Inl Index_Out_Of_Bounds)"

text \<open>
  The loop \<open>while handler_vec.is_none()\<close>: \<open>try_lock\<close> fails on a held lock, then the lock is released by force
  and tried again. \<open>None\<close> means that the loop does not end.
\<close>

partial_function (option) lock_vector :: "nat \<Rightarrow> 'h dispatcher \<Rightarrow> 'h dispatcher option" where
  "lock_vector i d =
     (if vector_locked d ! i then lock_vector i (d\<lparr>vector_locked := (vector_locked d)[i := False]\<rparr>)
      else Some (d\<lparr>vector_locked := (vector_locked d)[i := True]\<rparr>))"

fun trigger_all :: "('h \<Rightarrow> 's \<Rightarrow> 'h \<times> 's) \<Rightarrow> 'h list \<Rightarrow> 's \<Rightarrow> 'h list \<times> 's" where
  "trigger_all trigger [] s = ([], s)"
| "trigger_all trigger (h # hs) s =
     (let (h', s1) = trigger h s; (hs', s2) = trigger_all trigger hs s1 in (h' # hs', s2))"

text \<open>
  \<open>handler_vec\<close> is an \<open>Option\<close> at the emptiness check, so \<open>handler_vec.iter()\<close> iterates over the one lock guard
  in it: \<open>guards\<close>. The guard is released at the end of the function.
\<close>

definition dispatch ::
  "('h \<Rightarrow> 's \<Rightarrow> 'h \<times> 's) \<Rightarrow> ('s \<Rightarrow> 's) \<Rightarrow> u8 \<Rightarrow> 'h dispatcher \<times> 's \<Rightarrow> ('h dispatcher \<times> 's) result option" where
  "dispatch trigger end_of_interrupt interrupt = (\<lambda>(d, s).
     (let i = unat interrupt in
      if \<not> i < length (int_vectors d) then Some (Inl Index_Out_Of_Bounds)
      else
        map_option (\<lambda>d1.
          let guards = [int_vectors d1 ! i] in
          if guards = [] then Inl No_Handler
          else
            let (handlers, s1) = trigger_all trigger (int_vectors d1 ! i) s in
            Inr (d1\<lparr>int_vectors := (int_vectors d1)[i := handlers], vector_locked := (vector_locked d1)[i := False]\<rparr>,
                 end_of_interrupt s1))
        (lock_vector i d)))"

section \<open>Well-formed dispatchers\<close>

definition wf_dispatcher :: "'h dispatcher \<Rightarrow> bool" where
  "wf_dispatcher d \<longleftrightarrow> length (int_vectors d) = MAX_VECTORS \<and> length (vector_locked d) = MAX_VECTORS"

fun assign_all :: "(interrupt_vector \<times> 'h) list \<Rightarrow> 'h dispatcher \<Rightarrow> 'h dispatcher result" where
  "assign_all [] d = Inr d"
| "assign_all ((v, h) # rest) d = and_then (assign v h d) (assign_all rest)"

lemma vector_value_bound: "unat (v :: u8) < MAX_VECTORS"
  using unsigned_less[of v, where ?'a = nat] by (simp add: MAX_VECTORS_def)

lemma assign_wf:
  assumes "wf_dispatcher d"
  shows "\<exists>d'. assign v h d = Inr d' \<and> wf_dispatcher d' \<and>
    int_vectors d' = (int_vectors d)[unat (vector_value v) := int_vectors d ! unat (vector_value v) @ [h]] \<and>
    vector_locked d' = vector_locked d"
  using assms vector_value_bound[of "vector_value v"] by (auto simp: assign_def wf_dispatcher_def Let_def)

lemma assign_all_handlers:
  assumes "wf_dispatcher d"
  shows "\<exists>d'. assign_all vhs d = Inr d' \<and> wf_dispatcher d' \<and>
    (\<forall>i < MAX_VECTORS. int_vectors d' ! i =
       int_vectors d ! i @ map snd (filter (\<lambda>(v, h). unat (vector_value v) = i) vhs))"
  using assms
proof (induction vhs arbitrary: d)
  case (Cons vh vhs)
  obtain v h where vh: "vh = (v, h)" by (cases vh)
  from assign_wf[OF Cons.prems, of v h] obtain d1 where d1: "assign v h d = Inr d1" "wf_dispatcher d1"
    "int_vectors d1 = (int_vectors d)[unat (vector_value v) := int_vectors d ! unat (vector_value v) @ [h]]" by blast
  from Cons.IH[OF d1(2)] obtain d' where "assign_all vhs d1 = Inr d'" "wf_dispatcher d'"
    "\<forall>i < MAX_VECTORS. int_vectors d' ! i =
       int_vectors d1 ! i @ map snd (filter (\<lambda>(v, h). unat (vector_value v) = i) vhs)" by blast
  then show ?case using Cons.prems
    by (auto simp: vh d1 nth_list_update wf_dispatcher_def)
qed simp

lemma lock_vector_ends:
  assumes "i < length (vector_locked d)"
  shows "lock_vector i d = Some (d\<lparr>vector_locked := (vector_locked d)[i := True]\<rparr>)"
proof (cases "vector_locked d ! i")
  case True
  let ?d = "d\<lparr>vector_locked := (vector_locked d)[i := False]\<rparr>"
  have "lock_vector i ?d = Some (?d\<lparr>vector_locked := (vector_locked ?d)[i := True]\<rparr>)"
    by (subst lock_vector.simps) (simp add: assms)
  then show ?thesis using True by (subst lock_vector.simps) simp
qed (subst lock_vector.simps, simp)

lemma dispatch_result:
  assumes "wf_dispatcher d"
  shows "dispatch trigger eoi i (d, s) =
    (let (handlers, s1) = trigger_all trigger (int_vectors d ! unat i) s in
     Some (Inr (\<lparr>int_vectors = (int_vectors d)[unat i := handlers], vector_locked = (vector_locked d)[unat i := False]\<rparr>, eoi s1)))"
  using assms vector_value_bound[of i]
  by (auto simp: dispatch_def Let_def wf_dispatcher_def lock_vector_ends split: prod.splits)

text \<open>
  Decoding vectors: \<open>try_from\<close> inverts the numbering of the vectors, and a number that belongs to no
  vector is rejected; the only vector that is not recognised is the real-time clock (0x28), which has
  no arm in the \<open>match\<close>.
\<close>

theorem vector_decoding:
  "(try_from (vector_value v) = (if v = Rtc then None else Some v)) \<and>
   (\<forall>u. try_from x = Some u \<longrightarrow> vector_value u = x)"
proof
  show "try_from (vector_value v) = (if v = Rtc then None else Some v)"
    by (cases v) (simp_all add: try_from_def try_from_arms_def)
  show "\<forall>u. try_from x = Some u \<longrightarrow> vector_value u = x"
    by (auto simp: try_from_def find_Some_iff)
qed

theorem vector_decoding_witness:
  "try_from (vector_value Keyboard) = Some Keyboard \<and> vector_value Keyboard = 0x21"
  using vector_decoding[of Keyboard "0x21"] by simp

text \<open>
  C19: Dispatching: after any sequence of assignments to a new dispatcher, and even if the lock of the
  vector is held, an interrupt ends, triggers exactly the handlers assigned to its vector, each once and
  in the order of assignment, leaves the handlers of all other vectors alone and is then acknowledged.
\<close>

theorem dispatch_runs_assigned_handlers:
  assumes "assign_all vhs dispatcher_new = Inr d"
  shows "dispatch trigger eoi i (d\<lparr>vector_locked := (vector_locked d)[j := locked]\<rparr>, s) =
    (let (handlers, s1) = trigger_all trigger (map snd (filter (\<lambda>(v, h). vector_value v = i) vhs)) s in
     Some (Inr (\<lparr>int_vectors = (int_vectors d)[unat i := handlers],
                 vector_locked = (vector_locked d)[j := locked, unat i := False]\<rparr>, eoi s1)))"
proof -
  have "wf_dispatcher (dispatcher_new :: 'a dispatcher)" by (simp add: wf_dispatcher_def dispatcher_new_def)
  from assign_all_handlers[OF this, of vhs] assms have wf: "wf_dispatcher d"
    "int_vectors d ! unat i = map snd (filter (\<lambda>(v, h). unat (vector_value v) = unat i) vhs)"
    using vector_value_bound[of i] by (auto simp: dispatcher_new_def)
  have "wf_dispatcher (d\<lparr>vector_locked := (vector_locked d)[j := locked]\<rparr>)" using wf(1) by (simp add: wf_dispatcher_def)
  from dispatch_result[OF this, of trigger eoi i s] show ?thesis by (simp add: wf(2) word_unat_eq_iff)
qed

theorem dispatch_runs_assigned_handlers_witness:
  "dispatch (\<lambda>h s. (h, s @ [h])) (\<lambda>s. s @ [0]) 0x20
     ((dispatcher_new\<lparr>int_vectors := (int_vectors dispatcher_new)[32 := [7]]\<rparr>)\<lparr>vector_locked :=
        (vector_locked dispatcher_new)[32 := True]\<rparr>, []) =
   Some (Inr (\<lparr>int_vectors = (replicate 256 [])[32 := [7::nat]], vector_locked = (replicate 256 False)[32 := True, 32 := False]\<rparr>, [7, 0]))"
  using dispatch_runs_assigned_handlers[of "[(Pit, 7)]"
      "dispatcher_new\<lparr>int_vectors := (int_vectors dispatcher_new)[32 := [7]]\<rparr>"
      "\<lambda>h s. (h, s @ [h])" "\<lambda>s. s @ [0]" "0x20" 32 True "[]"]
  by (simp add: assign_def dispatcher_new_def MAX_VECTORS_def)

text \<open>
  The check for a missing handler never fires: an interrupt whose vector has no handler is
  acknowledged without any effect instead of the panic that the code announces.
\<close>

theorem unhandled_interrupt_passes_silently:
  assumes "wf_dispatcher d" "int_vectors d ! unat i = []"
  shows "dispatch trigger eoi i (d, s) =
    Some (Inr (d\<lparr>vector_locked := (vector_locked d)[unat i := False]\<rparr>, eoi s))"
proof -
  have "(int_vectors d)[unat i := []] = int_vectors d" using assms(2) by (metis list_update_id)
  then show ?thesis using assms(2) by (simp add: dispatch_result[OF assms(1)])
qed

theorem unhandled_interrupt_passes_silently_witness:
  "dispatch (\<lambda>h s. (h, s)) Suc 0x2b (dispatcher_new :: nat dispatcher, 0) =
     Some (Inr (dispatcher_new\<lparr>vector_locked := (replicate 256 False)[43 := False]\<rparr>, 1))"
  using unhandled_interrupt_passes_silently[of "dispatcher_new :: nat dispatcher" "0x2b" "\<lambda>h s. (h, s)" Suc 0]
  by (simp add: wf_dispatcher_def dispatcher_new_def MAX_VECTORS_def)

end
