(* ===== verification/Idt.thy ===== *)
theory Idt
  imports Interrupts
begin

text \<open>
  The interrupt descriptor table: \<open>setup_idt\<close> of \<open>os/kernel/src/interrupt/interrupt_dispatcher.rs\<close> and the handlers it enters. The macro
  \<open>set_general_handler!\<close> of the crate \<open>x86_64\<close> is the argument \<open>set_general_handler\<close>, called with the handler, the vectors of the range and the table. It is documented to
  enter the handler for the vectors of the range, except for exceptions that the processor reserves, and to leave all other entries alone.

  Shown here: every interrupt of a device reaches the dispatcher, but the ranges leave out vector 255, which the local APIC uses for spurious interrupts.
\<close>

datatype idt_handler = Handle_Exception | Handle_Interrupt | Handle_Page_Fault

type_synonym idt = "nat \<Rightarrow> idt_handler option"

type_synonym general_handler_macro = "idt_handler \<Rightarrow> nat list \<Rightarrow> idt \<Rightarrow> idt"

definition setup_idt :: "general_handler_macro \<Rightarrow> idt \<Rightarrow> idt" where
  "setup_idt set_general_handler table =
     (let table = set_general_handler Handle_Exception [0..<31] table;
          table = set_general_handler Handle_Interrupt [32..<255] table
      in set_general_handler Handle_Page_Fault [14] table)"

text \<open>
  Where an interrupt ends up: the handler of its entry runs. \<open>handle_exception\<close> always panics, \<open>handle_interrupt\<close> passes the vector to the dispatcher. For a vector without an entry
  the processor raises \<open>SegmentNotPresent\<close>, and without an entry for that it resets.
\<close>

datatype outcome = To_Dispatcher u8 | To_Page_Fault_Handler | Exception_Panic u8 | Reset

definition run_handler :: "idt_handler \<Rightarrow> u8 \<Rightarrow> outcome" where
  "run_handler h index =
     (case h of
        Handle_Exception \<Rightarrow> Exception_Panic index
      | Handle_Interrupt \<Rightarrow> To_Dispatcher index
      | Handle_Page_Fault \<Rightarrow> To_Page_Fault_Handler)"

definition deliver :: "idt \<Rightarrow> u8 \<Rightarrow> outcome" where
  "deliver table index =
     (case table (unat index) of
        Some h \<Rightarrow> run_handler h index
      | None \<Rightarrow>
          (case table (unat (vector_value SegmentNotPresent)) of
             Some h \<Rightarrow> run_handler h (vector_value SegmentNotPresent)
           | None \<Rightarrow> Reset))"

text \<open>The documented behaviour of the macro, for processor exceptions \<open>reserved\<close>.\<close>

definition general_handler_law :: "general_handler_macro \<Rightarrow> (nat \<Rightarrow> bool) \<Rightarrow> bool" where
  "general_handler_law set_general_handler reserved \<longleftrightarrow>
     (\<forall>h vs table v. set_general_handler h vs table v = (if v \<in> set vs \<and> \<not> reserved v then Some h else table v)) \<and>
     (\<forall>v. reserved v \<longrightarrow> v < 32 \<and> v \<noteq> 11 \<and> v \<noteq> 14)"

text \<open>The entries after \<open>setup_idt\<close>, from an empty table.\<close>

lemma setup_idt_entry:
  assumes "general_handler_law set_general_handler reserved"
  shows "setup_idt set_general_handler (\<lambda>_. None) v =
    (if v = 14 then Some Handle_Page_Fault
     else if 32 \<le> v \<and> v < 255 then Some Handle_Interrupt
     else if v < 31 \<and> \<not> reserved v then Some Handle_Exception
     else None)"
proof -
  have e: "set_general_handler h vs table v = (if v \<in> set vs \<and> \<not> reserved v then Some h else table v)" for h vs table v
    using assms by (auto simp: general_handler_law_def)
  have "reserved v \<Longrightarrow> v < 32 \<and> v \<noteq> 14" using assms by (auto simp: general_handler_law_def)
  then show ?thesis by (auto simp: setup_idt_def e simp del: upt_rec_numeral)
qed

lemma device_vector_range:
  assumes "32 \<le> unat (vector_value vector)" "vector \<noteq> Spurious"
  shows "unat (vector_value vector) < 255"
  using assms by (cases vector) simp_all

text \<open>
  C20: where interrupts arrive. Every vector above the exceptions reaches the dispatcher with its number, page faults reach their handler; only the
  spurious vector of the APIC, 255, has no entry because the range \<open>32..255\<close> does not contain its end, and a spurious interrupt becomes a panic.
\<close>

theorem spurious_interrupt_panics:
  assumes "general_handler_law set_general_handler reserved"
  shows "deliver (setup_idt set_general_handler (\<lambda>_. None)) (vector_value Spurious) = Exception_Panic (vector_value SegmentNotPresent) \<and>
    deliver (setup_idt set_general_handler (\<lambda>_. None)) (vector_value PageFault) = To_Page_Fault_Handler \<and>
    (\<forall>vector. 32 \<le> unat (vector_value vector) \<longrightarrow> vector \<noteq> Spurious \<longrightarrow>
       deliver (setup_idt set_general_handler (\<lambda>_. None)) (vector_value vector) = To_Dispatcher (vector_value vector))"
proof -
  have "\<not> reserved 11" using assms by (auto simp: general_handler_law_def)
  then show ?thesis
    using device_vector_range by (auto simp: deliver_def setup_idt_entry[OF assms] run_handler_def)
qed

theorem spurious_interrupt_panics_witness:
  "deliver (setup_idt (\<lambda>h vs table v. if v \<in> set vs \<and> v \<notin> {15, 31} then Some h else table v) (\<lambda>_. None)) 255 = Exception_Panic 11 \<and>
     deliver (setup_idt (\<lambda>h vs table v. if v \<in> set vs \<and> v \<notin> {15, 31} then Some h else table v) (\<lambda>_. None)) (vector_value Keyboard) = To_Dispatcher 33"
proof -
  have law: "general_handler_law (\<lambda>h vs table v. if v \<in> set vs \<and> v \<notin> {15, 31} then Some h else table v) (\<lambda>v. v \<in> {15, 31})"
    by (auto simp: general_handler_law_def)
  note rule = spurious_interrupt_panics[OF law]
  have "deliver (setup_idt (\<lambda>h vs table v. if v \<in> set vs \<and> v \<notin> {15, 31} then Some h else table v) (\<lambda>_. None)) (vector_value Keyboard) =
      To_Dispatcher (vector_value Keyboard)"
    by (rule rule[THEN conjunct2, THEN conjunct2, rule_format]) simp_all
  then show ?thesis using rule[THEN conjunct1] by simp
qed

end
