(* ===== verification/Graphic_Color.thy ===== *)
theory Graphic_Color
  imports Prelude
begin

text \<open>
  Colours of \<open>os/library/graphic/src/color.rs\<close>: the RGBA record, the named colours, the conversions
  between the record and the 32, 24, 16 and 15 bit pixel formats, and the brightness shifts. The
  blending of two half transparent colours is floating point arithmetic and is not modelled.

  Shown here: which part of a colour each pixel format keeps (both directions of the round trip), and
  that brightening and dimming saturate at the ends of the component range.
\<close>

unbundle bit_operations_syntax

section \<open>Data\<close>

record color =
  red :: u8
  green :: u8
  blue :: u8
  alpha :: u8

definition rgba :: "u8 \<Rightarrow> u8 \<Rightarrow> u8 \<Rightarrow> u8 \<Rightarrow> color" where
  "rgba r g b a = \<lparr>red = r, green = g, blue = b, alpha = a\<rparr>"

definition BRIGHTNESS_SHIFT :: u8 where "BRIGHTNESS_SHIFT = 85"

definition INVISIBLE :: color where "INVISIBLE = rgba 0 0 0 0"

definition BLACK :: color where "BLACK = rgba 0 0 0 255"

definition RED :: color where "RED = rgba 170 0 0 255"

definition GREEN :: color where "GREEN = rgba 0 170 0 255"

definition YELLOW :: color where "YELLOW = rgba 170 170 0 255"

definition BROWN :: color where "BROWN = rgba 170 85 0 255"

definition BLUE :: color where "BLUE = rgba 0 0 170 255"

definition MAGENTA :: color where "MAGENTA = rgba 170 0 170 255"

definition CYAN :: color where "CYAN = rgba 0 170 170 255"

definition WHITE :: color where "WHITE = rgba 170 170 170 255"

definition HHU_BLUE :: color where "HHU_BLUE = rgba 0 106 179 255"

definition HHU_GREEN :: color where "HHU_GREEN = rgba 140 177 16 255"

section \<open>Reading pixels\<close>

definition from_rgb_32 :: "u32 \<Rightarrow> color" where
  "from_rgb_32 v = \<lparr>red = ucast (drop_bit 16 (v AND 0x00ff0000)), green = ucast (drop_bit 8 (v AND 0x0000ff00)),
     blue = ucast (v AND 0x000000ff), alpha = ucast (drop_bit 24 (v AND 0xff000000))\<rparr>"

definition from_rgb_24 :: "u32 \<Rightarrow> color" where
  "from_rgb_24 v = \<lparr>red = ucast (drop_bit 16 (v AND 0x00ff0000)), green = ucast (drop_bit 8 (v AND 0x0000ff00)),
     blue = ucast (v AND 0x000000ff), alpha = 0\<rparr>"

definition from_rgb_16 :: "u16 \<Rightarrow> color" where
  "from_rgb_16 v = \<lparr>red = ucast (drop_bit 11 (v AND 0xf800) * (256 div 32)),
     green = ucast (drop_bit 5 (v AND 0x07e0) * (256 div 64)),
     blue = ucast ((v AND 0x001f) * (256 div 32)), alpha = 0\<rparr>"

definition from_rgb_15 :: "u16 \<Rightarrow> color" where
  "from_rgb_15 v = \<lparr>red = ucast (drop_bit 10 (v AND 0x7c00) * (256 div 32)),
     green = ucast (drop_bit 5 (v AND 0x03e0) * (256 div 32)),
     blue = ucast ((v AND 0x001f) * (256 div 32)), alpha = 0\<rparr>"

definition from_rgb :: "u32 \<Rightarrow> u8 \<Rightarrow> color result" where
  "from_rgb v bpp =
     (if bpp = 32 then Inr (from_rgb_32 v)
      else if bpp = 24 then Inr (from_rgb_24 v)
      else if bpp = 16 then Inr (from_rgb_16 (ucast v))
      else if bpp = 15 then Inr (from_rgb_15 (ucast v))
      else Inl Invalid_Bpp)"

section \<open>Writing pixels\<close>

definition rgb_32 :: "color \<Rightarrow> u32" where
  "rgb_32 c = push_bit 24 (ucast (alpha c)) OR push_bit 16 (ucast (red c)) OR push_bit 8 (ucast (green c))
     OR ucast (blue c)"

definition rgb_24 :: "color \<Rightarrow> u32" where
  "rgb_24 c = push_bit 16 (ucast (red c)) OR push_bit 8 (ucast (green c)) OR ucast (blue c)"

definition rgb_16 :: "color \<Rightarrow> u16" where
  "rgb_16 c = drop_bit 3 (ucast (blue c)) OR push_bit 5 (drop_bit 2 (ucast (green c)))
     OR push_bit 11 (drop_bit 3 (ucast (red c)))"

definition rgb_15 :: "color \<Rightarrow> u16" where
  "rgb_15 c = drop_bit 3 (ucast (blue c)) OR push_bit 5 (drop_bit 3 (ucast (green c)))
     OR push_bit 10 (drop_bit 3 (ucast (red c)))"

section \<open>Brightness and transparency\<close>

definition bright :: "color \<Rightarrow> color" where
  "bright c =
    (let r = (ucast (red c) :: u16) + ucast BRIGHTNESS_SHIFT;
         g = (ucast (green c) :: u16) + ucast BRIGHTNESS_SHIFT;
         b = (ucast (blue c) :: u16) + ucast BRIGHTNESS_SHIFT;
         r = (if r > 0xff then 0xff else r);
         g = (if g > 0xff then 0xff else g);
         b = (if b > 0xff then 0xff else b)
     in \<lparr>red = ucast r, green = ucast g, blue = ucast b, alpha = alpha c\<rparr>)"

definition dim :: "color \<Rightarrow> color" where
  "dim c =
    (let r = (ucast (red c) :: i16) - ucast BRIGHTNESS_SHIFT;
         g = (ucast (green c) :: i16) - ucast BRIGHTNESS_SHIFT;
         b = (ucast (blue c) :: i16) - ucast BRIGHTNESS_SHIFT;
         r = (if sint r < 0 then 0 else r);
         g = (if sint g < 0 then 0 else g);
         b = (if sint b < 0 then 0 else b)
     in \<lparr>red = ucast r, green = ucast g, blue = ucast b, alpha = alpha c\<rparr>)"

definition with_alpha :: "color \<Rightarrow> u8 \<Rightarrow> color" where
  "with_alpha c a = \<lparr>red = red c, green = green c, blue = blue c, alpha = a\<rparr>"

section \<open>Reference: what a pixel format keeps\<close>

text \<open>A component after it went through a field of \<open>8 - k\<close> bits: the low \<open>k\<close> bits are gone.\<close>

definition truncate_component :: "nat \<Rightarrow> u8 \<Rightarrow> u8" where
  "truncate_component k x = push_bit k (drop_bit k x)"

definition pixel_of :: "color \<Rightarrow> u8 \<Rightarrow> u32" where
  "pixel_of c bpp =
     (if bpp = 32 then rgb_32 c else if bpp = 24 then rgb_24 c
      else if bpp = 16 then ucast (rgb_16 c) else ucast (rgb_15 c))"

definition kept_color :: "color \<Rightarrow> u8 \<Rightarrow> color" where
  "kept_color c bpp =
     (if bpp = 32 then c
      else if bpp = 24 then with_alpha c 0
      else if bpp = 16 then
        rgba (truncate_component 3 (red c)) (truncate_component 2 (green c)) (truncate_component 3 (blue c)) 0
      else
        rgba (truncate_component 3 (red c)) (truncate_component 3 (green c)) (truncate_component 3 (blue c)) 0)"

section \<open>Pixel round trips\<close>

lemma times_pow [simp]: "(x::'a::len word) * 8 = push_bit 3 x" "(x::'a word) * 4 = push_bit 2 x"
  by (simp_all add: push_bit_eq_mult)

text \<open>Equality of words by comparing each bit of the width, so that masks and shifts evaluate.\<close>

lemma word_eq_bits: "list_all (\<lambda>n. bit a n = bit (b::'a::len word) n) [0..<LENGTH('a)] \<Longrightarrow> a = b"
  by (rule bit_word_eqI) (auto simp: list_all_iff)

lemma u8_eq_bits: "list_all (\<lambda>n. bit a n = bit (b::u8) n) [0,1,2,3,4,5,6,7] \<Longrightarrow> a = b"
  using word_eq_bits[of a b] by (simp add: upt_rec eval_nat_numeral)

lemma u16_eq_bits: "list_all (\<lambda>n. bit a n = bit (b::u16) n) [0,1,2,3,4,5,6,7,8,9,10,11,12,13,14,15] \<Longrightarrow> a = b"
  using word_eq_bits[of a b] by (simp add: upt_rec eval_nat_numeral)

lemma u32_eq_bits:
  "list_all (\<lambda>n. bit a n = bit (b::u32) n)
     [0,1,2,3,4,5,6,7,8,9,10,11,12,13,14,15,16,17,18,19,20,21,22,23,24,25,26,27,28,29,30,31] \<Longrightarrow> a = b"
  using word_eq_bits[of a b] by (simp add: upt_rec eval_nat_numeral)

lemmas pixel_eqI = u8_eq_bits u16_eq_bits u32_eq_bits

lemmas pixel_bits = bit_simps over_bits

lemma ucast_down_up: "ucast (ucast (x::u16) :: u32) = x"
  by (rule bit_word_eqI) (simp add: bit_simps)

lemma from_rgb_32_rgb_32: "from_rgb_32 (rgb_32 c) = c"
  by (cases c) (auto simp: from_rgb_32_def rgb_32_def pixel_bits intro!: pixel_eqI)

lemma from_rgb_24_rgb_24: "from_rgb_24 (rgb_24 c) = with_alpha c 0"
  by (cases c) (auto simp: from_rgb_24_def rgb_24_def with_alpha_def pixel_bits intro!: pixel_eqI)

lemma from_rgb_16_rgb_16: "from_rgb_16 (rgb_16 c) = kept_color c 16"
  by (cases c)
    (auto simp: from_rgb_16_def rgb_16_def kept_color_def rgba_def truncate_component_def pixel_bits intro!: pixel_eqI)

lemma from_rgb_15_rgb_15: "from_rgb_15 (rgb_15 c) = kept_color c 15"
  by (cases c)
    (auto simp: from_rgb_15_def rgb_15_def kept_color_def rgba_def truncate_component_def pixel_bits intro!: pixel_eqI)

lemma rgb_32_from_rgb_32: "rgb_32 (from_rgb_32 v) = v"
  by (auto simp: from_rgb_32_def rgb_32_def pixel_bits intro!: pixel_eqI)

lemma rgb_16_from_rgb_16: "rgb_16 (from_rgb_16 v) = v"
  by (auto simp: from_rgb_16_def rgb_16_def pixel_bits intro!: pixel_eqI)

lemma rgb_15_from_rgb_15: "rgb_15 (from_rgb_15 v) = v AND 0x7fff"
  by (auto simp: from_rgb_15_def rgb_15_def pixel_bits intro!: pixel_eqI)

text \<open>
  Pixel round trip: a colour written in one of the four supported pixel formats and read back by
  \<open>from_rgb\<close> is the original colour up to what the format cannot hold: nothing is lost in 32 bit, the
  alpha channel is dropped in 24 bit, and in 16 and 15 bit each component additionally loses exactly its
  lowest 3 (green of 16 bit: 2) bits. Any other depth panics.
\<close>

theorem pixel_round_trip:
  "from_rgb (pixel_of c bpp) bpp =
     (if bpp \<in> {32, 24, 16, 15} then Inr (kept_color c bpp) else Inl Invalid_Bpp)"
  by (simp add: from_rgb_def pixel_of_def from_rgb_32_rgb_32 from_rgb_24_rgb_24 from_rgb_16_rgb_16
      from_rgb_15_rgb_15 ucast_down_up kept_color_def)

section \<open>Brightness\<close>

lemma unat_shift_up: "unat ((ucast x :: u16) + 85) = unat (x::u8) + 85"
proof -
  have "unat x < 256" using unsigned_less[of x, where ?'a = nat] by simp
  then show ?thesis by (subst unat_word_ariths) (simp add: unsigned_ucast_eq take_bit_nat_eq_self[of _ 16])
qed

lemma bright_component:
  fixes x :: u8
  shows "unat (ucast (if (ucast x :: u16) + 85 > 255 then 255 else (ucast x :: u16) + 85) :: u8)
    = min 255 (unat x + 85)"
proof -
  have "((ucast x :: u16) + 85 > 255) = (unat x + 85 > 255)"
    using unat_shift_up[of x] by (simp add: word_less_nat_alt)
  moreover have "unat x + 85 \<le> 255 \<Longrightarrow> unat (ucast ((ucast x :: u16) + 85) :: u8) = unat x + 85"
    using unat_shift_up[of x] by (subst unsigned_ucast_eq) (simp add: take_bit_nat_eq_self)
  ultimately show ?thesis by (auto simp: min_def not_le)
qed

lemma dim_component:
  fixes x :: u8
  shows "unat (ucast (if sint ((ucast x :: i16) - 85) < 0 then 0 else (ucast x :: i16) - 85) :: u8) = unat x - 85"
proof -
  have x: "uint x < 256" "0 \<le> uint x" using uint_lt2p[of x] by simp_all
  have "signed_take_bit 15 (uint x) = uint x"
    by (rule signed_take_bit_int_eq_self) (use x in \<open>simp_all add: order.trans[OF _ x(2)]\<close>)
  then have sx: "sint (ucast x :: i16) = uint x"
    using x by (simp add: sint_uint uint_up_ucast unsigned_ucast_eq take_bit_int_eq_self)
  have s: "sint ((ucast x :: i16) - 85) = uint x - 85"
    using x by (subst sint_word_ariths) (simp add: sx signed_take_bit_int_eq_self)
  have u: "85 \<le> uint x \<Longrightarrow> unat (ucast ((ucast x :: i16) - 85) :: u8) = unat x - 85"
  proof -
    assume le: "85 \<le> uint x"
    then have "(85::i16) \<le> ucast x" using x by (simp add: word_le_def unsigned_ucast_eq take_bit_int_eq_self)
    then have "unat ((ucast x :: i16) - 85) = unat x - 85"
      using unsigned_less[of x, where ?'a = nat]
      by (simp add: unat_sub unsigned_ucast_eq take_bit_nat_eq_self[of _ 16])
    moreover have "unat x - 85 < 256" using unsigned_less[of x, where ?'a = nat] by simp
    ultimately show ?thesis by (subst unsigned_ucast_eq) (simp add: take_bit_nat_eq_self)
  qed
  have lt: "uint x < 85 \<longleftrightarrow> unat x < 85" using uint_nat[of x] by linarith
  show ?thesis using u lt by (auto simp: s)
qed

text \<open>
  Saturating brightness: \<open>bright\<close> adds the brightness shift to every component and stops at 255,
  \<open>dim\<close> subtracts it and stops at 0, in both cases without wrapping around, and neither touches the
  alpha channel.
\<close>

theorem brightness_saturates:
  "map unat [red (bright c), green (bright c), blue (bright c)]
     = map (\<lambda>x. min 255 (unat x + unat BRIGHTNESS_SHIFT)) [red c, green c, blue c]
   \<and> map unat [red (dim c), green (dim c), blue (dim c)]
     = map (\<lambda>x. unat x - unat BRIGHTNESS_SHIFT) [red c, green c, blue c]
   \<and> alpha (bright c) = alpha c \<and> alpha (dim c) = alpha c"
  by (simp add: bright_def dim_def BRIGHTNESS_SHIFT_def Let_def bright_component dim_component)

end
