(* ===== verification/Ansi.thy ===== *)
theory Ansi
  imports Graphic_Color
begin

text \<open>
  The colour table and the escape sequences of \<open>os/library/graphic/src/ansi.rs\<close>. The 256 entries are
  kept as the source lists them, in blocks: 16 named colours, two blocks of 18 for each of the six red
  levels, and 24 greys. The sequence builders produce the strings of the \<open>format!\<close> calls.

  Shown here: the hand-written table is exactly the 6x6x6 colour cube with the levels
  0, 95, 135, 175, 215, 255 followed by the grey ramp 8, 18, ..., 238, and every index a \<open>u8\<close> can hold
  is inside it.
\<close>

unbundle bit_operations_syntax

section \<open>The table\<close>

definition color_table_named :: "color list" where
  "color_table_named =
     [BLACK,
      RED,
      GREEN,
      YELLOW,
      BLUE,
      MAGENTA,
      CYAN,
      WHITE,
      bright BLACK,
      bright RED,
      bright GREEN,
      bright YELLOW,
      bright BLUE,
      bright MAGENTA,
      bright CYAN,
      bright WHITE]"

definition color_table_cube_0a :: "color list" where
  "color_table_cube_0a =
     [rgba 0 0 0 255, rgba 0 0 95 255, rgba 0 0 135 255,
      rgba 0 0 175 255, rgba 0 0 215 255, rgba 0 0 255 255,
      rgba 0 95 0 255, rgba 0 95 95 255, rgba 0 95 135 255,
      rgba 0 95 175 255, rgba 0 95 215 255, rgba 0 95 255 255,
      rgba 0 135 0 255, rgba 0 135 95 255, rgba 0 135 135 255,
      rgba 0 135 175 255, rgba 0 135 215 255, rgba 0 135 255 255]"

definition color_table_cube_0b :: "color list" where
  "color_table_cube_0b =
     [rgba 0 175 0 255, rgba 0 175 95 255, rgba 0 175 135 255,
      rgba 0 175 175 255, rgba 0 175 215 255, rgba 0 175 255 255,
      rgba 0 215 0 255, rgba 0 215 95 255, rgba 0 215 135 255,
      rgba 0 215 175 255, rgba 0 215 215 255, rgba 0 215 255 255,
      rgba 0 255 0 255, rgba 0 255 95 255, rgba 0 255 135 255,
      rgba 0 255 175 255, rgba 0 255 215 255, rgba 0 255 255 255]"

definition color_table_cube_1a :: "color list" where
  "color_table_cube_1a =
     [rgba 95 0 0 255, rgba 95 0 95 255, rgba 95 0 135 255,
      rgba 95 0 175 255, rgba 95 0 215 255, rgba 95 0 255 255,
      rgba 95 95 0 255, rgba 95 95 95 255, rgba 95 95 135 255,
      rgba 95 95 175 255, rgba 95 95 215 255, rgba 95 95 255 255,
      rgba 95 135 0 255, rgba 95 135 95 255, rgba 95 135 135 255,
      rgba 95 135 175 255, rgba 95 135 215 255, rgba 95 135 255 255]"

definition color_table_cube_1b :: "color list" where
  "color_table_cube_1b =
     [rgba 95 175 0 255, rgba 95 175 95 255, rgba 95 175 135 255,
      rgba 95 175 175 255, rgba 95 175 215 255, rgba 95 175 255 255,
      rgba 95 215 0 255, rgba 95 215 95 255, rgba 95 215 135 255,
      rgba 95 215 175 255, rgba 95 215 215 255, rgba 95 215 255 255,
      rgba 95 255 0 255, rgba 95 255 95 255, rgba 95 255 135 255,
      rgba 95 255 175 255, rgba 95 255 215 255, rgba 95 255 255 255]"

definition color_table_cube_2a :: "color list" where
  "color_table_cube_2a =
     [rgba 135 0 0 255, rgba 135 0 95 255, rgba 135 0 135 255,
      rgba 135 0 175 255, rgba 135 0 215 255, rgba 135 0 255 255,
      rgba 135 95 0 255, rgba 135 95 95 255, rgba 135 95 135 255,
      rgba 135 95 175 255, rgba 135 95 215 255, rgba 135 95 255 255,
      rgba 135 135 0 255, rgba 135 135 95 255, rgba 135 135 135 255,
      rgba 135 135 175 255, rgba 135 135 215 255, rgba 135 135 255 255]"

definition color_table_cube_2b :: "color list" where
  "color_table_cube_2b =
     [rgba 135 175 0 255, rgba 135 175 95 255, rgba 135 175 135 255,
      rgba 135 175 175 255, rgba 135 175 215 255, rgba 135 175 255 255,
      rgba 135 215 0 255, rgba 135 215 95 255, rgba 135 215 135 255,
      rgba 135 215 175 255, rgba 135 215 215 255, rgba 135 215 255 255,
      rgba 135 255 0 255, rgba 135 255 95 255, rgba 135 255 135 255,
      rgba 135 255 175 255, rgba 135 255 215 255, rgba 135 255 255 255]"

definition color_table_cube_3a :: "color list" where
  "color_table_cube_3a =
     [rgba 175 0 0 255, rgba 175 0 95 255, rgba 175 0 135 255,
      rgba 175 0 175 255, rgba 175 0 215 255, rgba 175 0 255 255,
      rgba 175 95 0 255, rgba 175 95 95 255, rgba 175 95 135 255,
      rgba 175 95 175 255, rgba 175 95 215 255, rgba 175 95 255 255,
      rgba 175 135 0 255, rgba 175 135 95 255, rgba 175 135 135 255,
      rgba 175 135 175 255, rgba 175 135 215 255, rgba 175 135 255 255]"

definition color_table_cube_3b :: "color list" where
  "color_table_cube_3b =
     [rgba 175 175 0 255, rgba 175 175 95 255, rgba 175 175 135 255,
      rgba 175 175 175 255, rgba 175 175 215 255, rgba 175 175 255 255,
      rgba 175 215 0 255, rgba 175 215 95 255, rgba 175 215 135 255,
      rgba 175 215 175 255, rgba 175 215 215 255, rgba 175 215 255 255,
      rgba 175 255 0 255, rgba 175 255 95 255, rgba 175 255 135 255,
      rgba 175 255 175 255, rgba 175 255 215 255, rgba 175 255 255 255]"

definition color_table_cube_4a :: "color list" where
  "color_table_cube_4a =
     [rgba 215 0 0 255, rgba 215 0 95 255, rgba 215 0 135 255,
      rgba 215 0 175 255, rgba 215 0 215 255, rgba 215 0 255 255,
      rgba 215 95 0 255, rgba 215 95 95 255, rgba 215 95 135 255,
      rgba 215 95 175 255, rgba 215 95 215 255, rgba 215 95 255 255,
      rgba 215 135 0 255, rgba 215 135 95 255, rgba 215 135 135 255,
      rgba 215 135 175 255, rgba 215 135 215 255, rgba 215 135 255 255]"

definition color_table_cube_4b :: "color list" where
  "color_table_cube_4b =
     [rgba 215 175 0 255, rgba 215 175 95 255, rgba 215 175 135 255,
      rgba 215 175 175 255, rgba 215 175 215 255, rgba 215 175 255 255,
      rgba 215 215 0 255, rgba 215 215 95 255, rgba 215 215 135 255,
      rgba 215 215 175 255, rgba 215 215 215 255, rgba 215 215 255 255,
      rgba 215 255 0 255, rgba 215 255 95 255, rgba 215 255 135 255,
      rgba 215 255 175 255, rgba 215 255 215 255, rgba 215 255 255 255]"

definition color_table_cube_5a :: "color list" where
  "color_table_cube_5a =
     [rgba 255 0 0 255, rgba 255 0 95 255, rgba 255 0 135 255,
      rgba 255 0 175 255, rgba 255 0 215 255, rgba 255 0 255 255,
      rgba 255 95 0 255, rgba 255 95 95 255, rgba 255 95 135 255,
      rgba 255 95 175 255, rgba 255 95 215 255, rgba 255 95 255 255,
      rgba 255 135 0 255, rgba 255 135 95 255, rgba 255 135 135 255,
      rgba 255 135 175 255, rgba 255 135 215 255, rgba 255 135 255 255]"

definition color_table_cube_5b :: "color list" where
  "color_table_cube_5b =
     [rgba 255 175 0 255, rgba 255 175 95 255, rgba 255 175 135 255,
      rgba 255 175 175 255, rgba 255 175 215 255, rgba 255 175 255 255,
      rgba 255 215 0 255, rgba 255 215 95 255, rgba 255 215 135 255,
      rgba 255 215 175 255, rgba 255 215 215 255, rgba 255 215 255 255,
      rgba 255 255 0 255, rgba 255 255 95 255, rgba 255 255 135 255,
      rgba 255 255 175 255, rgba 255 255 215 255, rgba 255 255 255 255]"

definition color_table_grey :: "color list" where
  "color_table_grey =
     [rgba 8 8 8 255, rgba 18 18 18 255, rgba 28 28 28 255,
      rgba 38 38 38 255, rgba 48 48 48 255, rgba 58 58 58 255,
      rgba 68 68 68 255, rgba 78 78 78 255, rgba 88 88 88 255,
      rgba 98 98 98 255, rgba 108 108 108 255, rgba 118 118 118 255,
      rgba 128 128 128 255, rgba 138 138 138 255, rgba 148 148 148 255,
      rgba 158 158 158 255, rgba 168 168 168 255, rgba 178 178 178 255,
      rgba 188 188 188 255, rgba 198 198 198 255, rgba 208 208 208 255,
      rgba 218 218 218 255, rgba 228 228 228 255, rgba 238 238 238 255]"

definition COLOR_TABLE_256 :: "color list" where
  "COLOR_TABLE_256 = color_table_named
     @ color_table_cube_0a @ color_table_cube_0b
     @ color_table_cube_1a @ color_table_cube_1b
     @ color_table_cube_2a @ color_table_cube_2b
     @ color_table_cube_3a @ color_table_cube_3b
     @ color_table_cube_4a @ color_table_cube_4b
     @ color_table_cube_5a @ color_table_cube_5b
     @ color_table_grey"

section \<open>Enumerations\<close>

datatype Color8 = Black | Red | Green | Yellow | Blue | Magenta | Cyan | White

fun color8_value :: "Color8 \<Rightarrow> u8" where
  "color8_value Black = 0"
| "color8_value Red = 1"
| "color8_value Green = 2"
| "color8_value Yellow = 3"
| "color8_value Blue = 4"
| "color8_value Magenta = 5"
| "color8_value Cyan = 6"
| "color8_value White = 7"

datatype GraphicRendition =
    Normal | Bright | Dim | Italic | Underline | SlowBlink | FastBlink | Invert
  | ResetBrightDim | ResetItalic | ResetUnderline | ResetBlink | ResetInvert

fun graphic_rendition_value :: "GraphicRendition \<Rightarrow> u8" where
  "graphic_rendition_value Normal = 0"
| "graphic_rendition_value Bright = 1"
| "graphic_rendition_value Dim = 2"
| "graphic_rendition_value Italic = 3"
| "graphic_rendition_value Underline = 4"
| "graphic_rendition_value SlowBlink = 5"
| "graphic_rendition_value FastBlink = 6"
| "graphic_rendition_value Invert = 7"
| "graphic_rendition_value ResetBrightDim = 22"
| "graphic_rendition_value ResetItalic = 23"
| "graphic_rendition_value ResetUnderline = 24"
| "graphic_rendition_value ResetBlink = 25"
| "graphic_rendition_value ResetInvert = 27"

section \<open>Escape sequences\<close>

text \<open>Decimal display of an unsigned integer, as the format strings print it.\<close>

fun decimal :: "nat \<Rightarrow> string" where
  "decimal n = (if n < 10 then [char_of (48 + n)] else decimal (n div 10) @ [char_of (48 + n mod 10)])"

definition ESCAPE_SEQUENCE_START :: char where
  "ESCAPE_SEQUENCE_START = char_of (27 :: nat)"

definition csi :: string where
  "csi = [ESCAPE_SEQUENCE_START, CHR ''['']"

definition fg_8bit_color :: "u8 \<Rightarrow> string" where
  "fg_8bit_color color_index = csi @ ''38;5;'' @ decimal (unat color_index) @ ''m''"

definition bg_8bit_color :: "u8 \<Rightarrow> string" where
  "bg_8bit_color color_index = csi @ ''48;5;'' @ decimal (unat color_index) @ ''m''"

definition fg_24bit_color :: "color \<Rightarrow> string" where
  "fg_24bit_color c = csi @ ''38;2;'' @ decimal (unat (red c)) @ '';'' @ decimal (unat (green c)) @ '';''
     @ decimal (unat (blue c)) @ ''m''"

definition bg_24bit_color :: "color \<Rightarrow> string" where
  "bg_24bit_color c = csi @ ''48;2;'' @ decimal (unat (red c)) @ '';'' @ decimal (unat (green c)) @ '';''
     @ decimal (unat (blue c)) @ ''m''"

section \<open>The table by a formula\<close>

text \<open>
  The first 16 entries are the repository's own colours of \<open>color.rs\<close> and their bright variants (not those of a particular terminal); the
  colour cube and the grey ramp after them follow the usual formula.
\<close>

definition cube_level :: "nat \<Rightarrow> u8" where
  "cube_level k = (if k = 0 then 0 else of_nat (55 + 40 * k))"

definition regular_entry :: "nat \<Rightarrow> color" where
  "regular_entry i =
     (if i < 8 then rgba (if odd i then 170 else 0) (if odd (i div 2) then 170 else 0) (if odd (i div 4) then 170 else 0) 255
      else if i < 16 then rgba (if odd i then 255 else 85) (if odd (i div 2) then 255 else 85)
        (if odd (i div 4) then 255 else 85) 255
      else if i < 232 then rgba (cube_level ((i - 16) div 36)) (cube_level ((i - 16) div 6 mod 6))
        (cube_level ((i - 16) mod 6)) 255
      else rgba (of_nat (8 + 10 * (i - 232))) (of_nat (8 + 10 * (i - 232))) (of_nat (8 + 10 * (i - 232))) 255)"

text \<open>The hand-written table has 256 entries, so every \<open>u8\<close> index is in range, and they are those of the formula.\<close>

lemma color_table_regular: "COLOR_TABLE_256 = map regular_entry [0..<256]"
  by code_simp

end
