(* ===== verification/Devices.thy ===== *)
theory Devices
  imports Prelude
begin

text \<open>
  The small device drivers: the programmable interval timer (\<open>os/kernel/src/device/pit.rs\<close>), the speaker
  (\<open>speaker.rs\<close>), the serial port (\<open>serial.rs\<close>) and the keyboard part of \<open>ps2.rs\<close>.

  Port accesses are the list of (port, value) pairs an operation writes; a value that the hardware gives
  back is an argument. The receive buffers are queues of the \<open>nolock\<close> crate: their operations are the
  parameter \<open>q\<close>, and the laws the drivers rely on are the locale \<open>bounded_queue\<close>.

  Shown here: no timer tick is lost while the timer is locked, the divisor of the timer stays in range,
  every baud rate divides the base rate of the UART exactly and is programmed unchanged, and a full
  receive buffer drops its oldest bytes only.
\<close>

unbundle bit_operations_syntax

type_synonym port_write = "u16 \<times> u8"

section \<open>Programmable interval timer\<close>

definition BASE_FREQUENCY :: nat where "BASE_FREQUENCY = 1193182"

record timer =
  interval_ns :: nat
  systime_ns :: nat

definition timer_new :: timer where
  "timer_new = \<lparr>interval_ns = 0, systime_ns = 0\<rparr>"

definition byte_of :: "nat \<Rightarrow> u8" where
  "byte_of n = of_nat (n AND 0xff)"

definition interrupt_rate :: "bool \<Rightarrow> nat \<Rightarrow> timer \<Rightarrow> (timer \<times> port_write list) result" where
  "interrupt_rate qemu_available interval_ms t =
     and_then (usize_mul (BASE_FREQUENCY div 1000) interval_ms) (\<lambda>d.
       let divisor = (if d > 65535 then 65535 else d) in
       and_then (usize_div BASE_FREQUENCY divisor) (\<lambda>freq.
       and_then (usize_div 1000000000 freq) (\<lambda>interval.
         let divisor' = (if qemu_available then divisor * 2 else divisor) in
         Inr (t\<lparr>interval_ns := interval\<rparr>,
              [(0x43, 0x36), (0x40, byte_of divisor'), (0x40, byte_of (drop_bit 8 divisor'))]))))"

definition systime_ms :: "timer \<Rightarrow> nat" where
  "systime_ms t = systime_ns t div 1000000"

definition inc_systime :: "timer \<Rightarrow> timer result" where
  "inc_systime t = and_then (usize_add (systime_ns t) (interval_ns t)) (\<lambda>n. Inr (t\<lparr>systime_ns := n\<rparr>))"

text \<open>The loop \<open>while self.pending_incs > 0\<close>.\<close>

fun apply_pending :: "nat \<Rightarrow> timer \<Rightarrow> timer result" where
  "apply_pending 0 t = Inr t"
| "apply_pending (Suc n) t = and_then (inc_systime t) (apply_pending n)"

text \<open>One timer interrupt; \<open>timer_free\<close> tells whether \<open>try_write\<close> gets the lock.\<close>

definition timer_trigger :: "bool \<Rightarrow> nat \<times> timer \<Rightarrow> (nat \<times> timer) result" where
  "timer_trigger timer_free = (\<lambda>(pending_incs, t).
     and_then (usize_add pending_incs 1) (\<lambda>pending.
       if timer_free then and_then (apply_pending pending t) (\<lambda>t'. Inr (0, t')) else Inr (pending, t)))"

fun timer_interrupts :: "bool list \<Rightarrow> nat \<times> timer \<Rightarrow> (nat \<times> timer) result" where
  "timer_interrupts [] s = Inr s"
| "timer_interrupts (f # fs) s = and_then (timer_trigger f s) (timer_interrupts fs)"

text \<open>The busy wait of \<open>Timer::wait\<close>: \<open>clock i\<close> is the \<open>i\<close>-th reading of the system time.\<close>

partial_function (option) wait_until :: "(nat \<Rightarrow> nat) \<Rightarrow> nat \<Rightarrow> nat \<Rightarrow> nat option" where
  "wait_until clock end_time i = (if clock i < end_time then wait_until clock end_time (Suc i) else Some i)"

definition timer_wait :: "(nat \<Rightarrow> nat) \<Rightarrow> nat \<Rightarrow> nat result option" where
  "timer_wait clock ms =
     (case usize_add (clock 0) ms of
        Inl p \<Rightarrow> Some (Inl p)
      | Inr end_time \<Rightarrow> map_option Inr (wait_until clock end_time 1))"

section \<open>Speaker\<close>

definition speaker_on :: "nat \<Rightarrow> u8 \<Rightarrow> port_write list result" where
  "speaker_on freq status =
     and_then (usize_div BASE_FREQUENCY freq) (\<lambda>counter.
       Inr [(0x43, 0xb6), (0x42, of_nat (counter mod 256)), (0x42, of_nat (counter div 256)), (0x61, status OR 0x03)])"

definition speaker_off :: "u8 \<Rightarrow> port_write list" where
  "speaker_off status = [(0x61, status AND 0xfc)]"

definition speaker_play :: "nat \<Rightarrow> nat \<Rightarrow> (nat \<Rightarrow> nat) \<Rightarrow> u8 \<Rightarrow> u8 \<Rightarrow> port_write list result option" where
  "speaker_play freq duration_ms clock status1 status2 =
     (case speaker_on freq status1 of
        Inl p \<Rightarrow> Some (Inl p)
      | Inr on_writes \<Rightarrow>
          map_option (\<lambda>r. and_then r (\<lambda>_. Inr (on_writes @ speaker_off status2))) (timer_wait clock duration_ms))"

section \<open>Serial port\<close>

datatype com_port = Com1 | Com2 | Com3 | Com4

fun com_port_base :: "com_port \<Rightarrow> u16" where
  "com_port_base Com1 = 0x3f8"
| "com_port_base Com2 = 0x2f8"
| "com_port_base Com3 = 0x3e8"
| "com_port_base Com4 = 0x2e8"

text \<open>The enumeration \<open>BaudRate\<close>: each variant \<open>Baud<rate>\<close> with its discriminant, the divisor.\<close>

definition BAUD_RATES :: "(nat \<times> u16) list" where
  "BAUD_RATES =
    [(115200, 1), (57600, 2), (38400, 3), (28800, 4), (23040, 5), (19200, 6), (14400, 8),
     (12800, 9), (11520, 10), (9600, 12), (7680, 15), (7200, 16), (6400, 18), (5760, 20),
     (4800, 24), (4608, 25), (3840, 30), (3600, 32), (3200, 36), (2880, 40), (2560, 45),
     (2400, 48), (2304, 50), (1920, 60), (1800, 64), (1600, 72), (1536, 75), (1440, 80),
     (1280, 90), (1200, 96), (1152, 100), (960, 120), (900, 128), (800, 144), (768, 150),
     (720, 160), (640, 180), (600, 192), (576, 200), (512, 225), (480, 240), (450, 256),
     (400, 288), (384, 300), (360, 320), (320, 360), (300, 384), (288, 400), (256, 450),
     (240, 480), (225, 512), (200, 576), (192, 600), (180, 640), (160, 720), (150, 768),
     (144, 800), (128, 900), (120, 960), (100, 1152), (96, 1200), (90, 1280), (80, 1440),
     (75, 1536), (72, 1600), (64, 1800), (60, 1920), (50, 2304), (48, 2400), (45, 2560),
     (40, 2880), (36, 3200), (32, 3600), (30, 3840), (25, 4608), (24, 4800), (20, 5760),
     (18, 6400), (16, 7200), (15, 7680), (12, 9600), (10, 11520), (9, 12800), (8, 14400),
     (6, 19200), (5, 23040), (4, 28800), (3, 38400), (2, 57600)]"

text \<open>\<open>speed\<close> with the register values it reads before it changes them.\<close>

definition serial_speed :: "com_port \<Rightarrow> u16 \<Rightarrow> u8 \<Rightarrow> u8 \<Rightarrow> port_write list" where
  "serial_speed port divisor interrupt_backup line_control_backup =
     (let data_reg = com_port_base port; interrupt_reg = com_port_base port + 1; line_control_reg = com_port_base port + 3 in
      [(interrupt_reg, 0x00), (line_control_reg, 0x80), (data_reg, ucast (divisor AND 0x00ff)),
       (interrupt_reg, ucast (drop_bit 8 (divisor AND 0xff00))),
       (line_control_reg, line_control_backup), (interrupt_reg, interrupt_backup)])"

text \<open>\<open>check_port\<close>: \<open>scratch i\<close> is what the scratch register gives back after \<open>i\<close> was written.\<close>

definition check_port :: "(u8 \<Rightarrow> u8) \<Rightarrow> bool" where
  "check_port scratch = list_all (\<lambda>i. scratch (of_nat i) = of_nat i) [0..<255]"

definition serial_init :: "com_port \<Rightarrow> (u8 \<Rightarrow> u8) \<Rightarrow> u16 \<Rightarrow> u8 \<Rightarrow> u8 \<Rightarrow> port_write list result" where
  "serial_init port scratch divisor interrupt_backup line_control_backup =
     (if \<not> check_port scratch then Inl Port_Not_Found
      else Inr ([(com_port_base port + 1, 0x00)] @ serial_speed port divisor interrupt_backup line_control_backup
        @ [(com_port_base port + 3, 0x03), (com_port_base port + 2, 0x07), (com_port_base port + 4, 0x0b)]))"

definition serial_init_write_only :: "com_port \<Rightarrow> (u8 \<Rightarrow> u8) \<Rightarrow> u8 \<Rightarrow> u8 \<Rightarrow> port_write list result" where
  "serial_init_write_only port scratch interrupt_backup line_control_backup =
     (if \<not> check_port scratch then Inl Port_Not_Found
      else Inr ([(com_port_base port + 1, 0x00)] @ serial_speed port 1 interrupt_backup line_control_backup
        @ [(com_port_base port + 3, 0x03), (com_port_base port + 2, 0x00), (com_port_base port + 4, 0x0b)]))"

text \<open>The bytes that \<open>write_str\<close> sends: a line feed is preceded by a carriage return.\<close>

fun serial_write_str :: "u8 list \<Rightarrow> u8 list" where
  "serial_write_str [] = []"
| "serial_write_str (b # rest) = (if b = 10 then [13, b] else [b]) @ serial_write_str rest"

section \<open>Receive buffers\<close>

datatype ('a, 'q) dequeue = Deq_Ok 'a 'q | Deq_Empty | Deq_Closed

record ('a, 'q) queue_ops =
  try_enqueue :: "'a \<Rightarrow> 'q \<Rightarrow> 'q option"
  try_dequeue :: "'q \<Rightarrow> ('a, 'q) dequeue"

text \<open>The loop \<open>while try_enqueue(byte).is_err()\<close> that makes room by dropping the oldest byte.\<close>

partial_function (option) store_byte :: "('a, 'q) queue_ops \<Rightarrow> 'a \<Rightarrow> 'q \<Rightarrow> 'q result option" where
  "store_byte q b s =
     (case try_enqueue q b s of
        Some s' \<Rightarrow> Some (Inr s')
      | None \<Rightarrow>
          (case try_dequeue q s of
             Deq_Ok _ s' \<Rightarrow> store_byte q b s'
           | _ \<Rightarrow> Some (Inl Buffer_Failed)))"

text \<open>
  The serial interrupt: \<open>pending\<close> are the bytes the UART holds, one loop iteration each; bit 0 of the
  identification register tells that no interrupt is pending.
\<close>

fun receive_bytes :: "('a, 'q) queue_ops \<Rightarrow> 'a list \<Rightarrow> 'q \<Rightarrow> 'q result option" where
  "receive_bytes q [] s = Some (Inr s)"
| "receive_bytes q (b # bs) s =
     Option.bind (store_byte q b s) (\<lambda>r. case r of Inl p \<Rightarrow> Some (Inl p) | Inr s' \<Rightarrow> receive_bytes q bs s')"

definition serial_trigger :: "(u8, 'q) queue_ops \<Rightarrow> u8 \<Rightarrow> u8 list \<Rightarrow> 'q option \<Rightarrow> 'q option result option" where
  "serial_trigger q identification pending buffer =
     (if identification AND 0x01 = 0x01 then Some (Inr buffer)
      else if pending = [] then Some (Inr buffer)
      else
        (case buffer of
           None \<Rightarrow> Some (Inl Not_Initialized)
         | Some s \<Rightarrow> map_option (\<lambda>r. and_then r (\<lambda>s'. Inr (Some s'))) (receive_bytes q pending s)))"

text \<open>The keyboard interrupt: the controller may be locked, and reading it may fail.\<close>

definition keyboard_trigger :: "(u8, 'q) queue_ops \<Rightarrow> bool \<Rightarrow> u8 option \<Rightarrow> 'q \<Rightarrow> 'q result option" where
  "keyboard_trigger q controller_free data s =
     (if \<not> controller_free then Some (Inl Controller_Locked)
      else (case data of None \<Rightarrow> Some (Inr s) | Some b \<Rightarrow> store_byte q b s))"

text \<open>
  Reading spins until a byte is there; \<open>fill i\<close> is what interrupts do to the buffer after the \<open>i\<close>-th
  unsuccessful try. The result is an \<open>i16\<close>, -1 for a closed buffer.
\<close>

partial_function (option) buffer_read_byte ::
  "(u8, 'q) queue_ops \<Rightarrow> (nat \<Rightarrow> 'q \<Rightarrow> 'q) \<Rightarrow> nat \<Rightarrow> 'q \<Rightarrow> (i16 \<times> 'q) option" where
  "buffer_read_byte q fill i s =
     (case try_dequeue q s of
        Deq_Ok b s' \<Rightarrow> Some (ucast b, s')
      | Deq_Closed \<Rightarrow> Some (-1, s)
      | Deq_Empty \<Rightarrow> buffer_read_byte q fill (Suc i) (fill i s))"

text \<open>What the drivers rely on, and an implementation with a list.\<close>

locale bounded_queue =
  fixes q :: "('a, 'q) queue_ops" and contents :: "'q \<Rightarrow> 'a list" and cap :: nat
  assumes cap_pos: "0 < cap"
    and enqueue_room: "length (contents s) < cap \<Longrightarrow> \<exists>s'. try_enqueue q b s = Some s' \<and> contents s' = contents s @ [b]"
    and enqueue_full: "cap \<le> length (contents s) \<Longrightarrow> try_enqueue q b s = None"
    and dequeue_first: "contents s = c # l \<Longrightarrow> \<exists>s'. try_dequeue q s = Deq_Ok c s' \<and> contents s' = l"

definition list_queue :: "nat \<Rightarrow> ('a, 'a list) queue_ops" where
  "list_queue cap = \<lparr>try_enqueue = (\<lambda>b s. if length s < cap then Some (s @ [b]) else None),
     try_dequeue = (\<lambda>s. case s of [] \<Rightarrow> Deq_Empty | b # s' \<Rightarrow> Deq_Ok b s')\<rparr>"

definition KEYBOARD_BUFFER_CAPACITY :: nat where "KEYBOARD_BUFFER_CAPACITY = 128"

interpretation keyboard_buffer: bounded_queue "list_queue KEYBOARD_BUFFER_CAPACITY" "\<lambda>s. s" KEYBOARD_BUFFER_CAPACITY
  by unfold_locales (auto simp: list_queue_def KEYBOARD_BUFFER_CAPACITY_def)

context bounded_queue
begin

lemma store_byte_contents:
  assumes "length (contents s) \<le> cap"
  shows "\<exists>s'. store_byte q b s = Some (Inr s') \<and>
    contents s' = (if length (contents s) < cap then contents s @ [b] else tl (contents s) @ [b])"
proof (cases "length (contents s) < cap")
  case True
  with enqueue_room[OF this, of b] show ?thesis by (subst store_byte.simps) auto
next
  case False
  then obtain c l where l: "contents s = c # l" using cap_pos by (cases "contents s") auto
  from dequeue_first[OF this] obtain s1 where s1: "try_dequeue q s = Deq_Ok c s1" "contents s1 = l" by blast
  have "length (contents s1) < cap" using assms l s1 by simp
  from enqueue_room[OF this, of b] obtain s2 where s2: "try_enqueue q b s1 = Some s2" "contents s2 = contents s1 @ [b]" by blast
  have "store_byte q b s1 = Some (Inr s2)" by (subst store_byte.simps) (simp add: s2)
  moreover have "store_byte q b s = store_byte q b s1"
    using False by (subst store_byte.simps) (simp add: enqueue_full s1)
  ultimately show ?thesis using False s1 s2 l by auto
qed

lemma receive_bytes_newest:
  assumes "length (contents s) \<le> cap"
  shows "\<exists>s'. receive_bytes q bs s = Some (Inr s') \<and>
    contents s' = drop (length (contents s) + length bs - cap) (contents s @ bs)"
  using assms
proof (induction bs arbitrary: s)
  case (Cons b bs)
  from store_byte_contents[OF Cons.prems, of b] obtain s1 where s1: "store_byte q b s = Some (Inr s1)"
    "contents s1 = (if length (contents s) < cap then contents s @ [b] else tl (contents s) @ [b])" by blast
  have "contents s = [] \<Longrightarrow> length (contents s) < cap" using cap_pos by simp
  then have l: "length (contents s1) \<le> cap" using s1(2) Cons.prems by (cases "contents s") auto
  from Cons.IH[OF this] obtain s' where "receive_bytes q bs s1 = Some (Inr s')"
    "contents s' = drop (length (contents s1) + length bs - cap) (contents s1 @ bs)" by blast
  moreover have "drop (length (contents s1) + length bs - cap) (contents s1 @ bs) =
     drop (length (contents s) + length (b # bs) - cap) (contents s @ b # bs)"
  proof (cases "length (contents s) < cap")
    case False
    then obtain c l where "contents s = c # l" using cap_pos by (cases "contents s") auto
    then show ?thesis using s1(2) False Cons.prems by (simp add: Suc_diff_le)
  qed (use s1(2) in simp)
  ultimately show ?case by (simp add: s1(1))
qed simp

end

section \<open>Timer lemmas\<close>

lemma apply_pending_sum:
  "systime_ns t + n * interval_ns t < 2 ^ 64 \<Longrightarrow>
     apply_pending n t = Inr (t\<lparr>systime_ns := systime_ns t + n * interval_ns t\<rparr>)"
proof (induction n arbitrary: t)
  case (Suc n)
  let ?t = "t\<lparr>systime_ns := systime_ns t + interval_ns t\<rparr>"
  have "inc_systime t = Inr ?t" using Suc.prems by (simp add: inc_systime_def usize_add_def)
  moreover have "apply_pending n ?t = Inr (?t\<lparr>systime_ns := systime_ns ?t + n * interval_ns ?t\<rparr>)"
    by (rule Suc.IH) (use Suc.prems in \<open>simp add: algebra_simps\<close>)
  ultimately show ?case by (simp add: algebra_simps)
qed simp

lemma timer_interrupts_sum:
  assumes "systime_ns t + (pending + length fs) * interval_ns t < 2 ^ 64" "pending + length fs < 2 ^ 64"
  shows "\<exists>p' t'. timer_interrupts fs (pending, t) = Inr (p', t') \<and> interval_ns t' = interval_ns t \<and>
    systime_ns t' + p' * interval_ns t = systime_ns t + (pending + length fs) * interval_ns t \<and>
    (fs \<noteq> [] \<and> last fs \<longrightarrow> p' = 0) \<and> p' \<le> pending + length fs"
  using assms
proof (induction fs arbitrary: pending t)
  case (Cons f fs)
  have e: "pending + length (f # fs) = (pending + 1) + length fs" by simp
  have small: "systime_ns t + (pending + 1) * interval_ns t < 2 ^ 64"
  proof -
    have "(pending + 1) * interval_ns t \<le> (pending + length (f # fs)) * interval_ns t" by (rule mult_le_mono1) simp
    then show ?thesis using Cons.prems(1) by linarith
  qed
  define t1 where "t1 = t\<lparr>systime_ns := systime_ns t + (pending + 1) * interval_ns t\<rparr>"
  show ?case
  proof (cases f)
    case True
    have step: "timer_trigger f (pending, t) = Inr (0, t1)"
      using Cons.prems(2) apply_pending_sum[OF small] True by (simp add: timer_trigger_def usize_add_def t1_def)
    have "systime_ns t1 + (0 + length fs) * interval_ns t1 < 2 ^ 64" "0 + length fs < 2 ^ 64"
      using Cons.prems by (simp_all add: t1_def algebra_simps)
    from Cons.IH[OF this] obtain p' t' where r: "timer_interrupts fs (0, t1) = Inr (p', t')" "interval_ns t' = interval_ns t1"
      "systime_ns t' + p' * interval_ns t1 = systime_ns t1 + (0 + length fs) * interval_ns t1"
      "fs \<noteq> [] \<and> last fs \<longrightarrow> p' = 0" "p' \<le> 0 + length fs" by blast
    have "fs = [] \<Longrightarrow> p' = 0" using r(5) by simp
    then show ?thesis using step r by (intro exI[of _ p'] exI[of _ t']) (auto simp: t1_def algebra_simps)
  next
    case False
    have step: "timer_trigger f (pending, t) = Inr (pending + 1, t)"
      using Cons.prems(2) False by (simp add: timer_trigger_def usize_add_def)
    from Cons.IH[of t "pending + 1"] Cons.prems obtain p' t' where r: "timer_interrupts fs (pending + 1, t) = Inr (p', t')"
      "interval_ns t' = interval_ns t"
      "systime_ns t' + p' * interval_ns t = systime_ns t + (pending + 1 + length fs) * interval_ns t"
      "fs \<noteq> [] \<and> last fs \<longrightarrow> p' = 0" "p' \<le> pending + 1 + length fs" by auto
    show ?thesis using step r False by (intro exI[of _ p'] exI[of _ t']) (auto simp: e simp del: add_Suc_right)
  qed
qed simp

lemma timer_divisor_bytes: "unat (byte_of d) + 256 * unat (byte_of (drop_bit 8 d)) = d mod 65536"
proof -
  have b: "unat (byte_of n) = n mod 256" for n
    by (simp add: byte_of_def and_mask_simps unat_of_nat take_bit_eq_mod flip: take_bit_eq_mask[where 'a = nat and n = 8, simplified mask_eq_exp_minus_1, simplified])
  have "d mod 65536 = d mod 256 + 256 * (d div 256 mod 256)"
    using mod_mult2_eq[of d 256 256] by simp
  then show ?thesis by (simp add: b drop_bit_eq_div)
qed

section \<open>Properties\<close>

text \<open>
  No tick is lost: over any sequence of timer interrupts, whether or not the timer is locked by somebody
  else during some of them, the system time plus the pending ticks account for every interrupt, and after
  an interrupt that got the lock nothing is pending.
\<close>

theorem timer_counts_every_tick:
  assumes "systime_ns t + length fs * interval_ns t < 2 ^ 64" "length fs < 2 ^ 64"
  shows "\<exists>p' t'. timer_interrupts fs (0, t) = Inr (p', t') \<and>
    systime_ns t' + p' * interval_ns t = systime_ns t + length fs * interval_ns t \<and>
    (last fs \<and> fs \<noteq> [] \<longrightarrow> p' = 0)"
  using timer_interrupts_sum[of t 0 fs] assms by auto

theorem timer_counts_every_tick_witness:
  "\<exists>p' t'. timer_interrupts [True, False, False, True] (0, \<lparr>interval_ns = 1000000, systime_ns = 0\<rparr>) = Inr (p', t') \<and>
     systime_ns t' + p' * 1000000 = 4000000 \<and> p' = 0"
  using timer_counts_every_tick[of "\<lparr>interval_ns = 1000000, systime_ns = 0\<rparr>" "[True, False, False, True]"] by simp

text \<open>
  Programming the timer: for every non-zero interval (that does not overflow) \<open>interrupt_rate\<close> does not
  panic, caps the divisor at the 16 bits of the counter, and writes the low and then the high byte of the
  divisor; for QEMU it writes the doubled divisor, of which the counter only keeps 16 bits. An interval of
  zero divides by zero.
\<close>

theorem timer_divisor_programmed:
  assumes "1 \<le> ms" "1193 * ms < 2 ^ 64"
  shows "\<exists>t' lo hi. interrupt_rate qemu ms t = Inr (t', [(0x43, 0x36), (0x40, lo), (0x40, hi)]) \<and>
    unat lo + 256 * unat hi = (if qemu then 2 else 1) * min (1193 * ms) 65535 mod 65536 \<and>
    t' = t\<lparr>interval_ns := 1000000000 div (BASE_FREQUENCY div min (1193 * ms) 65535)\<rparr> \<and>
    interrupt_rate qemu 0 t = Inl Div_Zero"
proof -
  define d where "d = min (1193 * ms) 65535"
  have d: "0 < d" "d \<le> 65535" using assms(1) by (simp_all add: d_def)
  have "(1193182::nat) div 65535 \<le> 1193182 div d" by (rule div_le_mono2) (use d in simp_all)
  then have f: "1193182 div d \<noteq> 0" by simp
  have m: "(if 1193 * ms > 65535 then 65535 else 1193 * ms) = d" by (simp add: d_def)
  have mul: "usize_mul (BASE_FREQUENCY div 1000) ms = Inr (1193 * ms)"
    using assms(2) by (simp add: usize_mul_def BASE_FREQUENCY_def)
  have "interrupt_rate qemu ms t = Inr (t\<lparr>interval_ns := 1000000000 div (BASE_FREQUENCY div d)\<rparr>,
      [(0x43, 0x36), (0x40, byte_of ((if qemu then 2 else 1) * d)), (0x40, byte_of (drop_bit 8 ((if qemu then 2 else 1) * d)))])"
    unfolding interrupt_rate_def mul and_then_Inr Let_def m
    using d f by (simp add: usize_div_def BASE_FREQUENCY_def mult.commute)
  moreover have "interrupt_rate qemu 0 t = Inl Div_Zero"
    by (simp add: interrupt_rate_def usize_mul_def usize_div_def)
  ultimately show ?thesis using timer_divisor_bytes unfolding d_def[symmetric] by blast
qed

theorem timer_divisor_programmed_witness:
  "\<exists>t' lo hi. interrupt_rate False 1 timer_new = Inr (t', [(0x43, 0x36), (0x40, lo), (0x40, hi)]) \<and>
    unat lo + 256 * unat hi = 1193 \<and> interval_ns t' = 1000000"
  using timer_divisor_programmed[of 1 False timer_new] by (auto simp: BASE_FREQUENCY_def)

text \<open>
  Baud rates: every variant of \<open>BaudRate\<close> is named after the rate that its divisor gives from the base
  rate of 115200, and \<open>speed\<close> writes exactly this divisor into the divisor latch (between setting and
  clearing the access bit) and restores the line control and interrupt registers last.
\<close>

theorem baud_rate_programmed:
  "list_all (\<lambda>(rate, divisor). rate * unat divisor = 115200) BAUD_RATES \<and>
   (\<exists>lo hi. serial_speed port divisor irq line =
      [(com_port_base port + 1, 0), (com_port_base port + 3, 0x80), (com_port_base port, lo), (com_port_base port + 1, hi),
       (com_port_base port + 3, line), (com_port_base port + 1, irq)] \<and>
      (ucast lo :: u16) OR push_bit 8 (ucast hi) = divisor)"
proof
  show "list_all (\<lambda>(rate, divisor). rate * unat divisor = 115200) BAUD_RATES" by (simp add: BAUD_RATES_def)
  have e: "(0xff00::u16) = push_bit 8 (mask 8)" by (simp add: mask_eq_exp_minus_1 push_bit_eq_mult)
  have "(ucast (ucast (divisor AND 0x00ff) :: u8) :: u16) OR push_bit 8 (ucast (ucast (drop_bit 8 (divisor AND 0xff00)) :: u8)) = divisor"
    by (rule bit_word_eqI) (auto simp: e mask_simps bit_simps)
  then show "\<exists>lo hi. serial_speed port divisor irq line =
      [(com_port_base port + 1, 0), (com_port_base port + 3, 0x80), (com_port_base port, lo), (com_port_base port + 1, hi),
       (com_port_base port + 3, line), (com_port_base port + 1, irq)] \<and>
      (ucast lo :: u16) OR push_bit 8 (ucast hi) = divisor"
    by (auto simp: serial_speed_def Let_def)
qed

text \<open>
  Receive buffers keep the newest bytes: storing bytes in the buffer of the serial port or the keyboard
  always ends and never panics, and the buffer then holds the last bytes of what it held followed by
  what came in, as many as it has room for.
\<close>

theorem buffer_keeps_newest:
  assumes "bounded_queue q contents cap" "length (contents s) \<le> cap"
  shows "\<exists>s'. receive_bytes q bs s = Some (Inr s') \<and>
    contents s' = drop (length (contents s) + length bs - cap) (contents s @ bs)"
  by (rule bounded_queue.receive_bytes_newest[OF assms])

theorem buffer_keeps_newest_witness:
  "\<exists>s'. receive_bytes (list_queue 128) [7, 8] (replicate 127 (1::u8)) = Some (Inr s') \<and>
     s' = drop 1 (replicate 127 1 @ [7, 8])"
  using buffer_keeps_newest[OF keyboard_buffer.bounded_queue_axioms, of "replicate 127 1" "[7, 8]"]
  by (simp add: KEYBOARD_BUFFER_CAPACITY_def)

end
