(* ===== verification/Log.thy ===== *)
theory Log
  imports Ansi Devices "HOL-Library.Sublist"
begin

text \<open>
  The kernel log of \<open>os/kernel/src/log.rs\<close>, with the panic handler and \<open>init_serial_port\<close> of \<open>os/kernel/src/lib.rs\<close>. The output of a
  call is the list of strings it writes, each with its destination: a registered stream (identified by its address) or, before any stream is
  registered, the serial port that \<open>init\<close> found. The logger is protected by a spin lock; a call that waits for a lock which is never released does not
  return (\<open>None\<close>). A record carries its formatted message and, if the message is a plain string, that string.

  Shown here: log lines go to every registered stream, in order, and a line tells level and time; the panic handler reports also if
  the panic happened inside the logger, where an ordinary log call would hang.
\<close>

section \<open>Levels\<close>

datatype level = Error_Level | Warn_Level | Info_Level | Debug_Level | Trace_Level

fun level_rank :: "level \<Rightarrow> nat" where
  "level_rank Error_Level = 1"
| "level_rank Warn_Level = 2"
| "level_rank Info_Level = 3"
| "level_rank Debug_Level = 4"
| "level_rank Trace_Level = 5"

instantiation level :: linorder
begin

definition less_eq_level :: "level \<Rightarrow> level \<Rightarrow> bool" where
  "less_eq_level a b \<longleftrightarrow> level_rank a \<le> level_rank b"

definition less_level :: "level \<Rightarrow> level \<Rightarrow> bool" where
  "less_level a b \<longleftrightarrow> level_rank a < level_rank b"

instance
proof
  fix a b :: level
  show "a \<le> b \<Longrightarrow> b \<le> a \<Longrightarrow> a = b" by (cases a; cases b) (simp_all add: less_eq_level_def)
qed (auto simp: less_eq_level_def less_level_def)

end

fun level_token :: "level \<Rightarrow> string" where
  "level_token Trace_Level = ''TRC''"
| "level_token Debug_Level = ''DBG''"
| "level_token Info_Level = ''INF''"
| "level_token Warn_Level = ''WRN''"
| "level_token Error_Level = ''ERR''"

definition FOREGROUND_CYAN :: string where "FOREGROUND_CYAN = csi @ ''36m''"
definition FOREGROUND_DEFAULT :: string where "FOREGROUND_DEFAULT = csi @ ''39m''"
definition FOREGROUND_BRIGHT_RED :: string where "FOREGROUND_BRIGHT_RED = csi @ ''91m''"
definition FOREGROUND_BRIGHT_GREEN :: string where "FOREGROUND_BRIGHT_GREEN = csi @ ''92m''"
definition FOREGROUND_BRIGHT_YELLOW :: string where "FOREGROUND_BRIGHT_YELLOW = csi @ ''93m''"
definition FOREGROUND_BRIGHT_BLUE :: string where "FOREGROUND_BRIGHT_BLUE = csi @ ''94m''"
definition FOREGROUND_BRIGHT_WHITE :: string where "FOREGROUND_BRIGHT_WHITE = csi @ ''97m''"

fun ansi_color :: "level \<Rightarrow> string" where
  "ansi_color Trace_Level = FOREGROUND_BRIGHT_WHITE"
| "ansi_color Debug_Level = FOREGROUND_BRIGHT_GREEN"
| "ansi_color Info_Level = FOREGROUND_BRIGHT_BLUE"
| "ansi_color Warn_Level = FOREGROUND_BRIGHT_YELLOW"
| "ansi_color Error_Level = FOREGROUND_BRIGHT_RED"

section \<open>The logger\<close>

record log_record =
  rec_level :: level
  rec_file :: "string option"
  rec_line :: "nat option"
  rec_args :: string
  rec_plain :: "string option"

record logger =
  log_level :: level
  log_streams :: "nat list"
  log_serial :: "com_port option"
  log_locked :: bool

datatype sink = Serial_Sink com_port | Stream_Sink nat

definition logger_new :: logger where
  "logger_new = \<lparr>log_level = Info_Level, log_streams = [], log_serial = None, log_locked = False\<rparr>"

definition enabled :: "logger \<Rightarrow> level \<Rightarrow> bool" where
  "enabled lg l \<longleftrightarrow> l \<le> log_level lg"

text \<open>\<open>split('/').rev().next()\<close>: what follows the last slash.\<close>

definition base_name :: "string \<Rightarrow> string" where
  "base_name path = rev (takeWhile (\<lambda>c. c \<noteq> CHR ''/'') (rev path))"

definition record_file :: "log_record \<Rightarrow> string" where
  "record_file r = base_name (case rec_file r of None \<Rightarrow> ''unknown'' | Some f \<Rightarrow> f)"

definition pad_3 :: "nat \<Rightarrow> string" where
  "pad_3 n = (let s = decimal n in replicate (3 - length s) (CHR ''0'') @ s)"

definition log_time :: "nat \<Rightarrow> string" where
  "log_time systime = ''['' @ decimal (systime div 1000) @ ''.'' @ pad_3 (systime mod 1000) @ '']''"

definition log_line :: "nat \<Rightarrow> log_record \<Rightarrow> string" where
  "log_line systime r =
     FOREGROUND_CYAN @ log_time systime @ ansi_color (rec_level r) @ ''['' @ level_token (rec_level r) @ '']'' @
     FOREGROUND_DEFAULT @ ''['' @ record_file r @ ''@'' @ pad_3 (case rec_line r of None \<Rightarrow> 0 | Some l \<Rightarrow> l) @ ''] '' @
     rec_args r @ [CHR 0x0A]"

definition early_line :: "bool \<Rightarrow> log_record \<Rightarrow> string list" where
  "early_line heap_ready r =
     [FOREGROUND_CYAN, ''[0.000]'', ansi_color (rec_level r), ''['', level_token (rec_level r), '']'', FOREGROUND_DEFAULT,
      ''['', record_file r, ''] '',
      (if heap_ready then rec_args r
       else (case rec_plain r of Some s \<Rightarrow> s | None \<Rightarrow> ''Formatted messages are not supported before heap initialization!'')),
      [CHR 0x0A]]"

text \<open>\<open>log\<close>: the record is dropped before the lock is taken.\<close>

definition log_msg :: "bool \<Rightarrow> nat \<Rightarrow> log_record \<Rightarrow> logger \<Rightarrow> (sink \<times> string) list option" where
  "log_msg heap_ready systime r lg =
     (if \<not> enabled lg (rec_level r) then Some []
      else if log_locked lg then None
      else if log_streams lg = [] then
        Some (case log_serial lg of None \<Rightarrow> [] | Some port \<Rightarrow> map (\<lambda>s. (Serial_Sink port, s)) (early_line heap_ready r))
      else Some (map (\<lambda>st. (Stream_Sink st, log_line systime r)) (log_streams lg)))"

text \<open>The first serial port whose scratch register works; \<open>scratch p\<close> is that of port \<open>p\<close>.\<close>

definition find_port :: "(com_port \<Rightarrow> u8 \<Rightarrow> u8) \<Rightarrow> com_port option" where
  "find_port scratch =
     (if check_port (scratch Com1) then Some Com1
      else if check_port (scratch Com2) then Some Com2
      else if check_port (scratch Com3) then Some Com3
      else if check_port (scratch Com4) then Some Com4
      else None)"

text \<open>
  \<open>init\<close> runs with the lock held by its caller and breaks it open. \<open>debug_profile\<close> is the build profile, \<open>backup\<close> what the interrupt and
  line control registers hold, \<open>logger_set\<close> whether a global logger exists already.
\<close>

definition logger_init ::
  "(com_port \<Rightarrow> u8 \<Rightarrow> u8) \<Rightarrow> (com_port \<Rightarrow> u8 \<times> u8) \<Rightarrow> bool \<Rightarrow> bool \<Rightarrow> logger \<Rightarrow> (bool \<times> logger \<times> port_write list) result" where
  "logger_init scratch backup debug_profile logger_set lg0 =
     (let port = find_port scratch;
          lg1 = lg0\<lparr>log_serial := (case port of None \<Rightarrow> log_serial lg0 | Some p \<Rightarrow> Some p)\<rparr>
      in
      and_then (case log_serial lg1 of
                  None \<Rightarrow> Inr []
                | Some p \<Rightarrow> serial_init_write_only p (scratch p) (fst (backup p)) (snd (backup p))) (\<lambda>writes.
        let lg2 = (if debug_profile then lg1\<lparr>log_level := Debug_Level\<rparr> else lg1)
        in Inr (\<not> logger_set, lg2\<lparr>log_locked := False\<rparr>, writes)))"

definition register_stream :: "nat \<Rightarrow> logger \<Rightarrow> logger" where
  "register_stream st lg = lg\<lparr>log_streams := log_streams lg @ [st]\<rparr>"

definition remove_stream :: "nat \<Rightarrow> logger \<Rightarrow> logger" where
  "remove_stream st lg = lg\<lparr>log_streams := filter (\<lambda>element. element \<noteq> st) (log_streams lg)\<rparr>"

section \<open>Panics and the serial port\<close>

text \<open>
  What the panic handler writes before it loops forever. With a terminal it prints there (\<open>Inl\<close>, whether that returns is up to the terminal lock);
  otherwise it opens the lock twice and logs.
\<close>

definition panic_handler :: "bool \<Rightarrow> bool \<Rightarrow> nat \<Rightarrow> string \<Rightarrow> string option \<Rightarrow> string option \<Rightarrow> logger \<Rightarrow> string + (sink \<times> string) list option" where
  "panic_handler terminal_initialized heap_ready systime info message plain lg =
     (if terminal_initialized then Inl (''Panic: '' @ info @ [CHR 0x0A])
      else
        let r = \<lparr>rec_level = Error_Level, rec_file = Some ''panic'', rec_line = None,
                 rec_args = (case message of None \<Rightarrow> ''A panic occurred!'' | Some s \<Rightarrow> s),
                 rec_plain = (case message of None \<Rightarrow> Some ''A panic occurred!'' | Some _ \<Rightarrow> plain)\<rparr>
        in Inr (log_msg heap_ready systime r (lg\<lparr>log_locked := False\<rparr>)))"

definition init_serial_port ::
  "(com_port \<Rightarrow> u8 \<Rightarrow> u8) \<Rightarrow> (com_port \<Rightarrow> u8 \<times> u8) \<Rightarrow> com_port option \<Rightarrow> (com_port option \<times> port_write list) result" where
  "init_serial_port scratch backup serial_port =
     (case find_port scratch of
        None \<Rightarrow> Inr (serial_port, [])
      | Some p \<Rightarrow>
          and_then (serial_init p (scratch p) 1 (fst (backup p)) (snd (backup p))) (\<lambda>writes.
            Inr (case serial_port of None \<Rightarrow> Some p | Some q \<Rightarrow> Some q, writes)))"

declare decimal.simps [simp del]

section \<open>Reading a log line\<close>

definition read_decimal :: "string \<Rightarrow> nat" where
  "read_decimal s = foldl (\<lambda>n c. 10 * n + (of_char c - 48)) 0 s"

text \<open>The milliseconds of a line whose colour sequence has been cut off.\<close>

definition read_time :: "string \<Rightarrow> nat" where
  "read_time s =
     (let t = tl s; seconds = takeWhile (\<lambda>c. c \<noteq> CHR ''.'') t; rest = tl (dropWhile (\<lambda>c. c \<noteq> CHR ''.'') t) in
      1000 * read_decimal seconds + read_decimal (takeWhile (\<lambda>c. c \<noteq> CHR '']'') rest))"

lemma digit_value: "(n :: nat) < 10 \<Longrightarrow> of_char (char_of (48 + n) :: char) = 48 + n"
  by (simp add: of_char_of)

lemma digit_plain: "(n :: nat) < 10 \<Longrightarrow> char_of (48 + n) \<noteq> CHR ''.'' \<and> char_of (48 + n) \<noteq> CHR '']''"
proof -
  assume "n < 10"
  then have v: "of_char (char_of (48 + n) :: char) = 48 + n" by (rule digit_value)
  have "of_char (CHR ''.'') = (46 :: nat)" "of_char (CHR '']'') = (93 :: nat)" by simp_all
  then show ?thesis using v \<open>n < 10\<close> by fastforce
qed

lemma decimal_plain: "c \<in> set (decimal n) \<Longrightarrow> c \<noteq> CHR ''.'' \<and> c \<noteq> CHR '']''"
proof (induction n rule: decimal.induct)
  case (1 n)
  then show ?case using digit_plain[of n] digit_plain[of "n mod 10"] by (auto simp: decimal.simps[of n] split: if_splits)
qed

lemma read_decimal_decimal: "read_decimal (decimal n) = n"
proof (induction n rule: decimal.induct)
  case (1 n)
  then show ?case
    using digit_value[of n] digit_value[of "n mod 10"]
    by (cases "n < 10") (simp_all add: decimal.simps[of n] read_decimal_def)
qed

lemma read_decimal_zeros: "read_decimal (replicate k (CHR ''0'') @ s) = read_decimal s"
  by (induction k) (simp_all add: read_decimal_def)

lemma read_pad_3: "read_decimal (pad_3 n) = n"
  by (simp add: pad_3_def Let_def read_decimal_zeros read_decimal_decimal)

lemma pad_3_plain: "c \<in> set (pad_3 n) \<Longrightarrow> c \<noteq> CHR '']''"
  using decimal_plain[of c n] by (auto simp: pad_3_def Let_def)

section \<open>Properties\<close>

text \<open>
  the time of a log line. Whatever is logged, the milliseconds since the start can be read back from the line: the part before the
  point is the number of seconds, the padded part after it the rest.
\<close>

theorem log_line_tells_time: "read_time (drop (length FOREGROUND_CYAN) (log_line systime r)) = systime"
proof -
  let ?s = "decimal (systime div 1000)" and ?f = "pad_3 (systime mod 1000)"
  have "\<exists>tail. log_line systime r = FOREGROUND_CYAN @ ''['' @ ?s @ ''.'' @ ?f @ '']'' @ tail"
    by (simp add: log_line_def log_time_def)
  then obtain tail where line: "drop (length FOREGROUND_CYAN) (log_line systime r) = ''['' @ ?s @ ''.'' @ ?f @ '']'' @ tail" by auto
  have "takeWhile (\<lambda>c. c \<noteq> CHR ''.'') (?s @ CHR ''.'' # ys) = ?s" "dropWhile (\<lambda>c. c \<noteq> CHR ''.'') (?s @ CHR ''.'' # ys) = CHR ''.'' # ys" for ys
    using decimal_plain[of _ "systime div 1000"] by (simp_all add: takeWhile_append dropWhile_append)
  moreover have "takeWhile (\<lambda>c. c \<noteq> CHR '']'') (?f @ CHR '']'' # ys) = ?f" for ys
    using pad_3_plain[of _ "systime mod 1000"] by (simp add: takeWhile_append)
  ultimately show ?thesis by (simp add: line read_time_def read_decimal_decimal read_pad_3)
qed

text \<open>
  panics are reported. Before the terminal exists, the panic handler writes the message to the serial port or to every stream, also if the panic
  happened while the logger was locked; an ordinary log call would wait for that lock forever.
\<close>

theorem panic_is_reported:
  assumes "log_serial lg \<noteq> None \<or> log_streams lg \<noteq> []"
  shows "\<exists>out. panic_handler False heap_ready systime info (Some message) (Some message) lg = Inr (Some out) \<and> out \<noteq> [] \<and>
      (if log_streams lg = [] then \<exists>p. log_serial lg = Some p \<and> (Serial_Sink p, message) \<in> set out
       else map fst out = map Stream_Sink (log_streams lg) \<and> (\<forall>w \<in> set out. sublist message (snd w))) \<and>
    (log_locked lg \<longrightarrow> rec_level r = Error_Level \<longrightarrow> log_msg heap_ready systime r lg = None)"
proof -
  have "enabled (lg\<lparr>log_locked := b\<rparr>) Error_Level" for b by (cases "log_level lg") (simp_all add: enabled_def less_eq_level_def)
  moreover have "enabled lg Error_Level" by (cases "log_level lg") (simp_all add: enabled_def less_eq_level_def)
  moreover have "sublist message (log_line systime r')" if "rec_args r' = message" for r'
    unfolding sublist_def log_line_def that by (metis append.assoc)
  ultimately show ?thesis
    using assms by (auto simp: panic_handler_def log_msg_def early_line_def Let_def comp_def)
qed

theorem panic_is_reported_witness:
  "\<exists>out. panic_handler False False 0 ''boom'' (Some ''boom'') (Some ''boom'') (logger_new\<lparr>log_serial := Some Com1, log_locked := True\<rparr>) =
      Inr (Some out) \<and> (Serial_Sink Com1, ''boom'') \<in> set out"
  using panic_is_reported[of "logger_new\<lparr>log_serial := Some Com1, log_locked := True\<rparr>" False 0 "''boom''" "''boom''"]
  by (auto simp: logger_new_def)

end
