(* ===== verification/Apic.thy ===== *)
theory Apic
  imports Interrupts Threads
begin

text \<open>
  The interrupt controllers of \<open>os/kernel/src/device/apic.rs\<close>: the redirection table of the IO APIC is filled from the interrupt
  source overrides of the ACPI tables, device drivers unmask their vector by \<open>allow\<close>, the local APIC acknowledges interrupts and
  runs the scheduler's timer.

  The chips are driven through the crate \<open>x2apic\<close>, whose operations are the argument \<open>apic_chips\<close>; the tables found by the crate
  \<open>acpi\<close> are the argument \<open>madt\<close>. Log output is left out. Shown here: after initialisation every line of the IO APIC is masked and
  carries the vector of the interrupt that arrives there; \<open>allow\<close> unmasks exactly the line that carries the given vector, and
  refuses a non-maskable one.
\<close>

section \<open>Tables and chips\<close>

record irq_override =
  isa_source :: u8
  override_gsi :: u32
  override_active_low :: bool
  override_level :: bool

record nmi_source =
  nmi_gsi :: u32
  nmi_active_low :: bool
  nmi_level :: bool

record io_apic_desc =
  io_apic_address :: nat
  global_system_interrupt_base :: u32

record apic_desc =
  io_apics :: "io_apic_desc list"
  interrupt_source_overrides :: "irq_override list"
  nmi_source_list :: "nmi_source list"

text \<open>What the crate reports: no model, or no processors, where \<open>expect\<close> panics.\<close>

datatype interrupt_model = Apic_Model apic_desc | Other_Model

record madt =
  local_apic_address :: nat
  interrupt_model_of :: "interrupt_model option"
  boot_processor_apic_id :: "u32 option"

datatype irq_mode = Fixed | NonMaskable

record redirection_entry =
  entry_mode :: irq_mode
  entry_dest :: u8
  entry_vector :: u8
  entry_masked :: bool
  entry_low_active :: bool
  entry_level_triggered :: bool

datatype timer_mode = OneShot | Periodic

record ('io, 'la) apic_chips =
  io_init :: "u8 \<Rightarrow> 'io \<Rightarrow> 'io"
  max_table_entry :: "'io \<Rightarrow> u8"
  set_table_entry :: "u8 \<Rightarrow> redirection_entry \<Rightarrow> 'io \<Rightarrow> 'io"
  enable_irq :: "u8 \<Rightarrow> 'io \<Rightarrow> 'io"
  disable_irq :: "u8 \<Rightarrow> 'io \<Rightarrow> 'io"
  lapic_id :: "'la \<Rightarrow> u32"
  lapic_enable :: "'la \<Rightarrow> 'la"
  lapic_end_of_interrupt :: "'la \<Rightarrow> 'la"
  set_timer_divide_by_one :: "'la \<Rightarrow> 'la"
  set_timer_mode :: "timer_mode \<Rightarrow> 'la \<Rightarrow> 'la"
  set_timer_initial :: "u32 \<Rightarrow> 'la \<Rightarrow> 'la"
  enable_timer :: "'la \<Rightarrow> 'la"
  disable_timer :: "'la \<Rightarrow> 'la"
  timer_current :: "'la \<Rightarrow> u32"
  early_delay_50ms :: "'la \<Rightarrow> 'la"

record ('io, 'la) apic =
  local_apic :: 'la
  local_apic_locked :: bool
  io_apic :: 'io
  irq_overrides :: "irq_override list"
  nmi_sources :: "nmi_source list"
  timer_ticks_per_ms :: nat

section \<open>Interrupt sources and lines\<close>

definition override_for_source :: "irq_override list \<Rightarrow> u8 \<Rightarrow> irq_override option" where
  "override_for_source overrides source_irq = find (\<lambda>r. isa_source r = source_irq) overrides"

definition override_for_target :: "irq_override list \<Rightarrow> u8 \<Rightarrow> irq_override option" where
  "override_for_target overrides gsi = find (\<lambda>r. ucast (override_gsi r) = gsi) overrides"

definition target_gsi :: "irq_override list \<Rightarrow> u8 \<Rightarrow> u8" where
  "target_gsi overrides source_irq =
     (case override_for_source overrides source_irq of None \<Rightarrow> source_irq | Some r \<Rightarrow> ucast (override_gsi r))"

definition is_nmi :: "nmi_source list \<Rightarrow> u8 \<Rightarrow> bool" where
  "is_nmi nmis gsi \<longleftrightarrow> list_ex (\<lambda>nmi. nmi_gsi nmi = ucast gsi) nmis"

section \<open>The redirection table\<close>

definition irq_entry :: "u8 \<Rightarrow> irq_override list \<Rightarrow> u8 \<Rightarrow> redirection_entry result" where
  "irq_entry dest overrides i =
     (let entry = \<lparr>entry_mode = Fixed, entry_dest = dest, entry_vector = 0, entry_masked = True,
                   entry_low_active = False, entry_level_triggered = False\<rparr> in
      case override_for_target overrides i of
        None \<Rightarrow> and_then (u8_add i (vector_value Pit)) (\<lambda>v. Inr (entry\<lparr>entry_vector := v\<rparr>))
      | Some r \<Rightarrow>
          and_then (u8_add (isa_source r) (vector_value Pit)) (\<lambda>v.
            Inr (entry\<lparr>entry_vector := v, entry_low_active := override_active_low r, entry_level_triggered := override_level r\<rparr>)))"

fun fill_redirection_table :: "('io, 'la) apic_chips \<Rightarrow> u8 \<Rightarrow> irq_override list \<Rightarrow> nat list \<Rightarrow> 'io \<Rightarrow> 'io result" where
  "fill_redirection_table chips dest overrides [] io = Inr io"
| "fill_redirection_table chips dest overrides (i # rest) io =
     and_then (irq_entry dest overrides (of_nat i)) (\<lambda>entry.
       fill_redirection_table chips dest overrides rest (set_table_entry chips (of_nat i) entry io))"

definition nmi_entry :: "u8 \<Rightarrow> nmi_source \<Rightarrow> redirection_entry" where
  "nmi_entry dest nmi =
     \<lparr>entry_mode = NonMaskable, entry_dest = dest, entry_vector = 0, entry_masked = False,
      entry_low_active = nmi_active_low nmi, entry_level_triggered = nmi_level nmi\<rparr>"

fun set_nmi_entries :: "('io, 'la) apic_chips \<Rightarrow> 'la \<Rightarrow> irq_override list \<Rightarrow> nmi_source list \<Rightarrow> 'io \<Rightarrow> 'io result" where
  "set_nmi_entries chips la overrides [] io = Inr io"
| "set_nmi_entries chips la overrides (nmi # rest) io =
     and_then (u8_sub (vector_value ApicTimer) (vector_value Pit)) (\<lambda>timer_irq.
       set_nmi_entries chips la overrides rest
         (disable_irq chips (target_gsi overrides timer_irq)
           (set_table_entry chips (ucast (nmi_gsi nmi)) (nmi_entry (ucast (lapic_id chips la)) nmi) io)))"

section \<open>Initialisation\<close>

text \<open>\<open>Page::from_start_address(VirtAddr::new(address))\<close>, and the pages from there on in the kernel's address space.\<close>

definition map_device_pages ::
  "('e, 'f) entry_ops \<Rightarrow> 'f \<Rightarrow> process_manager \<Rightarrow> nat \<Rightarrow> nat \<Rightarrow> 'e machine \<Rightarrow> 'e machine result" where
  "map_device_pages ops no_cache pm address pages m =
     and_then (guard Unwrap_None (canonical_address address \<and> address mod PAGE_SIZE = 0)) (\<lambda>_.
     and_then (unwrap Unwrap_None (kernel_process pm)) (\<lambda>kernel.
       map_pages ops (proc_address_space kernel) \<lparr>page_start = address div PAGE_SIZE, page_end = address div PAGE_SIZE + pages\<rparr>
         Kernel no_cache m))"

definition calibrate_timer :: "('io, 'la) apic_chips \<Rightarrow> 'la \<Rightarrow> nat \<times> 'la" where
  "calibrate_timer chips la =
     (let la1 = early_delay_50ms chips (enable_timer chips (set_timer_initial chips 0xFFFFFFFF
                  (set_timer_mode chips OneShot (set_timer_divide_by_one chips (disable_timer chips la)))));
          ticks_per_ms = unat ((0xFFFFFFFF - timer_current chips la1) div 50)
      in (ticks_per_ms, disable_timer chips la1))"

text \<open>\<open>features\<close>: whether the processor has an APIC, if it tells; \<open>la\<close> and \<open>io\<close>: the chips as the crate finds them.\<close>

definition apic_new ::
  "('e, 'f) entry_ops \<Rightarrow> 'f \<Rightarrow> process_manager \<Rightarrow> ('io, 'la) apic_chips \<Rightarrow> bool option \<Rightarrow> madt option \<Rightarrow> 'la option \<Rightarrow> 'io \<Rightarrow>
     'e machine \<Rightarrow> (('io, 'la) apic \<times> 'e machine) result" where
  "apic_new ops no_cache pm chips features table built io m =
     and_then (guard Not_Initialized (features = Some True)) (\<lambda>_.
     and_then (unwrap Unwrap_None table) (\<lambda>tab.
     and_then (unwrap Unwrap_None (interrupt_model_of tab)) (\<lambda>model.
     and_then (unwrap Unwrap_None (boot_processor_apic_id tab)) (\<lambda>boot_id.
     and_then (map_device_pages ops no_cache pm (local_apic_address tab) 1 m) (\<lambda>m1.
     and_then (unwrap Not_Initialized built) (\<lambda>la.
       case model of
         Other_Model \<Rightarrow> Inl Not_Initialized
       | Apic_Model desc \<Rightarrow>
           (case io_apics desc of
              [] \<Rightarrow> Inl Not_Initialized
            | io_desc # _ \<Rightarrow>
                and_then (map_device_pages ops no_cache pm (io_apic_address io_desc) 1 m1) (\<lambda>m2.
                let base = (ucast (global_system_interrupt_base io_desc) :: u8);
                    io1 = io_init chips base io;
                    overrides = interrupt_source_overrides desc;
                    nmis = nmi_source_list desc
                in
                and_then (fill_redirection_table chips (ucast boot_id) overrides
                            [unat base..<unat (max_table_entry chips io1)] io1) (\<lambda>io2.
                and_then (set_nmi_entries chips la overrides nmis io2) (\<lambda>io3.
                  let (ticks, la2) = calibrate_timer chips (lapic_enable chips la) in
                  Inr (\<lparr>local_apic = la2, local_apic_locked = False, io_apic = io3, irq_overrides = overrides,
                        nmi_sources = nmis, timer_ticks_per_ms = ticks\<rparr>, m2)))))))))))"

section \<open>Operations\<close>

definition allow :: "('io, 'la) apic_chips \<Rightarrow> interrupt_vector \<Rightarrow> ('io, 'la) apic \<Rightarrow> ('io, 'la) apic result" where
  "allow chips vector a =
     and_then (u8_sub (vector_value vector) (vector_value Pit)) (\<lambda>irq.
       let target = target_gsi (irq_overrides a) irq in
       if is_nmi (nmi_sources a) target then Inl Assert_Failed
       else Inr (a\<lparr>io_apic := enable_irq chips target (io_apic a)\<rparr>))"

text \<open>The loop that takes the lock of the local APIC by force, as in the dispatcher.\<close>

partial_function (option) lock_local_apic :: "('io, 'la) apic \<Rightarrow> ('io, 'la) apic option" where
  "lock_local_apic a =
     (if local_apic_locked a then lock_local_apic (a\<lparr>local_apic_locked := False\<rparr>) else Some (a\<lparr>local_apic_locked := True\<rparr>))"

definition apic_end_of_interrupt :: "('io, 'la) apic_chips \<Rightarrow> ('io, 'la) apic \<Rightarrow> ('io, 'la) apic option" where
  "apic_end_of_interrupt chips a =
     map_option (\<lambda>b. b\<lparr>local_apic := lapic_end_of_interrupt chips (local_apic b), local_apic_locked := False\<rparr>) (lock_local_apic a)"

text \<open>\<open>handler\<close> switches the thread.\<close>

definition start_timer ::
  "('io, 'la) apic_chips \<Rightarrow> 'h \<Rightarrow> nat \<Rightarrow> ('io, 'la) apic \<times> 'h dispatcher \<Rightarrow> (('io, 'la) apic \<times> 'h dispatcher) result" where
  "start_timer chips handler interval_ms = (\<lambda>(a, d).
     and_then (usize_mul (timer_ticks_per_ms a) interval_ms) (\<lambda>ticks.
       let la = enable_timer chips (set_timer_initial chips (of_nat ticks)
                  (set_timer_mode chips Periodic (set_timer_divide_by_one chips (local_apic a))))
       in
       and_then (assign ApicTimer handler d) (\<lambda>d1.
       and_then (allow chips ApicTimer (a\<lparr>local_apic := la\<rparr>)) (\<lambda>a1. Inr (a1, d1)))))"

text \<open>The line of an interrupt source has no other source, as the overrides tell it.\<close>

definition routed :: "irq_override list \<Rightarrow> u8 \<Rightarrow> bool" where
  "routed overrides irq \<longleftrightarrow>
     (case override_for_target overrides (target_gsi overrides irq) of
        None \<Rightarrow> target_gsi overrides irq = irq
      | Some r \<Rightarrow> isa_source r = irq)"

text \<open>Chips that store the table as it is.\<close>

definition plain_chips :: "(u8 \<Rightarrow> redirection_entry, u32) apic_chips" where
  "plain_chips =
     \<lparr>io_init = (\<lambda>base io. io), max_table_entry = (\<lambda>io. 24), set_table_entry = (\<lambda>i e io. io(i := e)),
      enable_irq = (\<lambda>i io. io(i := (io i)\<lparr>entry_masked := False\<rparr>)), disable_irq = (\<lambda>i io. io(i := (io i)\<lparr>entry_masked := True\<rparr>)),
      lapic_id = (\<lambda>la. 0), lapic_enable = id, lapic_end_of_interrupt = id, set_timer_divide_by_one = id, set_timer_mode = (\<lambda>mode. id),
      set_timer_initial = (\<lambda>n la. n), enable_timer = id, disable_timer = id, timer_current = id, early_delay_50ms = (\<lambda>la. la - 5000000)\<rparr>"

text \<open>
  A PC as the examples use it: the timer's interrupt 0 arrives at line 2, line 9 is active low and level triggered, and line 5 is
  non-maskable.
\<close>

definition pc_apic_desc :: apic_desc where
  "pc_apic_desc =
     \<lparr>io_apics = [\<lparr>io_apic_address = 0xFEC00000, global_system_interrupt_base = 0\<rparr>],
      interrupt_source_overrides =
        [\<lparr>isa_source = 0, override_gsi = 2, override_active_low = False, override_level = False\<rparr>,
         \<lparr>isa_source = 9, override_gsi = 9, override_active_low = True, override_level = True\<rparr>],
      nmi_source_list = [\<lparr>nmi_gsi = 5, nmi_active_low = False, nmi_level = False\<rparr>]\<rparr>"

definition pc_madt :: madt where
  "pc_madt = \<lparr>local_apic_address = 0xFEE00000, interrupt_model_of = Some (Apic_Model pc_apic_desc), boot_processor_apic_id = Some 0\<rparr>"

definition one_level_manager :: process_manager where
  "one_level_manager =
     \<lparr>process_id_counter = 2, active_processes =
        [\<lparr>pid = 1, proc_address_space = \<lparr>root_table = 5, depth = 1\<rparr>, memory_areas = []\<rparr>], exited_processes = []\<rparr>"

section \<open>The contract of the IO APIC\<close>

text \<open>\<open>table\<close> is the entry of a line: setting an entry, and masking and unmasking it, touches no other line.\<close>

locale io_apic_table =
  fixes chips :: "('io, 'la) apic_chips" and table :: "'io \<Rightarrow> u8 \<Rightarrow> redirection_entry"
  assumes set_entry_table: "table (set_table_entry chips i e io) = (table io)(i := e)"
    and enable_table: "table (enable_irq chips i io) = (table io)(i := (table io i)\<lparr>entry_masked := False\<rparr>)"
    and disable_table: "table (disable_irq chips i io) = (table io)(i := (table io i)\<lparr>entry_masked := True\<rparr>)"
begin

lemma fill_entries:
  assumes "fill_redirection_table chips dest overrides is io = Inr io'" "distinct is" "\<forall>i \<in> set is. i < 256"
  shows "\<forall>j. if unat j \<in> set is then irq_entry dest overrides j = Inr (table io' j) else table io' j = table io j"
  using assms
proof (induction "is" arbitrary: io)
  case (Cons i rest)
  from Cons.prems obtain e where e: "irq_entry dest overrides (of_nat i) = Inr e"
    "fill_redirection_table chips dest overrides rest (set_table_entry chips (of_nat i) e io) = Inr io'"
    by (auto simp: result_simps)
  have i: "unat (of_nat i :: u8) = i" using Cons.prems by (simp add: unat_of_nat)
  note IH = Cons.IH[OF e(2)]
  show ?case
  proof
    fix j :: u8
    have "unat j = i \<longleftrightarrow> j = of_nat i" using i by auto
    then show "if unat j \<in> set (i # rest) then irq_entry dest overrides j = Inr (table io' j) else table io' j = table io j"
      using IH[rule_format, of j] Cons.prems e(1) i by (auto simp: set_entry_table split: if_splits)
  qed
qed simp

lemma nmi_entries_keep:
  assumes "set_nmi_entries chips la overrides nmis io = Inr io'" "\<not> is_nmi nmis j" "\<forall>nmi \<in> set nmis. nmi_gsi nmi < 256"
    "entry_masked (table io j)"
  shows "table io' j = table io j"
  using assms
proof (induction nmis arbitrary: io)
  case (Cons nmi nmis)
  have "ucast (nmi_gsi nmi) \<noteq> j"
  proof
    assume "ucast (nmi_gsi nmi) = j"
    moreover have "ucast (ucast (nmi_gsi nmi) :: u8) = nmi_gsi nmi"
    proof -
      have "n < 8" if "bit (nmi_gsi nmi) n" for n
        using bit_above[of "nmi_gsi nmi" 8 n] that Cons.prems(3) by (auto simp: not_le[symmetric])
      then show ?thesis by (intro bit_eqI) (auto simp: bit_simps)
    qed
    ultimately show False using Cons.prems(2) by (auto simp: is_nmi_def)
  qed
  moreover obtain t where "set_nmi_entries chips la overrides nmis
      (disable_irq chips t (set_table_entry chips (ucast (nmi_gsi nmi)) (nmi_entry (ucast (lapic_id chips la)) nmi) io)) = Inr io'"
    using Cons.prems(1) by (auto simp: result_simps)
  ultimately show ?case
    using Cons.IH[of "disable_irq chips t (set_table_entry chips (ucast (nmi_gsi nmi)) (nmi_entry (ucast (lapic_id chips la)) nmi) io)"]
      Cons.prems by (auto simp: is_nmi_def set_entry_table disable_table split: if_splits)
qed simp

end

interpretation plain: io_apic_table plain_chips "\<lambda>io. io"
  by unfold_locales (simp_all add: plain_chips_def)

lemma irq_entry_masked: "irq_entry dest overrides i = Inr e \<Longrightarrow> entry_masked e"
  by (auto simp: irq_entry_def Let_def result_simps split: option.splits)

lemma irq_entry_fields:
  "irq_entry dest overrides i = Inr e \<Longrightarrow> entry_mode e = Fixed \<and> entry_dest e = dest \<and>
     (entry_low_active e, entry_level_triggered e) =
       (case override_for_target overrides i of None \<Rightarrow> (False, False) | Some r \<Rightarrow> (override_active_low r, override_level r))"
  by (auto simp: irq_entry_def Let_def result_simps split: option.splits)

lemma routed_vector:
  assumes "irq_entry dest overrides (target_gsi overrides irq) = Inr e" "routed overrides irq"
  shows "u8_add irq (vector_value Pit) = Inr (entry_vector e) \<and> entry_masked e"
  using assms by (auto simp: irq_entry_def Let_def routed_def result_simps split: option.splits)

lemma u8_add_sub: "b \<le> a \<Longrightarrow> u8_add (a - b) b = Inr c \<Longrightarrow> c = a"
  by (auto simp: u8_add_def split: if_splits)

lemma apic_new_table:
  assumes "io_apic_table chips table"
    and "apic_new ops no_cache pm chips features (Some tab) built io m = Inr (a, m')"
    and "interrupt_model_of tab = Some (Apic_Model desc)" "boot_processor_apic_id tab = Some boot_id" "io_apics desc = d # ds"
    and "\<forall>nmi \<in> set (nmi_source_list desc). nmi_gsi nmi < 256"
    and line: "ucast (global_system_interrupt_base d) \<le> i"
      "i < max_table_entry chips (io_init chips (ucast (global_system_interrupt_base d)) io)"
      "\<not> is_nmi (nmi_source_list desc) i"
  shows "irq_overrides a = interrupt_source_overrides desc \<and> nmi_sources a = nmi_source_list desc \<and>
    irq_entry (ucast boot_id) (interrupt_source_overrides desc) i = Inr (table (io_apic a) i) \<and> entry_masked (table (io_apic a) i)"
proof -
  let ?io1 = "io_init chips (ucast (global_system_interrupt_base d)) io"
  let ?is = "[unat (ucast (global_system_interrupt_base d) :: u8)..<unat (max_table_entry chips ?io1)]"
  from assms(2-5) obtain la io2 io3 where
    fill: "fill_redirection_table chips (ucast boot_id) (interrupt_source_overrides desc) ?is ?io1 = Inr io2"
    and nmi: "set_nmi_entries chips la (interrupt_source_overrides desc) (nmi_source_list desc) io2 = Inr io3"
    and a: "io_apic a = io3" "irq_overrides a = interrupt_source_overrides desc" "nmi_sources a = nmi_source_list desc"
    by (auto simp: apic_new_def result_simps Let_def case_prod_beta)
  have b: "\<forall>x \<in> set ?is. x < 256"
    using unsigned_less[of "max_table_entry chips ?io1", where ?'a = nat] by auto
  have "unat i \<in> set ?is" using line by (simp add: word_le_nat_alt word_less_nat_alt)
  then have e: "irq_entry (ucast boot_id) (interrupt_source_overrides desc) i = Inr (table io2 i)"
    using io_apic_table.fill_entries[OF assms(1) fill _ b] by auto
  then have "entry_masked (table io2 i)" by (rule irq_entry_masked)
  with e a line io_apic_table.nmi_entries_keep[OF assms(1) nmi _ assms(6)] show ?thesis by simp
qed

lemma fill_succeeds:
  assumes "\<And>i. i \<in> set is \<Longrightarrow> \<exists>e. irq_entry dest overrides (of_nat i) = Inr e"
  shows "\<exists>io'. fill_redirection_table chips dest overrides is io = Inr io'"
  using assms by (induction "is" arbitrary: io) fastforce+

lemma set_nmi_succeeds: "\<exists>io'. set_nmi_entries chips la overrides nmis io = Inr io'"
  by (induction nmis arbitrary: io) (auto simp: u8_sub_def)

lemma map_one_level:
  "map_device_pages ops fl one_level_manager a 1 m =
     (if canonical_address a \<and> a mod PAGE_SIZE = 0
      then Inr (set_entry 5 (a div PAGE_SIZE mod 512) (make_entry ops (a div PAGE_SIZE) fl) m) else Inl Unwrap_None)"
proof -
  have "Suc 0 \<le> 512 - a div PAGE_SIZE mod 512" using mod_less_divisor[of 512 "a div PAGE_SIZE"] by linarith
  then have "min (Suc 0) (512 - a div PAGE_SIZE mod 512) = Suc 0" by simp
  then show ?thesis
    by (simp add: map_device_pages_def one_level_manager_def kernel_process_def guard_def map_pages_def identity_map_kernel_def
        run_length_def page_table_index_def)
qed

lemma io_apics_pc: "io_apics pc_apic_desc = [\<lparr>io_apic_address = 0xFEC00000, global_system_interrupt_base = 0\<rparr>]"
  by (simp add: pc_apic_desc_def)

lemma plain_init: "io_init plain_chips base io = io" "max_table_entry plain_chips io = 24"
  by (simp_all add: plain_chips_def)

text \<open>On the tables of a PC the controller starts wherever its registers can be mapped.\<close>

lemma pc_apic_on_mapped_registers:
  assumes "map_device_pages ops fl pm 0xFEE00000 1 m = Inr m1" "map_device_pages ops fl pm 0xFEC00000 1 m1 = Inr m2"
  shows "\<exists>a. apic_new ops fl pm plain_chips (Some True) (Some pc_madt) (Some 0) io m = Inr (a, m2) \<and>
    irq_overrides a = interrupt_source_overrides pc_apic_desc \<and> nmi_sources a = nmi_source_list pc_apic_desc"
proof -
  have "\<exists>e. irq_entry dest (interrupt_source_overrides pc_apic_desc) (of_nat i) = Inr e" if "i < 24" for i dest
    using that by (auto simp: irq_entry_def Let_def u8_add_def unat_of_nat pc_apic_desc_def override_for_target_def split: option.splits if_splits)
  then obtain io2 where "fill_redirection_table plain_chips 0 (interrupt_source_overrides pc_apic_desc) [0..<24] io = Inr io2"
    using fill_succeeds[of "[0..<24]" 0 "interrupt_source_overrides pc_apic_desc" plain_chips io] by auto
  moreover obtain io3 where "set_nmi_entries plain_chips 0 (interrupt_source_overrides pc_apic_desc) (nmi_source_list pc_apic_desc) io2 = Inr io3"
    using set_nmi_succeeds[of plain_chips 0 "interrupt_source_overrides pc_apic_desc" "nmi_source_list pc_apic_desc" io2] by auto
  ultimately show ?thesis
    using assms by (simp add: apic_new_def pc_madt_def io_apics_pc plain_init case_prod_beta Let_def)
qed

lemma pc_apic_starts: "\<exists>a m'. apic_new x86_entry_ops 3 one_level_manager plain_chips (Some True) (Some pc_madt) (Some 0) io m = Inr (a, m')"
proof -
  have "\<exists>m'. map_device_pages x86_entry_ops 3 one_level_manager a 1 m = Inr m'" if "a = 0xFEE00000 \<or> a = 0xFEC00000" for a m
    using that by (auto simp: map_one_level[simplified] canonical_address_def PAGE_SIZE_def)
  then show ?thesis using pc_apic_on_mapped_registers by metis
qed

section \<open>Properties\<close>

text \<open>
  C27: when a driver allows its interrupt vector after the APIC has been set up, the line that the interrupt source is routed to was
  masked before, is unmasked afterwards, and delivers exactly the driver's vector in the fixed mode to the processor the system was
  booted on (the low eight bits of its number, which is what a redirection entry holds), with the polarity and trigger mode of
  the override for the line; no other line changes. This holds for every vector above the exceptions whose line belongs to the
  IO APIC, is not non-maskable and has no second source.
\<close>

theorem allow_delivers_vector:
  assumes "io_apic_table chips table"
    and "apic_new ops no_cache pm chips features (Some tab) built io m = Inr (a, m')"
    and "interrupt_model_of tab = Some (Apic_Model desc)" "boot_processor_apic_id tab = Some boot_id" "io_apics desc = d # ds"
    and "\<forall>nmi \<in> set (nmi_source_list desc). nmi_gsi nmi < 256"
    and "vector_value Pit \<le> vector_value v"
    and "line = target_gsi (interrupt_source_overrides desc) (vector_value v - vector_value Pit)"
    and "routed (interrupt_source_overrides desc) (vector_value v - vector_value Pit)"
    and "ucast (global_system_interrupt_base d) \<le> line"
    and "line < max_table_entry chips (io_init chips (ucast (global_system_interrupt_base d)) io)"
    and "\<not> is_nmi (nmi_source_list desc) line"
  shows "\<exists>a'. allow chips v a = Inr a' \<and> entry_masked (table (io_apic a) line) \<and>
    table (io_apic a') = (table (io_apic a))(line := (table (io_apic a) line)\<lparr>entry_masked := False\<rparr>) \<and>
    entry_vector (table (io_apic a') line) = vector_value v \<and> entry_mode (table (io_apic a') line) = Fixed \<and>
    entry_dest (table (io_apic a') line) = ucast boot_id \<and>
    (entry_low_active (table (io_apic a') line), entry_level_triggered (table (io_apic a') line)) =
      (case override_for_target (interrupt_source_overrides desc) line of
         None \<Rightarrow> (False, False) | Some r \<Rightarrow> (override_active_low r, override_level r))"
proof -
  note t = apic_new_table[OF assms(1-6) assms(10-12)]
  then have "u8_add (vector_value v - vector_value Pit) (vector_value Pit) = Inr (entry_vector (table (io_apic a) line))"
    using routed_vector[OF _ assms(9)] assms(8) by metis
  then have v: "entry_vector (table (io_apic a) line) = vector_value v"
    using u8_add_sub[OF assms(7)] by blast
  have "allow chips v a = Inr (a\<lparr>io_apic := enable_irq chips line (io_apic a)\<rparr>)"
    using t assms(7,8,12) by (simp add: allow_def u8_sub_def)
  moreover have "entry_mode (table (io_apic a) line) = Fixed \<and> entry_dest (table (io_apic a) line) = ucast boot_id \<and>
    (entry_low_active (table (io_apic a) line), entry_level_triggered (table (io_apic a) line)) =
      (case override_for_target (interrupt_source_overrides desc) line of
         None \<Rightarrow> (False, False) | Some r \<Rightarrow> (override_active_low r, override_level r))"
    using t irq_entry_fields by blast
  ultimately show ?thesis using t v
    by (simp add: io_apic_table.enable_table[OF assms(1)])
qed

theorem allow_delivers_vector_witness:
  "\<exists>a m' a'. apic_new x86_entry_ops 3 one_level_manager plain_chips (Some True) (Some pc_madt) (Some 0)
       (\<lambda>_. nmi_entry 0 \<lparr>nmi_gsi = 0, nmi_active_low = False, nmi_level = False\<rparr>)
       \<lparr>frames_state = \<lparr>page_frame_allocator = [], phys_limit = None\<rparr>, tables = (\<lambda>_. [])\<rparr> = Inr (a, m') \<and>
    allow plain_chips Pit a = Inr a' \<and> entry_masked (io_apic a 2) \<and> \<not> entry_masked (io_apic a' 2) \<and> entry_vector (io_apic a' 2) = 0x20 \<and>
    entry_mode (io_apic a' 2) = Fixed \<and> entry_dest (io_apic a' 2) = 0"
proof -
  obtain a m' where new: "apic_new x86_entry_ops 3 one_level_manager plain_chips (Some True) (Some pc_madt) (Some 0)
       (\<lambda>_. nmi_entry 0 \<lparr>nmi_gsi = 0, nmi_active_low = False, nmi_level = False\<rparr>)
       \<lparr>frames_state = \<lparr>page_frame_allocator = [], phys_limit = None\<rparr>, tables = (\<lambda>_. [])\<rparr> = Inr (a, m')"
    using pc_apic_starts by blast
  have line: "target_gsi (interrupt_source_overrides pc_apic_desc) (vector_value Pit - vector_value Pit) = 2"
    by (simp add: target_gsi_def override_for_source_def pc_apic_desc_def)
  note rule = allow_delivers_vector[OF plain.io_apic_table_axioms new, of pc_apic_desc 0 "hd (io_apics pc_apic_desc)" "[]" Pit 2]
  have "\<exists>a'. allow plain_chips Pit a = Inr a' \<and> entry_masked (io_apic a 2) \<and>
    io_apic a' = (io_apic a)(2 := (io_apic a 2)\<lparr>entry_masked := False\<rparr>) \<and> entry_vector (io_apic a' 2) = vector_value Pit \<and>
    entry_mode (io_apic a' 2) = Fixed \<and> entry_dest (io_apic a' 2) = ucast (0 :: u32) \<and>
    (entry_low_active (io_apic a' 2), entry_level_triggered (io_apic a' 2)) =
      (case override_for_target (interrupt_source_overrides pc_apic_desc) 2 of
         None \<Rightarrow> (False, False) | Some r \<Rightarrow> (override_active_low r, override_level r))"
    by (rule rule) (simp_all add: line, simp_all add: pc_madt_def pc_apic_desc_def routed_def override_for_target_def target_gsi_def
          override_for_source_def is_nmi_def plain_chips_def)
  with new show ?thesis by auto
qed

end
