(* ===== verification/Ps2.thy ===== *)
theory Ps2
  imports Interrupts Apic Devices
begin

text \<open>
  The set-up of the PS/2 controller and the keyboard: \<open>init_controller\<close>, \<open>init_keyboard\<close> and \<open>plugin\<close> of \<open>os/kernel/src/device/ps2.rs\<close> and
  \<open>init_keyboard\<close> of \<open>os/kernel/src/lib.rs\<close>; the keyboard buffer is in \<open>Devices\<close>. The operations of the \<open>ps2\<close> crate are the values of \<open>ps2_op\<close>; what they do to the controller is a parameter. The configuration byte is a
  word with the flags of the controller's data sheet.

  Shown here: after a successful set-up the configuration of the controller is the intended one, also if the self test reset it; an error of
  any step stops the set-up.
\<close>

unbundle bit_operations_syntax

section \<open>Operations of the controller\<close>

datatype keyboard_type = ATWithTranslation | MF2 | MF2WithTranslation | ThinkPadWithTranslation | Other_Keyboard

datatype ps2_op =
    Disable_Keyboard | Disable_Mouse | Enable_Keyboard | Read_Data | Test_Controller | Test_Keyboard
  | Write_Config u8
  | Keyboard_Reset_And_Self_Test | Keyboard_Disable_Scanning | Keyboard_Enable_Scanning | Keyboard_Set_Defaults
  | Keyboard_Set_Scancode_Set u8 | Keyboard_Set_Typematic u8 | Keyboard_Set_Leds u8

text \<open>\<open>run\<close> performs an operation, \<open>read_config\<close> and \<open>keyboard_type\<close> are the two with a result; each may fail with an error.\<close>

record ('c, 'e) ps2_crate =
  ps2_run :: "ps2_op \<Rightarrow> 'c \<Rightarrow> ('e + unit) \<times> 'c"
  ps2_read_config :: "'c \<Rightarrow> ('e + u8) \<times> 'c"
  ps2_get_keyboard_type :: "'c \<Rightarrow> ('e + keyboard_type) \<times> 'c"

definition ENABLE_KEYBOARD_INTERRUPT :: u8 where "ENABLE_KEYBOARD_INTERRUPT = 0x01"
definition ENABLE_MOUSE_INTERRUPT :: u8 where "ENABLE_MOUSE_INTERRUPT = 0x02"
definition DISABLE_KEYBOARD :: u8 where "DISABLE_KEYBOARD = 0x10"
definition ENABLE_TRANSLATE :: u8 where "ENABLE_TRANSLATE = 0x40"

definition set_config_flags :: "u8 \<Rightarrow> bool \<Rightarrow> u8 \<Rightarrow> u8" where
  "set_config_flags flags on config = (if on then config OR flags else config AND NOT flags)"

text \<open>The question mark: go on with the result or leave with the error.\<close>

definition attempt :: "('c \<Rightarrow> ('e + 'a) \<times> 'c) \<Rightarrow> ('a \<Rightarrow> 'c \<Rightarrow> ('e + 'b) \<times> 'c) \<Rightarrow> 'c \<Rightarrow> ('e + 'b) \<times> 'c" where
  "attempt f g c = (case f c of (Inl e, c') \<Rightarrow> (Inl e, c') | (Inr a, c') \<Rightarrow> g a c')"

section \<open>Set-up\<close>

definition init_controller :: "('c, 'e) ps2_crate \<Rightarrow> 'c \<Rightarrow> ('e + unit) \<times> 'c" where
  "init_controller ps =
     attempt (ps2_run ps Disable_Keyboard) (\<lambda>_.
     attempt (ps2_run ps Disable_Mouse) (\<lambda>_ c0.
     let c1 = snd (ps2_run ps Read_Data c0) in
     attempt (ps2_read_config ps) (\<lambda>config0.
     let config = set_config_flags (ENABLE_KEYBOARD_INTERRUPT OR ENABLE_MOUSE_INTERRUPT OR ENABLE_TRANSLATE) False config0 in
     attempt (ps2_run ps (Write_Config config)) (\<lambda>_.
     attempt (ps2_run ps Test_Controller) (\<lambda>_.
     attempt (ps2_read_config ps) (\<lambda>config1.
     attempt (\<lambda>c. if config1 \<noteq> config then ps2_run ps (Write_Config config) c else (Inr (), c)) (\<lambda>_.
     attempt (ps2_run ps Test_Keyboard) (\<lambda>_.
     attempt (ps2_run ps Enable_Keyboard) (\<lambda>_.
     let config2 = set_config_flags ENABLE_KEYBOARD_INTERRUPT True (set_config_flags DISABLE_KEYBOARD False config) in
       ps2_run ps (Write_Config config2)))))))) c1))"

definition needs_translation :: "keyboard_type \<Rightarrow> bool" where
  "needs_translation k \<longleftrightarrow> k = ATWithTranslation \<or> k = MF2WithTranslation \<or> k = ThinkPadWithTranslation"

definition init_keyboard :: "('c, 'e) ps2_crate \<Rightarrow> 'c \<Rightarrow> ('e + unit) \<times> 'c" where
  "init_keyboard ps =
     attempt (ps2_run ps Keyboard_Reset_And_Self_Test) (\<lambda>_.
     attempt (ps2_run ps Keyboard_Disable_Scanning) (\<lambda>_.
     attempt (ps2_get_keyboard_type ps) (\<lambda>kb_type.
     attempt (if needs_translation kb_type
          then attempt (ps2_read_config ps) (\<lambda>config. ps2_run ps (Write_Config (set_config_flags ENABLE_TRANSLATE True config)))
          else (\<lambda>c. (Inr (), c))) (\<lambda>_.
     attempt (ps2_run ps Keyboard_Set_Defaults) (\<lambda>_.
     attempt (ps2_run ps (Keyboard_Set_Scancode_Set 1)) (\<lambda>_.
     attempt (ps2_run ps (Keyboard_Set_Typematic 0)) (\<lambda>_.
     attempt (ps2_run ps (Keyboard_Set_Leds 0)) (\<lambda>_.
       ps2_run ps Keyboard_Enable_Scanning))))))))"

text \<open>\<open>init_keyboard\<close> of \<open>lib.rs\<close>: an error is logged and the kernel goes on; the result tells which part failed.\<close>

datatype 'e ps2_log = Ps2_Ok | Keyboard_Failed 'e | Controller_Failed 'e

definition init_ps2 :: "('c, 'e) ps2_crate \<Rightarrow> 'c \<Rightarrow> 'e ps2_log \<times> 'c" where
  "init_ps2 ps c =
     (case init_controller ps c of
        (Inl e, c1) \<Rightarrow> (Controller_Failed e, c1)
      | (Inr _, c1) \<Rightarrow> (case init_keyboard ps c1 of (Inl e, c2) \<Rightarrow> (Keyboard_Failed e, c2) | (Inr _, c2) \<Rightarrow> (Ps2_Ok, c2)))"

definition keyboard_plugin :: "('io, 'la) apic_chips \<Rightarrow> 'h \<Rightarrow> 'h dispatcher \<Rightarrow> ('io, 'la) apic \<Rightarrow> ('h dispatcher \<times> ('io, 'la) apic) result" where
  "keyboard_plugin chips handler d a =
     and_then (assign Keyboard handler d) (\<lambda>d'. and_then (allow chips Keyboard a) (\<lambda>a'. Inr (d', a')))"

text \<open>The same for the timer and for the serial port, whose buffer has to exist.\<close>

definition timer_plugin :: "('io, 'la) apic_chips \<Rightarrow> 'h \<Rightarrow> 'h dispatcher \<Rightarrow> ('io, 'la) apic \<Rightarrow> ('h dispatcher \<times> ('io, 'la) apic) result" where
  "timer_plugin chips handler d a =
     and_then (assign Pit handler d) (\<lambda>d'. and_then (allow chips Pit a) (\<lambda>a'. Inr (d', a')))"

fun com_port_vector :: "com_port \<Rightarrow> interrupt_vector" where
  "com_port_vector com_port.Com1 = interrupt_vector.Com1"
| "com_port_vector com_port.Com2 = interrupt_vector.Com2"
| "com_port_vector com_port.Com3 = interrupt_vector.Com1"
| "com_port_vector com_port.Com4 = interrupt_vector.Com2"

definition serial_plugin ::
  "('io, 'la) apic_chips \<Rightarrow> com_port \<Rightarrow> bool \<Rightarrow> 'h \<Rightarrow> 'h dispatcher \<Rightarrow> ('io, 'la) apic \<Rightarrow> ('h dispatcher \<times> ('io, 'la) apic \<times> port_write list) result" where
  "serial_plugin chips port buffer_completed handler d a =
     and_then (guard Not_Initialized buffer_completed) (\<lambda>_.
     and_then (assign (com_port_vector port) handler d) (\<lambda>d'.
     and_then (allow chips (com_port_vector port) a) (\<lambda>a'.
       Inr (d', a', [(com_port_base port + 1, 0x01)]))))"

section \<open>The contract of the controller\<close>

text \<open>
  \<open>config\<close> is the configuration byte. Writing it sets it, reading returns it, enabling or disabling a port changes at most the bit of the port; the
  self test may change it in any way, the commands to the keyboard leave it alone.
\<close>

locale ps2_controller =
  fixes ps :: "('c, 'e) ps2_crate" and config :: "'c \<Rightarrow> u8"
  assumes write_config: "ps2_run ps (Write_Config v) c = (Inr u, c') \<Longrightarrow> config c' = v"
    and read_config: "ps2_read_config ps c = (Inr v, c') \<Longrightarrow> v = config c \<and> config c' = config c"
    and keyboard_type: "ps2_get_keyboard_type ps c = (k, c') \<Longrightarrow> config c' = config c"
    and keyboard_ops: "op \<in> {Keyboard_Reset_And_Self_Test, Keyboard_Disable_Scanning, Keyboard_Enable_Scanning, Keyboard_Set_Defaults,
        Keyboard_Set_Scancode_Set 1, Keyboard_Set_Typematic 0, Keyboard_Set_Leds 0} \<Longrightarrow> ps2_run ps op c = (r, c') \<Longrightarrow> config c' = config c"
begin

lemma attempt_Inr: "attempt f g c = (Inr b, c'') \<longleftrightarrow> (\<exists>a c'. f c = (Inr a, c') \<and> g a c' = (Inr b, c''))"
  by (auto simp: attempt_def split: prod.splits sum.splits)

lemma controller_configured:
  assumes "init_controller ps c = (Inr u, c')"
  shows "\<exists>v. config c' = set_config_flags ENABLE_KEYBOARD_INTERRUPT True (set_config_flags DISABLE_KEYBOARD False
      (set_config_flags (ENABLE_KEYBOARD_INTERRUPT OR ENABLE_MOUSE_INTERRUPT OR ENABLE_TRANSLATE) False v))"
  using assms unfolding init_controller_def
  by (auto simp: attempt_Inr Let_def split: prod.splits sum.splits dest!: write_config)

lemma keyboard_configured:
  assumes "init_keyboard ps c = (Inr u, c')"
  shows "config c' = config c \<or> config c' = set_config_flags ENABLE_TRANSLATE True (config c)"
proof -
  note ops = keyboard_ops[rotated]
  show ?thesis
    using assms unfolding init_keyboard_def
    by (auto simp: attempt_Inr split: if_splits dest!: write_config read_config keyboard_type ops)
qed

end

section \<open>A controller\<close>

text \<open>It answers every command and resets its configuration byte to \<open>0x75\<close> in the self test; \<open>kb\<close> is the type of its keyboard.\<close>

definition simple_ps2 :: "keyboard_type \<Rightarrow> (u8, unit) ps2_crate" where
  "simple_ps2 kb = \<lparr>ps2_run = (\<lambda>op c. (Inr (), case op of Write_Config v \<Rightarrow> v | Test_Controller \<Rightarrow> 0x75
       | Disable_Keyboard \<Rightarrow> c OR 0x10 | Enable_Keyboard \<Rightarrow> c AND NOT 0x10 | Disable_Mouse \<Rightarrow> c OR 0x20 | _ \<Rightarrow> c)),
     ps2_read_config = (\<lambda>c. (Inr c, c)), ps2_get_keyboard_type = (\<lambda>c. (Inr kb, c))\<rparr>"

interpretation simple: ps2_controller "simple_ps2 kb" "\<lambda>c. c"
  by unfold_locales (auto simp: simple_ps2_def)

section \<open>Properties\<close>

text \<open>
  the controller is configured. If the set-up of controller and keyboard succeeds, the configuration byte of the controller has the
  keyboard interrupt on, the mouse interrupt off and the keyboard port enabled, whatever the self test did to the byte.
\<close>

theorem keyboard_interrupt_on:
  assumes "ps2_controller ps config" "init_ps2 ps c = (Ps2_Ok, c')"
  shows "bit (config c') 0 \<and> \<not> bit (config c') 1 \<and> \<not> bit (config c') 4"
proof -
  obtain u c1 u' where c1: "init_controller ps c = (Inr u, c1)" "init_keyboard ps c1 = (Inr u', c')"
    using assms(2) by (auto simp: init_ps2_def split: prod.splits sum.splits)
  obtain v where v: "config c1 = set_config_flags ENABLE_KEYBOARD_INTERRUPT True (set_config_flags DISABLE_KEYBOARD False
      (set_config_flags (ENABLE_KEYBOARD_INTERRUPT OR ENABLE_MOUSE_INTERRUPT OR ENABLE_TRANSLATE) False v))"
    using ps2_controller.controller_configured[OF assms(1) c1(1)] by blast
  show ?thesis
    using ps2_controller.keyboard_configured[OF assms(1) c1(2)] unfolding v
    by (auto simp: set_config_flags_def ENABLE_KEYBOARD_INTERRUPT_def ENABLE_MOUSE_INTERRUPT_def ENABLE_TRANSLATE_def DISABLE_KEYBOARD_def bit_simps)
qed

theorem keyboard_interrupt_on_witness:
  "\<exists>c'. init_ps2 (simple_ps2 MF2WithTranslation) 0x75 = (Ps2_Ok, c') \<and> bit c' 0 \<and> \<not> bit c' 1 \<and> \<not> bit c' 4"
proof -
  have "fst (init_ps2 (simple_ps2 MF2WithTranslation) 0x75) = Ps2_Ok" by code_simp
  then obtain c' where c': "init_ps2 (simple_ps2 MF2WithTranslation) 0x75 = (Ps2_Ok, c')" by (metis prod.collapse)
  then show ?thesis using keyboard_interrupt_on[OF simple.ps2_controller_axioms c'] by blast
qed

end
