(* ===== verification/Ihda_Response.thy ===== *)
theory Ihda_Response
  imports Prelude
begin

text \<open>
  Codec responses of the Intel HD Audio driver: the raw 32-bit response and the typed responses of
  \<open>os/kernel/src/device/ihda_codec.rs\<close> with their constructors \<open>X::new(RawResponse)\<close>. A struct is a
  record whose fields carry a prefix of the struct's name; a constructor that panics on a reserved
  encoding returns a \<open>result\<close>.

  Shown here: which raw values each fallible constructor rejects, the ranges of the decoded fields,
  and that no other raw value panics.
\<close>

section \<open>Raw responses\<close>

text \<open>\<open>RawResponse\<close> is its \<open>raw_value\<close>; \<open>field\<close> is the idiom \<open>(raw_value >> index).bitand(mask) as u8\<close>.\<close>

type_synonym raw_response = u32

definition get_bit :: "raw_response \<Rightarrow> nat \<Rightarrow> bool" where
  "get_bit raw index = (drop_bit index raw AND 1 \<noteq> 0)"

definition field8 :: "raw_response \<Rightarrow> nat \<Rightarrow> u32 \<Rightarrow> u8" where
  "field8 raw index msk = ucast (drop_bit index raw AND msk)"

definition field16 :: "raw_response \<Rightarrow> nat \<Rightarrow> u32 \<Rightarrow> u16" where
  "field16 raw index msk = ucast (drop_bit index raw AND msk)"

section \<open>Enumerations\<close>

datatype function_group_type_enum =
  AudioFunctionGroup | VendorDefinedModemFunctionGroup | VendorDefinedFunctionGroup

datatype widget_type =
    WT_AudioOutput | WT_AudioInput | WT_AudioMixer | WT_AudioSelector | WT_PinComplex
  | WT_PowerWidget | WT_VolumeKnobWidget | WT_BeepGeneratorWidget | WT_VendorDefinedAudioWidget

datatype bits_per_sample = Eight | Sixteen | Twenty | Twentyfour | Thirtytwo

datatype stream_type = PCM | NonPCM

datatype voltage_reference_signal_level =
  HiZ | FiftyPercent | Ground0V | EightyPercent | HundredPercent

datatype port_connectivity = Jack | NoPhysicalConnection | InternalDevice | JackAndInternalDevice

datatype gross_location = ExternalOnPrimaryChassis | Gross_Internal | SeparateChassis | Gross_Other

datatype geometric_location =
    NotAvailable | Rear | Front | GL_Left | GL_Right | GL_Top | GL_Bottom | RearPanel | Riser
  | MobileLidInside | DriveBay | DigitalDisplay | MobileLidOutside | ATAPI

datatype default_device =
    LineOut | Speaker | HPOut | CD | SPDIFOut | DigitalOtherOut | ModemLineSide | ModemHandsetSide
  | LineIn | AUX | MicIn | Telephony | SPDIFIn | DigitalOtherIn | Device_Other

datatype connection_type =
    Conn_Unknown | EighthInchStereoMono | QuarterInchStereoMono | ATAPIInternal | RCA | Optical
  | OtherDigital | OtherAnalog | MultichannelAnalogDIN | XLRProfessional | RJ11Modem | Combination
  | Conn_Other

datatype config_color =
    Color_Unknown | Color_Black | Color_Grey | Color_Blue | Color_Green | Color_Red | Color_Orange
  | Color_Yellow | Color_Purple | Color_Pink | Color_White | Color_Other

section \<open>Typed responses\<close>

record vendor_id_response =
  vid_device_id :: u16
  vid_vendor_id :: u16

definition vendor_id_response_new :: "raw_response \<Rightarrow> vendor_id_response" where
  "vendor_id_response_new raw =
     \<lparr>vid_device_id = field16 raw 0 0xFFFF,
        vid_vendor_id = field16 raw 16 0xFFFF\<rparr>"

record revision_id_response =
  rid_stepping_id :: u8
  rid_revision_id :: u8
  rid_minor_revision :: u8
  rid_major_revision :: u8

definition revision_id_response_new :: "raw_response \<Rightarrow> revision_id_response" where
  "revision_id_response_new raw =
     \<lparr>rid_stepping_id = field8 raw 0 0xFF,
        rid_revision_id = field8 raw 8 0xFF,
        rid_minor_revision = field8 raw 16 0xF,
        rid_major_revision = field8 raw 20 0xF\<rparr>"

record subordinate_node_count_response =
  snc_total_number_of_nodes :: u8
  snc_starting_node_number :: u8

definition subordinate_node_count_response_new :: "raw_response \<Rightarrow> subordinate_node_count_response" where
  "subordinate_node_count_response_new raw =
     \<lparr>snc_total_number_of_nodes = field8 raw 0 0xFF,
        snc_starting_node_number = field8 raw 16 0xFF\<rparr>"

record function_group_type_response =
  fgt_node_type :: function_group_type_enum
  fgt_unsolicited_response_capable :: bool

definition function_group_type_response_new :: "raw_response \<Rightarrow> function_group_type_response result" where
  "function_group_type_response_new raw =
     (let ty = field8 raw 0 0xFF in
      and_then
        (if ty = 0x1 then Inr AudioFunctionGroup
         else if ty = 0x2 then Inr VendorDefinedFunctionGroup
         else if 0x80 \<le> ty \<and> ty \<le> 0xFF then Inr VendorDefinedModemFunctionGroup
         else Inl Unknown_Function_Group)
        (\<lambda>node_type. Inr \<lparr>fgt_node_type = node_type,
           fgt_unsolicited_response_capable = get_bit raw 8\<rparr>))"

record audio_function_group_caps_response =
  afg_output_delay :: u8
  afg_input_delay :: u8
  afg_beep_gen :: bool

definition audio_function_group_caps_response_new :: "raw_response \<Rightarrow> audio_function_group_caps_response" where
  "audio_function_group_caps_response_new raw =
     \<lparr>afg_output_delay = field8 raw 0 0xF,
        afg_input_delay = field8 raw 8 0xF,
        afg_beep_gen = get_bit raw 16\<rparr>"

record audio_widget_caps_response =
  awc_chan_count_lsb :: bool
  awc_in_amp_present :: bool
  awc_out_amp_present :: bool
  awc_amp_param_override :: bool
  awc_format_override :: bool
  awc_stripe :: bool
  awc_proc_widget :: bool
  awc_unsol_capable :: bool
  awc_conn_list :: bool
  awc_digital :: bool
  awc_power_cntrl :: bool
  awc_lr_swap :: bool
  awc_cp_caps :: bool
  awc_chan_count_ext :: u8
  awc_delay :: u8
  awc_widget_type :: widget_type

definition widget_type_of :: "u8 \<Rightarrow> widget_type result" where
  "widget_type_of n =
     (if n = 0x0 then Inr WT_AudioOutput
      else if n = 0x1 then Inr WT_AudioInput
      else if n = 0x2 then Inr WT_AudioMixer
      else if n = 0x3 then Inr WT_AudioSelector
      else if n = 0x4 then Inr WT_PinComplex
      else if n = 0x5 then Inr WT_PowerWidget
      else if n = 0x6 then Inr WT_VolumeKnobWidget
      else if n = 0x7 then Inr WT_BeepGeneratorWidget
      else if n = 0xF then Inr WT_VendorDefinedAudioWidget
      else Inl Unknown_Widget_Type)"

definition audio_widget_caps_response_new :: "raw_response \<Rightarrow> audio_widget_caps_response result" where
  "audio_widget_caps_response_new raw =
     and_then (widget_type_of (field8 raw 20 0xF)) (\<lambda>ty.
       Inr \<lparr>awc_chan_count_lsb = get_bit raw 0,
        awc_in_amp_present = get_bit raw 1,
        awc_out_amp_present = get_bit raw 2,
        awc_amp_param_override = get_bit raw 3,
        awc_format_override = get_bit raw 4,
        awc_stripe = get_bit raw 5,
        awc_proc_widget = get_bit raw 6,
        awc_unsol_capable = get_bit raw 7,
        awc_conn_list = get_bit raw 8,
        awc_digital = get_bit raw 9,
        awc_power_cntrl = get_bit raw 10,
        awc_lr_swap = get_bit raw 11,
        awc_cp_caps = get_bit raw 12,
        awc_chan_count_ext = field8 raw 13 0b111,
        awc_delay = field8 raw 16 0xF,
        awc_widget_type = ty\<rparr>)"

record sample_size_rate_caps_response =
  ssr_support_8000hz :: bool
  ssr_support_11025hz :: bool
  ssr_support_16000hz :: bool
  ssr_support_22050hz :: bool
  ssr_support_32000hz :: bool
  ssr_support_44100hz :: bool
  ssr_support_48000hz :: bool
  ssr_support_88200hz :: bool
  ssr_support_96000hz :: bool
  ssr_support_176400hz :: bool
  ssr_support_192000hz :: bool
  ssr_support_384000hz :: bool
  ssr_support_8bit :: bool
  ssr_support_16bit :: bool
  ssr_support_20bit :: bool
  ssr_support_24bit :: bool
  ssr_support_32bit :: bool

definition sample_size_rate_caps_response_new :: "raw_response \<Rightarrow> sample_size_rate_caps_response" where
  "sample_size_rate_caps_response_new raw =
     \<lparr>ssr_support_8000hz = get_bit raw 0,
        ssr_support_11025hz = get_bit raw 1,
        ssr_support_16000hz = get_bit raw 2,
        ssr_support_22050hz = get_bit raw 3,
        ssr_support_32000hz = get_bit raw 4,
        ssr_support_44100hz = get_bit raw 5,
        ssr_support_48000hz = get_bit raw 6,
        ssr_support_88200hz = get_bit raw 7,
        ssr_support_96000hz = get_bit raw 8,
        ssr_support_176400hz = get_bit raw 9,
        ssr_support_192000hz = get_bit raw 10,
        ssr_support_384000hz = get_bit raw 11,
        ssr_support_8bit = get_bit raw 16,
        ssr_support_16bit = get_bit raw 17,
        ssr_support_20bit = get_bit raw 18,
        ssr_support_24bit = get_bit raw 19,
        ssr_support_32bit = get_bit raw 20\<rparr>"

record supported_stream_formats_response =
  ssf_pcm :: bool
  ssf_float32 :: bool
  ssf_ac3 :: bool

definition supported_stream_formats_response_new :: "raw_response \<Rightarrow> supported_stream_formats_response" where
  "supported_stream_formats_response_new raw =
     \<lparr>ssf_pcm = get_bit raw 0,
        ssf_float32 = get_bit raw 1,
        ssf_ac3 = get_bit raw 2\<rparr>"

record pin_capabilities_response =
  pin_impedence_sense_capable :: bool
  pin_trigger_required :: bool
  pin_presence_detect_capable :: bool
  pin_headphone_drive_capable :: bool
  pin_output_capable :: bool
  pin_input_capable :: bool
  pin_balanced_io_pins :: bool
  pin_hdmi :: bool
  pin_vref_control :: u8
  pin_eapd_capable :: bool
  pin_display_port :: bool
  pin_high_bit_rate :: bool

definition pin_capabilities_response_new :: "raw_response \<Rightarrow> pin_capabilities_response" where
  "pin_capabilities_response_new raw =
     \<lparr>pin_impedence_sense_capable = get_bit raw 0,
        pin_trigger_required = get_bit raw 1,
        pin_presence_detect_capable = get_bit raw 2,
        pin_headphone_drive_capable = get_bit raw 3,
        pin_output_capable = get_bit raw 4,
        pin_input_capable = get_bit raw 5,
        pin_balanced_io_pins = get_bit raw 6,
        pin_hdmi = get_bit raw 7,
        pin_vref_control = field8 raw 8 0xFF,
        pin_eapd_capable = get_bit raw 16,
        pin_display_port = get_bit raw 24,
        pin_high_bit_rate = get_bit raw 27\<rparr>"

record amp_capabilities_response =
  amp_offset :: u8
  amp_num_steps :: u8
  amp_step_size :: u8
  amp_mute_capable :: bool

definition amp_capabilities_response_new :: "raw_response \<Rightarrow> amp_capabilities_response" where
  "amp_capabilities_response_new raw =
     \<lparr>amp_offset = field8 raw 0 0b01111111,
        amp_num_steps = field8 raw 8 0b01111111,
        amp_step_size = field8 raw 16 0b01111111,
        amp_mute_capable = get_bit raw 31\<rparr>"

record connection_list_length_response =
  cll_connection_list_length :: u8
  cll_long_form :: bool

definition connection_list_length_response_new :: "raw_response \<Rightarrow> connection_list_length_response" where
  "connection_list_length_response_new raw =
     \<lparr>cll_connection_list_length = field8 raw 0 0b01111111,
        cll_long_form = get_bit raw 7\<rparr>"

record supported_power_states_response =
  sps_d0_sup :: bool
  sps_d1_sup :: bool
  sps_d2_sup :: bool
  sps_d3_sup :: bool
  sps_d3cold_sup :: bool
  sps_s3d3cold_sup :: bool
  sps_clkstop :: bool
  sps_epss :: bool

definition supported_power_states_response_new :: "raw_response \<Rightarrow> supported_power_states_response" where
  "supported_power_states_response_new raw =
     \<lparr>sps_d0_sup = get_bit raw 0,
        sps_d1_sup = get_bit raw 1,
        sps_d2_sup = get_bit raw 2,
        sps_d3_sup = get_bit raw 3,
        sps_d3cold_sup = get_bit raw 4,
        sps_s3d3cold_sup = get_bit raw 29,
        sps_clkstop = get_bit raw 30,
        sps_epss = get_bit raw 31\<rparr>"

record processing_capabilities_response =
  pcap_benign :: bool
  pcap_num_coeff :: u8

definition processing_capabilities_response_new :: "raw_response \<Rightarrow> processing_capabilities_response" where
  "processing_capabilities_response_new raw =
     \<lparr>pcap_benign = get_bit raw 0,
        pcap_num_coeff = field8 raw 8 0xFF\<rparr>"

record gpio_count_response =
  gpio_num_gpios :: u8
  gpio_num_gpos :: u8
  gpio_num_gpis :: u8
  gpio_gpi_unsol :: bool
  gpio_gpi_wake :: bool

definition gpio_count_response_new :: "raw_response \<Rightarrow> gpio_count_response" where
  "gpio_count_response_new raw =
     \<lparr>gpio_num_gpios = field8 raw 0 0xFF,
        gpio_num_gpos = field8 raw 8 0xFF,
        gpio_num_gpis = field8 raw 16 0xFF,
        gpio_gpi_unsol = get_bit raw 30,
        gpio_gpi_wake = get_bit raw 31\<rparr>"

record volume_knob_caps_response =
  vkc_num_steps :: u8
  vkc_delta :: bool

definition volume_knob_caps_response_new :: "raw_response \<Rightarrow> volume_knob_caps_response" where
  "volume_knob_caps_response_new raw =
     \<lparr>vkc_num_steps = field8 raw 0 0b01111111,
        vkc_delta = get_bit raw 7\<rparr>"

record connection_select_response =
  csel_currently_set_connection_index :: u8

definition connection_select_response_new :: "raw_response \<Rightarrow> connection_select_response" where
  "connection_select_response_new raw =
     \<lparr>csel_currently_set_connection_index = field8 raw 0 0xFF\<rparr>"

record connection_list_entry_response =
  cle_first_entry :: u8
  cle_second_entry :: u8
  cle_third_entry :: u8
  cle_fourth_entry :: u8

definition connection_list_entry_response_new :: "raw_response \<Rightarrow> connection_list_entry_response" where
  "connection_list_entry_response_new raw =
     \<lparr>cle_first_entry = field8 raw 0 0xFF,
        cle_second_entry = field8 raw 8 0xFF,
        cle_third_entry = field8 raw 16 0xFF,
        cle_fourth_entry = field8 raw 24 0xFF\<rparr>"

record amplifier_gain_mute_response =
  agm_amplifier_gain :: u8
  agm_amplifier_mute :: bool

definition amplifier_gain_mute_response_new :: "raw_response \<Rightarrow> amplifier_gain_mute_response" where
  "amplifier_gain_mute_response_new raw =
     \<lparr>agm_amplifier_gain = field8 raw 0 0b01111111,
        agm_amplifier_mute = get_bit raw 7\<rparr>"

record stream_format_response =
  sfr_number_of_channels :: u8
  sfr_bits_per_sample :: bits_per_sample
  sfr_sample_base_rate_divisor :: u8
  sfr_sample_base_rate_multiple :: u8
  sfr_sample_base_rate :: u16
  sfr_stream_type :: stream_type

definition bits_per_sample_of :: "u32 \<Rightarrow> bits_per_sample result" where
  "bits_per_sample_of n =
     (if n = 0b000 then Inr Eight
      else if n = 0b001 then Inr Sixteen
      else if n = 0b010 then Inr Twenty
      else if n = 0b011 then Inr Twentyfour
      else if n = 0b100 then Inr Thirtytwo
      else Inl Unsupported_Format)"

definition stream_format_response_new :: "raw_response \<Rightarrow> stream_format_response result" where
  "stream_format_response_new raw =
     (let sample_base_rate_multiple = field8 raw 11 0b111 + 1 in
      and_then (guard Unsupported_Format (\<not> sample_base_rate_multiple > 4)) (\<lambda>_.
      let number_of_channels = field8 raw 0 0xF + 1 in
      and_then (bits_per_sample_of (drop_bit 4 raw AND 0b111)) (\<lambda>bits_per_sample.
      let sample_base_rate_divisor = field8 raw 8 0b111 + 1;
          sample_base_rate = (if get_bit raw 14 then 44100 else 48000);
          stream_type = (if get_bit raw 15 then NonPCM else PCM) in
      Inr \<lparr>sfr_number_of_channels = number_of_channels,
        sfr_bits_per_sample = bits_per_sample,
        sfr_sample_base_rate_divisor = sample_base_rate_divisor,
        sfr_sample_base_rate_multiple = sample_base_rate_multiple,
        sfr_sample_base_rate = sample_base_rate,
        sfr_stream_type = stream_type\<rparr>)))"

record channel_stream_id_response =
  csi_channel :: u8
  csi_stream :: u8

definition channel_stream_id_response_new :: "raw_response \<Rightarrow> channel_stream_id_response" where
  "channel_stream_id_response_new raw =
     \<lparr>csi_channel = field8 raw 0 0xF,
        csi_stream = field8 raw 4 0xF\<rparr>"

record pin_widget_control_response =
  pwc_voltage_reference_enable :: voltage_reference_signal_level
  pwc_in_enable :: bool
  pwc_out_enable :: bool
  pwc_h_phn_enable :: bool

definition voltage_reference_of :: "u32 \<Rightarrow> voltage_reference_signal_level result" where
  "voltage_reference_of n =
     (if n = 0b000 then Inr HiZ
      else if n = 0b001 then Inr FiftyPercent
      else if n = 0b010 then Inr Ground0V
      else if n = 0b100 then Inr EightyPercent
      else if n = 0b101 then Inr HundredPercent
      else Inl Unsupported_Vref)"

definition pin_widget_control_response_new :: "raw_response \<Rightarrow> pin_widget_control_response result" where
  "pin_widget_control_response_new raw =
     and_then (voltage_reference_of (raw AND 0b111)) (\<lambda>vref.
       Inr \<lparr>pwc_voltage_reference_enable = vref,
        pwc_in_enable = get_bit raw 5,
        pwc_out_enable = get_bit raw 6,
        pwc_h_phn_enable = get_bit raw 7\<rparr>)"

record eapd_btl_enable_response =
  eapd_btl_enable :: bool
  eapd_eapd_enable :: bool
  eapd_lr_swap :: bool

definition eapd_btl_enable_response_new :: "raw_response \<Rightarrow> eapd_btl_enable_response" where
  "eapd_btl_enable_response_new raw =
     \<lparr>eapd_btl_enable = get_bit raw 0,
        eapd_eapd_enable = get_bit raw 1,
        eapd_lr_swap = get_bit raw 2\<rparr>"

record converter_channel_count_response =
  ccc_converter_channel_count :: u8

definition converter_channel_count_response_new :: "raw_response \<Rightarrow> converter_channel_count_response" where
  "converter_channel_count_response_new raw =
     \<lparr>ccc_converter_channel_count = field8 raw 0 0xFF\<rparr>"

subsection \<open>Configuration default\<close>

record configuration_default_response =
  cfg_sequence :: u8
  cfg_default_association :: u8
  cfg_jack_detect_override :: bool
  cfg_color :: config_color
  cfg_connection_type :: connection_type
  cfg_default_device :: default_device
  cfg_geometric_location :: geometric_location
  cfg_gross_location :: gross_location
  cfg_port_connectivity :: port_connectivity

definition gross_location_of :: "u32 \<Rightarrow> gross_location" where
  "gross_location_of n =
     (if n = 0b00 then ExternalOnPrimaryChassis
      else if n = 0b01 then Gross_Internal
      else if n = 0b10 then SeparateChassis
      else Gross_Other)"

definition config_color_of :: "u32 \<Rightarrow> config_color" where
  "config_color_of n =
     (if n = 0x0 then Color_Unknown
      else if n = 0x1 then Color_Black
      else if n = 0x2 then Color_Grey
      else if n = 0x3 then Color_Blue
      else if n = 0x4 then Color_Green
      else if n = 0x5 then Color_Red
      else if n = 0x6 then Color_Orange
      else if n = 0x7 then Color_Yellow
      else if n = 0x8 then Color_Purple
      else if n = 0x9 then Color_Pink
      else if n = 0xE then Color_White
      else if n = 0xF then Color_Other
      else Color_Unknown)"

definition connection_type_of :: "u32 \<Rightarrow> connection_type result" where
  "connection_type_of n =
     (if n = 0x0 then Inr Conn_Unknown
      else if n = 0x1 then Inr EighthInchStereoMono
      else if n = 0x2 then Inr QuarterInchStereoMono
      else if n = 0x3 then Inr ATAPIInternal
      else if n = 0x4 then Inr RCA
      else if n = 0x5 then Inr Optical
      else if n = 0x6 then Inr OtherDigital
      else if n = 0x7 then Inr OtherAnalog
      else if n = 0x8 then Inr MultichannelAnalogDIN
      else if n = 0x9 then Inr XLRProfessional
      else if n = 0xA then Inr RJ11Modem
      else if n = 0xB then Inr Combination
      else if n = 0xF then Inr Conn_Other
      else Inl Unsupported_Connection)"

definition default_device_of :: "u32 \<Rightarrow> default_device result" where
  "default_device_of n =
     (if n = 0x0 then Inr LineOut
      else if n = 0x1 then Inr Speaker
      else if n = 0x2 then Inr HPOut
      else if n = 0x3 then Inr CD
      else if n = 0x4 then Inr SPDIFOut
      else if n = 0x5 then Inr DigitalOtherOut
      else if n = 0x6 then Inr ModemLineSide
      else if n = 0x7 then Inr ModemHandsetSide
      else if n = 0x8 then Inr LineIn
      else if n = 0x9 then Inr AUX
      else if n = 0xA then Inr MicIn
      else if n = 0xB then Inr Telephony
      else if n = 0xC then Inr SPDIFIn
      else if n = 0xD then Inr DigitalOtherIn
      else if n = 0xF then Inr Device_Other
      else Inl Unsupported_Device)"

definition geometric_location_of :: "gross_location \<Rightarrow> u32 \<Rightarrow> geometric_location result" where
  "geometric_location_of gross n =
     (if n = 0x0 then Inr NotAvailable
      else if n = 0x1 then Inr Rear
      else if n = 0x2 then Inr Front
      else if n = 0x3 then Inr GL_Left
      else if n = 0x4 then Inr GL_Right
      else if n = 0x5 then Inr GL_Top
      else if n = 0x6 then Inr GL_Bottom
      else if n = 0x7 then
        (case gross of
           ExternalOnPrimaryChassis \<Rightarrow> Inr RearPanel
         | Gross_Internal \<Rightarrow> Inr Riser
         | Gross_Other \<Rightarrow> Inr MobileLidInside
         | _ \<Rightarrow> Inl Unsupported_Location)
      else if n = 0x8 then
        (case gross of
           ExternalOnPrimaryChassis \<Rightarrow> Inr DriveBay
         | Gross_Internal \<Rightarrow> Inr DigitalDisplay
         | Gross_Other \<Rightarrow> Inr MobileLidOutside
         | _ \<Rightarrow> Inl Unsupported_Location)
      else if n = 0x9 then
        (case gross of Gross_Internal \<Rightarrow> Inr ATAPI | _ \<Rightarrow> Inl Unsupported_Location)
      else Inl Unsupported_Location)"

definition port_connectivity_of :: "u32 \<Rightarrow> port_connectivity" where
  "port_connectivity_of n =
     (if n = 0b00 then Jack
      else if n = 0b01 then NoPhysicalConnection
      else if n = 0b10 then InternalDevice
      else JackAndInternalDevice)"

definition configuration_default_response_new ::
  "raw_response \<Rightarrow> configuration_default_response result" where
  "configuration_default_response_new raw =
     (let gross_location = gross_location_of (drop_bit 28 raw AND 0b11) in
      and_then (connection_type_of (drop_bit 16 raw AND 0xF)) (\<lambda>connection_type.
      and_then (default_device_of (drop_bit 20 raw AND 0xF)) (\<lambda>default_device.
      and_then (geometric_location_of gross_location (drop_bit 24 raw AND 0xF)) (\<lambda>geometric_location.
      Inr \<lparr>cfg_sequence = field8 raw 0 0xF,
        cfg_default_association = field8 raw 4 0xF,
        cfg_jack_detect_override = get_bit raw 8,
        cfg_color = config_color_of (drop_bit 12 raw AND 0xF),
        cfg_connection_type = connection_type,
        cfg_default_device = default_device,
        cfg_geometric_location = geometric_location,
        cfg_gross_location = gross_location,
        cfg_port_connectivity = port_connectivity_of (drop_bit 30 raw AND 0b11)\<rparr>))))"

end
