(* ===== verification/Driver_Monad.thy ===== *)
theory Driver_Monad
  imports Prelude
begin

text \<open>
  Routines that act on the state of something outside the kernel or the program: a device on the bus, or the kernel as a user program sees it. A routine
  is a function of that state; it returns \<open>None\<close> if it never ends, a panic, or its result with the new state.
\<close>

type_synonym ('s, 'a) drv = "'s \<Rightarrow> ('a \<times> 's) result option"

definition ret :: "'a \<Rightarrow> ('s, 'a) drv" where
  "ret x = (\<lambda>s. Some (Inr (x, s)))"

definition halt :: "panic \<Rightarrow> ('s, 'a) drv" where
  "halt p = (\<lambda>s. Some (Inl p))"

definition seq :: "('s, 'a) drv \<Rightarrow> ('a \<Rightarrow> ('s, 'b) drv) \<Rightarrow> ('s, 'b) drv" where
  "seq m f = (\<lambda>s. case m s of None \<Rightarrow> None | Some (Inl p) \<Rightarrow> Some (Inl p) | Some (Inr (x, s')) \<Rightarrow> f x s')"

definition lift :: "'a result \<Rightarrow> ('s, 'a) drv" where
  "lift r = (\<lambda>s. Some (and_then r (\<lambda>x. Inr (x, s))))"

fun for_each :: "('a \<Rightarrow> ('s, 'b) drv) \<Rightarrow> 'a list \<Rightarrow> ('s, 'b list) drv" where
  "for_each f [] = ret []"
| "for_each f (x # xs) = seq (f x) (\<lambda>y. seq (for_each f xs) (\<lambda>ys. ret (y # ys)))"

end
