(* ===== verification/Ihda_Registers.thy ===== *)
theory Ihda_Registers
  imports Ihda_Command Driver_Monad
begin

text \<open>
  Registers of the IHDA controller (\<open>os/kernel/src/device/ihda_controller.rs\<close>): \<open>Register\<close> with its bit operations, the polling
  loops, the stream formats and the registers of a stream descriptor.

  The sound card is hardware that shares the bus with the memory, so it is an argument: \<open>hw_read\<close> and \<open>hw_write\<close> say what an access
  of some width at an address returns and how it changes the state of the machine, \<open>hw_time\<close> reads the system timer. A driver routine
  is a value of the type \<open>drv\<close> of \<open>Driver_Monad\<close> over that state.
\<close>

unbundle bit_operations_syntax

section \<open>The bus\<close>

record 's hw =
  hw_read :: "nat \<Rightarrow> nat \<Rightarrow> 's \<Rightarrow> u128 \<times> 's"
  hw_write :: "nat \<Rightarrow> nat \<Rightarrow> u128 \<Rightarrow> 's \<Rightarrow> 's"
  hw_time :: "'s \<Rightarrow> nat \<times> 's"

section \<open>Registers\<close>

text \<open>A read or write through a raw pointer to an integer of \<open>w\<close> bytes.\<close>

definition bus_read :: "'s hw \<Rightarrow> nat \<Rightarrow> nat \<Rightarrow> ('s, u128) drv" where
  "bus_read hw a w = (\<lambda>s. let (v, s') = hw_read hw a w s in Some (Inr (take_bit (8 * w) v, s')))"

definition bus_write :: "'s hw \<Rightarrow> nat \<Rightarrow> nat \<Rightarrow> u128 \<Rightarrow> ('s, unit) drv" where
  "bus_write hw a w v = (\<lambda>s. Some (Inr ((), hw_write hw a w (take_bit (8 * w) v) s)))"

record register =
  reg_addr :: nat
  reg_width :: nat

definition reg_at :: "nat \<Rightarrow> nat \<Rightarrow> register" where
  "reg_at a w = \<lparr>reg_addr = a, reg_width = w\<rparr>"

definition reg_read :: "'s hw \<Rightarrow> register \<Rightarrow> ('s, u32) drv" where
  "reg_read hw r = seq (bus_read hw (reg_addr r) (reg_width r)) (\<lambda>v. ret (ucast v))"

definition reg_write :: "'s hw \<Rightarrow> register \<Rightarrow> u32 \<Rightarrow> ('s, unit) drv" where
  "reg_write hw r v = bus_write hw (reg_addr r) (reg_width r) (ucast v)"

text \<open>The mask \<open>0x1 << index\<close>, converted to the type of the register.\<close>

definition reg_mask :: "register \<Rightarrow> nat \<Rightarrow> u32 result" where
  "reg_mask r index =
     (if index \<ge> 32 then Inl Mul_Overflow else if index \<ge> 8 * reg_width r then Inl Unwrap_None else Inr (push_bit index 1))"

definition reg_set_bit :: "'s hw \<Rightarrow> register \<Rightarrow> nat \<Rightarrow> ('s, unit) drv" where
  "reg_set_bit hw r index = seq (reg_read hw r) (\<lambda>v. seq (lift (reg_mask r index)) (\<lambda>m. reg_write hw r (v OR m)))"

definition reg_clear_bit :: "'s hw \<Rightarrow> register \<Rightarrow> nat \<Rightarrow> ('s, unit) drv" where
  "reg_clear_bit hw r index = seq (reg_read hw r) (\<lambda>v. seq (lift (reg_mask r index)) (\<lambda>m. reg_write hw r (v AND NOT m)))"

definition reg_set_all_bits :: "'s hw \<Rightarrow> register \<Rightarrow> ('s, unit) drv" where
  "reg_set_all_bits hw r = reg_write hw r (NOT 0)"

definition reg_clear_all_bits :: "'s hw \<Rightarrow> register \<Rightarrow> ('s, unit) drv" where
  "reg_clear_all_bits hw r = reg_write hw r 0"

definition reg_is_set :: "'s hw \<Rightarrow> register \<Rightarrow> nat \<Rightarrow> ('s, bool) drv" where
  "reg_is_set hw r index = seq (reg_read hw r) (\<lambda>v. seq (lift (reg_mask r index)) (\<lambda>m. ret (v AND m \<noteq> 0)))"

definition systime :: "'s hw \<Rightarrow> ('s, nat) drv" where
  "systime hw = (\<lambda>s. Some (Inr (hw_time hw s)))"

text \<open>The polling loops: until the bit has the wanted value, or the timer is past the limit.\<close>

partial_function (option) poll :: "'s hw \<Rightarrow> register \<Rightarrow> nat \<Rightarrow> bool \<Rightarrow> nat \<Rightarrow> 's \<Rightarrow> (unit \<times> 's) result option" where
  "poll hw r index wanted limit s =
     (case reg_is_set hw r index s of
        None \<Rightarrow> None
      | Some x \<Rightarrow>
          (case x of
             Inl p \<Rightarrow> Some (Inl p)
           | Inr y \<Rightarrow>
               (if fst y = wanted then Some (Inr ((), snd y))
                else if fst (hw_time hw (snd y)) > limit then Some (Inl Timed_Out)
                else poll hw r index wanted limit (snd (hw_time hw (snd y))))))"

definition BIT_ASSERTION_TIMEOUT_IN_MS :: nat where "BIT_ASSERTION_TIMEOUT_IN_MS = 10000"

definition IMMEDIATE_COMMAND_TIMEOUT_IN_MS :: nat where "IMMEDIATE_COMMAND_TIMEOUT_IN_MS = 100"

definition await :: "'s hw \<Rightarrow> register \<Rightarrow> nat \<Rightarrow> bool \<Rightarrow> nat \<Rightarrow> ('s, unit) drv" where
  "await hw r index wanted timeout = seq (systime hw) (\<lambda>start_timer. poll hw r index wanted (start_timer + timeout))"

text \<open>\<open>Timer::wait\<close>: polls the timer until the time has passed.\<close>

partial_function (option) wait_for :: "'s hw \<Rightarrow> nat \<Rightarrow> 's \<Rightarrow> (unit \<times> 's) result option" where
  "wait_for hw end_time s =
     (if fst (hw_time hw s) < end_time then wait_for hw end_time (snd (hw_time hw s)) else Some (Inr ((), snd (hw_time hw s))))"

definition delay :: "'s hw \<Rightarrow> nat \<Rightarrow> ('s, unit) drv" where
  "delay hw ms = seq (systime hw) (\<lambda>start. wait_for hw (start + ms))"

section \<open>Stream formats\<close>

record stream_format =
  sf_number_of_channels :: u8
  sf_bits_per_sample :: bits_per_sample
  sf_sample_base_rate_divisor :: u8
  sf_sample_base_rate_multiple :: u8
  sf_sample_base_rate :: u16
  sf_stream_type :: stream_type

definition stream_format_new :: "u8 \<Rightarrow> bits_per_sample \<Rightarrow> u8 \<Rightarrow> u8 \<Rightarrow> u16 \<Rightarrow> stream_type \<Rightarrow> stream_format" where
  "stream_format_new channels bits divisor multiple rate ty =
     \<lparr>sf_number_of_channels = channels, sf_bits_per_sample = bits, sf_sample_base_rate_divisor = divisor,
      sf_sample_base_rate_multiple = multiple, sf_sample_base_rate = rate, sf_stream_type = ty\<rparr>"

definition stream_format_from_u16 :: "u16 \<Rightarrow> stream_format result" where
  "stream_format_from_u16 raw_value =
     (let sample_base_rate_multiple = (ucast (drop_bit 11 raw_value AND 0b111) :: u8) + 1 in
      if sample_base_rate_multiple > 4 then Inl Unsupported_Format
      else
        let number_of_channels = (ucast (raw_value AND 0xF) :: u8) + 1;
            bits = drop_bit 4 raw_value AND 0b111
        in
        and_then
          (if bits = 0b000 then Inr Eight
           else if bits = 0b001 then Inr Sixteen
           else if bits = 0b010 then Inr Twenty
           else if bits = 0b011 then Inr Twentyfour
           else if bits = 0b100 then Inr Thirtytwo
           else Inl Unsupported_Format) (\<lambda>bits_per_sample.
          let sample_base_rate_divisor = (ucast (drop_bit 8 raw_value AND 0b111) :: u8) + 1;
              sample_base_rate = (if drop_bit 14 raw_value OR 1 \<noteq> 0 then 44100 else 48000);
              stream_type = (if drop_bit 15 raw_value OR 1 \<noteq> 0 then NonPCM else PCM)
          in
          Inr \<lparr>sf_number_of_channels = number_of_channels, sf_bits_per_sample = bits_per_sample,
               sf_sample_base_rate_divisor = sample_base_rate_divisor, sf_sample_base_rate_multiple = sample_base_rate_multiple,
               sf_sample_base_rate = sample_base_rate, sf_stream_type = stream_type\<rparr>))"

definition stream_format_as_u16 :: "stream_format \<Rightarrow> u16 result" where
  "stream_format_as_u16 f =
     and_then (u8_pred (sf_number_of_channels f)) (\<lambda>number_of_channels.
     and_then (u8_pred (sf_sample_base_rate_divisor f)) (\<lambda>sample_base_rate_divisor.
     and_then (u8_pred (sf_sample_base_rate_multiple f)) (\<lambda>sample_base_rate_multiple.
     let sample_base_rate = (if sf_sample_base_rate f = 44100 then 1 else 0) in
     Inr (push_bit 15 (stream_type_code (sf_stream_type f))
       OR push_bit 14 sample_base_rate
       OR push_bit 11 (ucast sample_base_rate_multiple)
       OR push_bit 8 (ucast sample_base_rate_divisor)
       OR push_bit 4 (bits_per_sample_code (sf_bits_per_sample f))
       OR ucast number_of_channels))))"

definition stream_format_from_response :: "stream_format_response \<Rightarrow> stream_format" where
  "stream_format_from_response r =
     \<lparr>sf_number_of_channels = sfr_number_of_channels r,
      sf_bits_per_sample = (case sfr_bits_per_sample r of
         Eight \<Rightarrow> Eight | Sixteen \<Rightarrow> Sixteen | Twenty \<Rightarrow> Twenty | Twentyfour \<Rightarrow> Twentyfour | Thirtytwo \<Rightarrow> Thirtytwo),
      sf_sample_base_rate_divisor = sfr_sample_base_rate_divisor r,
      sf_sample_base_rate_multiple = sfr_sample_base_rate_multiple r,
      sf_sample_base_rate = sfr_sample_base_rate r,
      sf_stream_type = (case sfr_stream_type r of PCM \<Rightarrow> PCM | NonPCM \<Rightarrow> NonPCM)\<rparr>"

definition mono_48khz_16bit :: stream_format where
  "mono_48khz_16bit = stream_format_new 1 Sixteen 1 1 48000 PCM"

definition stereo_48khz_16bit :: stream_format where
  "stereo_48khz_16bit = stream_format_new 2 Sixteen 1 1 48000 PCM"

section \<open>Stream descriptors\<close>

record sd_registers =
  sdctl :: register
  sdsts :: register
  sdlpib :: register
  sdcbl :: register
  sdlvi :: register
  sdfifow :: register
  sdfifod :: register
  sdfmt :: register
  sdbdpl :: register
  sdbdpu :: register

definition sd_registers_new :: "nat \<Rightarrow> sd_registers" where
  "sd_registers_new sd_base_address =
     \<lparr>sdctl = reg_at sd_base_address 4,
      sdsts = reg_at (sd_base_address + 0x3) 1,
      sdlpib = reg_at (sd_base_address + 0x4) 4,
      sdcbl = reg_at (sd_base_address + 0x8) 4,
      sdlvi = reg_at (sd_base_address + 0xC) 2,
      sdfifow = reg_at (sd_base_address + 0xE) 2,
      sdfifod = reg_at (sd_base_address + 0x10) 2,
      sdfmt = reg_at (sd_base_address + 0x12) 2,
      sdbdpl = reg_at (sd_base_address + 0x18) 4,
      sdbdpu = reg_at (sd_base_address + 0x1C) 4\<rparr>"

definition stream_run_bit :: "'s hw \<Rightarrow> sd_registers \<Rightarrow> ('s, bool) drv" where
  "stream_run_bit hw sd = reg_is_set hw (sdctl sd) 1"

definition set_stream_run_bit :: "'s hw \<Rightarrow> sd_registers \<Rightarrow> ('s, unit) drv" where
  "set_stream_run_bit hw sd = reg_set_bit hw (sdctl sd) 1"

definition clear_stream_run_bit :: "'s hw \<Rightarrow> sd_registers \<Rightarrow> ('s, unit) drv" where
  "clear_stream_run_bit hw sd = reg_clear_bit hw (sdctl sd) 1"

definition reset_stream :: "'s hw \<Rightarrow> sd_registers \<Rightarrow> ('s, unit) drv" where
  "reset_stream hw sd =
     seq (clear_stream_run_bit hw sd) (\<lambda>_.
     seq (reg_set_bit hw (sdctl sd) 0) (\<lambda>_.
     seq (await hw (sdctl sd) 0 True BIT_ASSERTION_TIMEOUT_IN_MS) (\<lambda>_.
     seq (reg_clear_bit hw (sdctl sd) 0) (\<lambda>_.
       await hw (sdctl sd) 0 False BIT_ASSERTION_TIMEOUT_IN_MS))))"

definition interrupt_on_completion_bit :: "'s hw \<Rightarrow> sd_registers \<Rightarrow> ('s, bool) drv" where
  "interrupt_on_completion_bit hw sd = reg_is_set hw (sdctl sd) 2"

definition set_interrupt_on_completion_enable_bit :: "'s hw \<Rightarrow> sd_registers \<Rightarrow> ('s, unit) drv" where
  "set_interrupt_on_completion_enable_bit hw sd = reg_set_bit hw (sdctl sd) 2"

definition clear_interrupt_on_completion_bit :: "'s hw \<Rightarrow> sd_registers \<Rightarrow> ('s, unit) drv" where
  "clear_interrupt_on_completion_bit hw sd = reg_clear_bit hw (sdctl sd) 2"

definition fifo_error_interrupt_enable_bit :: "'s hw \<Rightarrow> sd_registers \<Rightarrow> ('s, bool) drv" where
  "fifo_error_interrupt_enable_bit hw sd = reg_is_set hw (sdctl sd) 3"

definition set_fifo_error_interrupt_enable_bit :: "'s hw \<Rightarrow> sd_registers \<Rightarrow> ('s, unit) drv" where
  "set_fifo_error_interrupt_enable_bit hw sd = reg_set_bit hw (sdctl sd) 3"

definition clear_fifo_error_interrupt_enable_bit :: "'s hw \<Rightarrow> sd_registers \<Rightarrow> ('s, unit) drv" where
  "clear_fifo_error_interrupt_enable_bit hw sd = reg_clear_bit hw (sdctl sd) 3"

definition descriptor_error_interrupt_enable_bit :: "'s hw \<Rightarrow> sd_registers \<Rightarrow> ('s, bool) drv" where
  "descriptor_error_interrupt_enable_bit hw sd = reg_is_set hw (sdctl sd) 4"

definition set_descriptor_error_interrupt_enable_bit :: "'s hw \<Rightarrow> sd_registers \<Rightarrow> ('s, unit) drv" where
  "set_descriptor_error_interrupt_enable_bit hw sd = reg_set_bit hw (sdctl sd) 4"

definition clear_descriptor_error_interrupt_enable_bit :: "'s hw \<Rightarrow> sd_registers \<Rightarrow> ('s, unit) drv" where
  "clear_descriptor_error_interrupt_enable_bit hw sd = reg_clear_bit hw (sdctl sd) 4"

definition traffic_priority_enable_bit :: "'s hw \<Rightarrow> sd_registers \<Rightarrow> ('s, bool) drv" where
  "traffic_priority_enable_bit hw sd = reg_is_set hw (sdctl sd) 18"

definition set_traffic_priority_enable_bit :: "'s hw \<Rightarrow> sd_registers \<Rightarrow> ('s, unit) drv" where
  "set_traffic_priority_enable_bit hw sd = reg_set_bit hw (sdctl sd) 18"

definition clear_traffic_priority_enable_bit :: "'s hw \<Rightarrow> sd_registers \<Rightarrow> ('s, unit) drv" where
  "clear_traffic_priority_enable_bit hw sd = reg_clear_bit hw (sdctl sd) 18"

definition stream_id :: "'s hw \<Rightarrow> sd_registers \<Rightarrow> ('s, u8) drv" where
  "stream_id hw sd = seq (reg_read hw (sdctl sd)) (\<lambda>v.
     let n = drop_bit 20 v AND 0xF in if n = 0 then halt Bad_Register_Value else ret (ucast n))"

definition set_stream_id :: "'s hw \<Rightarrow> sd_registers \<Rightarrow> u8 \<Rightarrow> ('s, unit) drv" where
  "set_stream_id hw sd i = seq (reg_read hw (sdctl sd)) (\<lambda>v.
     reg_write hw (sdctl sd) ((v AND 0xFF0FFFFF) OR push_bit 20 (ucast i)))"

definition buffer_completion_interrupt_status_bit :: "'s hw \<Rightarrow> sd_registers \<Rightarrow> ('s, bool) drv" where
  "buffer_completion_interrupt_status_bit hw sd = reg_is_set hw (sdsts sd) 2"

definition clear_buffer_completion_interrupt_status_bit :: "'s hw \<Rightarrow> sd_registers \<Rightarrow> ('s, unit) drv" where
  "clear_buffer_completion_interrupt_status_bit hw sd = reg_set_bit hw (sdsts sd) 2"

definition fifo_error_bit :: "'s hw \<Rightarrow> sd_registers \<Rightarrow> ('s, bool) drv" where
  "fifo_error_bit hw sd = reg_is_set hw (sdsts sd) 3"

definition clear_fifo_error_bit :: "'s hw \<Rightarrow> sd_registers \<Rightarrow> ('s, unit) drv" where
  "clear_fifo_error_bit hw sd = reg_set_bit hw (sdsts sd) 3"

definition descriptor_error_bit :: "'s hw \<Rightarrow> sd_registers \<Rightarrow> ('s, bool) drv" where
  "descriptor_error_bit hw sd = reg_is_set hw (sdsts sd) 4"

definition clear_descriptor_error_bit :: "'s hw \<Rightarrow> sd_registers \<Rightarrow> ('s, unit) drv" where
  "clear_descriptor_error_bit hw sd = reg_set_bit hw (sdsts sd) 4"

definition fifo_ready :: "'s hw \<Rightarrow> sd_registers \<Rightarrow> ('s, unit) drv" where
  "fifo_ready hw sd = seq (reg_is_set hw (sdsts sd) 5) (\<lambda>_. ret ())"

definition link_position_in_buffer :: "'s hw \<Rightarrow> sd_registers \<Rightarrow> ('s, u32) drv" where
  "link_position_in_buffer hw sd = reg_read hw (sdlpib sd)"

definition cyclic_buffer_lenght :: "'s hw \<Rightarrow> sd_registers \<Rightarrow> ('s, u32) drv" where
  "cyclic_buffer_lenght hw sd = reg_read hw (sdcbl sd)"

definition set_cyclic_buffer_lenght :: "'s hw \<Rightarrow> sd_registers \<Rightarrow> u32 \<Rightarrow> ('s, unit) drv" where
  "set_cyclic_buffer_lenght hw sd len = seq (stream_run_bit hw sd) (\<lambda>running.
     if running then halt Stream_Running else reg_write hw (sdcbl sd) len)"

definition last_valid_index :: "'s hw \<Rightarrow> sd_registers \<Rightarrow> ('s, u8) drv" where
  "last_valid_index hw sd = seq (reg_read hw (sdlvi sd)) (\<lambda>v. ret (ucast (v AND 0xFF)))"

definition set_last_valid_index :: "'s hw \<Rightarrow> sd_registers \<Rightarrow> u8 \<Rightarrow> ('s, unit) drv" where
  "set_last_valid_index hw sd n = seq (stream_run_bit hw sd) (\<lambda>running.
     if running then halt Stream_Running else reg_write hw (sdlvi sd) (ucast n))"

datatype fifo_watermark = Bit32 | Bit64

definition fifo_watermark :: "'s hw \<Rightarrow> sd_registers \<Rightarrow> ('s, fifo_watermark) drv" where
  "fifo_watermark hw sd = seq (reg_read hw (sdfifow sd)) (\<lambda>v.
     let n = (ucast (v AND 0b111) :: u8) in
     if n = 0b100 then ret Bit32 else if n = 0b101 then ret Bit64 else halt Bad_Register_Value)"

definition set_fifo_watermark :: "'s hw \<Rightarrow> sd_registers \<Rightarrow> fifo_watermark \<Rightarrow> ('s, unit) drv" where
  "set_fifo_watermark hw sd w = reg_write hw (sdfifow sd) (case w of Bit32 \<Rightarrow> 0b100 | Bit64 \<Rightarrow> 0b101)"

definition fifo_size :: "'s hw \<Rightarrow> sd_registers \<Rightarrow> ('s, u16) drv" where
  "fifo_size hw sd = seq (reg_read hw (sdfifod sd)) (\<lambda>v. ret (ucast v))"

definition sd_stream_format :: "'s hw \<Rightarrow> sd_registers \<Rightarrow> ('s, stream_format) drv" where
  "sd_stream_format hw sd = seq (reg_read hw (sdfmt sd)) (\<lambda>v. lift (stream_format_from_u16 (ucast v)))"

definition set_stream_format :: "'s hw \<Rightarrow> sd_registers \<Rightarrow> stream_format \<Rightarrow> ('s, unit) drv" where
  "set_stream_format hw sd f = seq (lift (stream_format_as_u16 f)) (\<lambda>v. reg_write hw (sdfmt sd) (ucast v))"

definition set_bdl_pointer_address :: "'s hw \<Rightarrow> sd_registers \<Rightarrow> u64 \<Rightarrow> ('s, unit) drv" where
  "set_bdl_pointer_address hw sd address = seq (stream_run_bit hw sd) (\<lambda>running.
     if running then halt Stream_Running
     else seq (reg_write hw (sdbdpl sd) (ucast (address AND 0xFFFFFFFF))) (\<lambda>_.
            reg_write hw (sdbdpu sd) (ucast (drop_bit 32 (address AND 0xFFFFFFFF00000000)))))"

definition bdl_pointer_address :: "'s hw \<Rightarrow> sd_registers \<Rightarrow> ('s, u64) drv" where
  "bdl_pointer_address hw sd = seq (reg_read hw (sdbdpu sd)) (\<lambda>u. seq (reg_read hw (sdbdpl sd)) (\<lambda>l.
     ret (push_bit 32 (ucast u) OR ucast l)))"

end
