(* ===== verification/Ihda_Topology.thy ===== *)
theory Ihda_Topology
  imports Ihda_Command
begin

text \<open>
  Codecs, function groups and widgets of the Intel HD Audio driver
  (\<open>os/kernel/src/device/ihda_codec.rs\<close>) and the search for the widgets on a playback path: the first
  line-out pin connected to a jack, followed along the first entry of each connection list.

  Shown here: the path is a chain of predecessors that ends at a widget without one, the search
  ends whenever the connection lists lead towards smaller ranks, it never ends on a widget that is
  its own first connection, and the channel count of a decoded widget is between 1 and 16.
\<close>

section \<open>Data\<close>

datatype widget_info_container =
    AudioOutputConverter sample_size_rate_caps_response supported_stream_formats_response
      amp_capabilities_response supported_power_states_response processing_capabilities_response
  | AudioInputConverter sample_size_rate_caps_response supported_stream_formats_response
      amp_capabilities_response connection_list_length_response supported_power_states_response
      processing_capabilities_response
  | PinComplex pin_capabilities_response amp_capabilities_response amp_capabilities_response
      connection_list_length_response supported_power_states_response processing_capabilities_response
      configuration_default_response connection_list_entry_response
  | Mixer amp_capabilities_response amp_capabilities_response connection_list_length_response
      supported_power_states_response processing_capabilities_response connection_list_entry_response
  | Selector
  | Power
  | VolumeKnob
  | BeepGenerator
  | VendorDefined

record widget =
  wid_address :: node_address
  wid_audio_widget_capabilities :: audio_widget_caps_response
  wid_widget_info :: widget_info_container

record function_group =
  fg_node_address :: node_address
  fg_type :: function_group_type_response
  fg_audio_function_group_caps :: audio_function_group_caps_response
  fg_sample_size_rate_caps :: sample_size_rate_caps_response
  fg_supported_stream_formats :: supported_stream_formats_response
  fg_input_amp_caps :: amp_capabilities_response
  fg_output_amp_caps :: amp_capabilities_response
  fg_supported_power_states :: supported_power_states_response
  fg_gpio_count :: gpio_count_response
  fg_widgets :: "widget list"

record codec =
  cod_address :: codec_address
  cod_vendor_id :: vendor_id_response
  cod_revision_id :: revision_id_response
  cod_function_groups :: "function_group list"

section \<open>Operations\<close>

definition max_number_of_channels :: "widget \<Rightarrow> u8 result" where
  "max_number_of_channels w =
     (let caps = wid_audio_widget_capabilities w in
      and_then (u8_add (push_bit 1 (awc_chan_count_ext caps)) (of_bool (awc_chan_count_lsb caps)))
        (\<lambda>n. u8_add n 1))"

fun line_out_pins :: "widget list \<Rightarrow> widget list result" where
  "line_out_pins [] = Inr []"
| "line_out_pins (w # ws) =
     (case awc_widget_type (wid_audio_widget_capabilities w) of
        WT_PinComplex \<Rightarrow>
          (case wid_widget_info w of
             PinComplex _ _ _ _ _ _ config_default _ \<Rightarrow>
               and_then (line_out_pins ws) (\<lambda>rest.
                 if cfg_port_connectivity config_default \<in> {Jack, JackAndInternalDevice} \<and>
                    cfg_default_device config_default = LineOut
                 then Inr (w # rest) else Inr rest)
           | _ \<Rightarrow> Inl Assert_Failed)
      | _ \<Rightarrow> line_out_pins ws)"

definition find_line_out_pin_widgets_connected_to_jack :: "function_group \<Rightarrow> widget list result" where
  "find_line_out_pin_widgets_connected_to_jack fg = line_out_pins (fg_widgets fg)"

fun connection_list_entries :: "widget_info_container \<Rightarrow> connection_list_entry_response option" where
  "connection_list_entries (PinComplex _ _ _ _ _ _ _ entries) = Some entries"
| "connection_list_entries (Mixer _ _ _ _ _ entries) = Some entries"
| "connection_list_entries _ = None"

definition get_predecessor :: "function_group \<Rightarrow> widget \<Rightarrow> widget option" where
  "get_predecessor fg w =
     (case connection_list_entries (wid_widget_info w) of
        None \<Rightarrow> None
      | Some entries \<Rightarrow> find (\<lambda>v. na_node_id (wid_address v) = cle_first_entry entries) (fg_widgets fg))"

text \<open>The \<open>while widget.is_some()\<close> loop; \<open>None\<close> means that it does not end.\<close>

partial_function (option) path_loop :: "function_group \<Rightarrow> widget \<Rightarrow> widget list option" where
  "path_loop fg w =
     (case get_predecessor fg w of
        None \<Rightarrow> Some [w]
      | Some v \<Rightarrow> Option.bind (path_loop fg v) (\<lambda>path. Some (w # path)))"

definition find_widget_path_for_line_out_playback :: "function_group \<Rightarrow> widget list result option" where
  "find_widget_path_for_line_out_playback fg =
     (case find_line_out_pin_widgets_connected_to_jack fg of
        Inl p \<Rightarrow> Some (Inl p)
      | Inr [] \<Rightarrow> Some (Inl Unwrap_None)
      | Inr (pin # _) \<Rightarrow> map_option Inr (path_loop fg pin))"

text \<open>A chain of predecessors that ends at a widget without a predecessor.\<close>

fun predecessor_chain :: "function_group \<Rightarrow> widget list \<Rightarrow> bool" where
  "predecessor_chain fg [] = False"
| "predecessor_chain fg [w] = (get_predecessor fg w = None)"
| "predecessor_chain fg (w # v # path) =
     (get_predecessor fg w = Some v \<and> predecessor_chain fg (v # path))"

definition ranked :: "function_group \<Rightarrow> (u8 \<Rightarrow> nat) \<Rightarrow> bool" where
  "ranked fg rank \<longleftrightarrow> list_all (\<lambda>w. case get_predecessor fg w of
       None \<Rightarrow> True
     | Some v \<Rightarrow> rank (na_node_id (wid_address v)) < rank (na_node_id (wid_address w))) (fg_widgets fg)"

text \<open>
  A small function group used as the concrete input of the examples below: a line-out pin (node 27)
  whose first connection is \<open>target\<close>, and an output converter (node 2).
\<close>

definition example_caps :: "widget_type \<Rightarrow> audio_widget_caps_response" where
  "example_caps ty = \<lparr>awc_chan_count_lsb = True, awc_in_amp_present = False, awc_out_amp_present = True,
     awc_amp_param_override = False, awc_format_override = False, awc_stripe = False, awc_proc_widget = False,
     awc_unsol_capable = False, awc_conn_list = True, awc_digital = False, awc_power_cntrl = False,
     awc_lr_swap = False, awc_cp_caps = False, awc_chan_count_ext = 0, awc_delay = 0, awc_widget_type = ty\<rparr>"

definition example_config :: configuration_default_response where
  "example_config = \<lparr>cfg_sequence = 0, cfg_default_association = 1, cfg_jack_detect_override = False,
     cfg_color = Color_Green, cfg_connection_type = EighthInchStereoMono, cfg_default_device = LineOut,
     cfg_geometric_location = Rear, cfg_gross_location = ExternalOnPrimaryChassis, cfg_port_connectivity = Jack\<rparr>"

definition example_node :: "u8 \<Rightarrow> node_address" where
  "example_node n = \<lparr>na_codec_address = \<lparr>codec_addr = 0\<rparr>, na_node_id = n\<rparr>"

definition example_pin :: "u8 \<Rightarrow> widget" where
  "example_pin target = \<lparr>wid_address = example_node 27, wid_audio_widget_capabilities = example_caps WT_PinComplex,
     wid_widget_info = PinComplex (pin_capabilities_response_new 0) (amp_capabilities_response_new 0)
       (amp_capabilities_response_new 0) (connection_list_length_response_new 1)
       (supported_power_states_response_new 0) (processing_capabilities_response_new 0) example_config
       \<lparr>cle_first_entry = target, cle_second_entry = 0, cle_third_entry = 0, cle_fourth_entry = 0\<rparr>\<rparr>"

definition example_converter :: widget where
  "example_converter = \<lparr>wid_address = example_node 2, wid_audio_widget_capabilities = example_caps WT_AudioOutput,
     wid_widget_info = AudioOutputConverter (sample_size_rate_caps_response_new 0)
       (supported_stream_formats_response_new 1) (amp_capabilities_response_new 0)
       (supported_power_states_response_new 0) (processing_capabilities_response_new 0)\<rparr>"

definition example_group :: "u8 \<Rightarrow> function_group" where
  "example_group target = \<lparr>fg_node_address = example_node 1,
     fg_type = \<lparr>fgt_node_type = AudioFunctionGroup, fgt_unsolicited_response_capable = False\<rparr>,
     fg_audio_function_group_caps = audio_function_group_caps_response_new 0,
     fg_sample_size_rate_caps = sample_size_rate_caps_response_new 0,
     fg_supported_stream_formats = supported_stream_formats_response_new 1,
     fg_input_amp_caps = amp_capabilities_response_new 0, fg_output_amp_caps = amp_capabilities_response_new 0,
     fg_supported_power_states = supported_power_states_response_new 0, fg_gpio_count = gpio_count_response_new 0,
     fg_widgets = [example_converter, example_pin target]\<rparr>"

section \<open>Lemmas\<close>

lemma get_predecessor_in: "get_predecessor fg w = Some v \<Longrightarrow> v \<in> set (fg_widgets fg)"
  by (auto simp: get_predecessor_def find_Some_iff split: option.splits)

lemma line_out_pins_subset: "line_out_pins ws = Inr ps \<Longrightarrow> set ps \<subseteq> set ws"
  by (induction ws arbitrary: ps)
     (fastforce simp: result_simps split: widget_type.splits widget_info_container.splits if_splits)+

lemma path_loop_chain: "path_loop fg w = Some p \<Longrightarrow> predecessor_chain fg p \<and> (\<exists>q. p = w # q)"
proof (rule path_loop.raw_induct[where P = "\<lambda>fg w p. predecessor_chain fg p \<and> (\<exists>q. p = w # q)"])
  fix f :: "function_group \<Rightarrow> widget \<Rightarrow> widget list option" and fg w p
  assume IH: "\<And>fg w p. f fg w = Some p \<Longrightarrow> predecessor_chain fg p \<and> (\<exists>q. p = w # q)"
    and step: "(case get_predecessor fg w of None \<Rightarrow> Some [w]
       | Some v \<Rightarrow> Option.bind (f fg v) (\<lambda>path. Some (w # path))) = Some p"
  show "predecessor_chain fg p \<and> (\<exists>q. p = w # q)"
  proof (cases "get_predecessor fg w")
    case None
    with step show ?thesis by auto
  next
    case (Some v)
    with step obtain q where "f fg v = Some q" "p = w # q" by (auto simp: bind_eq_Some_conv)
    with IH[of fg v q] Some show ?thesis by (auto simp: neq_Nil_conv)
  qed
qed

lemma chain_widgets: "predecessor_chain fg (w # p) \<Longrightarrow> set p \<subseteq> set (fg_widgets fg)"
  by (induction p arbitrary: w) (auto dest: get_predecessor_in)

lemma path_loop_terminates:
  assumes "ranked fg rank" "w \<in> set (fg_widgets fg)"
  shows "\<exists>p. path_loop fg w = Some p"
  using assms(2)
proof (induction "rank (na_node_id (wid_address w))" arbitrary: w rule: less_induct)
  case less
  show ?case
  proof (cases "get_predecessor fg w")
    case None
    then show ?thesis by (simp add: path_loop.simps)
  next
    case (Some v)
    with assms(1) less.prems have "rank (na_node_id (wid_address v)) < rank (na_node_id (wid_address w))"
      by (fastforce simp: ranked_def list_all_iff)
    with less.hyps get_predecessor_in[OF Some] obtain p where "path_loop fg v = Some p" by blast
    with Some show ?thesis by (subst path_loop.simps) simp
  qed
qed

lemma path_loop_cycle: "get_predecessor fg w = Some w \<Longrightarrow> path_loop fg w = None"
proof (rule ccontr)
  assume self: "get_predecessor fg w = Some w" and "path_loop fg w \<noteq> None"
  then obtain p where p: "path_loop fg w = Some p" by blast
  have "path_loop fg w = Some (w # p)" by (subst path_loop.simps) (simp add: self p)
  with p show False by simp
qed

lemma u8_add_ok: "unat a + unat b < 256 \<Longrightarrow> u8_add a b = Inr (a + b)"
  by (simp add: u8_add_def)

lemmas example_defs = example_group_def example_pin_def example_converter_def example_caps_def
  example_config_def example_node_def find_line_out_pin_widgets_connected_to_jack_def get_predecessor_def

lemma example_pins:
  "find_line_out_pin_widgets_connected_to_jack (example_group t) = Inr [example_pin t]"
  by (simp add: example_defs)

lemma example_predecessor:
  "get_predecessor (example_group 2) (example_pin 2) = Some example_converter"
  "get_predecessor (example_group 27) (example_pin 27) = Some (example_pin 27)"
  "get_predecessor (example_group t) example_converter = None"
  by (simp_all add: example_defs)

lemma example_path:
  "find_widget_path_for_line_out_playback (example_group 2) = Some (Inr [example_pin 2, example_converter])"
  by (simp add: find_widget_path_for_line_out_playback_def example_pins path_loop.simps example_predecessor)

section \<open>Properties\<close>

text \<open>
  a playback path that is found starts at the first line-out pin with a jack, follows the first
  connection list entry from widget to widget, ends at a widget that has no predecessor, and
  consists of widgets of the function group.
\<close>

theorem playback_path_is_predecessor_chain:
  assumes "find_widget_path_for_line_out_playback fg = Some (Inr path)"
  shows "\<exists>pin pins rest. find_line_out_pin_widgets_connected_to_jack fg = Inr (pin # pins) \<and>
    path = pin # rest \<and> predecessor_chain fg path \<and> set path \<subseteq> set (fg_widgets fg)"
proof -
  from assms obtain pin pins where pins: "find_line_out_pin_widgets_connected_to_jack fg = Inr (pin # pins)"
    and path: "path_loop fg pin = Some path"
    by (auto simp: find_widget_path_for_line_out_playback_def split: sum.splits list.splits)
  from path_loop_chain[OF path] obtain rest where rest: "path = pin # rest" "predecessor_chain fg path" by blast
  moreover have "pin \<in> set (fg_widgets fg)"
    using line_out_pins_subset pins by (fastforce simp: find_line_out_pin_widgets_connected_to_jack_def)
  moreover have "set rest \<subseteq> set (fg_widgets fg)" using rest chain_widgets by blast
  ultimately show ?thesis using pins by auto
qed

theorem playback_path_is_predecessor_chain_witness:
  "predecessor_chain (example_group 2) [example_pin 2, example_converter]"
  using playback_path_is_predecessor_chain[OF example_path] by auto

text \<open>
  the path search ends (with a path or with a panic) whenever the first connection of every widget
  leads to a widget of smaller rank, that is, when the connection graph has no cycle.
\<close>

theorem playback_path_search_terminates:
  assumes "ranked fg rank"
  shows "\<exists>r. find_widget_path_for_line_out_playback fg = Some r"
proof (cases "find_line_out_pin_widgets_connected_to_jack fg")
  case (Inl p)
  then show ?thesis by (simp add: find_widget_path_for_line_out_playback_def)
next
  case (Inr pins)
  show ?thesis
  proof (cases pins)
    case Nil
    with Inr show ?thesis by (simp add: find_widget_path_for_line_out_playback_def)
  next
    case (Cons pin rest)
    then have "pin \<in> set (fg_widgets fg)"
      using Inr line_out_pins_subset by (fastforce simp: find_line_out_pin_widgets_connected_to_jack_def)
    from path_loop_terminates[OF assms this] Inr Cons show ?thesis
      by (auto simp: find_widget_path_for_line_out_playback_def)
  qed
qed

theorem playback_path_search_terminates_witness:
  "\<exists>r. find_widget_path_for_line_out_playback (example_group 2) = Some r"
proof (rule playback_path_search_terminates[where rank = unat])
  show "ranked (example_group 2) unat"
    by (simp add: ranked_def example_defs)
qed

text \<open>
  there is no check for cycles: if the first line-out pin names itself as its first connection, the
  path search never returns.
\<close>

theorem playback_path_search_diverges:
  assumes "find_line_out_pin_widgets_connected_to_jack fg = Inr (pin # pins)"
    and "get_predecessor fg pin = Some pin"
  shows "find_widget_path_for_line_out_playback fg = None"
  using assms path_loop_cycle[OF assms(2)] by (simp add: find_widget_path_for_line_out_playback_def)

theorem playback_path_search_diverges_witness:
  "find_widget_path_for_line_out_playback (example_group 27) = None"
  by (rule playback_path_search_diverges[OF example_pins example_predecessor(2)])

text \<open>
  for every widget whose capabilities were decoded from a raw response, the channel count is
  computed without overflow and lies between 1 and 16.
\<close>

theorem channel_count_bounds:
  assumes "audio_widget_caps_response_new raw = Inr (wid_audio_widget_capabilities w)"
  shows "\<exists>n. max_number_of_channels w = Inr n \<and> 1 \<le> unat n \<and> unat n \<le> 16 \<and>
    unat n = 2 * unat (awc_chan_count_ext (wid_audio_widget_capabilities w)) +
      of_bool (awc_chan_count_lsb (wid_audio_widget_capabilities w)) + 1"
proof -
  let ?c = "wid_audio_widget_capabilities w"
  have "awc_chan_count_ext ?c = field8 raw 13 7"
    using assms by (auto simp: audio_widget_caps_response_new_def result_simps
        dest!: sym[where t = "wid_audio_widget_capabilities w"])
  moreover have "unat (field8 raw 13 7) \<le> 7"
    using take_bit_nat_less_exp[of 3 "unat (drop_bit 13 raw)"]
    by (simp add: field8_def mask_simps unsigned_ucast_eq unsigned_take_bit_eq)
  ultimately have e: "unat (awc_chan_count_ext ?c) \<le> 7" by simp
  have p: "unat (push_bit 1 (awc_chan_count_ext ?c)) = 2 * unat (awc_chan_count_ext ?c)"
    using e by (simp add: push_bit_eq_mult unat_word_ariths)
  let ?b = "of_bool (awc_chan_count_lsb ?c) :: u8"
  have b: "unat ?b = of_bool (awc_chan_count_lsb ?c)" by (cases "awc_chan_count_lsb ?c") auto
  have s: "unat (push_bit 1 (awc_chan_count_ext ?c) + ?b) = 2 * unat (awc_chan_count_ext ?c) + of_bool (awc_chan_count_lsb ?c)"
    using e p b by (simp add: unat_word_ariths)
  have "unat (push_bit 1 (awc_chan_count_ext ?c) + ?b + 1) = 2 * unat (awc_chan_count_ext ?c) + of_bool (awc_chan_count_lsb ?c) + 1"
    using e s by (subst unat_word_ariths) simp
  moreover have "max_number_of_channels w = Inr (push_bit 1 (awc_chan_count_ext ?c) + ?b + 1)"
    using e p b s by (simp add: max_number_of_channels_def u8_add_ok Let_def)
  ultimately show ?thesis using e by auto
qed

theorem channel_count_bounds_witness:
  "\<exists>n. max_number_of_channels example_converter = Inr n \<and> 1 \<le> unat n \<and> unat n \<le> 16"
proof -
  have "audio_widget_caps_response_new 0x105 = Inr (wid_audio_widget_capabilities example_converter)"
    by (simp add: audio_widget_caps_response_new_def widget_type_of_def field8_def get_bit_def example_defs)
  from channel_count_bounds[OF this] show ?thesis by blast
qed

end
