(* ===== verification/Ihda_Controller.thy ===== *)
theory Ihda_Controller
  imports Ihda_Registers Ihda_Topology Threads
begin

text \<open>
  The IHDA controller of \<open>os/kernel/src/device/ihda_controller.rs\<close>: its registers, the command and response ring buffers, the DMA
  position buffer, immediate commands, and the scan for codecs, function groups and widgets. Debug output is left out.
\<close>

unbundle bit_operations_syntax

section \<open>Controller registers\<close>

definition SOUND_DESCRIPTOR_REGISTERS_LENGTH_IN_BYTES :: nat where "SOUND_DESCRIPTOR_REGISTERS_LENGTH_IN_BYTES = 0x20"

definition OFFSET_OF_FIRST_SOUND_DESCRIPTOR :: nat where "OFFSET_OF_FIRST_SOUND_DESCRIPTOR = 0x80"

definition MAX_AMOUNT_OF_BIDIRECTIONAL_STREAMS :: nat where "MAX_AMOUNT_OF_BIDIRECTIONAL_STREAMS = 30"

definition MAX_AMOUNT_OF_SDIN_SIGNALS :: nat where "MAX_AMOUNT_OF_SDIN_SIGNALS = 15"

record controller =
  gcap :: register
  vmin :: register
  vmaj :: register
  outpay :: register
  inpay :: register
  gctl :: register
  wakeen :: register
  wakests :: register
  gsts :: register
  gcap2 :: register
  outstrmpay :: register
  instrmpay :: register
  intctl :: register
  intsts :: register
  walclk :: register
  ssync :: register
  corblbase :: register
  corbubase :: register
  corbwp :: register
  corbrp :: register
  corbctl :: register
  corbsts :: register
  corbsize :: register
  rirblbase :: register
  rirbubase :: register
  rirbwp :: register
  rintcnt :: register
  rirbctl :: register
  rirbsts :: register
  rirbsize :: register
  icoi :: register
  icii :: register
  icsts :: register
  dpiblbase :: register
  dpibubase :: register
  input_stream_descriptors :: "sd_registers list"
  output_stream_descriptors :: "sd_registers list"
  bidirectional_stream_descriptors :: "sd_registers list"
  walclk_alias :: register

definition descriptors_from :: "nat \<Rightarrow> nat \<Rightarrow> nat \<Rightarrow> sd_registers list" where
  "descriptors_from mmio_base_address first amount =
     map (\<lambda>index. sd_registers_new (mmio_base_address + OFFSET_OF_FIRST_SOUND_DESCRIPTOR
       + SOUND_DESCRIPTOR_REGISTERS_LENGTH_IN_BYTES * (first + index))) [0..<amount]"

text \<open>The registers of a controller with the given numbers of stream descriptors.\<close>

definition controller_registers :: "nat \<Rightarrow> nat \<Rightarrow> nat \<Rightarrow> nat \<Rightarrow> controller" where
  "controller_registers mmio_base_address inputs outputs bidirectionals =
     \<lparr>gcap = reg_at mmio_base_address 2,
      vmin = reg_at (mmio_base_address + 0x2) 1,
      vmaj = reg_at (mmio_base_address + 0x3) 1,
      outpay = reg_at (mmio_base_address + 0x4) 2,
      inpay = reg_at (mmio_base_address + 0x6) 2,
      gctl = reg_at (mmio_base_address + 0x8) 4,
      wakeen = reg_at (mmio_base_address + 0xc) 2,
      wakests = reg_at (mmio_base_address + 0xe) 2,
      gsts = reg_at (mmio_base_address + 0x10) 2,
      gcap2 = reg_at (mmio_base_address + 0x12) 2,
      outstrmpay = reg_at (mmio_base_address + 0x18) 2,
      instrmpay = reg_at (mmio_base_address + 0x1a) 2,
      intctl = reg_at (mmio_base_address + 0x20) 4,
      intsts = reg_at (mmio_base_address + 0x24) 4,
      walclk = reg_at (mmio_base_address + 0x30) 4,
      ssync = reg_at (mmio_base_address + 0x38) 4,
      corblbase = reg_at (mmio_base_address + 0x40) 4,
      corbubase = reg_at (mmio_base_address + 0x44) 4,
      corbwp = reg_at (mmio_base_address + 0x48) 2,
      corbrp = reg_at (mmio_base_address + 0x4a) 2,
      corbctl = reg_at (mmio_base_address + 0x4c) 1,
      corbsts = reg_at (mmio_base_address + 0x4d) 1,
      corbsize = reg_at (mmio_base_address + 0x4e) 1,
      rirblbase = reg_at (mmio_base_address + 0x50) 4,
      rirbubase = reg_at (mmio_base_address + 0x54) 4,
      rirbwp = reg_at (mmio_base_address + 0x58) 2,
      rintcnt = reg_at (mmio_base_address + 0x5a) 2,
      rirbctl = reg_at (mmio_base_address + 0x5c) 1,
      rirbsts = reg_at (mmio_base_address + 0x5d) 1,
      rirbsize = reg_at (mmio_base_address + 0x5e) 1,
      icoi = reg_at (mmio_base_address + 0x60) 4,
      icii = reg_at (mmio_base_address + 0x64) 4,
      icsts = reg_at (mmio_base_address + 0x68) 2,
      dpiblbase = reg_at (mmio_base_address + 0x70) 4,
      dpibubase = reg_at (mmio_base_address + 0x74) 4,
      input_stream_descriptors = descriptors_from mmio_base_address 0 inputs,
      output_stream_descriptors = descriptors_from mmio_base_address inputs outputs,
      bidirectional_stream_descriptors = descriptors_from mmio_base_address (inputs + outputs) bidirectionals,
      walclk_alias = reg_at (mmio_base_address + 0x2030) 4\<rparr>"

definition controller_new :: "'s hw \<Rightarrow> nat \<Rightarrow> ('s, controller) drv" where
  "controller_new hw mmio_base_address =
     (let gcap = reg_at mmio_base_address 2 in
      seq (reg_read hw gcap) (\<lambda>v1. seq (reg_read hw gcap) (\<lambda>v2. seq (reg_read hw gcap) (\<lambda>v3.
        ret (controller_registers mmio_base_address (unat (drop_bit 8 v1 AND 0xF)) (unat (drop_bit 12 v2 AND 0xF))
               (unat (drop_bit 3 v3 AND 0b11111)))))))"

definition supports_64bit_bdl_addresses :: "'s hw \<Rightarrow> controller \<Rightarrow> ('s, bool) drv" where
  "supports_64bit_bdl_addresses hw c = reg_is_set hw (gcap c) 0"

definition number_of_serial_data_out_signals :: "'s hw \<Rightarrow> controller \<Rightarrow> ('s, u8) drv" where
  "number_of_serial_data_out_signals hw c = seq (reg_read hw (gcap c)) (\<lambda>v.
     let n = drop_bit 1 v AND 0b11 in
     if n = 0b00 then ret 1 else if n = 0b01 then ret 2 else if n = 0b10 then ret 4 else halt Bad_Register_Value)"

definition number_of_bidirectional_streams_supported :: "'s hw \<Rightarrow> controller \<Rightarrow> ('s, u8) drv" where
  "number_of_bidirectional_streams_supported hw c = seq (reg_read hw (gcap c)) (\<lambda>v.
     let bss = (ucast (drop_bit 3 v AND 0b11111) :: u8) in
     if unat bss > MAX_AMOUNT_OF_BIDIRECTIONAL_STREAMS then halt Bad_Register_Value else ret bss)"

definition number_of_input_streams_supported :: "'s hw \<Rightarrow> controller \<Rightarrow> ('s, u8) drv" where
  "number_of_input_streams_supported hw c = seq (reg_read hw (gcap c)) (\<lambda>v. ret (ucast (drop_bit 8 v AND 0xF)))"

definition number_of_output_streams_supported :: "'s hw \<Rightarrow> controller \<Rightarrow> ('s, u8) drv" where
  "number_of_output_streams_supported hw c = seq (reg_read hw (gcap c)) (\<lambda>v. ret (ucast (drop_bit 12 v AND 0xF)))"

definition specification_version :: "'s hw \<Rightarrow> controller \<Rightarrow> ('s, u8 \<times> u8) drv" where
  "specification_version hw c = seq (reg_read hw (vmaj c)) (\<lambda>major. seq (reg_read hw (vmin c)) (\<lambda>minor. ret (ucast major, ucast minor)))"

definition output_payload_capacity_in_words :: "'s hw \<Rightarrow> controller \<Rightarrow> ('s, u16) drv" where
  "output_payload_capacity_in_words hw c = seq (reg_read hw (outpay c)) (\<lambda>v. ret (ucast v))"

definition input_payload_capacity_in_words :: "'s hw \<Rightarrow> controller \<Rightarrow> ('s, u16) drv" where
  "input_payload_capacity_in_words hw c = seq (reg_read hw (inpay c)) (\<lambda>v. ret (ucast v))"

definition controller_reset :: "'s hw \<Rightarrow> controller \<Rightarrow> ('s, unit) drv" where
  "controller_reset hw c =
     seq (reg_set_bit hw (gctl c) 0) (\<lambda>_.
     seq (await hw (gctl c) 0 True BIT_ASSERTION_TIMEOUT_IN_MS) (\<lambda>_. delay hw 1))"

definition unsolicited_response_enable_bit :: "'s hw \<Rightarrow> controller \<Rightarrow> ('s, bool) drv" where
  "unsolicited_response_enable_bit hw c = reg_is_set hw (gctl c) 8"

definition set_unsolicited_response_enable_bit :: "'s hw \<Rightarrow> controller \<Rightarrow> ('s, unit) drv" where
  "set_unsolicited_response_enable_bit hw c = reg_set_bit hw (gctl c) 8"

definition clear_unsolicited_response_enable_bit :: "'s hw \<Rightarrow> controller \<Rightarrow> ('s, unit) drv" where
  "clear_unsolicited_response_enable_bit hw c = reg_clear_bit hw (gctl c) 8"

text \<open>The operations on a wake bit first check the number of the signal.\<close>

definition check_sdin :: "nat \<Rightarrow> ('s, unit) drv" where
  "check_sdin sdin_index = (if sdin_index > MAX_AMOUNT_OF_SDIN_SIGNALS - 1 then halt Index_Out_Of_Bounds else ret ())"

definition sdin_wake_enable_bit :: "'s hw \<Rightarrow> controller \<Rightarrow> nat \<Rightarrow> ('s, bool) drv" where
  "sdin_wake_enable_bit hw c i = seq (check_sdin i) (\<lambda>_. reg_is_set hw (wakeen c) i)"

definition set_sdin_wake_enable_bit :: "'s hw \<Rightarrow> controller \<Rightarrow> nat \<Rightarrow> ('s, unit) drv" where
  "set_sdin_wake_enable_bit hw c i = seq (check_sdin i) (\<lambda>_. reg_set_bit hw (wakeen c) i)"

definition clear_sdin_wake_enable_bit :: "'s hw \<Rightarrow> controller \<Rightarrow> nat \<Rightarrow> ('s, unit) drv" where
  "clear_sdin_wake_enable_bit hw c i = seq (check_sdin i) (\<lambda>_. reg_clear_bit hw (wakeen c) i)"

definition sdin_state_change_status_bit :: "'s hw \<Rightarrow> controller \<Rightarrow> nat \<Rightarrow> ('s, bool) drv" where
  "sdin_state_change_status_bit hw c i = seq (check_sdin i) (\<lambda>_. reg_is_set hw (wakests c) i)"

definition clear_sdin_state_change_status_bit :: "'s hw \<Rightarrow> controller \<Rightarrow> nat \<Rightarrow> ('s, unit) drv" where
  "clear_sdin_state_change_status_bit hw c i = seq (check_sdin i) (\<lambda>_. reg_set_bit hw (wakests c) i)"

definition flush_status_bit :: "'s hw \<Rightarrow> controller \<Rightarrow> ('s, bool) drv" where
  "flush_status_bit hw c = reg_is_set hw (gsts c) 1"

definition clear_flush_status_bit :: "'s hw \<Rightarrow> controller \<Rightarrow> ('s, unit) drv" where
  "clear_flush_status_bit hw c = reg_set_bit hw (gctl c) 1"

definition energy_efficient_audio_capability :: "'s hw \<Rightarrow> controller \<Rightarrow> ('s, bool) drv" where
  "energy_efficient_audio_capability hw c = reg_is_set hw (gsts c) 0"

definition output_stream_payload_capability_in_words :: "'s hw \<Rightarrow> controller \<Rightarrow> ('s, u16) drv" where
  "output_stream_payload_capability_in_words hw c = seq (reg_read hw (outstrmpay c)) (\<lambda>v. ret (ucast v))"

definition input_stream_payload_capability_in_words :: "'s hw \<Rightarrow> controller \<Rightarrow> ('s, u16) drv" where
  "input_stream_payload_capability_in_words hw c = seq (reg_read hw (instrmpay c)) (\<lambda>v. ret (ucast v))"

definition controller_interrupt_enable_bit :: "'s hw \<Rightarrow> controller \<Rightarrow> ('s, bool) drv" where
  "controller_interrupt_enable_bit hw c = reg_is_set hw (intctl c) 30"

definition set_controller_interrupt_enable_bit :: "'s hw \<Rightarrow> controller \<Rightarrow> ('s, unit) drv" where
  "set_controller_interrupt_enable_bit hw c = reg_set_bit hw (intctl c) 30"

definition clear_controller_interrupt_enable_bit :: "'s hw \<Rightarrow> controller \<Rightarrow> ('s, unit) drv" where
  "clear_controller_interrupt_enable_bit hw c = reg_clear_bit hw (intctl c) 30"

definition global_interrupt_enable_bit :: "'s hw \<Rightarrow> controller \<Rightarrow> ('s, bool) drv" where
  "global_interrupt_enable_bit hw c = reg_is_set hw (intctl c) 31"

definition set_global_interrupt_enable_bit :: "'s hw \<Rightarrow> controller \<Rightarrow> ('s, unit) drv" where
  "set_global_interrupt_enable_bit hw c = reg_set_bit hw (intctl c) 31"

definition clear_global_interrupt_enable_bit :: "'s hw \<Rightarrow> controller \<Rightarrow> ('s, unit) drv" where
  "clear_global_interrupt_enable_bit hw c = reg_clear_bit hw (intctl c) 31"

definition wall_clock_counter :: "'s hw \<Rightarrow> controller \<Rightarrow> ('s, u32) drv" where
  "wall_clock_counter hw c = reg_read hw (walclk c)"

section \<open>The driver's memory\<close>

text \<open>Routines that allocate work on the state of the card together with the kernel's memory.\<close>

record ('s, 'e) driver_state =
  card :: 's
  kernel_memory :: "'e machine"

definition on_card :: "('s, 'a) drv \<Rightarrow> (('s, 'e) driver_state, 'a) drv" where
  "on_card m = (\<lambda>d. case m (card d) of
      None \<Rightarrow> None
    | Some (Inl p) \<Rightarrow> Some (Inl p)
    | Some (Inr (x, s')) \<Rightarrow> Some (Inr (x, d\<lparr>card := s'\<rparr>)))"

definition on_memory :: "('e machine \<Rightarrow> ('a \<times> 'e machine) result) \<Rightarrow> (('s, 'e) driver_state, 'a) drv" where
  "on_memory f = (\<lambda>d. Some (and_then (f (kernel_memory d)) (\<lambda>(x, m). Inr (x, d\<lparr>kernel_memory := m\<rparr>))))"

definition physical_alloc :: "nat \<Rightarrow> 'e machine \<Rightarrow> (phys_frame_range \<times> 'e machine) result" where
  "physical_alloc n m = and_then (phys_alloc n (frames_state m)) (\<lambda>(r, st). Inr (r, m\<lparr>frames_state := st\<rparr>))"

definition frames_address :: "phys_frame_range \<Rightarrow> u64" where
  "frames_address r = of_nat (range_start r * PAGE_SIZE)"

text \<open>\<open>pm\<close> is the process manager, \<open>no_cache\<close> the flags PRESENT, WRITABLE and NO_CACHE.\<close>

definition alloc_no_cache_dma_memory ::
  "('e, 'f) entry_ops \<Rightarrow> 'f \<Rightarrow> process_manager \<Rightarrow> nat \<Rightarrow> 'e machine \<Rightarrow> (phys_frame_range \<times> 'e machine) result" where
  "alloc_no_cache_dma_memory ops no_cache pm n m =
     and_then (physical_alloc n m) (\<lambda>(r, m1).
     and_then (unwrap Unwrap_None (kernel_process pm)) (\<lambda>kernel.
     and_then (guard Unwrap_None (canonical_address (range_start r * PAGE_SIZE) \<and> canonical_address (range_end r * PAGE_SIZE))) (\<lambda>_.
     and_then (set_flags ops (proc_address_space kernel) \<lparr>page_start = range_start r, page_end = range_end r\<rparr> no_cache m1) (\<lambda>m2.
       Inr (r, m2)))))"

section \<open>Command and response ring buffers\<close>

datatype corb_size = TwoEntries | SixteenEntries | TwoHundredFiftySixEntries

text \<open>The two halves of a ring buffer address; reading drops the lowest bit.\<close>

definition write_base :: "'s hw \<Rightarrow> register \<Rightarrow> register \<Rightarrow> u64 \<Rightarrow> ('s, unit) drv" where
  "write_base hw lbase ubase start_address =
     seq (reg_write hw lbase (ucast (start_address AND 0xFFFFFFFF))) (\<lambda>_.
       reg_write hw ubase (ucast (drop_bit 32 (start_address AND 0xFFFFFFFF00000000))))"

definition read_base :: "'s hw \<Rightarrow> register \<Rightarrow> register \<Rightarrow> ('s, u64) drv" where
  "read_base hw lbase ubase = seq (reg_read hw ubase) (\<lambda>u. seq (reg_read hw lbase) (\<lambda>l.
     ret (push_bit 32 (ucast u) OR ucast (push_bit 1 (drop_bit 1 l)))))"

definition set_corb_address :: "'s hw \<Rightarrow> controller \<Rightarrow> u64 \<Rightarrow> ('s, unit) drv" where
  "set_corb_address hw c = write_base hw (corblbase c) (corbubase c)"

definition corb_address :: "'s hw \<Rightarrow> controller \<Rightarrow> ('s, u64) drv" where
  "corb_address hw c = read_base hw (corblbase c) (corbubase c)"

definition corb_write_pointer :: "'s hw \<Rightarrow> controller \<Rightarrow> ('s, u8) drv" where
  "corb_write_pointer hw c = seq (reg_read hw (corbwp c)) (\<lambda>v. ret (ucast (v AND 0xFF)))"

definition set_corb_write_pointer :: "'s hw \<Rightarrow> controller \<Rightarrow> u8 \<Rightarrow> ('s, unit) drv" where
  "set_corb_write_pointer hw c offset = reg_write hw (corbwp c) (ucast offset)"

definition reset_corb_write_pointer :: "'s hw \<Rightarrow> controller \<Rightarrow> ('s, unit) drv" where
  "reset_corb_write_pointer hw c = reg_clear_all_bits hw (corbwp c)"

definition corb_read_pointer :: "'s hw \<Rightarrow> controller \<Rightarrow> ('s, u8) drv" where
  "corb_read_pointer hw c = seq (reg_read hw (corbrp c)) (\<lambda>v. ret (ucast (v AND 0xFF)))"

definition reset_corb_read_pointer :: "'s hw \<Rightarrow> controller \<Rightarrow> ('s, unit) drv" where
  "reset_corb_read_pointer hw c =
     seq (reg_set_bit hw (corbrp c) 15) (\<lambda>_.
     seq (await hw (corbrp c) 15 True BIT_ASSERTION_TIMEOUT_IN_MS) (\<lambda>_. reg_clear_bit hw (corbrp c) 15))"

definition corb_memory_error_interrupt_enable_bit :: "'s hw \<Rightarrow> controller \<Rightarrow> ('s, bool) drv" where
  "corb_memory_error_interrupt_enable_bit hw c = reg_is_set hw (corbctl c) 0"

definition set_corb_memory_error_interrupt_enable_bit :: "'s hw \<Rightarrow> controller \<Rightarrow> ('s, unit) drv" where
  "set_corb_memory_error_interrupt_enable_bit hw c = reg_set_bit hw (corbctl c) 0"

definition clear_corb_memory_error_interrupt_enable_bit :: "'s hw \<Rightarrow> controller \<Rightarrow> ('s, unit) drv" where
  "clear_corb_memory_error_interrupt_enable_bit hw c = reg_clear_bit hw (corbctl c) 0"

definition start_corb_dma :: "'s hw \<Rightarrow> controller \<Rightarrow> ('s, unit) drv" where
  "start_corb_dma hw c = seq (reg_set_bit hw (corbctl c) 1) (\<lambda>_. await hw (corbctl c) 1 True BIT_ASSERTION_TIMEOUT_IN_MS)"

definition stop_corb_dma :: "'s hw \<Rightarrow> controller \<Rightarrow> ('s, unit) drv" where
  "stop_corb_dma hw c = seq (reg_clear_bit hw (corbctl c) 1) (\<lambda>_. await hw (corbctl c) 1 False BIT_ASSERTION_TIMEOUT_IN_MS)"

definition corb_memory_error_indication_bit :: "'s hw \<Rightarrow> controller \<Rightarrow> ('s, bool) drv" where
  "corb_memory_error_indication_bit hw c = reg_is_set hw (corbsts c) 0"

definition clear_corb_memory_error_indication_bit :: "'s hw \<Rightarrow> controller \<Rightarrow> ('s, unit) drv" where
  "clear_corb_memory_error_indication_bit hw c = reg_set_bit hw (corbsts c) 0"

fun corb_size_as_u16 :: "corb_size \<Rightarrow> u16" where
  "corb_size_as_u16 TwoEntries = 2"
| "corb_size_as_u16 SixteenEntries = 16"
| "corb_size_as_u16 TwoHundredFiftySixEntries = 256"

record ringbuffer_capability =
  support_2_entries :: bool
  support_16_entries :: bool
  support_256_entries :: bool

definition ring_capability :: "'s hw \<Rightarrow> register \<Rightarrow> ('s, ringbuffer_capability) drv" where
  "ring_capability hw r =
     seq (reg_is_set hw r 4) (\<lambda>two. seq (reg_is_set hw r 5) (\<lambda>sixteen. seq (reg_is_set hw r 6) (\<lambda>large.
       ret \<lparr>support_2_entries = two, support_16_entries = sixteen, support_256_entries = large\<rparr>)))"

definition corb_size_capability :: "'s hw \<Rightarrow> controller \<Rightarrow> ('s, ringbuffer_capability) drv" where
  "corb_size_capability hw c = ring_capability hw (corbsize c)"

definition rirb_size_capability :: "'s hw \<Rightarrow> controller \<Rightarrow> ('s, ringbuffer_capability) drv" where
  "rirb_size_capability hw c = ring_capability hw (rirbsize c)"

definition corb_size_in_entries :: "'s hw \<Rightarrow> controller \<Rightarrow> ('s, corb_size) drv" where
  "corb_size_in_entries hw c = seq (reg_read hw (corbsize c)) (\<lambda>v.
     let n = v AND 0b11 in
     if n = 0b00 then ret TwoEntries else if n = 0b01 then ret SixteenEntries
     else if n = 0b10 then ret TwoHundredFiftySixEntries else halt Bad_Register_Value)"

definition set_corb_size_in_entries :: "'s hw \<Rightarrow> controller \<Rightarrow> corb_size \<Rightarrow> ('s, unit) drv" where
  "set_corb_size_in_entries hw c sz = seq (reg_read hw (corbsize c)) (\<lambda>v.
     reg_write hw (corbsize c) (case sz of
        TwoEntries \<Rightarrow> v AND 0b11111100
      | SixteenEntries \<Rightarrow> v AND 0b11111100 OR 0b01
      | TwoHundredFiftySixEntries \<Rightarrow> v AND 0b11111100 OR 0b10))"

definition init_corb :: "'s hw \<Rightarrow> controller \<Rightarrow> (('s, 'e) driver_state, unit) drv" where
  "init_corb hw c =
     seq (on_card (clear_corb_memory_error_interrupt_enable_bit hw c)) (\<lambda>_.
     seq (on_card (stop_corb_dma hw c)) (\<lambda>_.
     seq (on_card (corb_size_in_entries hw c)) (\<lambda>entries.
     seq (lift (guard Assert_Failed (entries = TwoHundredFiftySixEntries))) (\<lambda>_.
     seq (on_memory (physical_alloc 2)) (\<lambda>frames.
     seq (on_card (set_corb_address hw c (frames_address frames))) (\<lambda>_.
     seq (on_card (reset_corb_write_pointer hw c)) (\<lambda>_. on_card (reset_corb_read_pointer hw c))))))))"

definition start_corb :: "'s hw \<Rightarrow> controller \<Rightarrow> ('s, unit) drv" where
  "start_corb hw c = seq (set_controller_interrupt_enable_bit hw c) (\<lambda>_. start_corb_dma hw c)"

definition set_rirb_address :: "'s hw \<Rightarrow> controller \<Rightarrow> u64 \<Rightarrow> ('s, unit) drv" where
  "set_rirb_address hw c = write_base hw (rirblbase c) (rirbubase c)"

definition rirb_address :: "'s hw \<Rightarrow> controller \<Rightarrow> ('s, u64) drv" where
  "rirb_address hw c = read_base hw (rirblbase c) (rirbubase c)"

definition rirb_write_pointer :: "'s hw \<Rightarrow> controller \<Rightarrow> ('s, u8) drv" where
  "rirb_write_pointer hw c = seq (reg_read hw (rirbwp c)) (\<lambda>v. ret (ucast (v AND 0xFF)))"

definition reset_rirb_write_pointer :: "'s hw \<Rightarrow> controller \<Rightarrow> ('s, unit) drv" where
  "reset_rirb_write_pointer hw c = reg_set_bit hw (rirbwp c) 15"

definition response_interrupt_control_bit :: "'s hw \<Rightarrow> controller \<Rightarrow> ('s, bool) drv" where
  "response_interrupt_control_bit hw c = reg_is_set hw (rirbctl c) 0"

definition set_response_interrupt_control_bit :: "'s hw \<Rightarrow> controller \<Rightarrow> ('s, unit) drv" where
  "set_response_interrupt_control_bit hw c = reg_set_bit hw (rirbctl c) 0"

definition clear_response_interrupt_control_bit :: "'s hw \<Rightarrow> controller \<Rightarrow> ('s, unit) drv" where
  "clear_response_interrupt_control_bit hw c = reg_clear_bit hw (rirbctl c) 0"

definition rirb_dma_enable_bit :: "'s hw \<Rightarrow> controller \<Rightarrow> ('s, bool) drv" where
  "rirb_dma_enable_bit hw c = reg_is_set hw (rirbctl c) 1"

definition start_rirb_dma :: "'s hw \<Rightarrow> controller \<Rightarrow> ('s, unit) drv" where
  "start_rirb_dma hw c = reg_set_bit hw (rirbctl c) 1"

definition stop_rirb_dma :: "'s hw \<Rightarrow> controller \<Rightarrow> ('s, unit) drv" where
  "stop_rirb_dma hw c = reg_clear_bit hw (rirbctl c) 1"

definition response_overrun_interrupt_control_bit :: "'s hw \<Rightarrow> controller \<Rightarrow> ('s, bool) drv" where
  "response_overrun_interrupt_control_bit hw c = reg_is_set hw (rirbctl c) 2"

definition set_response_overrun_interrupt_control_bit :: "'s hw \<Rightarrow> controller \<Rightarrow> ('s, unit) drv" where
  "set_response_overrun_interrupt_control_bit hw c = reg_set_bit hw (rirbctl c) 2"

definition clear_response_overrun_interrupt_control_bit :: "'s hw \<Rightarrow> controller \<Rightarrow> ('s, unit) drv" where
  "clear_response_overrun_interrupt_control_bit hw c = reg_clear_bit hw (rirbctl c) 2"

definition init_rirb :: "'s hw \<Rightarrow> controller \<Rightarrow> (('s, 'e) driver_state, unit) drv" where
  "init_rirb hw c =
     seq (on_card (stop_rirb_dma hw c)) (\<lambda>_.
     seq (on_card (clear_response_interrupt_control_bit hw c)) (\<lambda>_.
     seq (on_card (clear_response_overrun_interrupt_control_bit hw c)) (\<lambda>_.
     seq (on_memory (physical_alloc 4)) (\<lambda>frames.
     seq (on_card (set_rirb_address hw c (frames_address frames))) (\<lambda>_. on_card (reset_rirb_write_pointer hw c))))))"

definition start_rirb :: "'s hw \<Rightarrow> controller \<Rightarrow> ('s, unit) drv" where
  "start_rirb hw c =
     seq (set_response_interrupt_control_bit hw c) (\<lambda>_.
     seq (set_response_overrun_interrupt_control_bit hw c) (\<lambda>_. start_rirb_dma hw c))"

definition CORB_ENTRY_SIZE_IN_BYTES :: nat where "CORB_ENTRY_SIZE_IN_BYTES = 4"

definition RIRB_ENTRY_SIZE_IN_BYTES :: nat where "RIRB_ENTRY_SIZE_IN_BYTES = 8"

definition corb_put :: "'s hw \<Rightarrow> controller \<Rightarrow> nat \<Rightarrow> command \<Rightarrow> ('s, unit) drv" where
  "corb_put hw c i cmd =
     seq (corb_address hw c) (\<lambda>a. seq (lift (command_as_u32 cmd)) (\<lambda>w.
       bus_write hw (unat a + i * CORB_ENTRY_SIZE_IN_BYTES) 4 (ucast w)))"

definition rirb_get :: "'s hw \<Rightarrow> controller \<Rightarrow> nat \<Rightarrow> ('s, u128) drv" where
  "rirb_get hw c i = seq (rirb_address hw c) (\<lambda>a. bus_read hw (unat a + i * RIRB_ENTRY_SIZE_IN_BYTES) 8)"

text \<open>The self test, without its debug output: two equal commands have equal answers that are not zero.\<close>

definition test_corb_and_rirb :: "'s hw \<Rightarrow> controller \<Rightarrow> ('s, unit) drv" where
  "test_corb_and_rirb hw c =
     seq (lift (and_then (codec_address_new 0) (\<lambda>ca. node_address_new ca 0))) (\<lambda>root.
     seq (corb_put hw c 1 (GetParameter root P_VendorId)) (\<lambda>_.
     seq (corb_put hw c 2 (GetParameter root P_VendorId)) (\<lambda>_.
     seq (reg_read hw (corbwp c)) (\<lambda>wp.
     seq (lift (guard Add_Overflow (unat wp + 2 < 2 ^ 16))) (\<lambda>_.
     seq (reg_write hw (corbwp c) (wp + 2)) (\<lambda>_.
     seq (delay hw 200) (\<lambda>_.
     seq (rirb_get hw c 1) (\<lambda>entry_at_index_1.
     seq (rirb_get hw c 2) (\<lambda>entry_at_index_2.
       lift (guard Assert_Failed (entry_at_index_1 = entry_at_index_2 \<and> entry_at_index_1 \<noteq> 0 \<and> entry_at_index_2 \<noteq> 0)))))))))))"

section \<open>DMA positions\<close>

definition dma_position_buffer_address :: "'s hw \<Rightarrow> controller \<Rightarrow> ('s, u64) drv" where
  "dma_position_buffer_address hw c = read_base hw (dpiblbase c) (dpibubase c)"

definition set_dma_position_buffer_address :: "'s hw \<Rightarrow> controller \<Rightarrow> u64 \<Rightarrow> ('s, unit) drv" where
  "set_dma_position_buffer_address hw c start_address =
     seq (reg_is_set hw (dpiblbase c) 0) (\<lambda>enabled.
     seq (reg_write hw (dpiblbase c) (ucast (start_address AND 0xFFFFFFFF) OR of_bool enabled)) (\<lambda>_.
       reg_write hw (dpibubase c) (ucast (drop_bit 32 (start_address AND 0xFFFFFFFF00000000)))))"

definition enable_dma_position_buffer :: "'s hw \<Rightarrow> controller \<Rightarrow> ('s, unit) drv" where
  "enable_dma_position_buffer hw c = reg_set_bit hw (dpiblbase c) 0"

definition disable_dma_position_buffer :: "'s hw \<Rightarrow> controller \<Rightarrow> ('s, unit) drv" where
  "disable_dma_position_buffer hw c = reg_clear_bit hw (dpiblbase c) 0"

definition init_dma_position_buffer ::
  "('e, 'f) entry_ops \<Rightarrow> 'f \<Rightarrow> process_manager \<Rightarrow> 's hw \<Rightarrow> controller \<Rightarrow> (('s, 'e) driver_state, unit) drv" where
  "init_dma_position_buffer ops no_cache pm hw c =
     seq (on_memory (alloc_no_cache_dma_memory ops no_cache pm 1)) (\<lambda>frames.
     seq (on_card (set_dma_position_buffer_address hw c (frames_address frames))) (\<lambda>_.
       on_card (enable_dma_position_buffer hw c)))"

definition DMA_POSITION_IN_BUFFER_ENTRY_SIZE_IN_BYTES :: nat where "DMA_POSITION_IN_BUFFER_ENTRY_SIZE_IN_BYTES = 4"

definition stream_descriptor_position_in_current_buffer :: "'s hw \<Rightarrow> controller \<Rightarrow> nat \<Rightarrow> ('s, u32) drv" where
  "stream_descriptor_position_in_current_buffer hw c stream_descriptor_number =
     seq (dma_position_buffer_address hw c) (\<lambda>a.
     seq (bus_read hw (unat a + stream_descriptor_number * (2 * DMA_POSITION_IN_BUFFER_ENTRY_SIZE_IN_BYTES)) 4) (\<lambda>v. ret (ucast v)))"

definition configure :: "'s hw \<Rightarrow> controller \<Rightarrow> ('s, unit) drv" where
  "configure hw c =
     seq (clear_unsolicited_response_enable_bit hw c) (\<lambda>_.
     seq (set_global_interrupt_enable_bit hw c) (\<lambda>_.
     seq (set_controller_interrupt_enable_bit hw c) (\<lambda>_. reg_set_all_bits hw (wakeen c))))"

section \<open>Immediate commands\<close>

definition write_command_to_icoi :: "'s hw \<Rightarrow> controller \<Rightarrow> command \<Rightarrow> ('s, unit) drv" where
  "write_command_to_icoi hw c cmd = seq (lift (command_as_u32 cmd)) (reg_write hw (icoi c))"

definition read_response_from_icii :: "'s hw \<Rightarrow> controller \<Rightarrow> ('s, u32) drv" where
  "read_response_from_icii hw c = reg_read hw (icii c)"

definition immediate_command_busy_bit :: "'s hw \<Rightarrow> controller \<Rightarrow> ('s, bool) drv" where
  "immediate_command_busy_bit hw c = reg_is_set hw (icsts c) 0"

definition set_immediate_command_busy_bit :: "'s hw \<Rightarrow> controller \<Rightarrow> ('s, unit) drv" where
  "set_immediate_command_busy_bit hw c = reg_set_bit hw (icsts c) 0"

definition clear_immediate_command_busy_bit :: "'s hw \<Rightarrow> controller \<Rightarrow> ('s, unit) drv" where
  "clear_immediate_command_busy_bit hw c = reg_clear_bit hw (icsts c) 0"

definition immediate_result_valid_bit :: "'s hw \<Rightarrow> controller \<Rightarrow> ('s, bool) drv" where
  "immediate_result_valid_bit hw c = reg_is_set hw (icsts c) 1"

definition set_immediate_result_ready_bit :: "'s hw \<Rightarrow> controller \<Rightarrow> ('s, unit) drv" where
  "set_immediate_result_ready_bit hw c = reg_set_bit hw (icsts c) 1"

definition clear_immediate_result_ready_bit :: "'s hw \<Rightarrow> controller \<Rightarrow> ('s, unit) drv" where
  "clear_immediate_result_ready_bit hw c = reg_set_bit hw (icsts c) 1"

definition immediate_command :: "'s hw \<Rightarrow> controller \<Rightarrow> command \<Rightarrow> ('s, response) drv" where
  "immediate_command hw c cmd =
     seq (write_command_to_icoi hw c cmd) (\<lambda>_.
     seq (set_immediate_command_busy_bit hw c) (\<lambda>_.
     seq (await hw (icsts c) 1 True IMMEDIATE_COMMAND_TIMEOUT_IN_MS) (\<lambda>_.
     seq (read_response_from_icii hw c) (\<lambda>raw. lift (response_new raw cmd)))))"

text \<open>\<open>X::try_from(self.immediate_command(...)).unwrap()\<close>\<close>

definition ask :: "'s hw \<Rightarrow> controller \<Rightarrow> (response \<Rightarrow> response + 'a) \<Rightarrow> command \<Rightarrow> ('s, 'a) drv" where
  "ask hw c try cmd = seq (immediate_command hw c cmd) (\<lambda>r. case try r of Inr x \<Rightarrow> ret x | Inl _ \<Rightarrow> halt Unwrap_None)"

definition amp_caps_of :: "'s hw \<Rightarrow> controller \<Rightarrow> node_address \<Rightarrow> parameter \<Rightarrow> ('s, amp_capabilities_response) drv" where
  "amp_caps_of hw c a p = ask hw c amp_capabilities_response_try_from (GetParameter a p)"

section \<open>Scanning\<close>

definition scan_output_converter :: "'s hw \<Rightarrow> controller \<Rightarrow> node_address \<Rightarrow> ('s, widget_info_container) drv" where
  "scan_output_converter hw c a =
     seq (ask hw c sample_size_rate_caps_response_try_from (GetParameter a P_SampleSizeRateCAPs)) (\<lambda>rates.
     seq (ask hw c supported_stream_formats_response_try_from (GetParameter a P_SupportedStreamFormats)) (\<lambda>formats.
     seq (amp_caps_of hw c a P_OutputAmpCapabilities) (\<lambda>out_amp.
     seq (ask hw c supported_power_states_response_try_from (GetParameter a P_SupportedPowerStates)) (\<lambda>power.
     seq (ask hw c processing_capabilities_response_try_from (GetParameter a P_ProcessingCapabilities)) (\<lambda>processing.
       ret (AudioOutputConverter rates formats out_amp power processing))))))"

definition scan_input_converter :: "'s hw \<Rightarrow> controller \<Rightarrow> node_address \<Rightarrow> ('s, widget_info_container) drv" where
  "scan_input_converter hw c a =
     seq (ask hw c sample_size_rate_caps_response_try_from (GetParameter a P_SampleSizeRateCAPs)) (\<lambda>rates.
     seq (ask hw c supported_stream_formats_response_try_from (GetParameter a P_SupportedStreamFormats)) (\<lambda>formats.
     seq (amp_caps_of hw c a P_InputAmpCapabilities) (\<lambda>in_amp.
     seq (ask hw c connection_list_length_response_try_from (GetParameter a P_ConnectionListLength)) (\<lambda>len.
     seq (ask hw c supported_power_states_response_try_from (GetParameter a P_SupportedPowerStates)) (\<lambda>power.
     seq (ask hw c processing_capabilities_response_try_from (GetParameter a P_ProcessingCapabilities)) (\<lambda>processing.
       ret (AudioInputConverter rates formats in_amp len power processing)))))))"

definition first_connections :: "'s hw \<Rightarrow> controller \<Rightarrow> node_address \<Rightarrow> ('s, connection_list_entry_response) drv" where
  "first_connections hw c a =
     ask hw c connection_list_entry_response_try_from (GetConnectionListEntry a \<lparr>gcl_offset = 0\<rparr>)"

definition scan_mixer :: "'s hw \<Rightarrow> controller \<Rightarrow> node_address \<Rightarrow> ('s, widget_info_container) drv" where
  "scan_mixer hw c a =
     seq (amp_caps_of hw c a P_InputAmpCapabilities) (\<lambda>in_amp.
     seq (amp_caps_of hw c a P_OutputAmpCapabilities) (\<lambda>out_amp.
     seq (ask hw c connection_list_length_response_try_from (GetParameter a P_ConnectionListLength)) (\<lambda>len.
     seq (ask hw c supported_power_states_response_try_from (GetParameter a P_SupportedPowerStates)) (\<lambda>power.
     seq (ask hw c processing_capabilities_response_try_from (GetParameter a P_ProcessingCapabilities)) (\<lambda>processing.
     seq (first_connections hw c a) (\<lambda>connections.
       ret (Mixer in_amp out_amp len power processing connections)))))))"

definition scan_pin :: "'s hw \<Rightarrow> controller \<Rightarrow> node_address \<Rightarrow> ('s, widget_info_container) drv" where
  "scan_pin hw c a =
     seq (ask hw c pin_capabilities_response_try_from (GetParameter a P_PinCapabilities)) (\<lambda>pin.
     seq (amp_caps_of hw c a P_InputAmpCapabilities) (\<lambda>in_amp.
     seq (amp_caps_of hw c a P_OutputAmpCapabilities) (\<lambda>out_amp.
     seq (ask hw c connection_list_length_response_try_from (GetParameter a P_ConnectionListLength)) (\<lambda>len.
     seq (ask hw c supported_power_states_response_try_from (GetParameter a P_SupportedPowerStates)) (\<lambda>power.
     seq (ask hw c processing_capabilities_response_try_from (GetParameter a P_ProcessingCapabilities)) (\<lambda>processing.
     seq (ask hw c configuration_default_response_try_from (GetConfigurationDefault a)) (\<lambda>config.
     seq (first_connections hw c a) (\<lambda>connections.
       ret (PinComplex pin in_amp out_amp len power processing config connections)))))))))"

definition scan_widget_info :: "'s hw \<Rightarrow> controller \<Rightarrow> node_address \<Rightarrow> widget_type \<Rightarrow> ('s, widget_info_container) drv" where
  "scan_widget_info hw c a ty =
     (case ty of
        WT_AudioOutput \<Rightarrow> scan_output_converter hw c a
      | WT_AudioInput \<Rightarrow> scan_input_converter hw c a
      | WT_AudioMixer \<Rightarrow> scan_mixer hw c a
      | WT_AudioSelector \<Rightarrow> ret Selector
      | WT_PinComplex \<Rightarrow> scan_pin hw c a
      | WT_PowerWidget \<Rightarrow> ret Power
      | WT_VolumeKnobWidget \<Rightarrow> ret VolumeKnob
      | WT_BeepGeneratorWidget \<Rightarrow> ret BeepGenerator
      | WT_VendorDefinedAudioWidget \<Rightarrow> ret VendorDefined)"

definition scan_widget :: "'s hw \<Rightarrow> controller \<Rightarrow> codec_address \<Rightarrow> u8 \<Rightarrow> ('s, widget) drv" where
  "scan_widget hw c ca node_id =
     seq (lift (node_address_new ca node_id)) (\<lambda>a.
     seq (ask hw c audio_widget_caps_response_try_from (GetParameter a P_AudioWidgetCapabilities)) (\<lambda>caps.
     seq (scan_widget_info hw c a (awc_widget_type caps)) (\<lambda>info.
       ret \<lparr>wid_address = a, wid_audio_widget_capabilities = caps, wid_widget_info = info\<rparr>)))"

text \<open>The range \<open>start..(start + total)\<close> of node numbers.\<close>

definition subordinate_nodes :: "'s hw \<Rightarrow> controller \<Rightarrow> node_address \<Rightarrow> ('s, u8 list) drv" where
  "subordinate_nodes hw c a =
     seq (ask hw c subordinate_node_count_response_try_from (GetParameter a P_SubordinateNodeCount)) (\<lambda>count.
     seq (lift (u8_add (snc_starting_node_number count) (snc_total_number_of_nodes count))) (\<lambda>stop.
       ret (map of_nat [unat (snc_starting_node_number count)..<unat stop])))"

definition scan_function_group_for_available_widgets :: "'s hw \<Rightarrow> controller \<Rightarrow> node_address \<Rightarrow> ('s, widget list) drv" where
  "scan_function_group_for_available_widgets hw c fg_address =
     seq (subordinate_nodes hw c fg_address) (for_each (scan_widget hw c (na_codec_address fg_address)))"

definition scan_function_group :: "'s hw \<Rightarrow> controller \<Rightarrow> codec_address \<Rightarrow> u8 \<Rightarrow> ('s, function_group) drv" where
  "scan_function_group hw c ca node_id =
     seq (lift (node_address_new ca node_id)) (\<lambda>a.
     seq (ask hw c function_group_type_response_try_from (GetParameter a P_FunctionGroupType)) (\<lambda>ty.
     seq (ask hw c audio_function_group_caps_response_try_from (GetParameter a P_AudioFunctionGroupCapabilities)) (\<lambda>caps.
     seq (ask hw c sample_size_rate_caps_response_try_from (GetParameter a P_SampleSizeRateCAPs)) (\<lambda>rates.
     seq (ask hw c supported_stream_formats_response_try_from (GetParameter a P_SupportedStreamFormats)) (\<lambda>formats.
     seq (amp_caps_of hw c a P_InputAmpCapabilities) (\<lambda>in_amp.
     seq (amp_caps_of hw c a P_OutputAmpCapabilities) (\<lambda>out_amp.
     seq (ask hw c supported_power_states_response_try_from (GetParameter a P_SupportedPowerStates)) (\<lambda>power.
     seq (ask hw c gpio_count_response_try_from (GetParameter a P_GPIOCount)) (\<lambda>gpio.
     seq (scan_function_group_for_available_widgets hw c a) (\<lambda>widgets.
       ret \<lparr>fg_node_address = a, fg_type = ty, fg_audio_function_group_caps = caps, fg_sample_size_rate_caps = rates,
            fg_supported_stream_formats = formats, fg_input_amp_caps = in_amp, fg_output_amp_caps = out_amp,
            fg_supported_power_states = power, fg_gpio_count = gpio, fg_widgets = widgets\<rparr>))))))))))"

definition scan_codec_for_available_function_groups :: "'s hw \<Rightarrow> controller \<Rightarrow> node_address \<Rightarrow> ('s, function_group list) drv" where
  "scan_codec_for_available_function_groups hw c root_node_addr =
     seq (subordinate_nodes hw c root_node_addr) (for_each (scan_function_group hw c (na_codec_address root_node_addr)))"

definition scan_codec :: "'s hw \<Rightarrow> controller \<Rightarrow> u8 \<Rightarrow> ('s, codec option) drv" where
  "scan_codec hw c address =
     seq (reg_is_set hw (wakests c) (unat address)) (\<lambda>present.
       if \<not> present then ret None
       else
         seq (lift (codec_address_new address)) (\<lambda>ca.
         seq (lift (node_address_new ca 0)) (\<lambda>root.
         seq (ask hw c vendor_id_response_try_from (GetParameter root P_VendorId)) (\<lambda>vendor.
         seq (ask hw c revision_id_response_try_from (GetParameter root P_RevisionId)) (\<lambda>revision.
         seq (scan_codec_for_available_function_groups hw c root) (\<lambda>groups.
           ret (Some \<lparr>cod_address = ca, cod_vendor_id = vendor, cod_revision_id = revision, cod_function_groups = groups\<rparr>)))))))"

definition scan_for_available_codecs :: "'s hw \<Rightarrow> controller \<Rightarrow> ('s, codec list) drv" where
  "scan_for_available_codecs hw c =
     seq (for_each (scan_codec hw c) (map of_nat [0..<unat MAX_AMOUNT_OF_CODECS])) (\<lambda>found. ret (List.map_filter id found))"

end
