(* ===== verification/Ihda_Stream.thy ===== *)
theory Ihda_Stream
  imports Ihda_Controller
begin

text \<open>
  Output streams of \<open>os/kernel/src/device/ihda_controller.rs\<close>: audio buffers in DMA memory, the cyclic buffer, the buffer descriptor
  list that tells the card where the buffers are, \<open>Stream\<close> with its demo sounds, and the configuration of the widgets on the playback
  path of a codec. Sample buffers and lists live in memory on the bus; an address is written out as a natural number.
\<close>

unbundle bit_operations_syntax

section \<open>Buffer descriptors\<close>

definition BUFFER_DESCRIPTOR_LIST_ENTRY_SIZE_IN_BYTES :: nat where "BUFFER_DESCRIPTOR_LIST_ENTRY_SIZE_IN_BYTES = 16"

definition CONTAINER_16BIT_SIZE_IN_BYTES :: nat where "CONTAINER_16BIT_SIZE_IN_BYTES = 2"

definition SAMPLE_RATE_48KHZ :: nat where "SAMPLE_RATE_48KHZ = 48000"

record buffer_descriptor_list_entry =
  bdle_address :: u64
  bdle_length_in_bytes :: u32
  bdle_interrupt_on_completion :: bool

definition bdl_entry_new :: "u64 \<Rightarrow> u32 \<Rightarrow> bool \<Rightarrow> buffer_descriptor_list_entry" where
  "bdl_entry_new address len ioc = \<lparr>bdle_address = address, bdle_length_in_bytes = len, bdle_interrupt_on_completion = ioc\<rparr>"

definition bdl_entry_from :: "u128 \<Rightarrow> buffer_descriptor_list_entry" where
  "bdl_entry_from raw_data =
     \<lparr>bdle_address = ucast (raw_data AND 0xFFFFFFFFFFFFFFFF),
      bdle_length_in_bytes = ucast (drop_bit 64 raw_data AND 0xFFFFFFFF),
      bdle_interrupt_on_completion = (drop_bit 96 raw_data AND 1 = 1)\<rparr>"

definition bdl_entry_as_u128 :: "buffer_descriptor_list_entry \<Rightarrow> u128" where
  "bdl_entry_as_u128 e =
     push_bit 96 (of_bool (bdle_interrupt_on_completion e)) OR push_bit 64 (ucast (bdle_length_in_bytes e)) OR ucast (bdle_address e)"

section \<open>Audio buffers\<close>

record audio_buffer =
  ab_start_address :: u64
  ab_length_in_bytes :: u32

definition sample_address :: "audio_buffer \<Rightarrow> nat \<Rightarrow> nat result" where
  "sample_address b index =
     and_then (usize_mul index CONTAINER_16BIT_SIZE_IN_BYTES) (usize_add (unat (ab_start_address b)))"

definition read_16bit_sample_from_buffer :: "'s hw \<Rightarrow> audio_buffer \<Rightarrow> nat \<Rightarrow> ('s, u16) drv" where
  "read_16bit_sample_from_buffer hw b index =
     seq (lift (sample_address b index)) (\<lambda>a. seq (bus_read hw a 2) (\<lambda>v. ret (ucast v)))"

definition write_16bit_sample_to_buffer :: "'s hw \<Rightarrow> audio_buffer \<Rightarrow> i16 \<Rightarrow> nat \<Rightarrow> ('s, unit) drv" where
  "write_16bit_sample_to_buffer hw b sample index =
     seq (lift (sample_address b index)) (\<lambda>a. bus_write hw a 2 (ucast sample))"

text \<open>\<open>as i32\<close> on a \<open>u32\<close>, and the addition of two \<open>i32\<close>.\<close>

definition as_i32 :: "nat \<Rightarrow> int" where
  "as_i32 n = sint (of_nat n :: u32)"

definition i32_add :: "int \<Rightarrow> int \<Rightarrow> int result" where
  "i32_add a b = (if - (2 ^ 31) \<le> a + b \<and> a + b < 2 ^ 31 then Inr (a + b) else Inl Add_Overflow)"

definition sawtooth_sample :: "nat \<Rightarrow> nat \<Rightarrow> nat \<Rightarrow> i16 result" where
  "sawtooth_sample wavelength_in_samples step_size i =
     and_then (u32_mul (i mod wavelength_in_samples) step_size) (\<lambda>offset.
     and_then (i32_add (- (2 ^ 15)) (as_i32 offset)) (\<lambda>v. Inr (word_of_int v)))"

definition buffer_demo_sawtooth_wave_mono_48khz_16bit :: "'s hw \<Rightarrow> nat \<Rightarrow> audio_buffer \<Rightarrow> ('s, unit) drv" where
  "buffer_demo_sawtooth_wave_mono_48khz_16bit hw frequency b =
     seq (lift (usize_div SAMPLE_RATE_48KHZ frequency)) (\<lambda>wavelength_in_samples.
     seq (lift (usize_div (0xFFFF + 1) wavelength_in_samples)) (\<lambda>step_size.
     seq (for_each (\<lambda>i. seq (lift (sawtooth_sample wavelength_in_samples step_size i)) (\<lambda>sample. write_16bit_sample_to_buffer hw b sample i))
            [0..<unat (ab_length_in_bytes b) div CONTAINER_16BIT_SIZE_IN_BYTES]) (\<lambda>_. ret ())))"

definition square_sample :: "nat \<Rightarrow> nat \<Rightarrow> i16" where
  "square_sample wave_length_in_samples i = (if i < wave_length_in_samples div 2 then 0x8000 else 0x7FFF)"

definition buffer_demo_square_wave_mono_48khz_16bit :: "'s hw \<Rightarrow> nat \<Rightarrow> audio_buffer \<Rightarrow> ('s, unit) drv" where
  "buffer_demo_square_wave_mono_48khz_16bit hw frequency b =
     (let buffer_length_in_samples = unat (ab_length_in_bytes b) div CONTAINER_16BIT_SIZE_IN_BYTES in
      seq (lift (usize_div SAMPLE_RATE_48KHZ frequency)) (\<lambda>wave_length_in_samples.
      seq (lift (usize_div buffer_length_in_samples wave_length_in_samples)) (\<lambda>waves.
      seq (for_each (\<lambda>wave_form.
             for_each (\<lambda>i.
               seq (lift (and_then (u32_mul wave_form wave_length_in_samples) (\<lambda>base. u32_add base i))) (\<lambda>index.
                 write_16bit_sample_to_buffer hw b (square_sample wave_length_in_samples i) index))
               [0..<wave_length_in_samples])
             [0..<waves]) (\<lambda>_. ret ()))))"

section \<open>The cyclic buffer\<close>

record cyclic_buffer =
  cb_length_in_bytes :: u32
  cb_audio_buffers :: "audio_buffer list"

fun audio_buffers_from :: "nat \<Rightarrow> nat \<Rightarrow> nat \<Rightarrow> nat list \<Rightarrow> audio_buffer list result" where
  "audio_buffers_from start bits bytes [] = Inr []"
| "audio_buffers_from start bits bytes (index # rest) =
     and_then (u32_mul index bits) (\<lambda>offset.
     and_then (usize_add start offset) (\<lambda>address.
     and_then (audio_buffers_from start bits bytes rest) (\<lambda>bs.
       Inr (\<lparr>ab_start_address = of_nat address, ab_length_in_bytes = of_nat bytes\<rparr> # bs))))"

definition cyclic_buffer_new ::
  "('e, 'f) entry_ops \<Rightarrow> 'f \<Rightarrow> process_manager \<Rightarrow> nat \<Rightarrow> nat \<Rightarrow> 'e machine \<Rightarrow> (cyclic_buffer \<times> 'e machine) result" where
  "cyclic_buffer_new ops no_cache pm buffer_amount pages_per_buffer m =
     and_then (u32_mul buffer_amount pages_per_buffer) (\<lambda>frame_total.
     and_then (alloc_no_cache_dma_memory ops no_cache pm frame_total m) (\<lambda>(buffer_frame_range, m1).
     and_then (u32_mul pages_per_buffer PAGE_SIZE) (\<lambda>buffer_size_in_bits.
     let buffer_size_in_bytes = buffer_size_in_bits div 8 in
     and_then (audio_buffers_from (range_start buffer_frame_range * PAGE_SIZE) buffer_size_in_bits buffer_size_in_bytes [0..<buffer_amount]) (\<lambda>bs.
     and_then (u32_mul buffer_amount buffer_size_in_bytes) (\<lambda>len.
       Inr (\<lparr>cb_length_in_bytes = of_nat len, cb_audio_buffers = bs\<rparr>, m1))))))"

definition write_16bit_samples_to_buffer :: "'s hw \<Rightarrow> cyclic_buffer \<Rightarrow> nat \<Rightarrow> i16 list \<Rightarrow> ('s, unit) drv" where
  "write_16bit_samples_to_buffer hw cb buffer_index samples =
     (if buffer_index < length (cb_audio_buffers cb)
      then seq (for_each (\<lambda>(index, sample). write_16bit_sample_to_buffer hw (cb_audio_buffers cb ! buffer_index) sample index)
                  (enumerate 0 samples)) (\<lambda>_. ret ())
      else halt Unwrap_None)"

section \<open>The buffer descriptor list\<close>

record buffer_descriptor_list =
  bdl_base_address :: u64
  bdl_entries :: "buffer_descriptor_list_entry list"
  bdl_last_valid_index :: u8

definition BDL_CAPACITY :: nat where "BDL_CAPACITY = 32"

definition buffer_descriptor_list_new ::
  "('e, 'f) entry_ops \<Rightarrow> 'f \<Rightarrow> process_manager \<Rightarrow> cyclic_buffer \<Rightarrow> 'e machine \<Rightarrow> (buffer_descriptor_list \<times> 'e machine) result" where
  "buffer_descriptor_list_new ops no_cache pm cb m =
     (let amount_of_entries = length (cb_audio_buffers cb) mod 2 ^ 16 in
      if amount_of_entries > BDL_CAPACITY then Inl Buffer_Failed
      else
        and_then (alloc_no_cache_dma_memory ops no_cache pm 1 m) (\<lambda>(bdl_frame_range, m1).
        and_then (checked_sub amount_of_entries 1) (\<lambda>last.
          Inr (\<lparr>bdl_base_address = frames_address bdl_frame_range,
                bdl_entries = map (\<lambda>buffer. bdl_entry_new (ab_start_address buffer) (ab_length_in_bytes buffer) True) (cb_audio_buffers cb),
                bdl_last_valid_index = of_nat last\<rparr>, m1))))"

definition bdl_entry_address :: "buffer_descriptor_list \<Rightarrow> nat \<Rightarrow> nat result" where
  "bdl_entry_address bdl index =
     and_then (usize_mul index BUFFER_DESCRIPTOR_LIST_ENTRY_SIZE_IN_BYTES) (\<lambda>offset.
     and_then (usize_add (unat (bdl_base_address bdl)) offset) (\<lambda>a.
       if a = 0 then Inl Unwrap_None else Inr a))"

definition bdl_get_entry :: "'s hw \<Rightarrow> buffer_descriptor_list \<Rightarrow> nat \<Rightarrow> ('s, buffer_descriptor_list_entry) drv" where
  "bdl_get_entry hw bdl index =
     seq (lift (bdl_entry_address bdl index)) (\<lambda>a. seq (bus_read hw a 16) (\<lambda>raw_data. ret (bdl_entry_from raw_data)))"

definition bdl_set_entry :: "'s hw \<Rightarrow> buffer_descriptor_list \<Rightarrow> nat \<Rightarrow> buffer_descriptor_list_entry \<Rightarrow> ('s, unit) drv" where
  "bdl_set_entry hw bdl index e =
     seq (lift (bdl_entry_address bdl index)) (\<lambda>a. bus_write hw a 16 (bdl_entry_as_u128 e))"

text \<open>The loop of \<open>Stream::new\<close> that writes the list to memory.\<close>

definition write_bdl :: "'s hw \<Rightarrow> buffer_descriptor_list \<Rightarrow> ('s, unit) drv" where
  "write_bdl hw bdl =
     seq (for_each (\<lambda>index. if index < length (bdl_entries bdl) then bdl_set_entry hw bdl index (bdl_entries bdl ! index) else halt Unwrap_None)
            [0..<unat (bdl_last_valid_index bdl) + 1]) (\<lambda>_. ret ())"

section \<open>Streams\<close>

record audio_stream =
  str_sd_registers :: sd_registers
  str_buffer_descriptor_list :: buffer_descriptor_list
  str_cyclic_buffer :: cyclic_buffer
  str_stream_format :: stream_format
  str_id :: u8

definition stream_new ::
  "('e, 'f) entry_ops \<Rightarrow> 'f \<Rightarrow> process_manager \<Rightarrow> 's hw \<Rightarrow> sd_registers \<Rightarrow> stream_format \<Rightarrow> nat \<Rightarrow> nat \<Rightarrow> u8 \<Rightarrow>
     (('s, 'e) driver_state, audio_stream) drv" where
  "stream_new ops no_cache pm hw sd fmt buffer_amount pages_per_buffer i =
     seq (on_memory (cyclic_buffer_new ops no_cache pm buffer_amount pages_per_buffer)) (\<lambda>cb.
     seq (on_memory (buffer_descriptor_list_new ops no_cache pm cb)) (\<lambda>bdl.
     seq (on_card (write_bdl hw bdl)) (\<lambda>_.
     seq (on_card (reset_stream hw sd)) (\<lambda>_.
     seq (on_card (set_bdl_pointer_address hw sd (bdl_base_address bdl))) (\<lambda>_.
     seq (on_card (set_cyclic_buffer_lenght hw sd (cb_length_in_bytes cb))) (\<lambda>_.
     seq (on_card (set_last_valid_index hw sd (bdl_last_valid_index bdl))) (\<lambda>_.
     seq (on_card (set_stream_format hw sd fmt)) (\<lambda>_.
     seq (on_card (set_stream_id hw sd i)) (\<lambda>_.
       ret \<lparr>str_sd_registers = sd, str_buffer_descriptor_list = bdl, str_cyclic_buffer = cb, str_stream_format = fmt, str_id = i\<rparr>)))))))))"

definition write_data_to_buffer :: "'s hw \<Rightarrow> audio_stream \<Rightarrow> nat \<Rightarrow> i16 list \<Rightarrow> ('s, unit) drv" where
  "write_data_to_buffer hw st = write_16bit_samples_to_buffer hw (str_cyclic_buffer st)"

definition stream_run :: "'s hw \<Rightarrow> audio_stream \<Rightarrow> ('s, unit) drv" where
  "stream_run hw st = set_stream_run_bit hw (str_sd_registers st)"

definition stream_stop :: "'s hw \<Rightarrow> audio_stream \<Rightarrow> ('s, unit) drv" where
  "stream_stop hw st = clear_stream_run_bit hw (str_sd_registers st)"

definition stream_reset :: "'s hw \<Rightarrow> audio_stream \<Rightarrow> ('s, unit) drv" where
  "stream_reset hw st = reset_stream hw (str_sd_registers st)"

definition stream_demo_sawtooth_wave_mono_48khz_16bit :: "'s hw \<Rightarrow> audio_stream \<Rightarrow> nat \<Rightarrow> ('s, unit) drv" where
  "stream_demo_sawtooth_wave_mono_48khz_16bit hw st frequency =
     seq (for_each (buffer_demo_sawtooth_wave_mono_48khz_16bit hw frequency) (cb_audio_buffers (str_cyclic_buffer st))) (\<lambda>_. ret ())"

definition stream_demo_square_wave_mono_48khz_16bit :: "'s hw \<Rightarrow> audio_stream \<Rightarrow> nat \<Rightarrow> ('s, unit) drv" where
  "stream_demo_square_wave_mono_48khz_16bit hw st frequency =
     seq (for_each (buffer_demo_square_wave_mono_48khz_16bit hw frequency) (cb_audio_buffers (str_cyclic_buffer st))) (\<lambda>_. ret ())"

fun alternate_waves :: "'s hw \<Rightarrow> nat \<Rightarrow> bool \<Rightarrow> audio_buffer list \<Rightarrow> ('s, unit) drv" where
  "alternate_waves hw frequency coin [] = ret ()"
| "alternate_waves hw frequency coin (b # bs) =
     seq (if coin then buffer_demo_square_wave_mono_48khz_16bit hw frequency b
          else buffer_demo_sawtooth_wave_mono_48khz_16bit hw frequency b) (\<lambda>_. alternate_waves hw frequency (\<not> coin) bs)"

definition demo_one_buffer_saw_one_buffer_square_wave_mono_48khz_16bit :: "'s hw \<Rightarrow> audio_stream \<Rightarrow> nat \<Rightarrow> ('s, unit) drv" where
  "demo_one_buffer_saw_one_buffer_square_wave_mono_48khz_16bit hw st frequency =
     alternate_waves hw frequency True (cb_audio_buffers (str_cyclic_buffer st))"

fun rising_sawtooth :: "'s hw \<Rightarrow> nat \<Rightarrow> audio_buffer list \<Rightarrow> ('s, unit) drv" where
  "rising_sawtooth hw frequency [] = ret ()"
| "rising_sawtooth hw frequency (b # bs) =
     seq (buffer_demo_sawtooth_wave_mono_48khz_16bit hw frequency b) (\<lambda>_.
     seq (lift (u32_mul frequency 2)) (\<lambda>frequency'. rising_sawtooth hw frequency' bs))"

definition stream_demo_bachelor_presentation :: "'s hw \<Rightarrow> audio_stream \<Rightarrow> ('s, unit) drv" where
  "stream_demo_bachelor_presentation hw st = rising_sawtooth hw 25 (cb_audio_buffers (str_cyclic_buffer st))"

definition prepare_output_stream ::
  "('e, 'f) entry_ops \<Rightarrow> 'f \<Rightarrow> process_manager \<Rightarrow> 's hw \<Rightarrow> controller \<Rightarrow> nat \<Rightarrow> stream_format \<Rightarrow> nat \<Rightarrow> nat \<Rightarrow> u8 \<Rightarrow>
     (('s, 'e) driver_state, audio_stream) drv" where
  "prepare_output_stream ops no_cache pm hw c output_sound_descriptor_number fmt buffer_amount pages_per_buffer i =
     (if output_sound_descriptor_number < length (output_stream_descriptors c)
      then stream_new ops no_cache pm hw (output_stream_descriptors c ! output_sound_descriptor_number) fmt buffer_amount pages_per_buffer i
      else halt Unwrap_None)"

text \<open>The self test, without its debug output: the running stream moves on and the others stand still.\<close>

definition test_dma_position_buffer ::
  "('e, 'f) entry_ops \<Rightarrow> 'f \<Rightarrow> process_manager \<Rightarrow> 's hw \<Rightarrow> controller \<Rightarrow> (('s, 'e) driver_state, unit) drv" where
  "test_dma_position_buffer ops no_cache pm hw c =
     seq (prepare_output_stream ops no_cache pm hw c 0 stereo_48khz_16bit 2 512 2) (\<lambda>st.
     seq (on_card (stream_run hw st)) (\<lambda>_.
     seq (on_card (delay hw 100)) (\<lambda>_.
     seq (on_card (number_of_input_streams_supported hw c)) (\<lambda>inputs_a.
     seq (on_card (stream_descriptor_position_in_current_buffer hw c (unat inputs_a))) (\<lambda>stream_position_a.
     seq (on_card (delay hw 100)) (\<lambda>_.
     seq (on_card (number_of_input_streams_supported hw c)) (\<lambda>inputs_b.
     seq (on_card (stream_descriptor_position_in_current_buffer hw c (unat inputs_b))) (\<lambda>stream_position_b.
     seq (lift (guard Assert_Failed (stream_position_a \<noteq> 0 \<and> stream_position_a \<noteq> stream_position_b))) (\<lambda>_.
     seq (on_card (number_of_output_streams_supported hw c)) (\<lambda>outputs.
     seq (on_card (for_each (\<lambda>i.
            seq (number_of_input_streams_supported hw c) (\<lambda>inputs.
            seq (lift (u8_add inputs (of_nat i))) (\<lambda>n.
            seq (stream_descriptor_position_in_current_buffer hw c (unat n)) (\<lambda>position.
              lift (guard Assert_Failed (position = 0))))))
            [1..<unat outputs])) (\<lambda>_.
       on_card (stream_reset hw st))))))))))))"

section \<open>Playback configuration\<close>

definition send :: "'s hw \<Rightarrow> controller \<Rightarrow> command \<Rightarrow> ('s, unit) drv" where
  "send hw c cmd = seq (immediate_command hw c cmd) (\<lambda>_. ret ())"

definition stream_format_payload :: "stream_format \<Rightarrow> set_stream_format_payload" where
  "stream_format_payload f =
     \<lparr>ssfp_number_of_channels = sf_number_of_channels f, ssfp_bits_per_sample = sf_bits_per_sample f,
      ssfp_sample_base_rate_divisor = sf_sample_base_rate_divisor f, ssfp_sample_base_rate_multiple = sf_sample_base_rate_multiple f,
      ssfp_sample_base_rate = sf_sample_base_rate f, ssfp_stream_type = sf_stream_type f\<rparr>"

definition configure_widget_for_line_out_playback :: "'s hw \<Rightarrow> controller \<Rightarrow> audio_stream \<Rightarrow> widget \<Rightarrow> ('s, unit) drv" where
  "configure_widget_for_line_out_playback hw c st w =
     (let a = wid_address w in
      case awc_widget_type (wid_audio_widget_capabilities w) of
        WT_AudioOutput \<Rightarrow>
          seq (lift (set_amplifier_gain_mute_payload_new SetAmp_BothTypes SetAmp_BothSides 0 False 100)) (\<lambda>amp.
          seq (send hw c (SetAmplifierGainMute a amp)) (\<lambda>_.
          seq (send hw c (SetChannelStreamId a \<lparr>scsi_channel = 0, scsi_stream = str_id st\<rparr>)) (\<lambda>_.
            send hw c (SetStreamFormat a (stream_format_payload (str_stream_format st))))))
      | WT_AudioMixer \<Rightarrow>
          seq (lift (set_amplifier_gain_mute_payload_new SetAmp_Input SetAmp_BothSides 0 False 60)) (\<lambda>amp.
            send hw c (SetAmplifierGainMute a amp))
      | WT_PinComplex \<Rightarrow>
          seq (lift (set_amplifier_gain_mute_payload_new SetAmp_BothTypes SetAmp_BothSides 0 False 100)) (\<lambda>amp.
          seq (send hw c (SetAmplifierGainMute a amp)) (\<lambda>_.
          seq (ask hw c pin_widget_control_response_try_from (GetPinWidgetControl a)) (\<lambda>pin_widget_control.
            send hw c (SetPinWidgetControl a (enable_input_and_output_amps pin_widget_control)))))
      | _ \<Rightarrow> ret ())"

definition configure_codec_for_line_out_playback :: "'s hw \<Rightarrow> controller \<Rightarrow> codec \<Rightarrow> audio_stream \<Rightarrow> ('s, unit) drv" where
  "configure_codec_for_line_out_playback hw c cod st =
     (if vid_vendor_id (cod_vendor_id cod) = 0x10EC \<and> vid_device_id (cod_vendor_id cod) = 0x280
      then
        (case cod_function_groups cod of
           [] \<Rightarrow> halt Unwrap_None
         | fg # _ \<Rightarrow>
             (case find_widget_path_for_line_out_playback fg of
                None \<Rightarrow> (\<lambda>s. None)
              | Some path \<Rightarrow>
                  seq (lift path) (\<lambda>widgets_on_output_path.
                  seq (for_each (configure_widget_for_line_out_playback hw c st) widgets_on_output_path) (\<lambda>_. ret ()))))
      else halt Unsupported_Codec)"

end
