(* ===== verification/Pci.thy ===== *)
theory Pci
  imports Prelude
begin

text \<open>
  The PCI bus of \<open>os/kernel/src/device/pci.rs\<close>: access to the configuration space through two I/O ports, the recursive scan for devices
  behind bridges, and the search by ids and by class.

  The crate \<open>pci_types\<close> decodes the header of a function; what it reads there is the argument \<open>pci_config\<close>. The scan calls itself
  for the bus behind a bridge: \<open>fuel\<close> bounds this nesting, and \<open>None\<close> says that it was not enough.

  Shown here: for a bus hierarchy that is numbered downwards, as the specification demands, the scan ends within the 256 buses and
  finds exactly the functions that are reachable; a bridge that leads back to its own bus makes the scan endless; a second host
  controller makes it panic; and the address register selects exactly the bus, device, function and offset asked for.
\<close>

unbundle bit_operations_syntax

section \<open>Configuration space\<close>

record pci_address =
  pci_segment :: u16
  pci_bus_number :: u8
  pci_device :: u8
  pci_function :: u8

record 's io_ports =
  out32 :: "u16 \<Rightarrow> u32 \<Rightarrow> 's \<Rightarrow> 's"
  in32 :: "u16 \<Rightarrow> 's \<Rightarrow> u32 \<times> 's"

definition address_raw :: "pci_address \<Rightarrow> u16 \<Rightarrow> u32" where
  "address_raw a offset =
     0x80000000 OR push_bit 16 (ucast (pci_bus_number a)) OR push_bit 11 (ucast (pci_device a)) OR push_bit 8 (ucast (pci_function a))
       OR ucast (offset AND 0xFC)"

definition prepare_access :: "'s io_ports \<Rightarrow> pci_address \<Rightarrow> u16 \<Rightarrow> 's \<Rightarrow> 's" where
  "prepare_access ports a offset s = out32 ports 0xCF8 (address_raw a offset) s"

definition config_read :: "'s io_ports \<Rightarrow> pci_address \<Rightarrow> u16 \<Rightarrow> 's \<Rightarrow> u32 \<times> 's" where
  "config_read ports a offset s = in32 ports 0xCFC (prepare_access ports a offset s)"

definition config_write :: "'s io_ports \<Rightarrow> pci_address \<Rightarrow> u16 \<Rightarrow> u32 \<Rightarrow> 's \<Rightarrow> 's" where
  "config_write ports a offset v s = out32 ports 0xCFC v (prepare_access ports a offset s)"

section \<open>Scan\<close>

definition MAX_DEVICES_PER_BUS :: nat where "MAX_DEVICES_PER_BUS = 32"

definition MAX_FUNCTIONS_PER_DEVICE :: nat where "MAX_FUNCTIONS_PER_DEVICE = 8"

definition INVALID :: u16 where "INVALID = 0xFFFF"

text \<open>
  What the crate reads: vendor and device id, whether the header is that of a bridge to another PCI bus or that of an endpoint,
  whether the device has several functions, base class and sub class, and the number of the bus behind a bridge.
\<close>

record pci_config =
  header_id :: "pci_address \<Rightarrow> u16 \<times> u16"
  is_pci_bridge :: "pci_address \<Rightarrow> bool"
  is_endpoint :: "pci_address \<Rightarrow> bool"
  has_multiple_functions :: "pci_address \<Rightarrow> bool"
  header_class :: "pci_address \<Rightarrow> u8 \<times> u8"
  secondary_bus_number :: "pci_address \<Rightarrow> u8"

definition pci_address_new :: "u16 \<Rightarrow> u8 \<Rightarrow> nat \<Rightarrow> nat \<Rightarrow> pci_address" where
  "pci_address_new seg bus dev fn =
     \<lparr>pci_segment = seg, pci_bus_number = bus, pci_device = of_nat dev, pci_function = of_nat fn\<rparr>"

type_synonym found = "pci_address list result option"

definition after :: "found \<Rightarrow> (pci_address list \<Rightarrow> found) \<Rightarrow> found" where
  "after m k = (case m of None \<Rightarrow> None | Some (Inl p) \<Rightarrow> Some (Inl p) | Some (Inr devs) \<Rightarrow> k devs)"

definition invalid_header :: "pci_config \<Rightarrow> pci_address \<Rightarrow> bool" where
  "invalid_header c a \<longleftrightarrow> fst (header_id c a) = INVALID"

text \<open>\<open>scan\<close> is the recursive call of \<open>scan_bus\<close>.\<close>

definition check_function ::
  "pci_config \<Rightarrow> (pci_address \<Rightarrow> pci_address list \<Rightarrow> found) \<Rightarrow> pci_address \<Rightarrow> pci_address list \<Rightarrow> found" where
  "check_function c scan a devs =
     (if is_pci_bridge c a then scan (pci_address_new 0x8000 (secondary_bus_number c a) 0 0) devs
      else if is_endpoint c a then Some (Inr (devs @ [a]))
      else Some (Inl Unwrap_None))"

fun function_loop ::
  "pci_config \<Rightarrow> (pci_address \<Rightarrow> pci_address list \<Rightarrow> found) \<Rightarrow> pci_address \<Rightarrow> nat list \<Rightarrow> pci_address list \<Rightarrow> found" where
  "function_loop c scan a [] devs = Some (Inr devs)"
| "function_loop c scan a (i # rest) devs =
     (let b = pci_address_new (pci_segment a) (pci_bus_number a) (unat (pci_device a)) i in
      if invalid_header c b then Some (Inr devs)
      else after (check_function c scan b devs) (function_loop c scan a rest))"

definition check_device ::
  "pci_config \<Rightarrow> (pci_address \<Rightarrow> pci_address list \<Rightarrow> found) \<Rightarrow> pci_address \<Rightarrow> pci_address list \<Rightarrow> found" where
  "check_device c scan a devs =
     (if pci_function a \<noteq> 0 then Some (Inl Assert_Failed)
      else if invalid_header c a then Some (Inr devs)
      else after (check_function c scan a devs) (\<lambda>devs1.
        if has_multiple_functions c a then function_loop c scan a [1..<MAX_FUNCTIONS_PER_DEVICE] devs1
        else Some (Inr devs1)))"

fun device_loop ::
  "pci_config \<Rightarrow> (pci_address \<Rightarrow> pci_address list \<Rightarrow> found) \<Rightarrow> pci_address \<Rightarrow> nat list \<Rightarrow> pci_address list \<Rightarrow> found" where
  "device_loop c scan a [] devs = Some (Inr devs)"
| "device_loop c scan a (i # rest) devs =
     after (check_device c scan (pci_address_new (pci_segment a) (pci_bus_number a) i 0) devs) (device_loop c scan a rest)"

fun scan_bus :: "pci_config \<Rightarrow> nat \<Rightarrow> pci_address \<Rightarrow> pci_address list \<Rightarrow> found" where
  "scan_bus c 0 a devs = None"
| "scan_bus c (Suc fuel) a devs =
     (if pci_device a \<noteq> 0 \<or> pci_function a \<noteq> 0 then Some (Inl Assert_Failed)
      else device_loop c (scan_bus c fuel) a [0..<MAX_DEVICES_PER_BUS] devs)"

fun host_loop :: "pci_config \<Rightarrow> nat \<Rightarrow> nat list \<Rightarrow> pci_address list \<Rightarrow> found" where
  "host_loop c fuel [] devs = Some (Inr devs)"
| "host_loop c fuel (i # rest) devs =
     (let a = pci_address_new 0x8000 0 0 i in
      if invalid_header c a then Some (Inr devs) else after (scan_bus c fuel a devs) (host_loop c fuel rest))"

definition pci_scan :: "pci_config \<Rightarrow> nat \<Rightarrow> found" where
  "pci_scan c fuel =
     (let root = pci_address_new 0x8000 0 0 0 in
      if has_multiple_functions c root then host_loop c fuel [0..<MAX_FUNCTIONS_PER_DEVICE] []
      else scan_bus c fuel root [])"

section \<open>Search\<close>

definition search_by_ids :: "pci_config \<Rightarrow> pci_address list \<Rightarrow> u16 \<Rightarrow> u16 \<Rightarrow> pci_address list" where
  "search_by_ids c devs vendor_id device_id = filter (\<lambda>a. header_id c a = (vendor_id, device_id)) devs"

definition search_by_class :: "pci_config \<Rightarrow> pci_address list \<Rightarrow> u8 \<Rightarrow> u8 \<Rightarrow> pci_address list" where
  "search_by_class c devs base_class sub_class = filter (\<lambda>a. header_class c a = (base_class, sub_class)) devs"

section \<open>Reachable functions\<close>

text \<open>The functions of a bus that answer, and the buses that bridges lead to.\<close>

definition populated :: "pci_config \<Rightarrow> u8 \<Rightarrow> pci_address \<Rightarrow> bool" where
  "populated c bus a \<longleftrightarrow> (\<exists>dev fn. dev < MAX_DEVICES_PER_BUS \<and> fn < MAX_FUNCTIONS_PER_DEVICE \<and>
     a = pci_address_new 0x8000 bus dev fn \<and> \<not> invalid_header c (pci_address_new 0x8000 bus dev 0) \<and>
     (fn = 0 \<or> has_multiple_functions c (pci_address_new 0x8000 bus dev 0) \<and>
        (\<forall>g \<in> {1..fn}. \<not> invalid_header c (pci_address_new 0x8000 bus dev g))))"

inductive below :: "pci_config \<Rightarrow> u8 \<Rightarrow> u8 \<Rightarrow> bool" for c where
  same_bus: "below c bus bus"
| behind_bridge: "populated c bus a \<Longrightarrow> is_pci_bridge c a \<Longrightarrow> below c (secondary_bus_number c a) bus' \<Longrightarrow> below c bus bus'"

definition reachable :: "pci_config \<Rightarrow> u8 \<Rightarrow> pci_address set" where
  "reachable c bus = {a. \<not> is_pci_bridge c a \<and> (\<exists>bus'. below c bus bus' \<and> populated c bus' a)}"

text \<open>A bridge leads to a bus with a higher number, and every function is an endpoint or a bridge.\<close>

definition numbered_downwards :: "pci_config \<Rightarrow> bool" where
  "numbered_downwards c \<longleftrightarrow> (\<forall>bus a. populated c bus a \<longrightarrow>
     (if is_pci_bridge c a then bus < secondary_bus_number c a else is_endpoint c a))"

text \<open>The scan appends a list with exactly these elements.\<close>

definition collects :: "(pci_address list \<Rightarrow> found) \<Rightarrow> pci_address set \<Rightarrow> bool" where
  "collects f S \<longleftrightarrow> (\<forall>devs. \<exists>new. f devs = Some (Inr (devs @ new)) \<and> set new = S)"

definition contribution :: "pci_config \<Rightarrow> pci_address \<Rightarrow> pci_address set" where
  "contribution c a = (if is_pci_bridge c a then reachable c (secondary_bus_number c a) else {a})"

text \<open>Functions of one device.\<close>

definition slots :: "pci_config \<Rightarrow> u8 \<Rightarrow> nat \<Rightarrow> nat \<Rightarrow> nat set" where
  "slots c bus dev k = {fn. k \<le> fn \<and> fn < 8 \<and> (\<forall>g \<in> {k..fn}. \<not> invalid_header c (pci_address_new 0x8000 bus dev g))}"

definition device_functions :: "pci_config \<Rightarrow> u8 \<Rightarrow> nat \<Rightarrow> pci_address set" where
  "device_functions c bus dev =
     (if invalid_header c (pci_address_new 0x8000 bus dev 0) then {}
      else insert (pci_address_new 0x8000 bus dev 0)
        (if has_multiple_functions c (pci_address_new 0x8000 bus dev 0) then pci_address_new 0x8000 bus dev ` slots c bus dev 1 else {}))"

text \<open>A host bridge, a bridge to bus 1, and a network card behind it.\<close>

definition example_bus :: pci_config where
  "example_bus =
     \<lparr>header_id = (\<lambda>a. if a \<in> {pci_address_new 0x8000 0 0 0, pci_address_new 0x8000 0 1 0, pci_address_new 0x8000 1 3 0} then (0x8086, 1) else (INVALID, 0)),
      is_pci_bridge = (\<lambda>a. a = pci_address_new 0x8000 0 1 0),
      is_endpoint = (\<lambda>a. a \<noteq> pci_address_new 0x8000 0 1 0),
      has_multiple_functions = (\<lambda>a. False),
      header_class = (\<lambda>a. (2, 0)),
      secondary_bus_number = (\<lambda>a. 1)\<rparr>"

section \<open>Lemmas\<close>

lemma after_simps [simp]:
  "after None k = None" "after (Some (Inl p)) k = Some (Inl p)" "after (Some (Inr devs)) k = k devs"
  by (simp_all add: after_def)

lemma collects_nothing: "collects (\<lambda>devs. Some (Inr devs)) {}"
  by (simp add: collects_def)

lemma collects_one: "collects (\<lambda>devs. Some (Inr (devs @ [a]))) {a}"
  by (auto simp: collects_def)

lemma collects_after:
  assumes "collects f S" "collects g T"
  shows "collects (\<lambda>devs. after (f devs) g) (S \<union> T)"
  unfolding collects_def
proof
  fix devs
  from assms(1) obtain n1 where n1: "f devs = Some (Inr (devs @ n1))" "set n1 = S" unfolding collects_def by blast
  from assms(2) obtain n2 where "g (devs @ n1) = Some (Inr ((devs @ n1) @ n2))" "set n2 = T" unfolding collects_def by blast
  with n1 show "\<exists>new. after (f devs) g = Some (Inr (devs @ new)) \<and> set new = S \<union> T"
    by (intro exI[of _ "n1 @ n2"]) simp
qed

lemma reachable_unfold: "reachable c bus = (\<Union>a \<in> {a. populated c bus a}. contribution c a)"
proof (intro equalityI subsetI)
  fix x assume "x \<in> reachable c bus"
  then obtain bus' where "below c bus bus'" "populated c bus' x" "\<not> is_pci_bridge c x" by (auto simp: reachable_def)
  then show "x \<in> (\<Union>a \<in> {a. populated c bus a}. contribution c a)"
    by cases (auto simp: contribution_def reachable_def)
qed (auto simp: contribution_def reachable_def split: if_splits intro: below.intros)

lemma device_number [simp]: "i < 32 \<Longrightarrow> unat (of_nat i :: u8) = i"
  by (simp add: unat_of_nat)

lemma slots_step:
  assumes "k < 8"
  shows "slots c bus dev k = (if invalid_header c (pci_address_new 0x8000 bus dev k) then {} else insert k (slots c bus dev (Suc k)))"
proof (rule set_eqI)
  fix fn
  consider "fn < k" | "fn = k" | "k < fn" by linarith
  then show "fn \<in> slots c bus dev k \<longleftrightarrow>
      fn \<in> (if invalid_header c (pci_address_new 0x8000 bus dev k) then {} else insert k (slots c bus dev (Suc k)))"
  proof cases
    case 3
    then have "{k..fn} = insert k {Suc k..fn}" by auto
    with 3 show ?thesis by (simp add: slots_def)
  qed (use assms in \<open>simp_all add: slots_def\<close>)
qed

lemma function_loop_collects:
  assumes "dev < 32" "\<And>fn. fn \<in> slots c bus dev k \<Longrightarrow>
    collects (check_function c scan (pci_address_new 0x8000 bus dev fn)) (contribution c (pci_address_new 0x8000 bus dev fn))"
  shows "collects (function_loop c scan (pci_address_new 0x8000 bus dev 0) [k..<8])
    (\<Union>fn \<in> slots c bus dev k. contribution c (pci_address_new 0x8000 bus dev fn))"
  using assms(2)
proof (induction "8 - k" arbitrary: k)
  case 0
  then have "[k..<8] = []" "slots c bus dev k = {}" by (auto simp: slots_def)
  then show ?case by (simp add: collects_def)
next
  case (Suc n)
  let ?a = "pci_address_new 0x8000 bus dev"
  have k: "k < 8" "[k..<8] = k # [Suc k..<8]" using Suc.hyps(2) by (auto simp: upt_conv_Cons)
  have loop: "function_loop c scan (?a 0) [k..<8] devs =
      (if invalid_header c (?a k) then Some (Inr devs) else after (check_function c scan (?a k) devs) (function_loop c scan (?a 0) [Suc k..<8]))"
    for devs using assms(1) k by (simp add: pci_address_new_def Let_def)
  show ?case
  proof (cases "invalid_header c (?a k)")
    case True
    then show ?thesis using slots_step[OF k(1), of c bus dev] by (simp add: collects_def loop)
  next
    case False
    have sl: "slots c bus dev k = insert k (slots c bus dev (Suc k))" using slots_step[OF k(1), of c bus dev] False by simp
    have "collects (function_loop c scan (?a 0) [Suc k..<8]) (\<Union>fn \<in> slots c bus dev (Suc k). contribution c (?a fn))"
      using Suc.hyps Suc.prems sl by auto
    with Suc.prems sl have "collects (\<lambda>devs. after (check_function c scan (?a k) devs) (function_loop c scan (?a 0) [Suc k..<8]))
      (contribution c (?a k) \<union> (\<Union>fn \<in> slots c bus dev (Suc k). contribution c (?a fn)))"
      by (intro collects_after) auto
    then show ?thesis using False by (simp add: collects_def loop sl)
  qed
qed

lemma populated_iff: "populated c bus a \<longleftrightarrow> (\<exists>dev < 32. a \<in> device_functions c bus dev)"
proof
  assume "populated c bus a"
  then obtain dev fn where d: "dev < 32" "fn < 8" "a = pci_address_new 0x8000 bus dev fn"
    "\<not> invalid_header c (pci_address_new 0x8000 bus dev 0)"
    and fn: "fn = 0 \<or> has_multiple_functions c (pci_address_new 0x8000 bus dev 0) \<and>
      (\<forall>g \<in> {1..fn}. \<not> invalid_header c (pci_address_new 0x8000 bus dev g))"
    by (auto simp: populated_def MAX_DEVICES_PER_BUS_def MAX_FUNCTIONS_PER_DEVICE_def)
  then have "a \<in> device_functions c bus dev" by (cases "fn = 0") (auto simp: device_functions_def slots_def)
  with d(1) show "\<exists>dev < 32. a \<in> device_functions c bus dev" by auto
next
  assume "\<exists>dev < 32. a \<in> device_functions c bus dev"
  then obtain dev where d: "dev < 32" "a \<in> device_functions c bus dev" by auto
  then obtain fn where "a = pci_address_new 0x8000 bus dev fn" "fn < 8" "\<not> invalid_header c (pci_address_new 0x8000 bus dev 0)"
    "fn = 0 \<or> has_multiple_functions c (pci_address_new 0x8000 bus dev 0) \<and> fn \<in> slots c bus dev 1"
    by (auto simp: device_functions_def slots_def split: if_splits)
  with d(1) show "populated c bus a"
    unfolding populated_def slots_def MAX_DEVICES_PER_BUS_def MAX_FUNCTIONS_PER_DEVICE_def by blast
qed

lemma check_device_collects:
  assumes "dev < 32" "\<And>a. a \<in> device_functions c bus dev \<Longrightarrow> collects (check_function c scan a) (contribution c a)"
  shows "collects (check_device c scan (pci_address_new 0x8000 bus dev 0)) (\<Union>a \<in> device_functions c bus dev. contribution c a)"
proof -
  let ?a = "pci_address_new 0x8000 bus dev"
  have f0: "pci_function (?a 0) = 0" by (simp add: pci_address_new_def)
  show ?thesis
  proof (cases "invalid_header c (?a 0)")
    case True
    then show ?thesis using f0 by (simp add: collects_def check_device_def device_functions_def)
  next
    case False
    define g where "g = (\<lambda>devs. if has_multiple_functions c (?a 0) then function_loop c scan (?a 0) [1..<MAX_FUNCTIONS_PER_DEVICE] devs
      else Some (Inr devs))"
    have "collects g (\<Union>a \<in> (if has_multiple_functions c (?a 0) then ?a ` slots c bus dev 1 else {}). contribution c a)"
    proof (cases "has_multiple_functions c (?a 0)")
      case True
      then have "collects (function_loop c scan (?a 0) [1..<8]) (\<Union>fn \<in> slots c bus dev 1. contribution c (?a fn))"
        using False assms by (intro function_loop_collects) (auto simp: device_functions_def)
      then show ?thesis using True by (simp add: collects_def g_def MAX_FUNCTIONS_PER_DEVICE_def)
    qed (simp add: collects_def g_def)
    moreover have "collects (check_function c scan (?a 0)) (contribution c (?a 0))"
      using assms False by (simp add: device_functions_def)
    ultimately have "collects (\<lambda>devs. after (check_function c scan (?a 0) devs) g)
      (contribution c (?a 0) \<union> (\<Union>a \<in> (if has_multiple_functions c (?a 0) then ?a ` slots c bus dev 1 else {}). contribution c a))"
      by (rule collects_after[rotated])
    moreover have "check_device c scan (?a 0) = (\<lambda>devs. after (check_function c scan (?a 0) devs) g)"
      by (rule ext) (use False f0 in \<open>simp add: check_device_def g_def\<close>)
    ultimately show ?thesis using False by (simp add: device_functions_def)
  qed
qed

lemma device_loop_collects:
  assumes "\<And>dev. dev \<in> set ds \<Longrightarrow> dev < 32"
    "\<And>a. \<exists>dev \<in> set ds. a \<in> device_functions c bus dev \<Longrightarrow> collects (check_function c scan a) (contribution c a)"
  shows "collects (device_loop c scan (pci_address_new 0x8000 bus 0 0) ds)
    (\<Union>dev \<in> set ds. \<Union>a \<in> device_functions c bus dev. contribution c a)"
  using assms
proof (induction ds)
  case (Cons d ds)
  have "collects (\<lambda>devs. after (check_device c scan (pci_address_new 0x8000 bus d 0) devs)
        (device_loop c scan (pci_address_new 0x8000 bus 0 0) ds))
      ((\<Union>a \<in> device_functions c bus d. contribution c a) \<union> (\<Union>dev \<in> set ds. \<Union>a \<in> device_functions c bus dev. contribution c a))"
    using Cons by (intro collects_after check_device_collects) auto
  then show ?case by (simp add: collects_def pci_address_new_def)
qed (simp add: collects_def)

lemma scan_bus_collects:
  assumes "numbered_downwards c" "256 - unat bus \<le> fuel"
  shows "collects (scan_bus c fuel (pci_address_new 0x8000 bus 0 0)) (reachable c bus)"
  using assms(2)
proof (induction fuel arbitrary: bus)
  case 0
  then show ?case using unsigned_less[of bus, where ?'a = nat] by simp
next
  case (Suc fuel)
  have f: "collects (check_function c (scan_bus c fuel) a) (contribution c a)" if "populated c bus a" for a
  proof (cases "is_pci_bridge c a")
    case True
    with that assms(1) have "bus < secondary_bus_number c a" by (fastforce simp: numbered_downwards_def)
    then have "256 - unat (secondary_bus_number c a) \<le> fuel" using Suc.prems by (simp add: word_less_nat_alt)
    from Suc.IH[OF this] True show ?thesis by (simp add: collects_def check_function_def contribution_def)
  next
    case False
    with that assms(1) have "is_endpoint c a" by (fastforce simp: numbered_downwards_def)
    with False show ?thesis by (simp add: collects_def check_function_def contribution_def)
  qed
  have "collects (device_loop c (scan_bus c fuel) (pci_address_new 0x8000 bus 0 0) [0..<32])
      (\<Union>dev \<in> set [0..<32]. \<Union>a \<in> device_functions c bus dev. contribution c a)"
    by (rule device_loop_collects) (auto intro!: f simp: populated_iff)
  moreover have "{a. populated c bus a} = (\<Union>dev \<in> set [0..<32]. device_functions c bus dev)"
    by (auto simp: populated_iff)
  then have "(\<Union>dev \<in> set [0..<32]. \<Union>a \<in> device_functions c bus dev. contribution c a) = reachable c bus"
    by (simp only: reachable_unfold UN_UN_flatten)
  ultimately show ?case by (simp add: collects_def MAX_DEVICES_PER_BUS_def pci_address_new_def)
qed

lemma example_numbered: "numbered_downwards example_bus"
  unfolding numbered_downwards_def
proof (intro allI impI)
  fix bus a assume "populated example_bus bus a"
  then obtain dev where dev: "a = pci_address_new 0x8000 bus dev 0" "\<not> invalid_header example_bus a" "dev < 32"
    by (auto simp: populated_def example_bus_def MAX_DEVICES_PER_BUS_def)
  then show "if is_pci_bridge example_bus a then bus < secondary_bus_number example_bus a else is_endpoint example_bus a"
    by (auto simp: example_bus_def pci_address_new_def)
qed

section \<open>Properties\<close>

text \<open>
  C28: on a machine with one host controller and a bus hierarchy in which every bridge leads to a bus with a higher number, the
  PCI scan ends (the 256 possible buses bound the nesting of bridges) and finds exactly the functions that can be reached from bus 0
  through bridges: the devices that answer, and of a device with several functions those before the first gap.
\<close>

theorem pci_scan_finds_reachable:
  assumes "numbered_downwards c" "\<not> has_multiple_functions c (pci_address_new 0x8000 0 0 0)" "256 \<le> fuel"
  shows "\<exists>devs. pci_scan c fuel = Some (Inr devs) \<and> set devs = reachable c 0"
  using scan_bus_collects[OF assms(1), of 0 fuel] assms(2,3) by (fastforce simp: pci_scan_def collects_def)

theorem pci_scan_finds_reachable_witness:
  "\<exists>devs. pci_scan example_bus 256 = Some (Inr devs) \<and> set devs = reachable example_bus 0 \<and> pci_address_new 0x8000 1 3 0 \<in> set devs"
proof -
  have pop: "populated example_bus 0 (pci_address_new 0x8000 0 1 0)" "populated example_bus 1 (pci_address_new 0x8000 1 3 0)"
    unfolding populated_def
    by (rule exI[of _ 1], rule exI[of _ 0], simp add: example_bus_def invalid_header_def INVALID_def MAX_DEVICES_PER_BUS_def MAX_FUNCTIONS_PER_DEVICE_def)
       (rule exI[of _ 3], rule exI[of _ 0], simp add: example_bus_def invalid_header_def INVALID_def MAX_DEVICES_PER_BUS_def MAX_FUNCTIONS_PER_DEVICE_def)
  have "below example_bus 0 1"
    by (rule behind_bridge[OF pop(1)]) (simp_all add: example_bus_def same_bus)
  moreover have "\<not> is_pci_bridge example_bus (pci_address_new 0x8000 1 3 0)"
    by (simp add: example_bus_def pci_address_new_def)
  ultimately have "pci_address_new 0x8000 1 3 0 \<in> reachable example_bus 0"
    using pop(2) unfolding reachable_def by blast
  moreover have "\<exists>devs. pci_scan example_bus 256 = Some (Inr devs) \<and> set devs = reachable example_bus 0"
    by (rule pci_scan_finds_reachable[OF example_numbered]) (simp_all add: example_bus_def)
  ultimately show ?thesis by auto
qed

text \<open>
  on a machine whose first host controller has several functions, the scan is started again for every further function, and this
  call violates the assertion at the start of \<open>scan_bus\<close>: the kernel panics at boot as soon as function 1 is present.
\<close>

theorem second_host_controller_panics:
  assumes "numbered_downwards c" "has_multiple_functions c (pci_address_new 0x8000 0 0 0)" "256 \<le> fuel"
    and "\<not> invalid_header c (pci_address_new 0x8000 0 0 0)" "\<not> invalid_header c (pci_address_new 0x8000 0 0 1)"
  shows "pci_scan c fuel = Some (Inl Assert_Failed)"
proof -
  obtain devs where "scan_bus c fuel (pci_address_new 0x8000 0 0 0) [] = Some (Inr devs)"
    using scan_bus_collects[OF assms(1), of 0 fuel] assms(3) by (fastforce simp: collects_def)
  moreover obtain n where "fuel = Suc n" using assms(3) by (cases fuel) auto
  then have "scan_bus c fuel (pci_address_new 0x8000 0 0 1) devs = Some (Inl Assert_Failed)"
    by (simp add: pci_address_new_def)
  moreover have "[0..<MAX_FUNCTIONS_PER_DEVICE] = 0 # 1 # [2..<8]"
    by (simp add: MAX_FUNCTIONS_PER_DEVICE_def upt_conv_Cons numeral_2_eq_2)
  ultimately show ?thesis using assms(2,4,5) by (simp add: pci_scan_def Let_def)
qed

theorem second_host_controller_panics_witness:
  "pci_scan (example_bus\<lparr>header_id := (\<lambda>a. if a \<in> {pci_address_new 0x8000 0 0 0, pci_address_new 0x8000 0 0 1} then (0x8086, 1) else (INVALID, 0)),
      has_multiple_functions := (\<lambda>a. a = pci_address_new 0x8000 0 0 0), is_pci_bridge := (\<lambda>a. False), is_endpoint := (\<lambda>a. True)\<rparr>) 256
    = Some (Inl Assert_Failed)"
  by (rule second_host_controller_panics)
     (simp_all add: numbered_downwards_def invalid_header_def INVALID_def)

text \<open>
  a bridge that leads back to its own bus makes the scan call itself without end: no nesting depth is enough.
\<close>

theorem looped_bridge_never_ends:
  assumes "\<not> has_multiple_functions c (pci_address_new 0x8000 0 0 0)" "\<not> invalid_header c (pci_address_new 0x8000 0 0 0)"
    and "is_pci_bridge c (pci_address_new 0x8000 0 0 0)" "secondary_bus_number c (pci_address_new 0x8000 0 0 0) = 0"
  shows "pci_scan c fuel = None"
proof -
  have "scan_bus c fuel (pci_address_new 0x8000 0 0 0) devs = None" for devs
  proof (induction fuel arbitrary: devs)
    case (Suc n)
    have "[0..<MAX_DEVICES_PER_BUS] = 0 # [1..<32]" by (simp add: MAX_DEVICES_PER_BUS_def upt_conv_Cons)
    moreover have "check_device c (scan_bus c n) (pci_address_new 0x8000 0 0 0) devs = None"
      using assms Suc by (simp add: check_device_def check_function_def) (simp add: pci_address_new_def)
    ultimately show ?case by (simp add: pci_address_new_def)
  qed simp
  then show ?thesis using assms(1) by (simp add: pci_scan_def)
qed

theorem looped_bridge_never_ends_witness:
  "pci_scan (example_bus\<lparr>is_pci_bridge := (\<lambda>a. True), secondary_bus_number := (\<lambda>a. 0)\<rparr>) 1000 = None"
  by (rule looped_bridge_never_ends) (simp_all add: example_bus_def invalid_header_def INVALID_def)

text \<open>
  the word written to the address port selects the bus, the device, the function and the aligned offset that were asked for,
  and has the enable bit set.
\<close>

theorem config_address_selects:
  assumes "pci_device a < 32" "pci_function a < 8"
  shows "bit (address_raw a offset) 31 \<and> ucast (drop_bit 16 (address_raw a offset)) = pci_bus_number a \<and>
    ucast (take_bit 5 (drop_bit 11 (address_raw a offset))) = pci_device a \<and>
    ucast (take_bit 3 (drop_bit 8 (address_raw a offset))) = pci_function a \<and>
    ucast (take_bit 8 (address_raw a offset)) = offset AND 0xFC"
proof -
  have bits: "(0x80000000 :: u32) = push_bit 31 1" "(0xFC :: u16) = push_bit 2 (mask 6)"
    by (simp_all add: mask_eq_exp_minus_1)
  have small: "\<not> bit (pci_device a) n" if "5 \<le> n" for n using bit_above[of "pci_device a" 5 n] assms(1) that by simp
  have small': "\<not> bit (pci_function a) n" if "3 \<le> n" for n using bit_above[of "pci_function a" 3 n] assms(2) that by simp
  have "(0x8000 :: int) = 2 ^ 15" by simp
  then have top: "bit (0x8000 :: int) n \<longleftrightarrow> n = 15" for n by (simp only: bit_exp_iff) auto
  show ?thesis unfolding address_raw_def bits
    by (auto simp: bit_simps small small' top intro!: bit_eqI)
qed

theorem config_address_selects_witness:
  "ucast (take_bit 5 (drop_bit 11 (address_raw (pci_address_new 0x8000 3 31 2) 0x10))) = (31 :: u8)"
  using config_address_selects[where a = "pci_address_new 0x8000 3 31 2" and offset = "0x10"] by (simp add: pci_address_new_def)

end
