(* ===== verification/Ihda_Device.thy ===== *)
theory Ihda_Device
  imports Ihda_Stream Apic Pci
begin

text \<open>
  The sound card as the kernel uses it (\<open>os/kernel/src/device/ihda_pci.rs\<close>, \<open>os/kernel/src/device/ihda_api.rs\<close>): finding the card on
  the PCI bus, mapping its registers, connecting its interrupt, bringing up the controller, and the two demos.

  The accesses of the crate \<open>pci_types\<close> to the header of the card are part of the argument \<open>platform\<close>. Flushing the caches
  (\<open>wbinvd\<close>) has no effect in the model; log output is left out.
\<close>

section \<open>Finding and mapping the card\<close>

datatype bar = Memory32 nat nat | Memory64 nat nat | Io_Bar

text \<open>The detection of the emulator: selecting the signature and reading four bytes.\<close>

definition is_available :: "(u16 \<Rightarrow> u16 \<Rightarrow> 's \<Rightarrow> 's) \<Rightarrow> (u16 \<Rightarrow> 's \<Rightarrow> u8 \<times> 's) \<Rightarrow> 's \<Rightarrow> bool \<times> 's" where
  "is_available out16 in8 s =
     (let s0 = out16 0x510 0x0000 s;
          (b0, s1) = in8 0x511 s0; (b1, s2) = in8 0x511 s1; (b2, s3) = in8 0x511 s2; (b3, s4) = in8 0x511 s3
      in (b0 = of_char (CHR ''Q'') \<and> b1 = of_char (CHR ''E'') \<and> b2 = of_char (CHR ''M'') \<and> b3 = of_char (CHR ''U''), s4))"

definition find_ihda_device :: "pci_config \<Rightarrow> pci_address list \<Rightarrow> bool \<Rightarrow> pci_address result" where
  "find_ihda_device c devs qemu =
     (case search_by_class c devs 4 3 of
        [] \<Rightarrow> Inl Not_Initialized
      | first # _ \<Rightarrow>
          if qemu then Inr first
          else unwrap Not_Initialized (find (\<lambda>a. header_id c a = (0x8086, 0x8C20)) (search_by_class c devs 4 3)))"

record ('s, 'e, 'f, 'h, 'io, 'la) platform =
  pl_ops :: "('e, 'f) entry_ops"
  pl_no_cache :: 'f
  pl_manager :: process_manager
  pl_hw :: "'s hw"
  pl_chips :: "('io, 'la) apic_chips"
  pl_handler :: 'h
  pl_config :: pci_config
  pl_devices :: "pci_address list"
  pl_qemu :: bool
  pl_interrupt_line :: "pci_address \<Rightarrow> u8"
  pl_bar0 :: "pci_address \<Rightarrow> bar option"
  pl_set_command_bits :: "pci_address \<Rightarrow> u16 \<Rightarrow> 's \<Rightarrow> 's"

record ('s, 'e, 'h, 'io, 'la) environment =
  env_driver :: "('s, 'e) driver_state"
  env_dispatcher :: "'h dispatcher"
  env_apic :: "('io, 'la) apic"

definition on_driver :: "(('s, 'e) driver_state, 'a) drv \<Rightarrow> (('s, 'e, 'h, 'io, 'la) environment, 'a) drv" where
  "on_driver m = (\<lambda>v. case m (env_driver v) of
      None \<Rightarrow> None
    | Some (Inl p) \<Rightarrow> Some (Inl p)
    | Some (Inr (x, d)) \<Rightarrow> Some (Inr (x, v\<lparr>env_driver := d\<rparr>)))"

text \<open>BUS_MASTER_ENABLE is bit 2 of the command register, MEMORY_ENABLE is bit 1.\<close>

definition configure_pci :: "('s, 'e, 'f, 'h, 'io, 'la) platform \<Rightarrow> pci_address \<Rightarrow> ('s, unit) drv" where
  "configure_pci pl a = (\<lambda>s. Some (Inr ((), pl_set_command_bits pl a 0b10 (pl_set_command_bits pl a 0b100 s))))"

definition map_mmio_space ::
  "('s, 'e, 'f, 'h, 'io, 'la) platform \<Rightarrow> pci_address \<Rightarrow> 'e machine \<Rightarrow> (nat \<times> 'e machine) result" where
  "map_mmio_space pl a m =
     and_then (unwrap Unwrap_None (pl_bar0 pl a)) (\<lambda>bar0.
     and_then (case bar0 of Memory32 address sz \<Rightarrow> Inr (address, sz) | Memory64 address sz \<Rightarrow> Inr (address, sz) | Io_Bar \<Rightarrow> Inl Not_Initialized)
       (\<lambda>(mmio_base_address, mmio_size).
     and_then (map_device_pages (pl_ops pl) (pl_no_cache pl) (pl_manager pl) mmio_base_address (mmio_size div PAGE_SIZE) m) (\<lambda>m1.
       Inr (mmio_base_address, m1))))"

definition X86_CPU_EXCEPTION_OFFSET :: u8 where "X86_CPU_EXCEPTION_OFFSET = 32"

definition connect_device_to_apic ::
  "('s, 'e, 'f, 'h, 'io, 'la) platform \<Rightarrow> u8 \<Rightarrow> (('s, 'e, 'h, 'io, 'la) environment, unit) drv" where
  "connect_device_to_apic pl interrupt_line = (\<lambda>v. Some (
     and_then (u8_add X86_CPU_EXCEPTION_OFFSET interrupt_line) (\<lambda>n.
     and_then (unwrap Unwrap_None (try_from n)) (\<lambda>interrupt_vector.
     and_then (assign interrupt_vector (pl_handler pl) (env_dispatcher v)) (\<lambda>d.
     and_then (allow (pl_chips pl) interrupt_vector (env_apic v)) (\<lambda>a.
       Inr ((), v\<lparr>env_dispatcher := d, env_apic := a\<rparr>)))))))"

section \<open>The device\<close>

record audio_device =
  dev_controller :: controller
  dev_codecs :: "codec list"

definition intel_hd_audio_device_new ::
  "('s, 'e, 'f, 'h, 'io, 'la) platform \<Rightarrow> (('s, 'e, 'h, 'io, 'la) environment, audio_device) drv" where
  "intel_hd_audio_device_new pl =
     (let hw = pl_hw pl in
     seq (lift (find_ihda_device (pl_config pl) (pl_devices pl) (pl_qemu pl))) (\<lambda>ihda_device.
     seq (on_driver (on_card (configure_pci pl ihda_device))) (\<lambda>_.
     seq (connect_device_to_apic pl (pl_interrupt_line pl ihda_device)) (\<lambda>_.
     seq (on_driver (on_memory (map_mmio_space pl ihda_device))) (\<lambda>mmio_base_address.
     seq (on_driver (on_card (controller_new hw mmio_base_address))) (\<lambda>c.
     seq (on_driver (on_card (controller_reset hw c))) (\<lambda>_.
     seq (on_driver (on_card (configure hw c))) (\<lambda>_.
     seq (on_driver (init_corb hw c)) (\<lambda>_.
     seq (on_driver (init_rirb hw c)) (\<lambda>_.
     seq (on_driver (on_card (start_corb hw c))) (\<lambda>_.
     seq (on_driver (on_card (start_rirb hw c))) (\<lambda>_.
     seq (on_driver (on_card (test_corb_and_rirb hw c))) (\<lambda>_.
     seq (on_driver (init_dma_position_buffer (pl_ops pl) (pl_no_cache pl) (pl_manager pl) hw c)) (\<lambda>_.
     seq (on_driver (test_dma_position_buffer (pl_ops pl) (pl_no_cache pl) (pl_manager pl) hw c)) (\<lambda>_.
     seq (on_driver (on_card (scan_for_available_codecs hw c))) (\<lambda>codecs.
       ret \<lparr>dev_controller = c, dev_codecs = codecs\<rparr>))))))))))))))))"

text \<open>The end of both demos: configure the first codec, wait, run.\<close>

definition play :: "'s hw \<Rightarrow> audio_device \<Rightarrow> audio_stream \<Rightarrow> ('s, unit) drv" where
  "play hw dev st =
     (case dev_codecs dev of
        [] \<Rightarrow> halt Unwrap_None
      | cod # _ \<Rightarrow>
          seq (configure_codec_for_line_out_playback hw (dev_controller dev) cod st) (\<lambda>_.
          seq (delay hw 1000) (\<lambda>_. stream_run hw st)))"

definition audio_demo :: "('s, 'e, 'f, 'h, 'io, 'la) platform \<Rightarrow> audio_device \<Rightarrow> (('s, 'e) driver_state, unit) drv" where
  "audio_demo pl dev =
     seq (prepare_output_stream (pl_ops pl) (pl_no_cache pl) (pl_manager pl) (pl_hw pl) (dev_controller dev) 0 mono_48khz_16bit 2 128 1) (\<lambda>st.
     seq (on_card (stream_demo_sawtooth_wave_mono_48khz_16bit (pl_hw pl) st 750)) (\<lambda>_.
       on_card (play (pl_hw pl) dev st)))"

definition audio_demo_bachelor_presentation ::
  "('s, 'e, 'f, 'h, 'io, 'la) platform \<Rightarrow> audio_device \<Rightarrow> (('s, 'e) driver_state, unit) drv" where
  "audio_demo_bachelor_presentation pl dev =
     seq (prepare_output_stream (pl_ops pl) (pl_no_cache pl) (pl_manager pl) (pl_hw pl) (dev_controller dev) 0 stereo_48khz_16bit 8 512 1) (\<lambda>st.
     seq (on_card (stream_demo_bachelor_presentation (pl_hw pl) st)) (\<lambda>_.
       on_card (play (pl_hw pl) dev st)))"

end
