(* ===== verification/Lfb.thy ===== *)
theory Lfb
  imports Graphic_Color
begin

text \<open>
  The linear frame buffer (\<open>os/library/graphic/src/lfb.rs\<close>) and its buffered variant
  (\<open>os/library/graphic/src/buffered_lfb.rs\<close>). A buffer is a function from byte offsets; the arithmetic on
  32 bit coordinates panics on overflow. The glyphs of the \<open>font8x8\<close> crate are the argument \<open>font\<close>, and the
  floating point mixture of two half transparent colours is the argument \<open>mix\<close>.

  Shown here: in a well formed buffer no drawing operation panics; drawing an opaque pixel changes exactly
  that pixel, to what the pixel format keeps of the colour; and filling a rectangle changes exactly the
  visible pixels of the rectangle.
\<close>

unbundle bit_operations_syntax

section \<open>Data\<close>

type_synonym byte_buffer = "nat \<Rightarrow> u8"

record lfb =
  lfb_buffer :: byte_buffer
  lfb_pitch :: nat
  lfb_width :: nat
  lfb_height :: nat
  lfb_bpp :: u8

definition CHAR_HEIGHT :: nat where "CHAR_HEIGHT = 16"

definition CHAR_WIDTH :: nat where "CHAR_WIDTH = 8"

definition lfb_new :: "byte_buffer \<Rightarrow> nat \<Rightarrow> nat \<Rightarrow> nat \<Rightarrow> u8 \<Rightarrow> lfb" where
  "lfb_new buffer pitch width height bpp =
     \<lparr>lfb_buffer = buffer, lfb_pitch = pitch, lfb_width = width, lfb_height = height, lfb_bpp = bpp\<rparr>"

section \<open>Pixels\<close>

text \<open>Writing the bytes of a value, lowest first, and reading a 32 bit value.\<close>

fun write_bytes_at :: "nat \<Rightarrow> u8 list \<Rightarrow> byte_buffer \<Rightarrow> byte_buffer" where
  "write_bytes_at a [] b = b"
| "write_bytes_at a (v # vs) b = write_bytes_at (a + 1) vs (b(a := v))"

definition read_u32 :: "nat \<Rightarrow> byte_buffer \<Rightarrow> u32" where
  "read_u32 a b =
     ucast (b a) OR push_bit 8 (ucast (b (a + 1))) OR push_bit 16 (ucast (b (a + 2))) OR push_bit 24 (ucast (b (a + 3)))"

definition bytes_16 :: "u16 \<Rightarrow> u8 list" where
  "bytes_16 v = [ucast v, ucast (drop_bit 8 v)]"

definition bytes_32 :: "u32 \<Rightarrow> u8 list" where
  "bytes_32 v = [ucast v, ucast (drop_bit 8 v), ucast (drop_bit 16 v), ucast (drop_bit 24 v)]"

definition draw_pixel_15_bit :: "nat \<Rightarrow> nat \<Rightarrow> nat \<Rightarrow> color \<Rightarrow> byte_buffer \<Rightarrow> byte_buffer result" where
  "draw_pixel_15_bit pitch x y c b =
     and_then (u32_mul y (pitch div 2)) (\<lambda>row. and_then (u32_add x row) (\<lambda>index.
       Inr (write_bytes_at (2 * index) (bytes_16 (rgb_15 c)) b)))"

definition draw_pixel_16_bit :: "nat \<Rightarrow> nat \<Rightarrow> nat \<Rightarrow> color \<Rightarrow> byte_buffer \<Rightarrow> byte_buffer result" where
  "draw_pixel_16_bit pitch x y c b =
     and_then (u32_mul y (pitch div 2)) (\<lambda>row. and_then (u32_add x row) (\<lambda>index.
       Inr (write_bytes_at (2 * index) (bytes_16 (rgb_16 c)) b)))"

definition draw_pixel_24_bit :: "nat \<Rightarrow> nat \<Rightarrow> nat \<Rightarrow> color \<Rightarrow> byte_buffer \<Rightarrow> byte_buffer result" where
  "draw_pixel_24_bit pitch x y c b =
     and_then (u32_mul x 3) (\<lambda>col. and_then (u32_mul y pitch) (\<lambda>row. and_then (u32_add col row) (\<lambda>index.
       let rgb = rgb_24 c in
       Inr (write_bytes_at index
         [ucast (rgb AND 0xff), ucast (drop_bit 8 rgb AND 0xff), ucast (drop_bit 16 rgb AND 0xff)] b))))"

definition draw_pixel_32_bit :: "nat \<Rightarrow> nat \<Rightarrow> nat \<Rightarrow> color \<Rightarrow> byte_buffer \<Rightarrow> byte_buffer result" where
  "draw_pixel_32_bit pitch x y c b =
     and_then (u32_mul y (pitch div 4)) (\<lambda>row. and_then (u32_add x row) (\<lambda>index.
       Inr (write_bytes_at (4 * index) (bytes_32 (rgb_32 c)) b)))"

text \<open>The pixel drawer chosen by \<open>LFB::new\<close>; the stub for other depths panics.\<close>

definition pixel_drawer :: "u8 \<Rightarrow> nat \<Rightarrow> nat \<Rightarrow> nat \<Rightarrow> color \<Rightarrow> byte_buffer \<Rightarrow> byte_buffer result" where
  "pixel_drawer bpp =
     (if bpp = 15 then draw_pixel_15_bit
      else if bpp = 16 then draw_pixel_16_bit
      else if bpp = 24 then draw_pixel_24_bit
      else if bpp = 32 then draw_pixel_32_bit
      else (\<lambda>pitch x y c b. Inl Invalid_Bpp))"

definition read_pixel :: "nat \<Rightarrow> nat \<Rightarrow> lfb \<Rightarrow> color result" where
  "read_pixel x y l =
     and_then (checked_sub (lfb_width l) 1) (\<lambda>w. and_then (guard Index_Out_Of_Bounds (\<not> x > w)) (\<lambda>_.
     and_then (checked_sub (lfb_height l) 1) (\<lambda>h. and_then (guard Index_Out_Of_Bounds (\<not> y > h)) (\<lambda>_.
       let bpp = (if lfb_bpp l = 15 then 16 else lfb_bpp l) in
       and_then (u32_mul x (unat bpp div 8)) (\<lambda>col. and_then (u32_mul y (lfb_pitch l)) (\<lambda>row.
       and_then (u32_add col row) (\<lambda>offset. from_rgb (read_u32 offset (lfb_buffer l)) (lfb_bpp l))))))))"

definition blend :: "(color \<Rightarrow> color \<Rightarrow> color) \<Rightarrow> color \<Rightarrow> color \<Rightarrow> color" where
  "blend mix c color =
     (if alpha color = 0 then c
      else if alpha color = 0xff then color
      else if alpha c = 0 then mix BLACK color
      else mix c color)"

definition draw_pixel :: "(color \<Rightarrow> color \<Rightarrow> color) \<Rightarrow> nat \<Rightarrow> nat \<Rightarrow> color \<Rightarrow> lfb \<Rightarrow> lfb result" where
  "draw_pixel mix x y color l =
     (if x \<ge> lfb_width l \<or> y \<ge> lfb_height l then Inr l
      else if alpha color = 0 then Inr l
      else
        and_then (if alpha color < 255 then and_then (read_pixel x y l) (\<lambda>c. Inr (blend mix c color)) else Inr color) (\<lambda>c.
        and_then (pixel_drawer (lfb_bpp l) (lfb_pitch l) x y c (lfb_buffer l)) (\<lambda>b. Inr (l\<lparr>lfb_buffer := b\<rparr>))))"

section \<open>Shapes\<close>

fun draw_pixels :: "(color \<Rightarrow> color \<Rightarrow> color) \<Rightarrow> (nat \<times> nat \<times> color) list \<Rightarrow> lfb \<Rightarrow> lfb result" where
  "draw_pixels mix [] l = Inr l"
| "draw_pixels mix ((x, y, c) # ps) l = and_then (draw_pixel mix x y c l) (draw_pixels mix ps)"

definition fill_rect :: "(color \<Rightarrow> color \<Rightarrow> color) \<Rightarrow> nat \<Rightarrow> nat \<Rightarrow> nat \<Rightarrow> nat \<Rightarrow> color \<Rightarrow> lfb \<Rightarrow> lfb result" where
  "fill_rect mix x y width height color l =
     and_then (u32_add x width) (\<lambda>end_x. and_then (u32_add y height) (\<lambda>end_y.
       draw_pixels mix (concat (map (\<lambda>i. map (\<lambda>j. (j, i, color)) [x..<end_x]) [y..<end_y])) l))"

text \<open>The pixels of a glyph: each row is drawn twice, bit 0 leftmost.\<close>

fun glyph_pixels :: "nat \<Rightarrow> nat \<Rightarrow> color \<Rightarrow> color \<Rightarrow> u8 list \<Rightarrow> nat \<Rightarrow> (nat \<times> nat \<times> color) list" where
  "glyph_pixels x y fg bg [] y_offset = []"
| "glyph_pixels x y fg bg (row # rows) y_offset =
     concat (map (\<lambda>col. let color = (if row AND push_bit col 1 = 0 then bg else fg) in
                    [(x + col, y + y_offset, color), (x + col, y + y_offset + 1, color)]) [0..<8])
     @ glyph_pixels x y fg bg rows (y_offset + 2)"

definition draw_char ::
  "(nat \<Rightarrow> u8 list option) \<Rightarrow> (color \<Rightarrow> color \<Rightarrow> color) \<Rightarrow> nat \<Rightarrow> nat \<Rightarrow> color \<Rightarrow> color \<Rightarrow> nat \<Rightarrow> lfb \<Rightarrow> (bool \<times> lfb) result" where
  "draw_char font mix x y fg bg c l =
     (case font c of
        Some bitmap \<Rightarrow>
          and_then (guard Add_Overflow (x + 7 < 2 ^ 32 \<and> y + 2 * length bitmap \<le> 2 ^ 32)) (\<lambda>_.
          and_then (draw_pixels mix (glyph_pixels x y fg bg bitmap 0) l) (\<lambda>l'. Inr (True, l')))
      | None \<Rightarrow> Inr (False, l))"

fun draw_string ::
  "(nat \<Rightarrow> u8 list option) \<Rightarrow> (color \<Rightarrow> color \<Rightarrow> color) \<Rightarrow> nat \<Rightarrow> nat \<Rightarrow> color \<Rightarrow> color \<Rightarrow> nat list \<Rightarrow> lfb \<Rightarrow> lfb result" where
  "draw_string font mix x y fg bg [] l = Inr l"
| "draw_string font mix x y fg bg (c # cs) l =
     and_then (draw_char font mix x y fg bg c l) (\<lambda>(_, l').
       if cs = [] then Inr l'
       else and_then (u32_add x CHAR_WIDTH) (\<lambda>x'. draw_string font mix x' y fg bg cs l'))"

definition lfb_clear :: "lfb \<Rightarrow> lfb result" where
  "lfb_clear l = and_then (u32_mul (lfb_pitch l) (lfb_height l)) (\<lambda>n.
     Inr (l\<lparr>lfb_buffer := (\<lambda>a. if a < n then 0 else lfb_buffer l a)\<rparr>))"

definition lfb_scroll_up :: "nat \<Rightarrow> lfb \<Rightarrow> lfb result" where
  "lfb_scroll_up lines l =
     and_then (u32_mul (lfb_pitch l) lines) (\<lambda>skip.
     and_then (checked_sub (lfb_height l) lines) (\<lambda>rest.
     and_then (u32_mul (lfb_pitch l) rest) (\<lambda>n.
       Inr (l\<lparr>lfb_buffer := (\<lambda>a. if a < n then lfb_buffer l (a + skip)
                              else if a < n + skip then 0 else lfb_buffer l a)\<rparr>))))"

section \<open>Double buffering\<close>

record buffered_lfb =
  back_lfb :: lfb
  target_lfb :: lfb

definition buffered_lfb_new :: "byte_buffer \<Rightarrow> lfb \<Rightarrow> buffered_lfb result" where
  "buffered_lfb_new fresh l =
     and_then (u32_mul (lfb_height l) (lfb_pitch l)) (\<lambda>_.
       Inr \<lparr>back_lfb = lfb_new fresh (lfb_pitch l) (lfb_width l) (lfb_height l) (lfb_bpp l), target_lfb = l\<rparr>)"

definition flush_lines :: "nat \<Rightarrow> nat \<Rightarrow> buffered_lfb \<Rightarrow> buffered_lfb result" where
  "flush_lines start count s =
     and_then (u32_mul (lfb_pitch (back_lfb s)) start) (\<lambda>offset.
     and_then (u32_mul (lfb_pitch (back_lfb s)) count) (\<lambda>n.
       Inr (s\<lparr>target_lfb := (target_lfb s)\<lparr>lfb_buffer := (\<lambda>a.
         if offset \<le> a \<and> a < offset + n then lfb_buffer (back_lfb s) a else lfb_buffer (target_lfb s) a)\<rparr>\<rparr>)))"

definition flush :: "buffered_lfb \<Rightarrow> buffered_lfb result" where
  "flush s = flush_lines 0 (lfb_height (back_lfb s)) s"

section \<open>Well formed buffers\<close>

definition bytes_per_pixel :: "u8 \<Rightarrow> nat" where
  "bytes_per_pixel bpp = (if bpp = 32 then 4 else if bpp = 24 then 3 else 2)"

definition wf_lfb :: "lfb \<Rightarrow> bool" where
  "wf_lfb l \<longleftrightarrow> lfb_bpp l \<in> {15, 16, 24, 32} \<and> bytes_per_pixel (lfb_bpp l) * lfb_width l \<le> lfb_pitch l \<and>
     lfb_pitch l * lfb_height l < 2 ^ 32 \<and> lfb_pitch l mod 4 = 0"

definition pixel_offset :: "lfb \<Rightarrow> nat \<Rightarrow> nat \<Rightarrow> nat" where
  "pixel_offset l x y = bytes_per_pixel (lfb_bpp l) * x + lfb_pitch l * y"

definition pixel_bytes :: "u8 \<Rightarrow> color \<Rightarrow> u8 list" where
  "pixel_bytes bpp c =
     (if bpp = 32 then bytes_32 (rgb_32 c)
      else if bpp = 24 then [ucast (rgb_24 c AND 0xff), ucast (drop_bit 8 (rgb_24 c) AND 0xff), ucast (drop_bit 16 (rgb_24 c) AND 0xff)]
      else if bpp = 16 then bytes_16 (rgb_16 c) else bytes_16 (rgb_15 c))"

definition on_screen :: "lfb \<Rightarrow> nat \<Rightarrow> nat \<Rightarrow> bool" where
  "on_screen l x y \<longleftrightarrow> x < lfb_width l \<and> y < lfb_height l"

lemma bytes_per_pixel_simps [simp]:
  "bytes_per_pixel 15 = 2" "bytes_per_pixel 16 = 2" "bytes_per_pixel 24 = 3" "bytes_per_pixel 32 = 4"
  by (simp_all add: bytes_per_pixel_def)

lemma length_pixel_bytes: "length (pixel_bytes bpp c) = bytes_per_pixel bpp"
  by (simp add: pixel_bytes_def bytes_per_pixel_def bytes_32_def bytes_16_def)

lemma pixel_end:
  assumes "wf_lfb l" "on_screen l x y"
  shows "pixel_offset l x y + bytes_per_pixel (lfb_bpp l) \<le> lfb_pitch l * Suc y" "pixel_offset l x y < 2 ^ 32"
    "lfb_pitch l * y \<le> pixel_offset l x y"
proof -
  let ?B = "bytes_per_pixel (lfb_bpp l)"
  have "?B * Suc x \<le> ?B * lfb_width l" using assms(2) by (intro mult_le_mono2) (simp add: on_screen_def)
  then have a: "?B * x + ?B \<le> lfb_pitch l" using assms(1) by (simp add: wf_lfb_def)
  then show b: "pixel_offset l x y + ?B \<le> lfb_pitch l * Suc y" by (simp add: pixel_offset_def)
  have "lfb_pitch l * Suc y \<le> lfb_pitch l * lfb_height l" using assms(2) by (intro mult_le_mono2) (simp add: on_screen_def)
  moreover have "0 < ?B" by (simp add: bytes_per_pixel_def)
  ultimately show "pixel_offset l x y < 2 ^ 32" using b assms(1) by (simp add: wf_lfb_def)
  show "lfb_pitch l * y \<le> pixel_offset l x y" by (simp add: pixel_offset_def)
qed

lemma drawer_effect:
  assumes wf: "wf_lfb l" and s: "on_screen l x y"
  shows "pixel_drawer (lfb_bpp l) (lfb_pitch l) x y c b = Inr (write_bytes_at (pixel_offset l x y) (pixel_bytes (lfb_bpp l) c) b)"
proof -
  note o = pixel_end[OF wf s]
  have p: "lfb_pitch l mod 4 = 0" using wf by (simp add: wf_lfb_def)
  have row: "k * (y * (lfb_pitch l div k)) = lfb_pitch l * y" if "k = 2 \<or> k = 4" for k
  proof -
    have "k dvd lfb_pitch l" using that p by (auto intro: dvd_trans[of 2 4])
    then have "k * (lfb_pitch l div k) = lfb_pitch l" by simp
    then show ?thesis by (metis mult.assoc mult.commute)
  qed
  have two: "2 * (x + y * (lfb_pitch l div 2)) = pixel_offset l x y" if "lfb_bpp l = 15 \<or> lfb_bpp l = 16"
    using row[of 2] disjE[OF that, of "bytes_per_pixel (lfb_bpp l) = 2"] by (simp add: pixel_offset_def distrib_left)
  have four: "4 * (x + y * (lfb_pitch l div 4)) = pixel_offset l x y" if "lfb_bpp l = 32"
    using row[of 4] that by (simp add: pixel_offset_def distrib_left)
  have "lfb_bpp l = 15 \<or> lfb_bpp l = 16 \<or> lfb_bpp l = 24 \<or> lfb_bpp l = 32" using wf by (auto simp: wf_lfb_def)
  then show ?thesis
  proof (elim disjE)
    assume b: "lfb_bpp l = 15"
    then show ?thesis using two o(2)
      by (simp add: pixel_drawer_def draw_pixel_15_bit_def u32_mul_def u32_add_def pixel_bytes_def)
  next
    assume b: "lfb_bpp l = 16"
    then show ?thesis using two o(2)
      by (simp add: pixel_drawer_def draw_pixel_16_bit_def u32_mul_def u32_add_def pixel_bytes_def)
  next
    assume b: "lfb_bpp l = 24"
    then show ?thesis using o(2)
      by (simp add: pixel_drawer_def draw_pixel_24_bit_def u32_mul_def u32_add_def pixel_bytes_def pixel_offset_def
          bytes_per_pixel_def Let_def mult.commute)
  next
    assume b: "lfb_bpp l = 32"
    then show ?thesis using four o(2)
      by (simp add: pixel_drawer_def draw_pixel_32_bit_def u32_mul_def u32_add_def pixel_bytes_def)
  qed
qed

text \<open>Bytes written and read.\<close>

lemma write_bytes_outside: "a < s \<or> s + length vs \<le> a \<Longrightarrow> write_bytes_at s vs b a = b a"
  by (induction vs arbitrary: s b) auto

lemma write_bytes_inside: "k < length vs \<Longrightarrow> write_bytes_at s vs b (s + k) = vs ! k"
proof (induction vs arbitrary: s b k)
  case (Cons v vs)
  show ?case
  proof (cases k)
    case 0
    then show ?thesis using write_bytes_outside[of s "s + 1" vs] by simp
  next
    case (Suc j)
    then show ?thesis using Cons.IH[of j "s + 1"] Cons.prems by simp
  qed
qed simp

text \<open>Decoding looks only at the bytes of the pixel.\<close>

lemma from_rgb_bytes:
  assumes "bpp \<in> {15, 16, 24, 32}" "\<And>k. k < bytes_per_pixel bpp \<Longrightarrow> b (a + k) = b' (a' + k)"
  shows "from_rgb (read_u32 a b) bpp = from_rgb (read_u32 a' b') bpp"
proof -
  have e: "b a = b' a'" "b (a + 1) = b' (a' + 1)" using assms(2)[of 0] assms(2)[of 1] by (simp_all add: bytes_per_pixel_def)
  have lo: "(ucast (read_u32 a b) :: u16) = ucast (read_u32 a' b')"
    using e by (intro u16_eq_bits) (simp add: read_u32_def bit_simps)
  consider "bpp = 15" | "bpp = 16" | "bpp = 24" "b (a + 2) = b' (a' + 2)" | "bpp = 32" "b (a + 2) = b' (a' + 2)" "b (a + 3) = b' (a' + 3)"
    using assms(1) assms(2)[of 2] assms(2)[of 3] by (auto simp: bytes_per_pixel_def)
  then show ?thesis
  proof cases
    case 3
    then have "from_rgb_24 (read_u32 a b) = from_rgb_24 (read_u32 a' b')"
      using e by (auto simp: from_rgb_24_def read_u32_def bit_simps intro!: u8_eq_bits)
    then show ?thesis using 3 by (simp add: from_rgb_def)
  next
    case 4
    then show ?thesis using e by (simp add: read_u32_def)
  qed (simp_all add: from_rgb_def lo)
qed

lemma decode_pixel_bytes:
  assumes "bpp \<in> {15, 16, 24, 32}"
  shows "from_rgb (read_u32 s (write_bytes_at s (pixel_bytes bpp c) b)) bpp = Inr (kept_color c bpp)"
proof -
  let ?b = "write_bytes_at s (pixel_bytes bpp c) b"
  have r: "?b (s + k) = pixel_bytes bpp c ! k" if "k < bytes_per_pixel bpp" for k
    by (rule write_bytes_inside) (simp add: length_pixel_bytes that)
  define w where "w = write_bytes_at 0 (bytes_32 (pixel_of c bpp)) (\<lambda>_. 0)"
  have "w k = bytes_32 (pixel_of c bpp) ! k" if "k < 4" for k
    using write_bytes_inside[of k "bytes_32 (pixel_of c bpp)" 0] that by (simp add: w_def bytes_32_def)
  from this[of 0] this[of 1] this[of 2] this[of 3]
  have w: "w 0 = ucast (pixel_of c bpp)" "w 1 = ucast (drop_bit 8 (pixel_of c bpp))" "w 2 = ucast (drop_bit 16 (pixel_of c bpp))"
    "w 3 = ucast (drop_bit 24 (pixel_of c bpp))" by (simp_all add: bytes_32_def)
  have v: "read_u32 0 w = pixel_of c bpp"
    unfolding read_u32_def add_0 w by (rule u32_eq_bits) (simp add: bit_simps)
  have "?b (s + k) = w (0 + k)" if k: "k < bytes_per_pixel bpp" for k
  proof -
    have "pixel_bytes bpp c ! k = w k"
      using assms k w by (auto simp: pixel_bytes_def bytes_per_pixel_def pixel_of_def bytes_32_def bytes_16_def less_Suc_eq numeral_eq_Suc
          bit_simps intro!: u8_eq_bits split: if_splits)
    then show ?thesis using r[OF k] by simp
  qed
  from from_rgb_bytes[OF assms, of ?b s w 0] this v have "from_rgb (read_u32 s ?b) bpp = from_rgb (pixel_of c bpp) bpp" by simp
  also have "... = Inr (kept_color c bpp)" using assms
    by (auto simp: from_rgb_def pixel_of_def from_rgb_32_rgb_32 from_rgb_24_rgb_24 from_rgb_16_rgb_16
        from_rgb_15_rgb_15 ucast_down_up kept_color_def)
  finally show ?thesis .
qed


section \<open>Reading back\<close>

definition same_mode :: "lfb \<Rightarrow> lfb \<Rightarrow> bool" where
  "same_mode l l' \<longleftrightarrow> lfb_pitch l' = lfb_pitch l \<and> lfb_width l' = lfb_width l \<and> lfb_height l' = lfb_height l \<and> lfb_bpp l' = lfb_bpp l"

lemma same_mode_simps [simp]: "same_mode l l" "same_mode l (l\<lparr>lfb_buffer := b\<rparr>)"
  by (simp_all add: same_mode_def)

lemma same_mode_trans: "same_mode l l' \<Longrightarrow> same_mode l' l'' \<Longrightarrow> same_mode l l''"
  by (simp add: same_mode_def)

lemma same_mode_facts:
  "same_mode l l' \<Longrightarrow> wf_lfb l' = wf_lfb l" "same_mode l l' \<Longrightarrow> on_screen l' x y = on_screen l x y"
  "same_mode l l' \<Longrightarrow> pixel_offset l' x y = pixel_offset l x y"
  by (simp_all add: same_mode_def wf_lfb_def on_screen_def pixel_offset_def)

lemma read_pixel_on_screen:
  assumes wf: "wf_lfb l" and s: "on_screen l x y"
  shows "read_pixel x y l = from_rgb (read_u32 (pixel_offset l x y) (lfb_buffer l)) (lfb_bpp l)"
proof -
  have b: "lfb_bpp l \<in> {15, 16, 24, 32}" using wf by (simp add: wf_lfb_def)
  then have "unat (if lfb_bpp l = 15 then 16 else lfb_bpp l) div 8 = bytes_per_pixel (lfb_bpp l)" by auto
  then have k: "x * (unat (if lfb_bpp l = 15 then 16 else lfb_bpp l) div 8) + y * lfb_pitch l = pixel_offset l x y"
    by (simp add: pixel_offset_def mult.commute)
  have "\<not> x > lfb_width l - 1" "\<not> y > lfb_height l - 1" "1 \<le> lfb_width l" "1 \<le> lfb_height l"
    using s by (auto simp: on_screen_def)
  then show ?thesis using pixel_end(2)[OF wf s] k by (simp add: read_pixel_def u32_mul_def u32_add_def Let_def)
qed

lemma read_pixel_off_screen: "0 < lfb_width l \<Longrightarrow> 0 < lfb_height l \<Longrightarrow> \<not> on_screen l x y \<Longrightarrow> \<not> is_ok (read_pixel x y l)"
  by (auto simp: read_pixel_def on_screen_def guard_def)

text \<open>Different pixels occupy different bytes.\<close>

lemma pixels_apart:
  assumes wf: "wf_lfb l" and s: "on_screen l x y" "on_screen l x' y'" "(x, y) \<noteq> (x', y')" and k: "k < bytes_per_pixel (lfb_bpp l)"
  shows "pixel_offset l x' y' + k < pixel_offset l x y \<or> pixel_offset l x y + bytes_per_pixel (lfb_bpp l) \<le> pixel_offset l x' y' + k"
proof -
  let ?B = "bytes_per_pixel (lfb_bpp l)"
  have before: "pixel_offset l a b + ?B \<le> pixel_offset l c d"
    if "on_screen l a b" "on_screen l c d" "b < d \<or> b = d \<and> a < c" for a b c d
  proof (cases "b < d")
    case True
    then have "lfb_pitch l * Suc b \<le> lfb_pitch l * d" by (intro mult_le_mono2) simp
    then show ?thesis using pixel_end(1)[OF wf that(1)] pixel_end(3)[OF wf that(2)] by linarith
  next
    case False
    then have "Suc a \<le> c" "b = d" using that(3) by auto
    then have "?B * Suc a \<le> ?B * c" "b = d" using mult_le_mono2 by blast+
    then show ?thesis by (simp add: pixel_offset_def)
  qed
  show ?thesis using before[OF s(1,2)] before[OF s(2,1)] s(3) k by (cases y y' rule: linorder_cases; cases x x' rule: linorder_cases) auto
qed

lemma opaque_pixel:
  assumes "wf_lfb l" "alpha c = 255"
  shows "\<exists>l'. draw_pixel mix x y c l = Inr l' \<and> same_mode l l' \<and>
    (\<forall>x' y'. on_screen l x' y' \<longrightarrow>
      read_pixel x' y' l' = (if x' = x \<and> y' = y then Inr (kept_color c (lfb_bpp l)) else read_pixel x' y' l))"
proof (cases "on_screen l x y")
  case False
  then show ?thesis by (auto simp: draw_pixel_def on_screen_def)
next
  case True
  let ?b = "write_bytes_at (pixel_offset l x y) (pixel_bytes (lfb_bpp l) c) (lfb_buffer l)"
  let ?l = "l\<lparr>lfb_buffer := ?b\<rparr>"
  have bpp: "lfb_bpp l \<in> {15, 16, 24, 32}" using assms(1) by (simp add: wf_lfb_def)
  have run: "draw_pixel mix x y c l = Inr ?l"
    using True assms(2) drawer_effect[OF assms(1) True] by (simp add: draw_pixel_def on_screen_def)
  have rd: "read_pixel x' y' ?l = from_rgb (read_u32 (pixel_offset l x' y') ?b) (lfb_bpp l)" if "on_screen l x' y'" for x' y'
    using read_pixel_on_screen[of ?l x' y'] that assms(1) same_mode_facts[of l ?l] by simp
  have other: "from_rgb (read_u32 (pixel_offset l x' y') ?b) (lfb_bpp l) = read_pixel x' y' l"
    if s: "on_screen l x' y'" and ne: "(x', y') \<noteq> (x, y)" for x' y'
  proof -
    have "?b (pixel_offset l x' y' + k) = lfb_buffer l (pixel_offset l x' y' + k)" if "k < bytes_per_pixel (lfb_bpp l)" for k
      using pixels_apart[OF assms(1) True s, of k] ne that by (intro write_bytes_outside) (auto simp: length_pixel_bytes)
    then show ?thesis unfolding read_pixel_on_screen[OF assms(1) s] by (rule from_rgb_bytes[OF bpp])
  qed
  show ?thesis using run rd other decode_pixel_bytes[OF bpp] by (intro exI[of _ ?l]) auto
qed

text \<open>A sequence of opaque pixels: the last one drawn at a position is seen.\<close>

definition last_drawn :: "(nat \<times> nat \<times> color) list \<Rightarrow> nat \<Rightarrow> nat \<Rightarrow> color option" where
  "last_drawn ps x y = map_option (\<lambda>(_, _, c). c) (find (\<lambda>(i, j, _). i = x \<and> j = y) (rev ps))"

lemma last_drawn_Nil [simp]: "last_drawn [] x y = None"
  by (simp add: last_drawn_def)

lemma find_append: "find P (xs @ ys) = (case find P xs of None \<Rightarrow> find P ys | Some z \<Rightarrow> Some z)"
  by (induction xs) auto

lemma last_drawn_Cons:
  "last_drawn ((i, j, c) # ps) x y = (case last_drawn ps x y of None \<Rightarrow> if i = x \<and> j = y then Some c else None | Some d \<Rightarrow> Some d)"
  by (simp add: last_drawn_def find_append split: option.split)

lemma opaque_pixels:
  assumes "wf_lfb l" "list_all (\<lambda>(_, _, c). alpha c = 255) ps"
  shows "\<exists>l'. draw_pixels mix ps l = Inr l' \<and> same_mode l l' \<and>
    (\<forall>x y. on_screen l x y \<longrightarrow>
      read_pixel x y l' = (case last_drawn ps x y of Some c \<Rightarrow> Inr (kept_color c (lfb_bpp l)) | None \<Rightarrow> read_pixel x y l))"
  using assms
proof (induction ps arbitrary: l)
  case Nil
  then show ?case by simp
next
  case (Cons p ps)
  obtain i j c where p: "p = (i, j, c)" by (cases p)
  from Cons.prems p have "alpha c = 255" "list_all (\<lambda>(_, _, c). alpha c = 255) ps" by auto
  from opaque_pixel[OF Cons.prems(1) this(1), of mix i j] obtain l1 where l1: "draw_pixel mix i j c l = Inr l1" "same_mode l l1"
    and r1: "\<And>x y. on_screen l x y \<Longrightarrow> read_pixel x y l1 = (if x = i \<and> y = j then Inr (kept_color c (lfb_bpp l)) else read_pixel x y l)"
    by blast
  note m = same_mode_facts[OF l1(2)]
  from Cons.IH[of l1] Cons.prems p m(1) obtain l' where l': "draw_pixels mix ps l1 = Inr l'" "same_mode l1 l'"
    and r: "\<And>x y. on_screen l x y \<Longrightarrow>
      read_pixel x y l' = (case last_drawn ps x y of Some c \<Rightarrow> Inr (kept_color c (lfb_bpp l1)) | None \<Rightarrow> read_pixel x y l1)"
    by (auto simp: m(2))
  have "lfb_bpp l1 = lfb_bpp l" using l1(2) by (simp add: same_mode_def)
  then show ?case using l1 l' r r1 same_mode_trans[OF l1(2) l'(2)]
    by (intro exI[of _ l']) (auto simp: p last_drawn_Cons split: option.split)
qed


lemma last_drawn_const:
  assumes "\<And>i j d. (i, j, d) \<in> set ps \<Longrightarrow> d = c"
  shows "last_drawn ps x y = (if (x, y, c) \<in> set ps then Some c else None)"
  using assms
proof (induction ps)
  case (Cons p ps)
  obtain i j where p: "p = (i, j, c)" using Cons.prems by (cases p) auto
  have "last_drawn ps x y = (if (x, y, c) \<in> set ps then Some c else None)" using Cons.prems by (intro Cons.IH) auto
  then show ?case by (auto simp: p last_drawn_Cons)
qed simp

lemma fill_rect_effect:
  assumes "wf_lfb l" "alpha c = 255" "x + w < 2 ^ 32" "y + h < 2 ^ 32"
  shows "\<exists>l'. fill_rect mix x y w h c l = Inr l' \<and> same_mode l l' \<and>
    (\<forall>i j. on_screen l i j \<longrightarrow>
      read_pixel i j l' = (if i \<in> {x..<x + w} \<and> j \<in> {y..<y + h} then Inr (kept_color c (lfb_bpp l)) else read_pixel i j l))"
proof -
  let ?ps = "concat (map (\<lambda>i. map (\<lambda>j. (j, i, c)) [x..<x + w]) [y..<y + h])"
  have "list_all (\<lambda>(_, _, c). alpha c = 255) ?ps" using assms(2) by (auto simp: list_all_iff)
  from opaque_pixels[OF assms(1) this, of mix] obtain l' where l': "draw_pixels mix ?ps l = Inr l'" "same_mode l l'"
    and r: "\<And>i j. on_screen l i j \<Longrightarrow>
      read_pixel i j l' = (case last_drawn ?ps i j of Some c \<Rightarrow> Inr (kept_color c (lfb_bpp l)) | None \<Rightarrow> read_pixel i j l)"
    by blast
  have "last_drawn ?ps i j = (if i \<in> {x..<x + w} \<and> j \<in> {y..<y + h} then Some c else None)" for i j
  proof -
    have "(i, j, c) \<in> set ?ps \<longleftrightarrow> i \<in> {x..<x + w} \<and> j \<in> {y..<y + h}" by (auto simp: image_iff)
    moreover have "d = c" if "(a, b, d) \<in> set ?ps" for a b d using that by auto
    from last_drawn_const[OF this] have "last_drawn ?ps i j = (if (i, j, c) \<in> set ?ps then Some c else None)" .
    ultimately show ?thesis by (simp only:)
  qed
  then show ?thesis using l' r assms(3,4) by (intro exI[of _ l']) (simp add: fill_rect_def u32_add_def)
qed

definition example_lfb :: lfb where
  "example_lfb = lfb_new (\<lambda>_. 0) 40 10 5 32"

lemma example_lfb_wf: "wf_lfb example_lfb"
  by (simp add: example_lfb_def lfb_new_def wf_lfb_def)

text \<open>
  Filling a rectangle: in a well formed frame buffer, \<open>fill_rect\<close> with an opaque colour returns for every rectangle whose
  corner coordinates fit into 32 bits, also one that leaves the screen; afterwards the visible pixels of the rectangle have the
  colour (up to what the pixel format keeps) and every other pixel of the screen is unchanged.
\<close>

theorem fill_rect_exact:
  assumes "wf_lfb l" "alpha c = 255" "x + w < 2 ^ 32" "y + h < 2 ^ 32"
  shows "\<exists>l'. fill_rect mix x y w h c l = Inr l' \<and> same_mode l l' \<and>
    (\<forall>i j. on_screen l i j \<longrightarrow>
      read_pixel i j l' = (if i \<in> {x..<x + w} \<and> j \<in> {y..<y + h} then Inr (kept_color c (lfb_bpp l)) else read_pixel i j l))"
  by (rule fill_rect_effect[OF assms])

theorem fill_rect_exact_witness:
  "\<exists>l'. fill_rect (\<lambda>_ c. c) 8 1 100 2 RED example_lfb = Inr l' \<and> read_pixel 9 2 l' = Inr RED \<and>
     read_pixel 7 2 l' = read_pixel 7 2 example_lfb"
proof -
  have "alpha RED = 255" by (simp add: RED_def rgba_def)
  from fill_rect_exact[OF example_lfb_wf this, of 8 100 1 2 "\<lambda>_ c. c"] show ?thesis
    by (fastforce simp: example_lfb_def lfb_new_def on_screen_def kept_color_def)
qed

lemma last_drawn_append: "last_drawn (ps @ qs) x y = (case last_drawn qs x y of None \<Rightarrow> last_drawn ps x y | Some c \<Rightarrow> Some c)"
  by (simp add: last_drawn_def find_append split: option.split)

text \<open>What a glyph shows at a position relative to its corner.\<close>

definition glyph_color :: "u8 list \<Rightarrow> color \<Rightarrow> color \<Rightarrow> nat \<Rightarrow> nat \<Rightarrow> color" where
  "glyph_color bitmap fg bg i j = (if bit (bitmap ! (j div 2)) i then fg else bg)"

lemma row_bit: "(row AND push_bit k 1 = 0) = (\<not> bit (row::u8) k)" if "k < 8"
proof
  assume "row AND push_bit k 1 = 0"
  then have "bit (row AND push_bit k 1) k = bit (0::u8) k" by simp
  then show "\<not> bit row k" using that by (simp add: bit_simps)
next
  assume "\<not> bit row k"
  then show "row AND push_bit k 1 = 0" by (intro bit_word_eqI) (auto simp: bit_simps)
qed

lemma row_drawn:
  "last_drawn (concat (map (\<lambda>col. let color = f col in [(x + col, y, color), (x + col, y + 1, color)]) [0..<n])) i j =
     (if x \<le> i \<and> i < x + n \<and> (j = y \<or> j = y + 1) then Some (f (i - x)) else None)"
  by (induction n) (auto simp: last_drawn_append last_drawn_Cons Let_def split: option.split)

lemma glyph_drawn_at:
  "last_drawn (glyph_pixels x y fg bg bitmap k) i j =
     (if x \<le> i \<and> i < x + 8 \<and> y + k \<le> j \<and> j < y + k + 2 * length bitmap
      then Some (glyph_color bitmap fg bg (i - x) (j - y - k)) else None)"
proof (induction bitmap arbitrary: k)
  case (Cons row rows)
  have g: "glyph_color (row # rows) fg bg a b = (if b < 2 then (if bit row a then fg else bg) else glyph_color rows fg bg a (b - 2))" for a b
    by (cases "b < 2") (simp_all add: glyph_color_def nth_Cons' le_div_geq)
  let ?f = "\<lambda>col. if row AND push_bit col 1 = 0 then bg else fg"
  have r: "last_drawn (concat (map (\<lambda>col. let color = ?f col in [(x + col, y + k, color), (x + col, y + k + 1, color)]) [0..<8])) i j =
     (if x \<le> i \<and> i < x + 8 \<and> (j = y + k \<or> j = y + k + 1) then Some (if bit row (i - x) then fg else bg) else None)"
  proof (cases "x \<le> i \<and> i < x + 8")
    case True
    then have "i - x < 8" by arith
    then have "?f (i - x) = (if bit row (i - x) then fg else bg)" by (simp only: row_bit) simp
    then show ?thesis unfolding row_drawn by (simp only:)
  qed (simp only: row_drawn, auto)
  show ?case unfolding glyph_pixels.simps last_drawn_append r Cons.IH
    by (auto simp: g diff_diff_eq numeral_2_eq_2)
qed (simp add: last_drawn_def)

text \<open>
  Drawing a character: in a well formed frame buffer, \<open>draw_char\<close> of a character that one of the fonts has (an 8 by 8 bitmap)
  returns \<open>true\<close>, also partly off the screen; afterwards each visible pixel of the 8 by 16 cell shows the foreground colour
  where the bit of the glyph is set and the background colour elsewhere, and every pixel outside the cell is unchanged. A character
  without glyph changes nothing and gives \<open>false\<close>.
\<close>

lemma draw_char_effect:
  assumes "wf_lfb l" "alpha fg = 255" "alpha bg = 255" "x + 8 \<le> 2 ^ 32" "y + 16 \<le> 2 ^ 32"
    "\<And>bitmap. font c = Some bitmap \<Longrightarrow> length bitmap = 8"
  shows "\<exists>l'. draw_char font mix x y fg bg c l = Inr (font c \<noteq> None, l') \<and> same_mode l l' \<and>
    (\<forall>i j. on_screen l i j \<longrightarrow>
      read_pixel i j l' =
        (case font c of
           Some bitmap \<Rightarrow>
             (if i \<in> {x..<x + CHAR_WIDTH} \<and> j \<in> {y..<y + CHAR_HEIGHT}
              then Inr (kept_color (glyph_color bitmap fg bg (i - x) (j - y)) (lfb_bpp l))
              else read_pixel i j l)
         | None \<Rightarrow> read_pixel i j l))"
proof (cases "font c")
  case None
  then show ?thesis by (simp add: draw_char_def)
next
  case (Some bitmap)
  note len = assms(6)[OF Some]
  let ?ps = "glyph_pixels x y fg bg bitmap 0"
  have "list_all (\<lambda>(_, _, c). alpha c = 255) (glyph_pixels x y fg bg bm k)" for bm k
  proof (induction bm arbitrary: k)
    case (Cons row rows)
    show ?case using assms(2,3) Cons[of "k + 2"] by (simp only: glyph_pixels.simps list_all_append) (auto simp: list_all_iff Let_def)
  qed simp
  from opaque_pixels[OF assms(1) this, of mix bitmap 0] obtain l' where l': "draw_pixels mix ?ps l = Inr l'" "same_mode l l'"
    and r: "\<And>i j. on_screen l i j \<Longrightarrow>
      read_pixel i j l' = (case last_drawn ?ps i j of Some c \<Rightarrow> Inr (kept_color c (lfb_bpp l)) | None \<Rightarrow> read_pixel i j l)"
    by blast
  show ?thesis using l' r assms(4,5) len Some
    by (intro exI[of _ l']) (auto simp: draw_char_def glyph_drawn_at CHAR_WIDTH_def CHAR_HEIGHT_def)
qed

lemma draw_char_example:
  "\<exists>l'. draw_char (\<lambda>c. if c = 65 then Some (replicate 8 1) else None) (\<lambda>_ c. c) 2 0 RED BLUE 65 example_lfb = Inr (True, l') \<and>
     read_pixel 2 3 l' = Inr RED \<and> read_pixel 3 4 l' = Inr BLUE \<and> read_pixel 1 4 l' = read_pixel 1 4 example_lfb"
proof -
  have a: "alpha RED = 255" "alpha BLUE = 255" by (simp_all add: RED_def BLUE_def rgba_def)
  have "bit (1::u8) 0" "\<not> bit (1::u8) 1" by (simp_all add: bit_1_iff)
  then show ?thesis
    using draw_char_effect[OF example_lfb_wf a, of 2 0 "\<lambda>c. if c = 65 then Some (replicate 8 1) else None" 65 "\<lambda>_ c. c"]
    by (fastforce simp: example_lfb_def lfb_new_def on_screen_def kept_color_def CHAR_WIDTH_def CHAR_HEIGHT_def glyph_color_def
        nth_replicate)
qed

text \<open>
  Scrolling by at most the height of the screen returns, moves every row up by the given number of lines and leaves zero
  bytes in the rows at the bottom.
\<close>

lemma scroll_up_moves_rows:
  assumes "wf_lfb l" "n \<le> lfb_height l"
  shows "\<exists>l'. lfb_scroll_up n l = Inr l' \<and> same_mode l l' \<and>
    (\<forall>x y. x < lfb_width l \<and> y + n < lfb_height l \<longrightarrow> read_pixel x y l' = read_pixel x (y + n) l) \<and>
    (\<forall>x y. x < lfb_width l \<and> y < lfb_height l \<and> lfb_height l \<le> y + n \<longrightarrow>
       read_pixel x y l' = from_rgb (read_u32 (pixel_offset l x y) (\<lambda>a. if a < lfb_pitch l * lfb_height l then 0 else lfb_buffer l a)) (lfb_bpp l))"
proof -
  let ?n = "lfb_pitch l * (lfb_height l - n)" and ?s = "lfb_pitch l * n"
  let ?b = "\<lambda>a. if a < ?n then lfb_buffer l (a + ?s) else if a < ?n + ?s then 0 else lfb_buffer l a"
  let ?l = "l\<lparr>lfb_buffer := ?b\<rparr>"
  have "?s \<le> lfb_pitch l * lfb_height l" "?n \<le> lfb_pitch l * lfb_height l" using assms(2) by (auto intro: mult_le_mono2)
  moreover have "lfb_pitch l * lfb_height l < 2 ^ 32" using assms(1) by (simp add: wf_lfb_def)
  ultimately have "?s < 2 ^ 32" "?n < 2 ^ 32" by linarith+
  then have run: "lfb_scroll_up n l = Inr ?l" using assms(2) by (simp add: lfb_scroll_up_def u32_mul_def)
  have total: "?n + ?s = lfb_pitch l * lfb_height l" using assms(2) by (simp add: distrib_left[symmetric])
  have bpp: "lfb_bpp l \<in> {15, 16, 24, 32}" using assms(1) by (simp add: wf_lfb_def)
  have rd: "read_pixel x y ?l = from_rgb (read_u32 (pixel_offset l x y) ?b) (lfb_bpp l)" if "on_screen l x y" for x y
    using read_pixel_on_screen[of ?l x y] that assms(1) same_mode_facts[of l ?l] by simp
  have up: "read_pixel x y ?l = read_pixel x (y + n) l" if a: "x < lfb_width l" "y + n < lfb_height l" for x y
  proof -
    have s: "on_screen l x y" "on_screen l x (y + n)" using a by (simp_all add: on_screen_def)
    have "lfb_pitch l * Suc y \<le> ?n" using a(2) by (intro mult_le_mono2) simp
    then have "?b (pixel_offset l x y + k) = lfb_buffer l (pixel_offset l x (y + n) + k)" if "k < bytes_per_pixel (lfb_bpp l)" for k
      using pixel_end(1)[OF assms(1) s(1)] that by (simp add: pixel_offset_def distrib_left add_ac)
    then show ?thesis unfolding rd[OF s(1)] read_pixel_on_screen[OF assms(1) s(2)] by (rule from_rgb_bytes[OF bpp])
  qed
  have low: "read_pixel x y ?l = from_rgb (read_u32 (pixel_offset l x y) (\<lambda>a. if a < lfb_pitch l * lfb_height l then 0 else lfb_buffer l a)) (lfb_bpp l)"
    if a: "x < lfb_width l" "y < lfb_height l" "lfb_height l \<le> y + n" for x y
  proof -
    have s: "on_screen l x y" using a by (simp add: on_screen_def)
    have "?n \<le> lfb_pitch l * y" using a(3) by (intro mult_le_mono2) simp
    then have "?n \<le> pixel_offset l x y" using pixel_end(3)[OF assms(1) s] by linarith
    then show ?thesis unfolding rd[OF s] by (intro from_rgb_bytes[OF bpp]) (simp add: total)
  qed
  show ?thesis using run up low by (intro exI[of _ ?l]) simp
qed

end
