(* ===== verification/Terminal.thy ===== *)
theory Terminal
  imports Lfb Ansi
begin

text \<open>
  The terminal on the frame buffer, \<open>os/kernel/src/device/lfb_terminal.rs\<close>: the character buffer, printing, scrolling,
  the cursor, colours and erasing, and the callbacks of the escape sequence parser.

  The parser (\<open>anstyle_parse\<close>) and the keyboard decoder (\<open>pc_keyboard\<close>) are arguments: a parser step gives the callbacks
  it makes. Of a parameter only the first sub-parameter is read, so parameters are lists of numbers. The arithmetic on
  \<open>u16\<close> positions panics on overflow. What the status bar shows of the rest of the system (version, uptime, number of
  processes and threads, date) is the argument \<open>status\<close>, and the sounds of the bell are collected in a list.
\<close>

section \<open>State\<close>

definition TAB_SPACES :: nat where "TAB_SPACES = 8"

definition CURSOR :: nat where "CURSOR = 0x2588"

definition CURSOR_UPDATE_INTERVAL :: nat where "CURSOR_UPDATE_INTERVAL = 250"

record character =
  char_value :: nat
  char_fg :: color
  char_bg :: color

text \<open>The size of a \<open>Character\<close> in bytes: a \<open>char\<close> and two colours of four bytes.\<close>

definition CHARACTER_SIZE :: nat where "CHARACTER_SIZE = 12"

record cursor_state =
  pos :: "nat \<times> nat"
  saved_pos :: "nat \<times> nat"

record color_state =
  fg_color :: color
  bg_color :: color
  fg_base_color :: color
  bg_base_color :: color
  fg_bright :: bool
  bg_bright :: bool
  invert :: bool
  bright_mode :: bool
  dim_mode :: bool

record display_state =
  disp_size :: "nat \<times> nat"
  disp_lfb :: buffered_lfb
  char_buffer :: "character list"

record terminal =
  t_display :: display_state
  t_cursor :: cursor_state
  t_color :: color_state
  t_beeps :: "(nat \<times> nat) list"

text \<open>What the terminal takes from other crates and from the rest of the kernel.\<close>

record status_info =
  pkg_version :: string
  build_profile :: string
  uptime_ms :: nat
  process_count :: nat
  thread_count :: nat
  efi_date :: "(nat \<times> nat \<times> nat \<times> nat \<times> nat \<times> nat) option"

record term_env =
  env_font :: "nat \<Rightarrow> u8 list option"
  env_mix :: "color \<Rightarrow> color \<Rightarrow> color"
  env_status :: status_info

definition cursor_state_new :: cursor_state where
  "cursor_state_new = \<lparr>pos = (0, 1), saved_pos = (0, 1)\<rparr>"

definition color_state_new :: color_state where
  "color_state_new = \<lparr>fg_color = WHITE, bg_color = BLACK, fg_base_color = WHITE, bg_base_color = BLACK,
     fg_bright = False, bg_bright = False, invert = False, bright_mode = False, dim_mode = False\<rparr>"

text \<open>\<open>(y * width + x) as usize\<close>, computed in 16 bits.\<close>

definition cell_index :: "nat \<times> nat \<Rightarrow> nat \<times> nat \<Rightarrow> nat result" where
  "cell_index p sz = and_then (u16_mul (snd p) (fst sz)) (\<lambda>row. u16_add row (fst p))"

definition update_back :: "(lfb \<Rightarrow> lfb result) \<Rightarrow> display_state \<Rightarrow> display_state result" where
  "update_back f d = and_then (f (back_lfb (disp_lfb d))) (\<lambda>l. Inr (d\<lparr>disp_lfb := (disp_lfb d)\<lparr>back_lfb := l\<rparr>\<rparr>))"

definition update_direct :: "(lfb \<Rightarrow> lfb result) \<Rightarrow> display_state \<Rightarrow> display_state result" where
  "update_direct f d = and_then (f (target_lfb (disp_lfb d))) (\<lambda>l. Inr (d\<lparr>disp_lfb := (disp_lfb d)\<lparr>target_lfb := l\<rparr>\<rparr>))"

definition flush_display :: "display_state \<Rightarrow> display_state result" where
  "flush_display d = and_then (flush (disp_lfb d)) (\<lambda>b. Inr (d\<lparr>disp_lfb := b\<rparr>))"

text \<open>A new display; \<open>fresh\<close> is the content of the memory the back buffer gets.\<close>

definition display_state_new :: "byte_buffer \<Rightarrow> byte_buffer \<Rightarrow> nat \<Rightarrow> nat \<Rightarrow> nat \<Rightarrow> u8 \<Rightarrow> display_state result" where
  "display_state_new fresh buffer pitch width height bpp =
     (let raw_lfb = lfb_new buffer pitch width height bpp in
      and_then (buffered_lfb_new fresh raw_lfb) (\<lambda>blfb.
        let sz = (width div CHAR_WIDTH mod 2 ^ 16, height div CHAR_HEIGHT mod 2 ^ 16);
            blank = \<lparr>char_value = 32, char_fg = WHITE, char_bg = BLACK\<rparr>;
            d = \<lparr>disp_size = sz, disp_lfb = blfb, char_buffer = replicate (fst sz * snd sz * CHARACTER_SIZE) blank\<rparr>
        in and_then (update_back lfb_clear d) flush_display))"

definition terminal_new :: "byte_buffer \<Rightarrow> byte_buffer \<Rightarrow> nat \<Rightarrow> nat \<Rightarrow> nat \<Rightarrow> u8 \<Rightarrow> terminal result" where
  "terminal_new fresh buffer pitch width height bpp =
     and_then (display_state_new fresh buffer pitch width height bpp) (\<lambda>d.
       Inr \<lparr>t_display = d, t_cursor = cursor_state_new, t_color = color_state_new, t_beeps = []\<rparr>)"

section \<open>Status bar and scrolling\<close>

definition codes :: "string \<Rightarrow> nat list" where
  "codes s = map of_char s"

definition pad2 :: "nat \<Rightarrow> string" where
  "pad2 n = (if n < 10 then ''0'' else []) @ decimal n"

definition info_string :: "status_info \<Rightarrow> string" where
  "info_string st =
     ''D3OS v'' @ pkg_version st @ '' ('' @ build_profile st @ '') | Uptime: '' @ pad2 (uptime_ms st div 3600000) @ '':''
     @ pad2 (uptime_ms st div 60000 mod 60) @ '':'' @ pad2 (uptime_ms st div 1000 - uptime_ms st div 60000 * 60)
     @ '' | Processes: '' @ decimal (process_count st) @ '' | Threads: '' @ decimal (thread_count st)"

fun date_string :: "nat \<times> nat \<times> nat \<times> nat \<times> nat \<times> nat \<Rightarrow> string" where
  "date_string (year, month, day, hour, minute, second) =
     decimal year @ ''-'' @ pad2 month @ ''-'' @ pad2 day @ '' '' @ pad2 hour @ '':'' @ pad2 minute @ '':'' @ pad2 second"

definition draw_status_bar :: "term_env \<Rightarrow> display_state \<Rightarrow> display_state result" where
  "draw_status_bar env d =
     and_then (update_back (draw_pixels (env_mix env)
         (concat (map (\<lambda>i. map (\<lambda>j. (i, j, HHU_GREEN)) [0..<CHAR_HEIGHT]) [0..<fst (disp_size d) * CHAR_WIDTH]))) d) (\<lambda>d1.
     and_then (update_back (draw_string (env_font env) (env_mix env) 0 0 HHU_BLUE INVISIBLE (codes (info_string (env_status env)))) d1) (\<lambda>d2.
     and_then (case efi_date (env_status env) of
         Some date \<Rightarrow>
           and_then (checked_sub (fst (disp_size d2)) (length (date_string date))) (\<lambda>column.
             update_back (draw_string (env_font env) (env_mix env) (column * CHAR_WIDTH) 0 HHU_BLUE INVISIBLE (codes (date_string date))) d2)
       | None \<Rightarrow> Inr d2) (\<lambda>d3.
     and_then (flush_lines 0 CHAR_HEIGHT (disp_lfb d3)) (\<lambda>b. Inr (d3\<lparr>disp_lfb := b\<rparr>)))))"

definition erase :: "color_state \<Rightarrow> character \<Rightarrow> character" where
  "erase c item = item\<lparr>char_value := 0, char_fg := fg_color c, char_bg := bg_color c\<rparr>"

definition erase_range :: "(character \<Rightarrow> character) \<Rightarrow> nat \<Rightarrow> nat \<Rightarrow> character list \<Rightarrow> character list" where
  "erase_range f start n xs = take start xs @ map f (take n (drop start xs)) @ drop (start + n) xs"

definition scroll_up :: "term_env \<Rightarrow> color_state \<Rightarrow> display_state \<Rightarrow> display_state result" where
  "scroll_up env c d =
     (let (width, height) = disp_size d in
      and_then (checked_sub height 1) (\<lambda>rows.
        let skip = width * rows;
            moved = take skip (drop width (char_buffer d)) @ drop skip (char_buffer d);
            d0 = d\<lparr>char_buffer := take skip moved @ map (erase c) (drop skip moved)\<rparr>
        in
        and_then (update_back (lfb_scroll_up CHAR_HEIGHT) d0) (\<lambda>d1.
        and_then (update_back (fill_rect (env_mix env) 0 (rows * CHAR_HEIGHT) (width * CHAR_WIDTH) CHAR_HEIGHT (bg_color c)) d1) (\<lambda>d2.
        and_then (draw_status_bar env d2) flush_display))))"

section \<open>Clearing\<close>

definition clear_screen :: "term_env \<Rightarrow> color_state \<Rightarrow> display_state \<Rightarrow> display_state result" where
  "clear_screen env c d =
     (let (width, height) = disp_size d in
      and_then (update_back (fill_rect (env_mix env) 0 0 (width * CHAR_WIDTH) (height * CHAR_HEIGHT) (bg_color c)) d) (\<lambda>d1.
      and_then (draw_status_bar env (d1\<lparr>char_buffer := map (erase c) (char_buffer d1)\<rparr>)) flush_display))"

definition clear_screen_to_cursor :: "term_env \<Rightarrow> cursor_state \<Rightarrow> color_state \<Rightarrow> display_state \<Rightarrow> display_state result" where
  "clear_screen_to_cursor env cur c d =
     (let (x, y) = pos cur; (width, height) = disp_size d in
      and_then (update_back (fill_rect (env_mix env) 0 (y * CHAR_HEIGHT) (x * CHAR_WIDTH) CHAR_HEIGHT (bg_color c)) d) (\<lambda>d1.
      and_then (update_back (fill_rect (env_mix env) 0 0 (width * CHAR_WIDTH) (y * CHAR_HEIGHT) (bg_color c)) d1) (\<lambda>d2.
      and_then (cell_index (x, y) (width, height)) (\<lambda>n.
      and_then (draw_status_bar env (d2\<lparr>char_buffer := erase_range (erase c) 0 n (char_buffer d2)\<rparr>)) flush_display))))"

definition clear_screen_from_cursor :: "term_env \<Rightarrow> cursor_state \<Rightarrow> color_state \<Rightarrow> display_state \<Rightarrow> display_state result" where
  "clear_screen_from_cursor env cur c d =
     (let (x, y) = pos cur; (width, height) = disp_size d in
      and_then (checked_sub width x) (\<lambda>rest.
      and_then (update_back (fill_rect (env_mix env) (x * CHAR_WIDTH) (y * CHAR_HEIGHT) (rest * CHAR_WIDTH) CHAR_HEIGHT (bg_color c)) d) (\<lambda>d1.
      and_then (u16_add y 1) (\<lambda>below_line.
      and_then (checked_sub height y) (\<lambda>lines_left.
      and_then (checked_sub lines_left 1) (\<lambda>lines_below.
      and_then (update_back (fill_rect (env_mix env) 0 (below_line * CHAR_HEIGHT) (width * CHAR_WIDTH) (lines_below * CHAR_HEIGHT) (bg_color c)) d1) (\<lambda>d2.
      and_then (cell_index (x, y) (width, height)) (\<lambda>n.
      and_then (draw_status_bar env (d2\<lparr>char_buffer := take n (char_buffer d2) @ map (erase c) (drop n (char_buffer d2))\<rparr>)) flush_display))))))))"

text \<open>The last steps of the three functions that clear in a line: the status bar is redrawn for line 0 only.\<close>

definition finish_line :: "term_env \<Rightarrow> nat \<Rightarrow> display_state \<Rightarrow> display_state result" where
  "finish_line env y d = and_then (if y = 0 then draw_status_bar env d else Inr d) flush_display"

definition clear_line :: "term_env \<Rightarrow> cursor_state \<Rightarrow> color_state \<Rightarrow> display_state \<Rightarrow> display_state result" where
  "clear_line env cur c d =
     (let (x, y) = pos cur; (width, height) = disp_size d in
      and_then (update_back (fill_rect (env_mix env) 0 (y * CHAR_HEIGHT) (width * CHAR_WIDTH) CHAR_HEIGHT (bg_color c)) d) (\<lambda>d1.
      and_then (u16_mul y width) (\<lambda>start.
        finish_line env y (d1\<lparr>char_buffer :=
          erase_range (\<lambda>item. (erase c item)\<lparr>char_value := 97\<rparr>) start width (char_buffer d1)\<rparr>))))"

definition clear_line_to_cursor :: "term_env \<Rightarrow> cursor_state \<Rightarrow> color_state \<Rightarrow> display_state \<Rightarrow> display_state result" where
  "clear_line_to_cursor env cur c d =
     (let (x, y) = pos cur; (width, height) = disp_size d in
      and_then (update_back (fill_rect (env_mix env) 0 (y * CHAR_HEIGHT) (x * CHAR_WIDTH) CHAR_HEIGHT (bg_color c)) d) (\<lambda>d1.
      and_then (u16_mul y width) (\<lambda>start.
        finish_line env y (d1\<lparr>char_buffer := erase_range (erase c) start x (char_buffer d1)\<rparr>))))"

definition clear_line_from_cursor :: "term_env \<Rightarrow> cursor_state \<Rightarrow> color_state \<Rightarrow> display_state \<Rightarrow> display_state result" where
  "clear_line_from_cursor env cur c d =
     (let (x, y) = pos cur; (width, height) = disp_size d in
      and_then (checked_sub width x) (\<lambda>rest.
      and_then (update_back (fill_rect (env_mix env) (x * CHAR_WIDTH) (y * CHAR_HEIGHT) (rest * CHAR_WIDTH) CHAR_HEIGHT (bg_color c)) d) (\<lambda>d1.
      and_then (cell_index (x, y) (width, height)) (\<lambda>start.
        finish_line env y (d1\<lparr>char_buffer := erase_range (erase c) start rest (char_buffer d1)\<rparr>)))))"

section \<open>Cursor\<close>

text \<open>The loop of \<open>position\<close>: one line up and one scroll per round.\<close>

fun scroll_to :: "term_env \<Rightarrow> color_state \<Rightarrow> nat \<Rightarrow> display_state \<Rightarrow> (nat \<times> display_state) result" where
  "scroll_to env c 0 d = (if 0 \<ge> snd (disp_size d) then Inl Sub_Overflow else Inr (0, d))"
| "scroll_to env c (Suc y) d =
     (if Suc y \<ge> snd (disp_size d) then and_then (scroll_up env c d) (scroll_to env c y) else Inr (Suc y, d))"

definition position :: "term_env \<Rightarrow> color_state \<Rightarrow> nat \<times> nat \<Rightarrow> cursor_state \<times> display_state \<Rightarrow> (cursor_state \<times> display_state) result" where
  "position env c p = (\<lambda>(cur, d).
     and_then (scroll_to env c (if snd p = 0 then 1 else snd p) d) (\<lambda>(y, d').
       Inr (cur\<lparr>pos := (fst p, y)\<rparr>, d')))"

definition handle_tab :: "term_env \<Rightarrow> color_state \<Rightarrow> cursor_state \<times> display_state \<Rightarrow> (cursor_state \<times> display_state) result" where
  "handle_tab env c = (\<lambda>(cur, d).
     and_then (u16_add (fst (pos cur)) TAB_SPACES) (\<lambda>x.
       if x \<ge> fst (disp_size d)
       then and_then (u16_add (snd (pos cur)) 1) (\<lambda>y. position env c (0, y) (cur, d))
       else position env c (x div TAB_SPACES * TAB_SPACES, snd (pos cur)) (cur, d)))"

definition print_char_at :: "term_env \<Rightarrow> color_state \<Rightarrow> nat \<Rightarrow> nat \<times> nat \<Rightarrow> display_state \<Rightarrow> (bool \<times> display_state) result" where
  "print_char_at env c ch p d =
     (let draw = draw_char (env_font env) (env_mix env) (fst p * CHAR_WIDTH) (snd p * CHAR_HEIGHT) (fg_color c) (bg_color c) ch in
      and_then (draw (back_lfb (disp_lfb d))) (\<lambda>(drawn, l).
        let d1 = d\<lparr>disp_lfb := (disp_lfb d)\<lparr>back_lfb := l\<rparr>\<rparr> in
        if drawn
        then and_then (draw (target_lfb (disp_lfb d1))) (\<lambda>(drawn', l').
               Inr (drawn', d1\<lparr>disp_lfb := (disp_lfb d1)\<lparr>target_lfb := l'\<rparr>\<rparr>))
        else Inr (False, d1)))"

text \<open>The three parts of \<open>print_char\<close>: the character or the line break, the end of the line, the end of the screen.\<close>

definition place_char :: "term_env \<Rightarrow> color_state \<Rightarrow> nat \<Rightarrow> cursor_state \<times> display_state \<Rightarrow> (cursor_state \<times> display_state) result" where
  "place_char env c ch = (\<lambda>(cur, d).
     (if ch = 10
      then
        and_then (clear_line_from_cursor env cur c d) (\<lambda>d1.
        and_then (u16_add (snd (pos cur)) 1) (\<lambda>y. Inr (cur\<lparr>pos := (0, y)\<rparr>, d1)))
      else
        and_then (print_char_at env c ch (pos cur) d) (\<lambda>(printed, d1).
          if printed
          then
            and_then (cell_index (pos cur) (disp_size d1)) (\<lambda>index.
            and_then (guard Index_Out_Of_Bounds (index < length (char_buffer d1))) (\<lambda>_.
              let d2 = d1\<lparr>char_buffer := (char_buffer d1)[index := \<lparr>char_value = ch, char_fg = fg_color c, char_bg = bg_color c\<rparr>]\<rparr> in
              and_then (u16_add (fst (pos cur)) 1) (\<lambda>x. Inr (cur\<lparr>pos := (x, snd (pos cur))\<rparr>, d2))))
          else Inr (cur, d1))))"

definition wrap_line :: "cursor_state \<times> display_state \<Rightarrow> (cursor_state \<times> display_state) result" where
  "wrap_line = (\<lambda>(cur, d).
     if fst (pos cur) \<ge> fst (disp_size d)
     then and_then (u16_add (snd (pos cur)) 1) (\<lambda>y. Inr (cur\<lparr>pos := (0, y)\<rparr>, d))
     else Inr (cur, d))"

definition wrap_screen :: "term_env \<Rightarrow> color_state \<Rightarrow> cursor_state \<times> display_state \<Rightarrow> (cursor_state \<times> display_state) result" where
  "wrap_screen env c = (\<lambda>(cur, d).
     if snd (pos cur) \<ge> snd (disp_size d)
     then
       and_then (scroll_up env c d) (\<lambda>d1.
       and_then (checked_sub (snd (disp_size d1)) 1) (\<lambda>y.
       and_then (print_char_at env c 95 (0, snd (disp_size d1)) d1) (\<lambda>(_, d2). Inr (cur\<lparr>pos := (0, y)\<rparr>, d2))))
     else Inr (cur, d))"

definition print_char :: "term_env \<Rightarrow> nat \<Rightarrow> terminal \<Rightarrow> terminal result" where
  "print_char env ch t =
     and_then (place_char env (t_color t) ch (t_cursor t, t_display t)) (\<lambda>s1.
     and_then (wrap_line s1) (\<lambda>s2.
     and_then (wrap_screen env (t_color t) s2) (\<lambda>(cur, d). Inr (t\<lparr>t_cursor := cur, t_display := d\<rparr>))))"

section \<open>Colours\<close>

fun parse_complex_color :: "nat list \<Rightarrow> color option \<times> nat list" where
  "parse_complex_color [] = (None, [])"
| "parse_complex_color (mode # iter) =
     (if mode = 2 then
        (case iter of
           r # g # b # iter' \<Rightarrow> (Some \<lparr>red = of_nat r, green = of_nat g, blue = of_nat b, alpha = 255\<rparr>, iter')
         | _ \<Rightarrow> (None, []))
      else if mode = 5 then
        (case iter of
           index # iter' \<Rightarrow> (if index \<le> 255 then Some (COLOR_TABLE_256 ! index) else None, iter')
         | [] \<Rightarrow> (None, []))
      else (None, iter))"

definition ansi_color :: "nat \<Rightarrow> nat list \<Rightarrow> color option \<times> nat list" where
  "ansi_color code iter =
     (if code = 0 then (Some BLACK, iter)
      else if code = 1 then (Some RED, iter)
      else if code = 2 then (Some GREEN, iter)
      else if code = 3 then (Some YELLOW, iter)
      else if code = 4 then (Some BLUE, iter)
      else if code = 5 then (Some MAGENTA, iter)
      else if code = 6 then (Some CYAN, iter)
      else if code = 7 \<or> code = 9 then (Some WHITE, iter)
      else if code = 8 then parse_complex_color iter
      else (None, iter))"

definition handle_ansi_graphic_rendition :: "color_state \<Rightarrow> nat \<Rightarrow> color_state" where
  "handle_ansi_graphic_rendition c code =
     (if code = 0 then
        c\<lparr>fg_base_color := WHITE, bg_base_color := BLACK, fg_color := WHITE, bg_color := BLACK, fg_bright := False,
          bg_bright := False, invert := False, bright_mode := False, dim_mode := False\<rparr>
      else if code = 1 then c\<lparr>bright_mode := True\<rparr>
      else if code = 2 then c\<lparr>dim_mode := True\<rparr>
      else if code = 7 then c\<lparr>invert := True\<rparr>
      else if code = 22 then c\<lparr>bright_mode := False, dim_mode := False\<rparr>
      else if code = 27 then c\<lparr>invert := False\<rparr>
      else c)"

definition set_fg :: "color option \<Rightarrow> bool \<Rightarrow> color_state \<Rightarrow> color_state" where
  "set_fg col b c = (case col of Some x \<Rightarrow> c\<lparr>fg_base_color := x, fg_bright := b\<rparr> | None \<Rightarrow> c)"

definition set_bg :: "color option \<Rightarrow> bool \<Rightarrow> color_state \<Rightarrow> color_state" where
  "set_bg col b c = (case col of Some x \<Rightarrow> c\<lparr>bg_base_color := x, bg_bright := b\<rparr> | None \<Rightarrow> c)"

text \<open>One round of the loop in \<open>handle_ansi_color\<close>, which may take further parameters from the iterator.\<close>

definition color_round :: "nat \<Rightarrow> nat list \<Rightarrow> color_state \<Rightarrow> nat list \<times> color_state" where
  "color_round code iter c =
     (if code \<le> 29 then (iter, handle_ansi_graphic_rendition c code)
      else if 30 \<le> code \<and> code \<le> 39 then (let (col, iter') = ansi_color (code - 30) iter in (iter', set_fg col False c))
      else if 40 \<le> code \<and> code \<le> 49 then (let (col, iter') = ansi_color (code - 40) iter in (iter', set_bg col False c))
      else if 90 \<le> code \<and> code \<le> 97 then (let (col, iter') = ansi_color (code - 90) iter in (iter', set_fg col True c))
      else if 100 \<le> code \<and> code \<le> 107 then (let (col, iter') = ansi_color (code - 100) iter in (iter', set_bg col True c))
      else (iter, c))"

function color_rounds :: "nat list \<Rightarrow> color_state \<Rightarrow> color_state" where
  "color_rounds [] c = c"
| "color_rounds (code # iter) c = (let (iter', c') = color_round code iter c in color_rounds iter' c')"
  by pat_completeness auto
termination
proof (relation "measure (\<lambda>(iter, _). length iter)", simp)
  fix code :: nat and iter :: "nat list" and c :: color_state and x iter' c'
  assume x: "x = color_round code iter c" "(iter', c') = x"
  have "length (snd (parse_complex_color xs)) \<le> length xs" for xs by (cases xs) (auto split: list.splits)
  then have a: "length (snd (ansi_color k xs)) \<le> length xs" for k xs by (simp add: ansi_color_def)
  have "length (fst (color_round code iter c)) \<le> length iter"
    using a[of _ iter] by (simp add: color_round_def Let_def case_prod_beta)
  then have "length iter' \<le> length iter" using x by (metis fst_conv)
  then show "((iter', c'), code # iter, c) \<in> measure (\<lambda>(iter, _). length iter)" by simp
qed

definition handle_ansi_color :: "nat list \<Rightarrow> color_state \<Rightarrow> color_state" where
  "handle_ansi_color params c =
     (let c1 = color_rounds params c;
          (fg, bg) = (if invert c1 then (bg_base_color c1, fg_base_color c1) else (fg_base_color c1, bg_base_color c1));
          fg = (if bright_mode c1 \<or> fg_bright c1 then bright fg else fg);
          fg = (if dim_mode c1 then dim fg else fg);
          bg = (if bg_bright c1 then bright bg else bg)
      in c1\<lparr>fg_color := fg, bg_color := bg\<rparr>)"

section \<open>Escape sequences\<close>

text \<open>\<open>if n == 0 { 1 } else { n }\<close>\<close>

definition at_least_one :: "nat \<Rightarrow> nat" where
  "at_least_one n = (if n = 0 then 1 else n)"

definition handle_ansi_cursor_sequence ::
  "term_env \<Rightarrow> color_state \<Rightarrow> nat \<Rightarrow> nat list \<Rightarrow> cursor_state \<times> display_state \<Rightarrow> (cursor_state \<times> display_state) result" where
  "handle_ansi_cursor_sequence env c code params = (\<lambda>(cur, d).
     let (x, y) = pos cur; (width, height) = disp_size d; go = (\<lambda>p. position env c p (cur, d)) in
     if code = 0x41 then
       (case params of
          [] \<Rightarrow> Inr (cur, d)
        | y_move # _ \<Rightarrow> and_then (checked_sub y (at_least_one y_move)) (\<lambda>row. go (x, if row > 0 then row else 0)))
     else if code = 0x42 then
       (case params of
          [] \<Rightarrow> Inr (cur, d)
        | y_move # _ \<Rightarrow> and_then (u16_add y (at_least_one y_move)) (\<lambda>row.
            if row < height then go (x, row) else and_then (checked_sub height 1) (\<lambda>bottom. go (x, bottom))))
     else if code = 0x43 then
       (case params of
          [] \<Rightarrow> Inr (cur, d)
        | x_move # _ \<Rightarrow> and_then (u16_add x (at_least_one x_move)) (\<lambda>column.
            if column < width then go (column, y) else and_then (checked_sub width 1) (\<lambda>right. go (right, y))))
     else if code = 0x44 then
       (case params of
          [] \<Rightarrow> Inr (cur, d)
        | x_move # _ \<Rightarrow> and_then (checked_sub x (at_least_one x_move)) (\<lambda>column. go (if column > 0 then column else 0, y)))
     else if code = 0x45 then
       (case params of
          [] \<Rightarrow> Inr (cur, d)
        | n # _ \<Rightarrow> and_then (u16_add y n) (\<lambda>r. and_then (u16_add r 1) (\<lambda>row.
            if row < height then go (0, row) else and_then (checked_sub height 1) (\<lambda>bottom. go (0, bottom)))))
     else if code = 0x46 then
       (case params of
          [] \<Rightarrow> Inr (cur, d)
        | n # _ \<Rightarrow> and_then (checked_sub y n) (\<lambda>r. and_then (checked_sub r 1) (\<lambda>row. go (0, if row > 0 then row else 0))))
     else if code = 0x47 then
       (case params of
          [] \<Rightarrow> Inr (cur, d)
        | column # _ \<Rightarrow> if column < width then go (column, y) else and_then (checked_sub width 1) (\<lambda>right. go (right, y)))
     else if code = 0x48 \<or> code = 0x66 then
       (case params of
          column # row # _ \<Rightarrow>
            and_then (if column > width then checked_sub width 1 else Inr column) (\<lambda>x'.
            and_then (if row > height then checked_sub height 1 else Inr row) (\<lambda>y'. go (x', y')))
        | _ \<Rightarrow> go (0, 0))
     else if code = 0x73 then Inr (cur\<lparr>saved_pos := pos cur\<rparr>, d)
     else if code = 0x75 then go (saved_pos cur)
     else Inr (cur, d))"

definition handle_ansi_erase_sequence ::
  "term_env \<Rightarrow> color_state \<Rightarrow> nat \<Rightarrow> nat list \<Rightarrow> cursor_state \<times> display_state \<Rightarrow> (cursor_state \<times> display_state) result" where
  "handle_ansi_erase_sequence env c code params = (\<lambda>(cur, d).
     let erase_code = (case params of [] \<Rightarrow> 0 | n # _ \<Rightarrow> n);
         keep = (\<lambda>r. and_then r (\<lambda>d'. Inr (cur, d'))) in
     if code = 0x4a then
       (if erase_code = 0 then keep (clear_screen_from_cursor env cur c d)
        else if erase_code = 1 then keep (clear_screen_to_cursor env cur c d)
        else if erase_code = 2 then and_then (clear_screen env c d) (\<lambda>d'. position env c (0, 0) (cur, d'))
        else Inr (cur, d))
     else if code = 0x4b then
       (if erase_code = 0 then keep (clear_line_from_cursor env cur c d)
        else if erase_code = 1 then keep (clear_line_to_cursor env cur c d)
        else if erase_code = 2 then keep (clear_line env cur c d)
        else Inr (cur, d))
     else Inr (cur, d))"

section \<open>Parser callbacks\<close>

datatype term_event =
    Print nat
  | Execute nat
  | Csi_Dispatch "nat list" nat
  | Ignored

definition on_cursor :: "(cursor_state \<times> display_state \<Rightarrow> (cursor_state \<times> display_state) result) \<Rightarrow> terminal \<Rightarrow> terminal result" where
  "on_cursor f t = and_then (f (t_cursor t, t_display t)) (\<lambda>(cur, d). Inr (t\<lparr>t_cursor := cur, t_display := d\<rparr>))"

definition handle_bell :: "terminal \<Rightarrow> terminal" where
  "handle_bell t = t\<lparr>t_beeps := t_beeps t @ [(440, 250), (880, 250)]\<rparr>"

definition execute :: "term_env \<Rightarrow> nat \<Rightarrow> terminal \<Rightarrow> terminal result" where
  "execute env byte t =
     (if byte = 0x07 then Inr (handle_bell t)
      else if byte = 0x09 then on_cursor (handle_tab env (t_color t)) t
      else if byte = 0x0a then print_char env 10 t
      else Inr t)"

definition csi_dispatch :: "term_env \<Rightarrow> nat list \<Rightarrow> nat \<Rightarrow> terminal \<Rightarrow> terminal result" where
  "csi_dispatch env params action t =
     (if 0x41 \<le> action \<and> action \<le> 0x48 \<or> action \<in> {0x66, 0x6e, 0x73, 0x75}
      then on_cursor (handle_ansi_cursor_sequence env (t_color t) action params) t
      else if action = 0x4a \<or> action = 0x4b then on_cursor (handle_ansi_erase_sequence env (t_color t) action params) t
      else if action = 0x6d then Inr (t\<lparr>t_color := handle_ansi_color params (t_color t)\<rparr>)
      else Inr t)"

fun perform :: "term_env \<Rightarrow> term_event \<Rightarrow> terminal \<Rightarrow> terminal result" where
  "perform env (Print c) t = print_char env c t"
| "perform env (Execute byte) t = execute env byte t"
| "perform env (Csi_Dispatch params action) t = csi_dispatch env params action t"
| "perform env Ignored t = Inr t"

fun perform_all :: "term_env \<Rightarrow> term_event list \<Rightarrow> terminal \<Rightarrow> terminal result" where
  "perform_all env [] t = Inr t"
| "perform_all env (e # es) t = and_then (perform env e t) (perform_all env es)"

section \<open>Streams\<close>

text \<open>\<open>advance\<close> is the parser: the next state and the callbacks it makes for a byte.\<close>

definition write_byte :: "('p \<Rightarrow> u8 \<Rightarrow> 'p \<times> term_event list) \<Rightarrow> term_env \<Rightarrow> u8 \<Rightarrow> 'p \<times> terminal \<Rightarrow> ('p \<times> terminal) result" where
  "write_byte advance env b = (\<lambda>(parser, t).
     let (parser', events) = advance parser b in and_then (perform_all env events t) (\<lambda>t'. Inr (parser', t')))"

fun write_str :: "('p \<Rightarrow> u8 \<Rightarrow> 'p \<times> term_event list) \<Rightarrow> term_env \<Rightarrow> u8 list \<Rightarrow> 'p \<times> terminal \<Rightarrow> ('p \<times> terminal) result" where
  "write_str advance env [] s = Inr s"
| "write_str advance env (b # bs) s = and_then (write_byte advance env b s) (write_str advance env bs)"

text \<open>
  \<open>decode\<close> is the keyboard decoder: the next state and the character of a completed key. The keyboard delivers the
  given scan codes; without a further one the loop waits (\<open>None\<close>), and -1 is the end of the stream.
\<close>

fun read_byte ::
  "('p \<Rightarrow> u8 \<Rightarrow> 'p \<times> term_event list) \<Rightarrow> ('k \<Rightarrow> u8 \<Rightarrow> 'k \<times> nat option) \<Rightarrow> term_env \<Rightarrow> int list \<Rightarrow> 'k \<Rightarrow> 'p \<times> terminal \<Rightarrow>
     (int \<times> 'k \<times> 'p \<times> terminal) result option" where
  "read_byte advance decode env [] k s = None"
| "read_byte advance decode env (scancode # rest) k s =
     (if scancode = -1 then Some (Inl Input_Closed)
      else case decode k (of_int scancode) of
        (k', Some c) \<Rightarrow>
          Some (and_then (write_byte advance env (of_nat c) s) (\<lambda>s'.
            Inr (sint (of_nat c :: 16 word), k', s')))
      | (k', None) \<Rightarrow> read_byte advance decode env rest k' s)"

definition clear :: "term_env \<Rightarrow> terminal \<Rightarrow> terminal result" where
  "clear env t =
     and_then (clear_screen env (t_color t) (t_display t)) (\<lambda>d.
       on_cursor (position env (t_color t) (0, 0)) (t\<lparr>t_display := d\<rparr>))"

section \<open>Cursor thread\<close>

text \<open>One round of \<open>CursorThread::run\<close> after its sleep: state are the flag \<open>visible\<close> and the sleep counter.\<close>

definition cursor_thread_round :: "term_env \<Rightarrow> bool \<times> nat \<Rightarrow> terminal \<Rightarrow> ((bool \<times> nat) \<times> terminal) result" where
  "cursor_thread_round env = (\<lambda>(visible, counter) t.
     let sleep_counter = counter + CURSOR_UPDATE_INTERVAL; d = t_display t; p = pos (t_cursor t) in
     and_then (cell_index p (disp_size d)) (\<lambda>index.
     and_then (guard Index_Out_Of_Bounds (index < length (char_buffer d))) (\<lambda>_.
       let character = char_buffer d ! index in
       and_then (draw_char (env_font env) (env_mix env) (fst p * CHAR_WIDTH) (snd p * CHAR_HEIGHT) (char_fg character)
           (char_bg character) (if visible then char_value character else CURSOR) (target_lfb (disp_lfb d))) (\<lambda>(_, l).
         let d1 = d\<lparr>disp_lfb := (disp_lfb d)\<lparr>target_lfb := l\<rparr>\<rparr> in
         and_then (if sleep_counter \<ge> 1000 then and_then (draw_status_bar env d1) (\<lambda>d2. Inr (0, d2)) else Inr (sleep_counter, d1)) (\<lambda>(sc, d2).
           Inr ((\<not> visible, sc), t\<lparr>t_display := d2\<rparr>))))))"

end
