(* ===== verification/Terminal_Props.thy ===== *)
theory Terminal_Props
  imports Terminal
begin

text \<open>
  The behaviour of the terminal (\<open>Terminal\<close>). The operations are sequences of fallible calls, so each one is first shown to return
  (\<open>runs\<close>) and to keep the invariant of the display (\<open>kept\<close>), with its effect on the character buffer.

  Shown here: which callbacks of the parser panic and that all others keep the invariant; what printing a character changes in the
  character buffer and on the screen; scrolling by a line feed; and the effect of colour sequences.
\<close>

section \<open>Total runs\<close>

text \<open>The operation returns, and its result satisfies the predicate.\<close>

definition runs :: "'a result \<Rightarrow> ('a \<Rightarrow> bool) \<Rightarrow> bool" where
  "runs r P \<longleftrightarrow> (\<exists>x. r = Inr x \<and> P x)"

lemma runs_Inr [simp]: "runs (Inr x) P = P x"
  by (simp add: runs_def)

lemma runs_and_then: "runs r P \<Longrightarrow> (\<And>x. P x \<Longrightarrow> runs (f x) Q) \<Longrightarrow> runs (and_then r f) Q"
  by (auto simp: runs_def)

lemma runs_mono: "runs r P \<Longrightarrow> (\<And>x. P x \<Longrightarrow> Q x) \<Longrightarrow> runs r Q"
  by (auto simp: runs_def)

lemma runs_checks:
  "a + b < 2 ^ 16 \<Longrightarrow> u16_add a b = Inr (a + b)" "a * b < 2 ^ 16 \<Longrightarrow> u16_mul a b = Inr (a * b)"
  by (simp_all add: u16_add_def u16_mul_def)

section \<open>Invariant\<close>

definition env_ok :: "term_env \<Rightarrow> nat \<times> nat \<Rightarrow> bool" where
  "env_ok env sz \<longleftrightarrow> (\<forall>c. case env_font env c of None \<Rightarrow> True | Some bitmap \<Rightarrow> length bitmap = 8) \<and>
     length (info_string (env_status env)) < 2 ^ 16 \<and>
     (case efi_date (env_status env) of None \<Rightarrow> True | Some date \<Rightarrow> length (date_string date) \<le> fst sz)"

definition color_ok :: "color_state \<Rightarrow> bool" where
  "color_ok c \<longleftrightarrow> list_all (\<lambda>x. alpha x = 255) [fg_color c, bg_color c, fg_base_color c, bg_base_color c]"

definition size_ok :: "nat \<times> nat \<Rightarrow> bool" where
  "size_ok sz \<longleftrightarrow> 0 < fst sz \<and> 2 \<le> snd sz \<and> fst sz * snd sz < 2 ^ 16"

definition display_ok :: "display_state \<Rightarrow> bool" where
  "display_ok d \<longleftrightarrow> size_ok (disp_size d) \<and> wf_lfb (back_lfb (disp_lfb d)) \<and> same_mode (back_lfb (disp_lfb d)) (target_lfb (disp_lfb d)) \<and>
     CHAR_HEIGHT * snd (disp_size d) \<le> lfb_height (back_lfb (disp_lfb d)) \<and>
     length (char_buffer d) = fst (disp_size d) * snd (disp_size d) * CHARACTER_SIZE"

definition place_ok :: "nat \<times> nat \<Rightarrow> nat \<times> nat \<Rightarrow> bool" where
  "place_ok sz p \<longleftrightarrow> fst p \<le> fst sz \<and> 1 \<le> snd p \<and> snd p < snd sz"

definition cursor_ok :: "nat \<times> nat \<Rightarrow> cursor_state \<Rightarrow> bool" where
  "cursor_ok sz cur \<longleftrightarrow> place_ok sz (pos cur) \<and> place_ok sz (saved_pos cur)"

definition terminal_ok :: "terminal \<Rightarrow> bool" where
  "terminal_ok t \<longleftrightarrow> display_ok (t_display t) \<and> cursor_ok (disp_size (t_display t)) (t_cursor t) \<and> color_ok (t_color t)"

definition terminal_kept :: "terminal \<Rightarrow> terminal \<Rightarrow> bool" where
  "terminal_kept t t' \<longleftrightarrow> terminal_ok t' \<and> disp_size (t_display t') = disp_size (t_display t)"

text \<open>What drawing keeps of a display.\<close>

definition kept :: "display_state \<Rightarrow> display_state \<Rightarrow> bool" where
  "kept d d' \<longleftrightarrow> display_ok d' \<and> disp_size d' = disp_size d"

lemma size_bounds:
  assumes "size_ok sz"
  shows "fst sz < 2 ^ 15" "snd sz < 2 ^ 16"
proof -
  have "fst sz * 2 \<le> fst sz * snd sz" "1 * snd sz \<le> fst sz * snd sz"
    using assms by (auto simp: size_ok_def simp del: One_nat_def intro: mult_le_mono1)
  moreover have "fst sz * snd sz < 2 ^ 16" using assms by (simp add: size_ok_def)
  ultimately have "fst sz * 2 < 2 ^ 16" "1 * snd sz < 2 ^ 16" by (auto simp only: intro: le_less_trans)
  then show "fst sz < 2 ^ 15" "snd sz < 2 ^ 16" by simp_all
qed

lemma place_index:
  assumes "size_ok sz" "place_ok sz p"
  shows "cell_index p sz = Inr (snd p * fst sz + fst p)" "snd p * fst sz + fst p \<le> fst sz * snd sz" "snd p * fst sz < 2 ^ 16"
proof -
  have "Suc (snd p) * fst sz \<le> snd sz * fst sz" using assms(2) by (intro mult_le_mono1) (simp add: place_ok_def)
  then show le: "snd p * fst sz + fst p \<le> fst sz * snd sz" using assms(2) by (simp add: place_ok_def mult.commute)
  moreover have "fst sz * snd sz < 2 ^ 16" using assms(1) by (simp add: size_ok_def)
  ultimately show "snd p * fst sz < 2 ^ 16" by linarith
  then show "cell_index p sz = Inr (snd p * fst sz + fst p)"
    using le \<open>fst sz * snd sz < 2 ^ 16\<close> by (simp add: cell_index_def runs_checks)
qed

section \<open>Drawing on the display\<close>

lemma kept_trans: "kept d d' \<Longrightarrow> kept d' d'' \<Longrightarrow> kept d d''"
  by (simp add: kept_def)

lemma kept_refl: "display_ok d \<Longrightarrow> kept d d"
  by (simp add: kept_def)

lemma update_back_runs:
  assumes "display_ok d" "\<And>l. wf_lfb l \<Longrightarrow> l = back_lfb (disp_lfb d) \<Longrightarrow> runs (f l) (same_mode l)"
  shows "runs (update_back f d) (\<lambda>d'. kept d d' \<and> char_buffer d' = char_buffer d)"
proof -
  let ?l = "back_lfb (disp_lfb d)"
  have "wf_lfb ?l" using assms(1) by (simp add: display_ok_def)
  from assms(2)[OF this refl] obtain l where l: "f ?l = Inr l" "same_mode ?l l" by (auto simp: runs_def)
  then show ?thesis using assms(1) same_mode_facts(1)[OF l(2)]
    by (auto simp: update_back_def kept_def display_ok_def same_mode_def)
qed

lemma fill_runs:
  assumes "wf_lfb l" "alpha c = 255" "x + w < 2 ^ 32" "y + h < 2 ^ 32"
  shows "runs (fill_rect mix x y w h c l) (same_mode l)"
  using fill_rect_effect[OF assms, of mix] by (auto simp: runs_def)

text \<open>Invisible pixels are not drawn, so sequences of opaque and invisible pixels never panic.\<close>

lemma solid_pixels_runs:
  assumes "wf_lfb l" "list_all (\<lambda>(_, _, c). alpha c = 0 \<or> alpha c = 255) ps"
  shows "runs (draw_pixels mix ps l) (same_mode l)"
  using assms
proof (induction ps arbitrary: l)
  case (Cons p ps)
  obtain x y c where p: "p = (x, y, c)" by (cases p)
  have "runs (draw_pixel mix x y c l) (same_mode l)"
    using Cons.prems p opaque_pixel[OF Cons.prems(1), of c mix x y] by (auto simp: runs_def draw_pixel_def split: if_splits)
  then show ?case unfolding p draw_pixels.simps
  proof (rule runs_and_then)
    fix l' assume m: "same_mode l l'"
    have "runs (draw_pixels mix ps l') (same_mode l')"
      using Cons.prems p same_mode_facts(1)[OF m] by (intro Cons.IH) auto
    then show "runs (draw_pixels mix ps l') (same_mode l)" by (rule runs_mono) (rule same_mode_trans[OF m])
  qed
qed simp

definition solid :: "color \<Rightarrow> bool" where
  "solid c \<longleftrightarrow> alpha c = 0 \<or> alpha c = 255"

lemma glyph_solid: "solid fg \<Longrightarrow> solid bg \<Longrightarrow> list_all (\<lambda>(_, _, c). alpha c = 0 \<or> alpha c = 255) (glyph_pixels x y fg bg bm k)"
proof (induction bm arbitrary: k)
  case (Cons row rows)
  show ?case using Cons(1)[OF Cons(2,3), of "k + 2"] Cons(2,3)
    by (simp only: glyph_pixels.simps list_all_append) (auto simp: list_all_iff Let_def solid_def)
qed simp

lemma draw_char_runs:
  assumes "wf_lfb l" "solid fg" "solid bg" "x + 8 \<le> 2 ^ 32" "y + 16 \<le> 2 ^ 32" "\<And>bitmap. font c = Some bitmap \<Longrightarrow> length bitmap = 8"
  shows "runs (draw_char font mix x y fg bg c l) (\<lambda>(b, l'). same_mode l l' \<and> b = (font c \<noteq> None))"
proof (cases "font c")
  case (Some bm)
  then show ?thesis using assms(4,5,6) solid_pixels_runs[OF assms(1) glyph_solid[OF assms(2,3)], of mix x y bm 0]
    by (auto simp: draw_char_def runs_def)
qed (simp add: draw_char_def)

lemma draw_string_runs:
  assumes "wf_lfb l" "solid fg" "solid bg" "x + 8 * length cs \<le> 2 ^ 31" "y + 16 \<le> 2 ^ 32"
    "\<And>c bitmap. font c = Some bitmap \<Longrightarrow> length bitmap = 8"
  shows "runs (draw_string font mix x y fg bg cs l) (same_mode l)"
  using assms(1,4)
proof (induction cs arbitrary: x l)
  case (Cons c cs)
  have "runs (draw_char font mix x y fg bg c l) (\<lambda>(b, l'). same_mode l l' \<and> b = (font c \<noteq> None))"
    using Cons.prems by (intro draw_char_runs assms) auto
  then show ?case unfolding draw_string.simps
  proof (rule runs_and_then)
    fix r assume m: "case r of (b, l') \<Rightarrow> same_mode l l' \<and> b = (font c \<noteq> None)"
    obtain b l' where r: "r = (b, l')" "same_mode l l'" using m by (cases r) auto
    have "runs (draw_string font mix (x + CHAR_WIDTH) y fg bg cs l') (same_mode l')"
      using Cons.prems same_mode_facts(1)[OF r(2)] by (intro Cons.IH) (auto simp: CHAR_WIDTH_def)
    then have "runs (draw_string font mix (x + CHAR_WIDTH) y fg bg cs l') (same_mode l)" by (rule runs_mono) (rule same_mode_trans[OF r(2)])
    then show "runs (case r of (_, l') \<Rightarrow> if cs = [] then Inr l'
        else and_then (u32_add x CHAR_WIDTH) (\<lambda>x'. draw_string font mix x' y fg bg cs l')) (same_mode l)"
      using r Cons.prems(2) by (simp add: u32_add_def CHAR_WIDTH_def)
  qed
qed simp

lemma scroll_runs: "wf_lfb l \<Longrightarrow> n \<le> lfb_height l \<Longrightarrow> runs (lfb_scroll_up n l) (same_mode l)"
  using scroll_up_moves_rows[of l n] by (auto simp: runs_def)

lemma flush_lines_runs:
  assumes "display_ok d" "a + n \<le> lfb_height (back_lfb (disp_lfb d))"
  shows "runs (flush_lines a n (disp_lfb d)) (\<lambda>b. kept d (d\<lparr>disp_lfb := b\<rparr>) \<and> back_lfb b = back_lfb (disp_lfb d))"
proof -
  let ?l = "back_lfb (disp_lfb d)"
  have "lfb_pitch ?l * (a + n) \<le> lfb_pitch ?l * lfb_height ?l" by (rule mult_le_mono2[OF assms(2)])
  moreover have "lfb_pitch ?l * lfb_height ?l < 2 ^ 32" using assms(1) by (simp add: display_ok_def wf_lfb_def)
  ultimately have "lfb_pitch ?l * a < 2 ^ 32" "lfb_pitch ?l * n < 2 ^ 32" by (simp_all add: distrib_left)
  then show ?thesis using assms(1)
    by (simp add: flush_lines_def u32_mul_def kept_def display_ok_def same_mode_def)
qed

lemma flush_display_runs: "display_ok d \<Longrightarrow> runs (flush_display d) (\<lambda>d'. kept d d' \<and> char_buffer d' = char_buffer d \<and> back_lfb (disp_lfb d') = back_lfb (disp_lfb d))"
  unfolding flush_display_def flush_def
  by (rule runs_and_then[OF flush_lines_runs]) auto


lemma solid_colors: "solid HHU_GREEN" "solid HHU_BLUE" "solid INVISIBLE"
  by (simp_all add: solid_def HHU_GREEN_def HHU_BLUE_def INVISIBLE_def rgba_def)

lemma display_bounds:
  assumes "display_ok d"
  shows "fst (disp_size d) < 2 ^ 15" "snd (disp_size d) < 2 ^ 16" "2 \<le> snd (disp_size d)" "wf_lfb (back_lfb (disp_lfb d))"
    "CHAR_HEIGHT * snd (disp_size d) \<le> lfb_height (back_lfb (disp_lfb d))"
proof -
  have "size_ok (disp_size d)" using assms by (simp add: display_ok_def)
  from size_bounds[OF this] show "fst (disp_size d) < 2 ^ 15" "snd (disp_size d) < 2 ^ 16" .
  from \<open>size_ok (disp_size d)\<close> show "2 \<le> snd (disp_size d)" by (simp add: size_ok_def)
  show "wf_lfb (back_lfb (disp_lfb d))" "CHAR_HEIGHT * snd (disp_size d) \<le> lfb_height (back_lfb (disp_lfb d))"
    using assms by (simp_all add: display_ok_def)
qed

lemma env_fonts: "env_ok env sz \<Longrightarrow> env_font env c = Some bitmap \<Longrightarrow> length bitmap = 8"
  by (auto simp: env_ok_def dest: spec[of _ c])

lemma status_bar_runs:
  assumes "display_ok d" "env_ok env (disp_size d)"
  shows "runs (draw_status_bar env d) (\<lambda>d'. kept d d' \<and> char_buffer d' = char_buffer d)"
  unfolding draw_status_bar_def
proof (rule runs_and_then)
  let ?K = "\<lambda>d'. kept d d' \<and> char_buffer d' = char_buffer d"
  let ?ps = "concat (map (\<lambda>i. map (\<lambda>j. (i, j, HHU_GREEN)) [0..<CHAR_HEIGHT]) [0..<fst (disp_size d) * CHAR_WIDTH])"
  have solid: "list_all (\<lambda>(_, _, c). alpha c = 0 \<or> alpha c = 255) ?ps" using solid_colors(1) by (auto simp: list_all_iff solid_def)
  show "runs (update_back (draw_pixels (env_mix env) ?ps) d) ?K"
    by (rule update_back_runs[OF assms(1)]) (rule solid_pixels_runs[OF _ solid])
  have str: "runs (update_back (draw_string (env_font env) (env_mix env) x 0 HHU_BLUE INVISIBLE (codes s)) d1) ?K"
    if "?K d1" "x + 8 * length s \<le> 2 ^ 31" for d1 x s
  proof -
    have ok: "display_ok d1" using that(1) by (simp add: kept_def)
    have "runs (update_back (draw_string (env_font env) (env_mix env) x 0 HHU_BLUE INVISIBLE (codes s)) d1)
        (\<lambda>d'. kept d1 d' \<and> char_buffer d' = char_buffer d1)"
      by (rule update_back_runs[OF ok]) (use that(2) env_fonts[OF assms(2)] in \<open>auto intro!: draw_string_runs solid_colors simp: codes_def\<close>)
    then show ?thesis by (rule runs_mono) (use that(1) kept_trans in auto)
  qed
  fix d1 assume d1: "?K d1"
  show "runs (and_then (update_back (draw_string (env_font env) (env_mix env) 0 0 HHU_BLUE INVISIBLE (codes (info_string (env_status env)))) d1) (\<lambda>d2.
     and_then (case efi_date (env_status env) of
         Some date \<Rightarrow>
           and_then (checked_sub (fst (disp_size d2)) (length (date_string date))) (\<lambda>column.
             update_back (draw_string (env_font env) (env_mix env) (column * CHAR_WIDTH) 0 HHU_BLUE INVISIBLE (codes (date_string date))) d2)
       | None \<Rightarrow> Inr d2) (\<lambda>d3.
     and_then (flush_lines 0 CHAR_HEIGHT (disp_lfb d3)) (\<lambda>b. Inr (d3\<lparr>disp_lfb := b\<rparr>))))) ?K"
  proof (rule runs_and_then[OF str[OF d1]])
    show "0 + 8 * length (info_string (env_status env)) \<le> 2 ^ 31" using assms(2) by (simp add: env_ok_def)
  next
    fix d2 assume d2: "?K d2"
    have date: "runs (case efi_date (env_status env) of
         Some date \<Rightarrow>
           and_then (checked_sub (fst (disp_size d2)) (length (date_string date))) (\<lambda>column.
             update_back (draw_string (env_font env) (env_mix env) (column * CHAR_WIDTH) 0 HHU_BLUE INVISIBLE (codes (date_string date))) d2)
       | None \<Rightarrow> Inr d2) ?K"
    proof (cases "efi_date (env_status env)")
      case (Some dt)
      then have "length (date_string dt) \<le> fst (disp_size d2)" using assms(2) d2 by (auto simp: env_ok_def kept_def)
      moreover have "fst (disp_size d2) < 2 ^ 15" using display_bounds(1)[OF assms(1)] d2 by (simp add: kept_def)
      ultimately show ?thesis using Some by (simp add: str[OF d2] CHAR_WIDTH_def)
    qed (use d2 in simp)
    show "runs (and_then (case efi_date (env_status env) of
         Some date \<Rightarrow>
           and_then (checked_sub (fst (disp_size d2)) (length (date_string date))) (\<lambda>column.
             update_back (draw_string (env_font env) (env_mix env) (column * CHAR_WIDTH) 0 HHU_BLUE INVISIBLE (codes (date_string date))) d2)
       | None \<Rightarrow> Inr d2) (\<lambda>d3.
     and_then (flush_lines 0 CHAR_HEIGHT (disp_lfb d3)) (\<lambda>b. Inr (d3\<lparr>disp_lfb := b\<rparr>)))) ?K"
    proof (rule runs_and_then[OF date])
      fix d3 assume d3: "?K d3"
      then have ok: "display_ok d3" by (simp add: kept_def)
      have "0 + CHAR_HEIGHT \<le> lfb_height (back_lfb (disp_lfb d3))" using display_bounds(3,5)[OF ok] by (simp add: CHAR_HEIGHT_def)
      from flush_lines_runs[OF ok this] show "runs (and_then (flush_lines 0 CHAR_HEIGHT (disp_lfb d3)) (\<lambda>b. Inr (d3\<lparr>disp_lfb := b\<rparr>))) ?K"
        by (rule runs_and_then) (use d3 kept_trans in auto)
    qed
  qed
qed

text \<open>The end of the clearing operations, with the character buffer replaced by one of the same length.\<close>

lemma finish_runs:
  assumes "kept d d1" "env_ok env (disp_size d)" "length cb = length (char_buffer d)" "display_ok d"
  shows "runs (and_then (draw_status_bar env (d1\<lparr>char_buffer := cb\<rparr>)) flush_display) (\<lambda>d'. kept d d' \<and> char_buffer d' = cb)"
    "runs (flush_display (d1\<lparr>char_buffer := cb\<rparr>)) (\<lambda>d'. kept d d' \<and> char_buffer d' = cb)"
    "runs (finish_line env y (d1\<lparr>char_buffer := cb\<rparr>)) (\<lambda>d'. kept d d' \<and> char_buffer d' = cb)"
proof -
  let ?d = "d1\<lparr>char_buffer := cb\<rparr>"
  have k: "display_ok d1" "disp_size d1 = disp_size d" using assms(1) by (simp_all add: kept_def)
  then have "length (char_buffer d1) = length (char_buffer d)" using assms(4) by (simp add: display_ok_def)
  then have ok: "display_ok ?d" "disp_size ?d = disp_size d" using k assms(3) by (simp_all add: display_ok_def)
  have fl: "runs (flush_display d2) (\<lambda>d'. kept d d' \<and> char_buffer d' = cb)" if "kept ?d d2 \<and> char_buffer d2 = cb" for d2
    by (rule runs_mono[OF flush_display_runs]) (use that ok(2) in \<open>auto simp: kept_def\<close>)
  show a: "runs (and_then (draw_status_bar env ?d) flush_display) (\<lambda>d'. kept d d' \<and> char_buffer d' = cb)"
    by (rule runs_and_then[OF status_bar_runs[OF ok(1)]]) (use fl ok(2) assms(2) in auto)
  show b: "runs (flush_display ?d) (\<lambda>d'. kept d d' \<and> char_buffer d' = cb)" by (rule fl) (use ok in \<open>simp add: kept_def\<close>)
  show "runs (finish_line env y ?d) (\<lambda>d'. kept d d' \<and> char_buffer d' = cb)" using a b by (simp add: finish_line_def)
qed


lemma fill_then:
  assumes "kept d0 d" "char_buffer d = char_buffer d0" "alpha c = 255" "x + w < 2 ^ 32" "y + h < 2 ^ 32"
    "\<And>d'. kept d0 d' \<Longrightarrow> char_buffer d' = char_buffer d0 \<Longrightarrow> runs (f d') Q"
  shows "runs (and_then (update_back (fill_rect mix x y w h c) d) f) Q"
proof (rule runs_and_then)
  have ok: "display_ok d" using assms(1) by (simp add: kept_def)
  show "runs (update_back (fill_rect mix x y w h c) d) (\<lambda>d'. kept d d' \<and> char_buffer d' = char_buffer d)"
    by (rule update_back_runs[OF ok fill_runs]) (use assms in simp_all)
qed (use assms(1,2,6) kept_trans in auto)

lemma char_arith:
  assumes "n < 2 ^ 16" "k \<le> 2 ^ 16"
  shows "n * CHAR_WIDTH + k * CHAR_WIDTH < 2 ^ 32" "n * CHAR_HEIGHT + CHAR_HEIGHT < 2 ^ 32" "0 + n * CHAR_WIDTH < 2 ^ 32"
    "n * CHAR_HEIGHT + k * CHAR_HEIGHT < 2 ^ 32" "0 + n * CHAR_HEIGHT < 2 ^ 32"
  using assms by (simp_all add: CHAR_WIDTH_def CHAR_HEIGHT_def)

lemma length_erase_range: "length (erase_range f a n xs) = length xs"
  by (simp add: erase_range_def)

lemma bg_opaque: "color_ok c \<Longrightarrow> alpha (bg_color c) = 255" "color_ok c \<Longrightarrow> alpha (fg_color c) = 255"
  by (simp_all add: color_ok_def)

lemma scroll_up_runs:
  assumes "display_ok d" "env_ok env (disp_size d)" "color_ok c"
  shows "runs (scroll_up env c d) (\<lambda>d'. kept d d' \<and>
    (let skip = fst (disp_size d) * (snd (disp_size d) - 1) in
      char_buffer d' = take skip (drop (fst (disp_size d)) (char_buffer d)) @ map (erase c) (drop skip (char_buffer d))))"
proof -
  obtain w h where sz: "disp_size d = (w, h)" by (cases "disp_size d")
  let ?skip = "w * (h - 1)"
  let ?cb = "take ?skip (drop w (char_buffer d)) @ map (erase c) (drop ?skip (char_buffer d))"
  note b = display_bounds[OF assms(1)]
  have len: "length (char_buffer d) = w * h * 12" using assms(1) sz by (simp add: display_ok_def CHARACTER_SIZE_def)
  have fits: "?skip + w \<le> length (char_buffer d)"
  proof -
    have "w * (h - 1) + w = w * h" using b(3) sz by (cases h) simp_all
    then show ?thesis using len by simp
  qed
  let ?moved = "take ?skip (drop w (char_buffer d)) @ drop ?skip (char_buffer d)"
  have lt: "length (take ?skip (drop w (char_buffer d))) = ?skip" using fits by simp
  have cb: "take ?skip ?moved @ map (erase c) (drop ?skip ?moved) = ?cb" using lt by simp
  have lcb: "length ?cb = length (char_buffer d)" using fits by simp
  let ?d = "d\<lparr>char_buffer := ?cb\<rparr>"
  have ok: "display_ok ?d" using assms(1) lcb by (simp add: display_ok_def)
  have s1: "runs (update_back (lfb_scroll_up CHAR_HEIGHT) ?d) (\<lambda>d'. kept ?d d' \<and> char_buffer d' = char_buffer ?d)"
    by (rule update_back_runs[OF ok]) (use b(3,5) in \<open>auto intro!: scroll_runs simp: CHAR_HEIGHT_def\<close>)
  have s2: "runs (and_then (update_back (fill_rect (env_mix env) 0 ((h - 1) * CHAR_HEIGHT) (w * CHAR_WIDTH) CHAR_HEIGHT (bg_color c)) d1)
      (\<lambda>d2. and_then (draw_status_bar env d2) flush_display)) (\<lambda>d'. kept d d' \<and> char_buffer d' = ?cb)"
    if d1: "kept ?d d1 \<and> char_buffer d1 = char_buffer ?d" for d1
  proof (rule fill_then[of ?d])
    fix d2 assume d2: "kept ?d d2" "char_buffer d2 = char_buffer ?d"
    then have k: "kept d d2" by (simp add: kept_def)
    have "d2\<lparr>char_buffer := ?cb\<rparr> = d2" using d2(2) by simp
    with finish_runs(1)[OF k assms(2) lcb assms(1)]
    show "runs (and_then (draw_status_bar env d2) flush_display) (\<lambda>d'. kept d d' \<and> char_buffer d' = ?cb)" by simp
  qed (use d1 b sz bg_opaque[OF assms(3)] in \<open>auto simp: CHAR_WIDTH_def CHAR_HEIGHT_def\<close>)
  have "1 \<le> h" using b(3) sz by simp
  then have "checked_sub h 1 = Inr (h - 1)" by simp
  then have "runs (scroll_up env c d) (\<lambda>d'. kept d d' \<and> char_buffer d' = ?cb)"
    unfolding scroll_up_def sz Let_def prod.case cb by (simp only: and_then_Inr cb) (rule runs_and_then[OF s1 s2])
  then show ?thesis by (simp add: sz Let_def)
qed

lemma clear_screen_runs:
  assumes "display_ok d" "env_ok env (disp_size d)" "color_ok c"
  shows "runs (clear_screen env c d) (\<lambda>d'. kept d d' \<and> char_buffer d' = map (erase c) (char_buffer d))"
proof -
  note b = display_bounds[OF assms(1)]
  show ?thesis unfolding clear_screen_def Let_def case_prod_beta
  proof (rule fill_then[of d])
    fix d1 assume d1: "kept d d1" "char_buffer d1 = char_buffer d"
    then show "runs (and_then (draw_status_bar env (d1\<lparr>char_buffer := map (erase c) (char_buffer d1)\<rparr>)) flush_display)
      (\<lambda>d'. kept d d' \<and> char_buffer d' = map (erase c) (char_buffer d))"
      using finish_runs(1)[OF d1(1) assms(2) _ assms(1), of "map (erase c) (char_buffer d)"] by simp
  qed (use b bg_opaque[OF assms(3)] kept_refl[OF assms(1)] in \<open>auto simp: CHAR_WIDTH_def CHAR_HEIGHT_def\<close>)
qed

text \<open>The partial clearing operations, for a cursor on the screen.\<close>

lemma clear_screen_to_cursor_runs:
  assumes "display_ok d" "env_ok env (disp_size d)" "color_ok c" "place_ok (disp_size d) (pos cur)"
  shows "runs (clear_screen_to_cursor env cur c d) (\<lambda>d'. kept d d' \<and>
    char_buffer d' = erase_range (erase c) 0 (snd (pos cur) * fst (disp_size d) + fst (pos cur)) (char_buffer d))"
proof -
  obtain x y where p: "pos cur = (x, y)" by (cases "pos cur")
  note b = display_bounds[OF assms(1)]
  have s: "size_ok (disp_size d)" using assms(1) by (simp add: display_ok_def)
  have xy: "x \<le> fst (disp_size d)" "y < snd (disp_size d)" using assms(4) p by (simp_all add: place_ok_def)
  show ?thesis unfolding clear_screen_to_cursor_def Let_def case_prod_beta p
  proof (rule fill_then[of d]; (rule fill_then[of d])?)
    fix d1 d2 assume d2: "kept d d2" "char_buffer d2 = char_buffer d"
    let ?n = "snd (x, y) * fst (disp_size d) + fst (x, y)"
    have "cell_index (x, y) (disp_size d) = Inr ?n" using place_index(1)[OF s assms(4)] p by simp
    then show "runs (and_then (cell_index (fst (x, y), snd (x, y)) (fst (disp_size d), snd (disp_size d))) (\<lambda>n.
        and_then (draw_status_bar env (d2\<lparr>char_buffer := erase_range (erase c) 0 n (char_buffer d2)\<rparr>)) flush_display))
      (\<lambda>d'. kept d d' \<and> char_buffer d' = erase_range (erase c) 0 ?n (char_buffer d))"
      using d2 finish_runs(1)[OF d2(1) assms(2) length_erase_range assms(1)] by simp
  qed (use b xy bg_opaque[OF assms(3)] kept_refl[OF assms(1)] in \<open>auto simp: CHAR_WIDTH_def CHAR_HEIGHT_def\<close>)
qed


lemma clear_screen_from_cursor_runs:
  assumes "display_ok d" "env_ok env (disp_size d)" "color_ok c" "place_ok (disp_size d) (pos cur)"
  shows "runs (clear_screen_from_cursor env cur c d) (kept d)"
proof -
  obtain x y where p: "pos cur = (x, y)" by (cases "pos cur")
  obtain w h where sz: "disp_size d = (w, h)" by (cases "disp_size d")
  note b = display_bounds[OF assms(1), unfolded sz]
  have s: "size_ok (disp_size d)" using assms(1) by (simp add: display_ok_def)
  have xy: "x \<le> w" "y < h" using assms(4) p sz by (simp_all add: place_ok_def)
  have i: "cell_index (x, y) (w, h) = Inr (y * w + x)" using place_index(1)[OF s assms(4)] p sz by simp
  have a: "u16_add y (Suc 0) = Inr (y + 1)" using xy b(2) by (simp add: u16_add_def)
  have "runs (and_then (update_back (fill_rect (env_mix env) (x * CHAR_WIDTH) (y * CHAR_HEIGHT) ((w - x) * CHAR_WIDTH) CHAR_HEIGHT (bg_color c)) d) (\<lambda>d1.
      and_then (update_back (fill_rect (env_mix env) 0 ((y + 1) * CHAR_HEIGHT) (w * CHAR_WIDTH) ((h - y - 1) * CHAR_HEIGHT) (bg_color c)) d1) (\<lambda>d2.
      and_then (draw_status_bar env (d2\<lparr>char_buffer := take (y * w + x) (char_buffer d2) @ map (erase c) (drop (y * w + x) (char_buffer d2))\<rparr>)) flush_display)))
     (kept d)"
  proof (rule fill_then[of d]; (rule fill_then[of d])?)
    fix d1 d2 assume d2: "kept d d2" "char_buffer d2 = char_buffer d"
    let ?cb = "take (y * w + x) (char_buffer d) @ map (erase c) (drop (y * w + x) (char_buffer d))"
    have "length ?cb = length (char_buffer d)" by simp
    from finish_runs(1)[OF d2(1) assms(2) this assms(1)]
    show "runs (and_then (draw_status_bar env (d2\<lparr>char_buffer := take (y * w + x) (char_buffer d2) @ map (erase c) (drop (y * w + x) (char_buffer d2))\<rparr>)) flush_display) (kept d)"
      unfolding d2(2) by (rule runs_mono) simp
  qed (use b xy bg_opaque[OF assms(3)] kept_refl[OF assms(1)] in \<open>auto simp: CHAR_WIDTH_def CHAR_HEIGHT_def\<close>)
  then show ?thesis using xy by (simp add: clear_screen_from_cursor_def p sz Let_def a i)
qed

lemma clear_line_runs:
  assumes "display_ok d" "env_ok env (disp_size d)" "color_ok c" "place_ok (disp_size d) (pos cur)"
  shows "runs (clear_line env cur c d) (\<lambda>d'. kept d d' \<and>
      char_buffer d' = erase_range (\<lambda>item. (erase c item)\<lparr>char_value := 97\<rparr>) (snd (pos cur) * fst (disp_size d)) (fst (disp_size d)) (char_buffer d))"
    "runs (clear_line_to_cursor env cur c d) (\<lambda>d'. kept d d' \<and>
      char_buffer d' = erase_range (erase c) (snd (pos cur) * fst (disp_size d)) (fst (pos cur)) (char_buffer d))"
    "runs (clear_line_from_cursor env cur c d) (\<lambda>d'. kept d d' \<and>
      char_buffer d' = erase_range (erase c) (snd (pos cur) * fst (disp_size d) + fst (pos cur)) (fst (disp_size d) - fst (pos cur)) (char_buffer d))"
proof -
  obtain x y where p: "pos cur = (x, y)" by (cases "pos cur")
  obtain w h where sz: "disp_size d = (w, h)" by (cases "disp_size d")
  note b = display_bounds[OF assms(1), unfolded sz]
  have s: "size_ok (disp_size d)" using assms(1) by (simp add: display_ok_def)
  have xy: "x \<le> w" "y < h" using assms(4) p sz by (simp_all add: place_ok_def)
  have i: "cell_index (x, y) (w, h) = Inr (y * w + x)" "u16_mul y w = Inr (y * w)"
    using place_index(1,3)[OF s assms(4)] p sz by (simp_all add: u16_mul_def)
  have fin: "runs (and_then (update_back (fill_rect (env_mix env) x' (y * CHAR_HEIGHT) w' CHAR_HEIGHT (bg_color c)) d) (\<lambda>d1.
        finish_line env y (d1\<lparr>char_buffer := erase_range f n k (char_buffer d1)\<rparr>)))
      (\<lambda>d'. kept d d' \<and> char_buffer d' = erase_range f n k (char_buffer d))" if "x' + w' < 2 ^ 32" for x' w' f n k
  proof (rule fill_then[of d])
    fix d1 assume d1: "kept d d1" "char_buffer d1 = char_buffer d"
    show "runs (finish_line env y (d1\<lparr>char_buffer := erase_range f n k (char_buffer d1)\<rparr>))
      (\<lambda>d'. kept d d' \<and> char_buffer d' = erase_range f n k (char_buffer d))"
      unfolding d1(2) by (rule finish_runs(3)[OF d1(1) assms(2) length_erase_range assms(1)])
  qed (use that b xy bg_opaque[OF assms(3)] kept_refl[OF assms(1)] in \<open>auto simp: CHAR_HEIGHT_def\<close>)
  have c: "0 + w * CHAR_WIDTH < 2 ^ 32" "0 + x * CHAR_WIDTH < 2 ^ 32" "x * CHAR_WIDTH + (w - x) * CHAR_WIDTH < 2 ^ 32"
    using b(1) xy(1) by (simp_all add: CHAR_WIDTH_def)
  show "runs (clear_line env cur c d) (\<lambda>d'. kept d d' \<and>
      char_buffer d' = erase_range (\<lambda>item. (erase c item)\<lparr>char_value := 97\<rparr>) (snd (pos cur) * fst (disp_size d)) (fst (disp_size d)) (char_buffer d))"
    using fin[OF c(1)] by (simp add: clear_line_def p sz Let_def i)
  show "runs (clear_line_to_cursor env cur c d) (\<lambda>d'. kept d d' \<and>
      char_buffer d' = erase_range (erase c) (snd (pos cur) * fst (disp_size d)) (fst (pos cur)) (char_buffer d))"
    using fin[OF c(2)] by (simp add: clear_line_to_cursor_def p sz Let_def i)
  show "runs (clear_line_from_cursor env cur c d) (\<lambda>d'. kept d d' \<and>
      char_buffer d' = erase_range (erase c) (snd (pos cur) * fst (disp_size d) + fst (pos cur)) (fst (disp_size d) - fst (pos cur)) (char_buffer d))"
    using fin[OF c(3)] xy(1) by (simp add: clear_line_from_cursor_def p sz Let_def i)
qed


section \<open>The cursor\<close>

lemma scroll_to_runs:
  assumes "display_ok d" "env_ok env (disp_size d)" "color_ok c"
  shows "runs (scroll_to env c y d) (\<lambda>(y', d'). kept d d' \<and> y' = min y (snd (disp_size d) - 1))"
  using assms(1,2)
proof (induction y arbitrary: d)
  case 0
  then show ?case using display_bounds(3)[OF 0(1)] by (simp add: kept_refl)
next
  case (Suc y)
  note b = display_bounds(3)[OF Suc.prems(1)]
  show ?case
  proof (cases "Suc y \<ge> snd (disp_size d)")
    case True
    have "runs (and_then (scroll_up env c d) (scroll_to env c y)) (\<lambda>(y', d'). kept d d' \<and> y' = min (Suc y) (snd (disp_size d) - 1))"
    proof (rule runs_and_then[OF scroll_up_runs[OF Suc.prems assms(3)]], elim conjE)
      fix d1 assume k: "kept d d1"
      then have "runs (scroll_to env c y d1) (\<lambda>(y', d'). kept d1 d' \<and> y' = min y (snd (disp_size d1) - 1))"
        using Suc.prems(2) by (intro Suc.IH) (simp_all add: kept_def)
      then show "runs (scroll_to env c y d1) (\<lambda>(y', d'). kept d d' \<and> y' = min (Suc y) (snd (disp_size d) - 1))"
        by (rule runs_mono) (use k True in \<open>auto simp: kept_def min_def\<close>)
    qed
    then show ?thesis using True by simp
  qed (use Suc.prems kept_refl in auto)
qed

text \<open>The state of the cursor and the display together.\<close>

definition screen_ok :: "nat \<times> nat \<Rightarrow> cursor_state \<times> display_state \<Rightarrow> bool" where
  "screen_ok sz s \<longleftrightarrow> display_ok (snd s) \<and> disp_size (snd s) = sz \<and> cursor_ok sz (fst s)"

lemma position_runs:
  assumes "screen_ok sz (cur, d)" "env_ok env sz" "color_ok c" "fst p \<le> fst sz"
  shows "runs (position env c p (cur, d)) (\<lambda>s. screen_ok sz s \<and> pos (fst s) = (fst p, min (max 1 (snd p)) (snd sz - 1)))"
proof -
  have d: "display_ok d" "disp_size d = sz" "cursor_ok sz cur" using assms(1) by (simp_all add: screen_ok_def)
  let ?y = "if snd p = 0 then 1 else snd p"
  have "runs (scroll_to env c ?y d) (\<lambda>(y', d'). kept d d' \<and> y' = min ?y (snd (disp_size d) - 1))"
    by (rule scroll_to_runs[OF d(1) _ assms(3)]) (simp add: d(2) assms(2))
  then show ?thesis unfolding position_def prod.case
    by (rule runs_and_then) (use d assms(4) display_bounds(3)[OF d(1)] in
        \<open>auto simp: kept_def screen_ok_def cursor_ok_def place_ok_def split: if_splits\<close>)
qed

lemma screen_bounds:
  assumes "screen_ok sz (cur, d)"
  shows "display_ok d" "disp_size d = sz" "fst (pos cur) \<le> fst sz" "1 \<le> snd (pos cur)" "snd (pos cur) < snd sz" "fst sz < 2 ^ 15"
    "snd sz < 2 ^ 16" "2 \<le> snd sz" "place_ok sz (pos cur)" "cursor_ok sz cur"
  using assms display_bounds[of d] by (auto simp: screen_ok_def cursor_ok_def place_ok_def)

lemma handle_tab_runs:
  assumes "screen_ok sz (cur, d)" "env_ok env sz" "color_ok c"
  shows "runs (handle_tab env c (cur, d)) (screen_ok sz)"
proof -
  note b = screen_bounds[OF assms(1)]
  have a: "u16_add (fst (pos cur)) 8 = Inr (fst (pos cur) + 8)" "u16_add (snd (pos cur)) (Suc 0) = Inr (snd (pos cur) + 1)"
    using b by (simp_all add: u16_add_def)
  have "runs (position env c p (cur, d)) (screen_ok sz)" if "fst p \<le> fst sz" for p
    by (rule runs_mono[OF position_runs[OF assms that]]) simp
  moreover have "(fst (pos cur) + 8) div 8 * 8 \<le> fst (pos cur) + 8" by simp
  ultimately show ?thesis using b(2) by (simp add: handle_tab_def TAB_SPACES_def a)
qed

lemma color_solid: "color_ok c \<Longrightarrow> solid (fg_color c)" "color_ok c \<Longrightarrow> solid (bg_color c)"
  by (simp_all add: color_ok_def solid_def)

lemma print_char_at_runs:
  assumes "display_ok d" "env_ok env sz" "color_ok c" "fst p < 2 ^ 16" "snd p \<le> 2 ^ 16"
  shows "runs (print_char_at env c ch p d) (\<lambda>(b, d'). kept d d' \<and> char_buffer d' = char_buffer d \<and> b = (env_font env ch \<noteq> None))"
proof -
  let ?draw = "draw_char (env_font env) (env_mix env) (fst p * CHAR_WIDTH) (snd p * CHAR_HEIGHT) (fg_color c) (bg_color c) ch"
  have dr: "runs (?draw l) (\<lambda>(b, l'). same_mode l l' \<and> b = (env_font env ch \<noteq> None))" if "wf_lfb l" for l
    by (rule draw_char_runs[OF that color_solid[OF assms(3)]]) (use assms(4,5) env_fonts[OF assms(2)] in \<open>auto simp: CHAR_WIDTH_def CHAR_HEIGHT_def\<close>)
  let ?l = "back_lfb (disp_lfb d)" and ?t = "target_lfb (disp_lfb d)"
  have ok: "wf_lfb ?l" "same_mode ?l ?t" using assms(1) by (simp_all add: display_ok_def)
  have wt: "wf_lfb ?t" using ok same_mode_facts(1) by simp
  obtain l' where l': "?draw ?l = Inr (env_font env ch \<noteq> None, l')" "same_mode ?l l'" using dr[OF ok(1)] by (auto simp: runs_def)
  obtain t' where t': "?draw ?t = Inr (env_font env ch \<noteq> None, t')" "same_mode ?t t'" using dr[OF wt] by (auto simp: runs_def)
  have modes: "same_mode l' ?t" "same_mode l' t'" using l'(2) t'(2) ok(2) by (simp_all add: same_mode_def)
  have w: "wf_lfb l'" "lfb_height l' = lfb_height ?l" using ok(1) same_mode_facts(1)[OF l'(2)] l'(2) by (simp_all add: same_mode_def)
  show ?thesis using assms(1) modes w
    by (auto simp: print_char_at_def Let_def l'(1) t'(1) kept_def display_ok_def)
qed

lemma kept_buffer: "kept d d1 \<Longrightarrow> length cb = length (char_buffer d1) \<Longrightarrow> kept d (d1\<lparr>char_buffer := cb\<rparr>)"
  unfolding kept_def by (elim conjE, intro conjI) (simp_all add: display_ok_def)

lemma place_char_runs:
  assumes "screen_ok sz (cur, d)" "env_ok env sz" "color_ok c"
  shows "runs (place_char env c ch (cur, d)) (\<lambda>(cur', d'). kept d d' \<and> saved_pos cur' = saved_pos cur \<and>
    (pos cur' = (0, snd (pos cur) + 1) \<or> pos cur' = (fst (pos cur) + 1, snd (pos cur)) \<or> pos cur' = pos cur))"
proof (cases "ch = 10")
  case True
  note b = screen_bounds[OF assms(1)]
  have "u16_add (snd (pos cur)) (Suc 0) = Inr (snd (pos cur) + 1)" using b by (simp add: u16_add_def)
  moreover have "runs (clear_line_from_cursor env cur c d) (kept d)"
    by (rule runs_mono[OF clear_line_runs(3)]) (use b assms in auto)
  ultimately show ?thesis using True by (auto simp: place_char_def runs_def)
next
  case False
  note b = screen_bounds[OF assms(1)]
  have "runs (print_char_at env c ch (pos cur) d) (\<lambda>(b, d'). kept d d' \<and> char_buffer d' = char_buffer d \<and> b = (env_font env ch \<noteq> None))"
    by (rule print_char_at_runs[OF b(1) assms(2,3)]) (use b in auto)
  then obtain d1 where d1: "print_char_at env c ch (pos cur) d = Inr (env_font env ch \<noteq> None, d1)" "kept d d1" "char_buffer d1 = char_buffer d"
    by (auto simp: runs_def)
  have sok: "size_ok sz" using b(1,2) by (simp add: display_ok_def)
  let ?i = "snd (pos cur) * fst sz + fst (pos cur)"
  have i: "cell_index (pos cur) (disp_size d1) = Inr ?i" using place_index(1)[OF sok b(9)] d1(2) b(2) by (simp add: kept_def)
  have "?i \<le> fst sz * snd sz" "0 < fst sz * snd sz" using place_index(2)[OF sok b(9)] sok by (simp_all add: size_ok_def)
  then have "?i < fst sz * snd sz * 12" by linarith
  then have lt: "?i < length (char_buffer d1)" using b(1,2) d1(3) by (simp add: display_ok_def CHARACTER_SIZE_def)
  have x: "u16_add (fst (pos cur)) (Suc 0) = Inr (fst (pos cur) + 1)" using b(3,6) by (simp add: u16_add_def)
  show ?thesis using False d1(1,2) lt by (simp add: place_char_def i x kept_buffer)
qed


lemma print_char_runs:
  assumes "terminal_ok t" "env_ok env (disp_size (t_display t))"
  shows "runs (print_char env ch t) (terminal_kept t)"
proof -
  let ?sz = "disp_size (t_display t)" and ?c = "t_color t"
  obtain cur d where t: "t_cursor t = cur" "t_display t = d" by simp
  have s: "screen_ok ?sz (cur, d)" "color_ok ?c" using assms(1) t by (simp_all add: terminal_ok_def screen_ok_def)
  note b = screen_bounds[OF s(1)]
  obtain cur1 d1 where p: "place_char env ?c ch (cur, d) = Inr (cur1, d1)" "kept d d1" "saved_pos cur1 = saved_pos cur"
    "pos cur1 = (0, snd (pos cur) + 1) \<or> pos cur1 = (fst (pos cur) + 1, snd (pos cur)) \<or> pos cur1 = pos cur"
    using place_char_runs[OF s(1) assms(2) s(2), of ch] by (auto simp: runs_def)
  have d1: "display_ok d1" "disp_size d1 = ?sz" using p(2) b(2) by (simp_all add: kept_def)
  have y1: "1 \<le> snd (pos cur1)" "snd (pos cur1) \<le> snd ?sz" "fst (pos cur1) < fst ?sz \<or> snd (pos cur1) < snd ?sz"
    "0 < fst ?sz" using p(4) b d1 by (auto simp: display_ok_def size_ok_def)
  obtain cur2 where w: "wrap_line (cur1, d1) = Inr (cur2, d1)" "saved_pos cur2 = saved_pos cur1" "fst (pos cur2) < fst ?sz"
    "1 \<le> snd (pos cur2)" "snd (pos cur2) \<le> snd ?sz"
  proof (cases "fst (pos cur1) \<ge> fst ?sz")
    case True
    then have "u16_add (snd (pos cur1)) 1 = Inr (snd (pos cur1) + 1)" using y1 b(7) by (simp add: u16_add_def)
    then show ?thesis using True that[of "cur1\<lparr>pos := (0, snd (pos cur1) + 1)\<rparr>"] y1 d1(2) by (simp add: wrap_line_def)
  next
    case False
    then show ?thesis using that[of cur1] y1 d1(2) by (simp add: wrap_line_def)
  qed
  have "runs (wrap_screen env ?c (cur2, d1)) (screen_ok ?sz)"
  proof (cases "snd (pos cur2) \<ge> snd ?sz")
    case True
    have "runs (and_then (scroll_up env ?c d1) (\<lambda>d2. and_then (checked_sub (snd (disp_size d2)) 1) (\<lambda>y.
       and_then (print_char_at env ?c 95 (0, snd (disp_size d2)) d2) (\<lambda>(_, d3). Inr (cur2\<lparr>pos := (0, y)\<rparr>, d3))))) (screen_ok ?sz)"
    proof (rule runs_and_then[OF scroll_up_runs[OF d1(1) _ s(2)]], simp add: d1(2) assms(2), elim conjE)
      fix d2 assume "kept d1 d2"
      then have d2: "display_ok d2" "disp_size d2 = ?sz" using d1(2) by (simp_all add: kept_def)
      from print_char_at_runs[OF d2(1) assms(2) s(2), of "(0, snd ?sz)" 95] b(7)
      obtain bb d3 where "print_char_at env ?c 95 (0, snd ?sz) d2 = Inr (bb, d3)" "kept d2 d3" by (auto simp: runs_def)
      then show "runs (and_then (checked_sub (snd (disp_size d2)) 1) (\<lambda>y.
       and_then (print_char_at env ?c 95 (0, snd (disp_size d2)) d2) (\<lambda>(_, d3). Inr (cur2\<lparr>pos := (0, y)\<rparr>, d3)))) (screen_ok ?sz)"
        using d2(2) b(8,10) w(2) p(3) le_diff_conv2[of 1 "snd ?sz" 1]
        by (simp add: screen_ok_def kept_def cursor_ok_def place_ok_def)
    qed
    then show ?thesis using True d1(2) by (simp add: wrap_screen_def)
  next
    case False
    then show ?thesis using w p(3) b(10) d1 by (simp add: wrap_screen_def screen_ok_def cursor_ok_def place_ok_def)
  qed
  then obtain cur3 d3 where "wrap_screen env ?c (cur2, d1) = Inr (cur3, d3)" "screen_ok ?sz (cur3, d3)" by (auto simp: runs_def)
  then show ?thesis using p(1) w(1) t s(2) by (simp add: print_char_def terminal_kept_def terminal_ok_def screen_ok_def)
qed

section \<open>Colours stay opaque\<close>

lemma table_opaque: "list_all (\<lambda>c. alpha c = 255) COLOR_TABLE_256 \<and> length COLOR_TABLE_256 = 256"
  by code_simp

lemma parse_opaque: "fst (parse_complex_color ps) = Some col \<Longrightarrow> alpha col = 255"
proof (cases ps)
  case (Cons mode iter)
  assume "fst (parse_complex_color ps) = Some col"
  moreover have "i \<le> 255 \<Longrightarrow> alpha (COLOR_TABLE_256 ! i) = 255" for i using table_opaque by (auto simp: list_all_length)
  ultimately show ?thesis using Cons by (auto split: if_splits list.splits)
qed simp

lemma ansi_opaque: "fst (ansi_color k ps) = Some col \<Longrightarrow> alpha col = 255"
  using parse_opaque[of ps col]
  by (auto simp: ansi_color_def BLACK_def RED_def GREEN_def YELLOW_def BLUE_def MAGENTA_def CYAN_def WHITE_def rgba_def split: if_splits)

lemma color_round_ok: "color_ok c \<Longrightarrow> color_ok (snd (color_round k ps c))"
proof -
  assume c: "color_ok c"
  have fg: "color_ok (set_fg (fst (ansi_color j ps)) b c)" for j b
    using c ansi_opaque[of j ps] by (auto simp: set_fg_def color_ok_def split: option.split)
  have bg: "color_ok (set_bg (fst (ansi_color j ps)) b c)" for j b
    using c ansi_opaque[of j ps] by (auto simp: set_bg_def color_ok_def split: option.split)
  have r: "color_ok (handle_ansi_graphic_rendition c k)"
    using c by (simp add: handle_ansi_graphic_rendition_def color_ok_def WHITE_def BLACK_def rgba_def)
  show ?thesis using c fg bg r by (simp add: color_round_def Let_def case_prod_beta)
qed

lemma color_rounds_ok: "color_ok c \<Longrightarrow> color_ok (color_rounds ps c)"
proof (induction ps c rule: color_rounds.induct)
  case (2 code iter c)
  then show ?case using color_round_ok[OF 2(2), of code iter] by (simp add: Let_def case_prod_beta)
qed simp

lemma handle_ansi_color_ok:
  assumes "color_ok c"
  shows "color_ok (handle_ansi_color ps c)"
proof -
  have a: "alpha (bright x) = alpha x" "alpha (dim x) = alpha x" for x by (simp_all add: bright_def dim_def Let_def)
  show ?thesis using color_rounds_ok[OF assms, of ps] by (simp add: handle_ansi_color_def Let_def color_ok_def a case_prod_beta)
qed


section \<open>Events\<close>

text \<open>The relative cursor movements whose target is no 16 bit number; the code tests for the edges only afterwards.\<close>

definition moves_off :: "nat \<Rightarrow> nat list \<Rightarrow> nat \<times> nat \<Rightarrow> bool" where
  "moves_off code ps p \<longleftrightarrow> (case ps of [] \<Rightarrow> False | n # _ \<Rightarrow>
      code = 0x41 \<and> snd p < at_least_one n \<or> code = 0x42 \<and> 2 ^ 16 \<le> snd p + at_least_one n \<or>
      code = 0x43 \<and> 2 ^ 16 \<le> fst p + at_least_one n \<or> code = 0x44 \<and> fst p < at_least_one n \<or>
      code = 0x45 \<and> 2 ^ 16 \<le> snd p + n + 1 \<or> code = 0x46 \<and> snd p < n + 1)"

fun leaves_range :: "term_event \<Rightarrow> terminal \<Rightarrow> bool" where
  "leaves_range (Csi_Dispatch ps action) t = moves_off action ps (pos (t_cursor t))"
| "leaves_range e t = False"

lemma cursor_sequence_runs:
  assumes "screen_ok sz (cur, d)" "env_ok env sz" "color_ok c"
  shows "if moves_off code ps (pos cur) then \<not> is_ok (handle_ansi_cursor_sequence env c code ps (cur, d))
    else runs (handle_ansi_cursor_sequence env c code ps (cur, d)) (screen_ok sz)"
proof -
  note b = screen_bounds[OF assms(1)]
  obtain x y where p: "pos cur = (x, y)" by (cases "pos cur")
  obtain w h where sz: "sz = (w, h)" by (cases sz)
  have xy: "x \<le> w" "1 \<le> y" "y < h" "w < 2 ^ 15" "h < 2 ^ 16" "0 < w" "disp_size d = (w, h)"
    using b p sz by (simp_all add: display_ok_def size_ok_def)
  have go: "runs (position env c q (cur, d)) (screen_ok sz)" if "fst q \<le> w" for q
    by (rule runs_mono[OF position_runs[OF assms]]) (use that sz in simp_all)
  have saved: "fst (saved_pos cur) \<le> w" using b(10) sz by (simp add: cursor_ok_def place_ok_def)
  have scr: "screen_ok sz (cur\<lparr>saved_pos := (x, y)\<rparr>, d)" using assms(1) p by (simp add: screen_ok_def cursor_ok_def)
  note defs = handle_ansi_cursor_sequence_def p xy(7) Let_def moves_off_def
  have scr0: "screen_ok sz (cur, d)" by (rule assms(1))
  show ?thesis
  proof (cases ps)
    case Nil
    have "runs (handle_ansi_cursor_sequence env c code ps (cur, d)) (screen_ok sz)"
      using Nil go[of "(0, 0)"] go[OF saved] scr scr0 by (simp add: defs)
    then show ?thesis using Nil by (simp add: moves_off_def)
  next
    case (Cons n rest)
    consider "code = 0x41" | "code = 0x42" | "code = 0x43" | "code = 0x44" | "code = 0x45" | "code = 0x46" | "code = 0x47"
      | "code \<in> {0x48, 0x66}" | "code \<notin> {0x41, 0x42, 0x43, 0x44, 0x45, 0x46, 0x47, 0x48, 0x66}" by blast
    then show ?thesis
    proof cases
      case 1
      then show ?thesis using Cons xy(1) go[of "(x, y - at_least_one n)"] go[of "(x, 0)"] by (simp add: defs checked_sub_def)
    next
      case 2
      then show ?thesis using Cons xy(1,3) go[of "(x, y + at_least_one n)"] go[of "(x, h - Suc 0)"] by (simp add: defs u16_add_def)
    next
      case 3
      then show ?thesis using Cons xy(1,6) go[of "(x + at_least_one n, y)"] go[of "(w - Suc 0, y)"] by (simp add: defs u16_add_def)
    next
      case 4
      then show ?thesis using Cons xy(1) go[of "(x - at_least_one n, y)"] go[of "(0, y)"] by (simp add: defs checked_sub_def)
    next
      case 5
      then show ?thesis using Cons xy(3) go[of "(0, y + n + 1)"] go[of "(0, h - Suc 0)"] by (simp add: defs u16_add_def)
    next
      case 6
      then show ?thesis using Cons go[of "(0, y - n - 1)"] by (auto simp: defs checked_sub_def)
    next
      case 7
      then show ?thesis using Cons xy(6) go[of "(n, y)"] go[of "(w - Suc 0, y)"] by (simp add: defs)
    next
      case 8
      have "runs (handle_ansi_cursor_sequence env c code ps (cur, d)) (screen_ok sz)"
      proof (cases rest)
        case (Cons row rest')
        let ?x = "if n > w then w - 1 else n" and ?y = "if row > h then h - 1 else row"
        have "handle_ansi_cursor_sequence env c code ps (cur, d) = position env c (?x, ?y) (cur, d)"
          using 8 xy(3,6) Cons \<open>ps = n # rest\<close> by (auto simp: defs)
        moreover have "fst (?x, ?y) \<le> w" by simp
        ultimately show ?thesis using go by metis
      qed (use 8 \<open>ps = n # rest\<close> go[of "(0, 0)"] in \<open>auto simp: defs\<close>)
      then show ?thesis using 8 Cons by (auto simp: moves_off_def)
    next
      case 9
      then show ?thesis using Cons go[OF saved] scr scr0 by (auto simp: defs)
    qed
  qed
qed


lemma erase_sequence_runs:
  assumes "screen_ok sz (cur, d)" "env_ok env sz" "color_ok c"
  shows "runs (handle_ansi_erase_sequence env c code ps (cur, d)) (screen_ok sz)"
proof -
  note b = screen_bounds[OF assms(1)]
  have e: "env_ok env (disp_size d)" "place_ok (disp_size d) (pos cur)" using assms(2) b by simp_all
  have keep: "runs (and_then r (\<lambda>d'. Inr (cur, d'))) (screen_ok sz)" if "runs r (kept d)" for r
    by (rule runs_and_then[OF that]) (use b(2,10) in \<open>simp add: screen_ok_def kept_def\<close>)
  note k = runs_mono[OF clear_screen_from_cursor_runs[OF b(1) e(1) assms(3) e(2)]]
    runs_mono[OF clear_screen_to_cursor_runs[OF b(1) e(1) assms(3) e(2)]]
    runs_mono[OF clear_line_runs(1)[OF b(1) e(1) assms(3) e(2)]] runs_mono[OF clear_line_runs(2)[OF b(1) e(1) assms(3) e(2)]]
    runs_mono[OF clear_line_runs(3)[OF b(1) e(1) assms(3) e(2)]]
  have all: "runs (and_then (clear_screen env c d) (\<lambda>d'. position env c (0, 0) (cur, d'))) (screen_ok sz)"
  proof (rule runs_and_then[OF clear_screen_runs[OF b(1) e(1) assms(3)]])
    fix d' assume "kept d d' \<and> char_buffer d' = map (erase c) (char_buffer d)"
    then have "screen_ok sz (cur, d')" using b(2,10) by (simp add: screen_ok_def kept_def)
    from position_runs[OF this assms(2,3), of "(0, 0)"] show "runs (position env c (0, 0) (cur, d')) (screen_ok sz)"
      by (auto simp: runs_def)
  qed
  show ?thesis unfolding handle_ansi_erase_sequence_def Let_def prod.case
    using assms(1) all by (auto intro!: keep k)
qed

lemma on_cursor_runs:
  assumes "terminal_ok t" "runs (f (t_cursor t, t_display t)) (screen_ok (disp_size (t_display t)))"
  shows "runs (on_cursor f t) (terminal_kept t)"
  unfolding on_cursor_def
  by (rule runs_and_then[OF assms(2)]) (use assms(1) in \<open>auto simp: terminal_kept_def terminal_ok_def screen_ok_def\<close>)

lemma on_cursor_fails: "\<not> is_ok (f (t_cursor t, t_display t)) \<Longrightarrow> \<not> is_ok (on_cursor f t)"
  by (auto simp: on_cursor_def is_ok_iff result_simps)

lemma runs_is_ok: "runs r P \<Longrightarrow> is_ok r"
  by (auto simp: runs_def)

lemma terminal_screen: "terminal_ok t \<Longrightarrow> screen_ok (disp_size (t_display t)) (t_cursor t, t_display t) \<and> color_ok (t_color t)"
  by (simp add: terminal_ok_def screen_ok_def)

lemma perform_runs:
  assumes "terminal_ok t" "env_ok env (disp_size (t_display t))"
  shows "if leaves_range e t then \<not> is_ok (perform env e t) else runs (perform env e t) (terminal_kept t)"
proof -
  have s: "screen_ok (disp_size (t_display t)) (t_cursor t, t_display t)" "color_ok (t_color t)" using terminal_screen[OF assms(1)] by auto
  show ?thesis
  proof (cases e)
    case (Print c)
    then show ?thesis using print_char_runs[OF assms] by simp
  next
    case (Execute byte)
    have "terminal_kept t (handle_bell t)" using assms(1) by (simp add: handle_bell_def terminal_kept_def terminal_ok_def)
    moreover have "runs (on_cursor (handle_tab env (t_color t)) t) (terminal_kept t)"
      by (rule on_cursor_runs[OF assms(1)]) (rule handle_tab_runs[OF s(1) assms(2) s(2)])
    ultimately show ?thesis using Execute print_char_runs[OF assms] assms(1) by (simp add: execute_def terminal_kept_def)
  next
    case (Csi_Dispatch ps action)
    have c: "if moves_off action ps (pos (t_cursor t)) then \<not> is_ok (on_cursor (handle_ansi_cursor_sequence env (t_color t) action ps) t)
       else runs (on_cursor (handle_ansi_cursor_sequence env (t_color t) action ps) t) (terminal_kept t)"
      using cursor_sequence_runs[OF s(1) assms(2) s(2), of action ps] on_cursor_runs[OF assms(1)] on_cursor_fails by (simp split: if_splits)
    have er: "runs (on_cursor (handle_ansi_erase_sequence env (t_color t) action ps) t) (terminal_kept t)"
      by (rule on_cursor_runs[OF assms(1)]) (rule erase_sequence_runs[OF s(1) assms(2) s(2)])
    have col: "terminal_kept t (t\<lparr>t_color := handle_ansi_color ps (t_color t)\<rparr>)"
      using assms(1) handle_ansi_color_ok[OF s(2)] by (simp add: terminal_kept_def terminal_ok_def)
    have m: "\<not> moves_off action ps p" if "\<not> (0x41 \<le> action \<and> action \<le> 0x46)" for p
      using that by (auto simp: moves_off_def split: list.split)
    show ?thesis
    proof (cases "0x41 \<le> action \<and> action \<le> 0x48 \<or> action \<in> {0x66, 0x6e, 0x73, 0x75}")
      case True
      then show ?thesis using c Csi_Dispatch by (simp add: csi_dispatch_def)
    next
      case False
      then have "\<not> moves_off action ps (pos (t_cursor t))" by (intro m) auto
      then show ?thesis using False er col assms(1) Csi_Dispatch by (auto simp: csi_dispatch_def terminal_kept_def)
    qed
  next
    case Ignored
    then show ?thesis using assms(1) by (simp add: terminal_kept_def)
  qed
qed

section \<open>Reachable terminals\<close>

lemma terminal_new_ok:
  assumes "wf_lfb (lfb_new buffer pitch width height bpp)" "size_ok (width div CHAR_WIDTH mod 2 ^ 16, height div CHAR_HEIGHT mod 2 ^ 16)"
  shows "runs (terminal_new fresh buffer pitch width height bpp) terminal_ok"
proof -
  let ?raw = "lfb_new buffer pitch width height bpp"
  let ?sz = "(width div CHAR_WIDTH mod 2 ^ 16, height div CHAR_HEIGHT mod 2 ^ 16)"
  have m: "pitch * height < 2 ^ 32" using assms(1) by (simp add: wf_lfb_def lfb_new_def)
  define bck where "bck = lfb_new fresh pitch width height bpp"
  have bl: "buffered_lfb_new fresh ?raw = Inr \<lparr>back_lfb = bck, target_lfb = ?raw\<rparr>"
    using m by (simp add: buffered_lfb_new_def u32_mul_def lfb_new_def bck_def mult.commute)
  define d where "d = \<lparr>disp_size = ?sz, disp_lfb = \<lparr>back_lfb = bck, target_lfb = ?raw\<rparr>,
     char_buffer = replicate (fst ?sz * snd ?sz * CHARACTER_SIZE) \<lparr>char_value = 32, char_fg = WHITE, char_bg = BLACK\<rparr>\<rparr>"
  have "wf_lfb bck" "same_mode bck ?raw" using assms(1) by (simp_all add: wf_lfb_def lfb_new_def bck_def same_mode_def)
  moreover have "CHAR_HEIGHT * (height div CHAR_HEIGHT mod 2 ^ 16) \<le> height"
    by (rule order.trans[of _ "CHAR_HEIGHT * (height div CHAR_HEIGHT)"]) simp_all
  ultimately have ok: "display_ok d" using assms(2) by (simp add: d_def display_ok_def bck_def lfb_new_def)
  have "runs (update_back lfb_clear d) (\<lambda>d'. kept d d' \<and> char_buffer d' = char_buffer d)"
    by (rule update_back_runs[OF ok]) (simp add: lfb_clear_def u32_mul_def wf_lfb_def)
  then have "runs (and_then (update_back lfb_clear d) flush_display) (kept d)"
    by (rule runs_and_then) (auto intro!: runs_mono[OF flush_display_runs] simp: kept_def)
  then obtain d' where d': "and_then (update_back lfb_clear d) flush_display = Inr d'" "kept d d'" by (auto simp: runs_def)
  have c: "color_ok color_state_new" by (simp add: color_ok_def color_state_new_def WHITE_def BLACK_def rgba_def)
  have p: "cursor_ok ?sz cursor_state_new" using assms(2) by (simp add: cursor_ok_def place_ok_def cursor_state_new_def size_ok_def)
  have "display_state_new fresh buffer pitch width height bpp = Inr d'"
    using bl d'(1) by (simp add: display_state_new_def d_def Let_def)
  then show ?thesis using d'(2) c p by (simp add: terminal_new_def terminal_ok_def kept_def) (simp add: d_def)
qed


lemma draw_pixels_mode: "draw_pixels mix ps l = Inr l' \<Longrightarrow> same_mode l l'"
proof (induction ps arbitrary: l)
  case (Cons p ps)
  obtain x y c where p: "p = (x, y, c)" by (cases p)
  then obtain l1 where l1: "draw_pixel mix x y c l = Inr l1" "draw_pixels mix ps l1 = Inr l'" using Cons.prems by (auto simp: result_simps)
  then have "same_mode l l1" by (auto simp: draw_pixel_def result_simps split: if_splits)
  then show ?case using Cons.IH[OF l1(2)] same_mode_trans by blast
qed simp

lemma draw_char_mode: "draw_char font mix x y fg bg c l = Inr (b, l') \<Longrightarrow> same_mode l l'"
  by (auto simp: draw_char_def result_simps dest: draw_pixels_mode split: option.splits)

lemma cursor_thread_keeps:
  assumes "terminal_ok t" "env_ok env (disp_size (t_display t))" "cursor_thread_round env st t = Inr (st', t')"
  shows "terminal_ok t' \<and> disp_size (t_display t') = disp_size (t_display t)"
proof -
  obtain v k where st: "st = (v, k)" by (cases st)
  let ?d = "t_display t"
  let ?d1 = "\<lambda>l. ?d\<lparr>disp_lfb := (disp_lfb ?d)\<lparr>target_lfb := l\<rparr>\<rparr>"
  obtain b l sc d2 f g h where l: "draw_char (env_font env) (env_mix env) (fst (pos (t_cursor t)) * CHAR_WIDTH) (snd (pos (t_cursor t)) * CHAR_HEIGHT)
      f g h (target_lfb (disp_lfb ?d)) = Inr (b, l)"
    and d2: "(if k + CURSOR_UPDATE_INTERVAL \<ge> 1000 then and_then (draw_status_bar env (?d1 l)) (\<lambda>d2. Inr (0, d2)) else Inr (k + CURSOR_UPDATE_INTERVAL, ?d1 l)) = Inr (sc, d2)"
    and t': "t' = t\<lparr>t_display := d2\<rparr>"
    using assms(3) unfolding st cursor_thread_round_def Let_def prod.case by (simp only: result_simps split_paired_Ex prod.case sum.inject prod.inject) blast
  have ok: "display_ok ?d" using assms(1) by (simp add: terminal_ok_def)
  then have d1: "kept ?d (?d1 l)" using draw_char_mode[OF l] by (auto simp: kept_def display_ok_def intro: same_mode_trans)
  then have "runs (draw_status_bar env (?d1 l)) (\<lambda>d'. kept (?d1 l) d' \<and> char_buffer d' = char_buffer (?d1 l))"
    by (intro status_bar_runs) (use assms(2) in \<open>simp_all add: kept_def\<close>)
  then have "kept ?d d2" using d2 d1 by (auto simp: runs_def result_simps kept_def split: if_splits)
  then show ?thesis using assms(1) t' by (simp add: terminal_ok_def kept_def)
qed

lemma clear_keeps:
  assumes "terminal_ok t" "env_ok env (disp_size (t_display t))"
  shows "runs (clear env t) terminal_ok"
proof -
  have s: "screen_ok (disp_size (t_display t)) (t_cursor t, t_display t)" "color_ok (t_color t)" using terminal_screen[OF assms(1)] by auto
  have ok: "display_ok (t_display t)" using assms(1) by (simp add: terminal_ok_def)
  show ?thesis unfolding clear_def
  proof (rule runs_and_then[OF clear_screen_runs[OF ok assms(2) s(2)]], elim conjE)
    fix d assume k: "kept (t_display t) d"
    then have t': "terminal_ok (t\<lparr>t_display := d\<rparr>)" "disp_size d = disp_size (t_display t)" using assms(1) by (simp_all add: terminal_ok_def kept_def)
    have "screen_ok (disp_size d) (t_cursor t, d)" using terminal_screen[OF t'(1)] by simp
    from position_runs[OF this _ s(2), of env "(0, 0)"] have "runs (position env (t_color t) (0, 0) (t_cursor t, d)) (screen_ok (disp_size d))"
      using assms(2) t'(2) by (auto simp: runs_def)
    then show "runs (on_cursor (position env (t_color t) (0, 0)) (t\<lparr>t_display := d\<rparr>)) terminal_ok"
      using on_cursor_runs[OF t'(1), of "position env (t_color t) (0, 0)"] by (auto simp: runs_def terminal_kept_def)
  qed
qed

inductive terminal_reachable :: "terminal \<Rightarrow> bool" where
  started: "wf_lfb (lfb_new buffer pitch width height bpp) \<Longrightarrow> size_ok (width div CHAR_WIDTH mod 2 ^ 16, height div CHAR_HEIGHT mod 2 ^ 16) \<Longrightarrow>
    terminal_new fresh buffer pitch width height bpp = Inr t \<Longrightarrow> terminal_reachable t"
| event: "terminal_reachable t \<Longrightarrow> env_ok env (disp_size (t_display t)) \<Longrightarrow> perform env e t = Inr t' \<Longrightarrow> terminal_reachable t'"
| cleared: "terminal_reachable t \<Longrightarrow> env_ok env (disp_size (t_display t)) \<Longrightarrow> clear env t = Inr t' \<Longrightarrow> terminal_reachable t'"
| blinked: "terminal_reachable t \<Longrightarrow> env_ok env (disp_size (t_display t)) \<Longrightarrow> cursor_thread_round env st t = Inr (st', t') \<Longrightarrow>
    terminal_reachable t'"

lemma reachable_ok: "terminal_reachable t \<Longrightarrow> terminal_ok t"
proof (induction rule: terminal_reachable.induct)
  case (started buffer pitch width height bpp fresh t)
  then show ?case using terminal_new_ok[OF started(1,2), of fresh] by (simp add: runs_def)
next
  case (event t env e t')
  then show ?case using perform_runs[OF event(4,2), of e] by (auto simp: runs_def terminal_kept_def split: if_splits)
next
  case (cleared t env t')
  then show ?case using clear_keeps[OF cleared(4,2)] by (simp add: runs_def)
next
  case (blinked t env st st' t')
  then show ?case using cursor_thread_keeps[OF blinked(4,2,3)] by simp
qed


section \<open>Properties\<close>

definition example_env :: term_env where
  "example_env = \<lparr>env_font = (\<lambda>_. Some (replicate 8 1)), env_mix = (\<lambda>_ c. c),
     env_status = \<lparr>pkg_version = ''0.1'', build_profile = ''dev'', uptime_ms = 0, process_count = 1, thread_count = 2, efi_date = None\<rparr>\<rparr>"

lemma example_env_ok: "env_ok example_env sz"
proof -
  have "length (info_string (env_status example_env)) < 2 ^ 16"
    by (simp add: info_string_def example_env_def pad2_def decimal.simps)
  then show ?thesis by (simp add: env_ok_def example_env_def)
qed

definition example_terminal :: "terminal result" where
  "example_terminal = terminal_new (\<lambda>_. 0) (\<lambda>_. 0) 64 16 32 32"

lemma example_terminal_ok:
  "wf_lfb (lfb_new (\<lambda>_. 0) 64 16 32 32)" "size_ok (16 div CHAR_WIDTH mod 2 ^ 16, 32 div CHAR_HEIGHT mod 2 ^ 16)"
  by (simp_all add: wf_lfb_def lfb_new_def size_ok_def CHAR_WIDTH_def CHAR_HEIGHT_def)

lemma example_terminal_state:
  obtains t where "example_terminal = Inr t" "terminal_reachable t" "terminal_ok t" "t_cursor t = cursor_state_new"
    "disp_size (t_display t) = (2, 2)"
proof -
  obtain t where t: "example_terminal = Inr t" "terminal_ok t"
    using terminal_new_ok[OF example_terminal_ok, of "\<lambda>_. 0"] by (auto simp: runs_def example_terminal_def)
  have r: "terminal_reachable t" using terminal_reachable.started[OF example_terminal_ok] t(1) by (simp add: example_terminal_def)
  have "t_cursor t = cursor_state_new" "disp_size (t_display t) = (2, 2)"
    using t(1) by (auto simp: example_terminal_def terminal_new_def display_state_new_def flush_display_def update_back_def
        CHAR_WIDTH_def CHAR_HEIGHT_def Let_def result_simps)
  then show ?thesis by (rule that[OF t(1) r t(2)])
qed

text \<open>
  C35: The terminal survives its input: in every state that the terminal reaches by parser callbacks, clearing and rounds of
  the cursor thread, the cursor is below the status bar and on the screen (at most one column behind the last), the saved
  position as well, the character buffer covers the screen and the colours are opaque; and the next callback
  panics exactly if it is a relative cursor movement whose target is not a 16 bit number. In particular moving the cursor up or
  left beyond the edge panics, although the code then tests for the edge.
\<close>

theorem terminal_survives_input:
  assumes "terminal_reachable t" "env_ok env (disp_size (t_display t))"
  shows "place_ok (disp_size (t_display t)) (pos (t_cursor t)) \<and> place_ok (disp_size (t_display t)) (saved_pos (t_cursor t)) \<and>
    fst (disp_size (t_display t)) * snd (disp_size (t_display t)) \<le> length (char_buffer (t_display t)) \<and>
    alpha (fg_color (t_color t)) = 255 \<and> alpha (bg_color (t_color t)) = 255 \<and>
    is_ok (perform env e t) = (\<not> leaves_range e t)"
proof -
  note ok = reachable_ok[OF assms(1)]
  have "is_ok (perform env e t) = (\<not> leaves_range e t)" using perform_runs[OF ok assms(2), of e] runs_is_ok by (auto split: if_splits)
  then show ?thesis using ok
    by (simp add: terminal_ok_def cursor_ok_def display_ok_def CHARACTER_SIZE_def bg_opaque)
qed

theorem terminal_survives_input_witness:
  "\<exists>t. example_terminal = Inr t \<and> \<not> is_ok (perform example_env (Csi_Dispatch [5] 0x41) t) \<and> is_ok (perform example_env (Print 65) t)"
proof -
  obtain t where t: "example_terminal = Inr t" "terminal_reachable t" "t_cursor t = cursor_state_new" by (rule example_terminal_state)
  have "leaves_range (Csi_Dispatch [5] 0x41) t" by (simp add: moves_off_def t(3) cursor_state_new_def at_least_one_def)
  then show ?thesis
    using t(1) terminal_survives_input[OF t(2) example_env_ok, of "Csi_Dispatch [5] 0x41"]
      terminal_survives_input[OF t(2) example_env_ok, of "Print 65"] by auto
qed

text \<open>Drawing a character into both frame buffers.\<close>

definition cell_shows :: "u8 list \<Rightarrow> color_state \<Rightarrow> nat \<Rightarrow> nat \<Rightarrow> lfb \<Rightarrow> lfb \<Rightarrow> bool" where
  "cell_shows bitmap c x y l l' \<longleftrightarrow> (\<forall>i j. on_screen l i j \<longrightarrow>
     read_pixel i j l' =
       (if i \<in> {x * CHAR_WIDTH..<x * CHAR_WIDTH + CHAR_WIDTH} \<and> j \<in> {y * CHAR_HEIGHT..<y * CHAR_HEIGHT + CHAR_HEIGHT}
        then Inr (kept_color (glyph_color bitmap (fg_color c) (bg_color c) (i - x * CHAR_WIDTH) (j - y * CHAR_HEIGHT)) (lfb_bpp l))
        else read_pixel i j l))"

lemma print_char_at_shows:
  assumes "display_ok d" "env_ok env sz" "color_ok c" "x < 2 ^ 16" "y < 2 ^ 16" "env_font env ch = Some bitmap"
  shows "\<exists>d'. print_char_at env c ch (x, y) d = Inr (True, d') \<and> kept d d' \<and> char_buffer d' = char_buffer d \<and>
    cell_shows bitmap c x y (back_lfb (disp_lfb d)) (back_lfb (disp_lfb d')) \<and>
    cell_shows bitmap c x y (target_lfb (disp_lfb d)) (target_lfb (disp_lfb d'))"
proof -
  let ?draw = "draw_char (env_font env) (env_mix env) (x * CHAR_WIDTH) (y * CHAR_HEIGHT) (fg_color c) (bg_color c) ch"
  have dr: "\<exists>l'. ?draw l = Inr (True, l') \<and> same_mode l l' \<and> cell_shows bitmap c x y l l'" if "wf_lfb l" for l
    using draw_char_effect[OF that bg_opaque(2)[OF assms(3)] bg_opaque(1)[OF assms(3)], of "x * CHAR_WIDTH" "y * CHAR_HEIGHT" "env_font env" ch "env_mix env"]
      env_fonts[OF assms(2)] assms(4-6) by (auto simp: cell_shows_def CHAR_WIDTH_def CHAR_HEIGHT_def)
  let ?l = "back_lfb (disp_lfb d)" and ?t = "target_lfb (disp_lfb d)"
  have ok: "wf_lfb ?l" "same_mode ?l ?t" using assms(1) by (simp_all add: display_ok_def)
  have wt: "wf_lfb ?t" using ok same_mode_facts(1) by simp
  obtain l' where l': "?draw ?l = Inr (True, l')" "cell_shows bitmap c x y ?l l'" using dr[OF ok(1)] by auto
  obtain t' where t': "?draw ?t = Inr (True, t')" "cell_shows bitmap c x y ?t t'" using dr[OF wt] by auto
  have run: "print_char_at env c ch (x, y) d = Inr (True, d\<lparr>disp_lfb := \<lparr>back_lfb = l', target_lfb = t'\<rparr>\<rparr>)"
    using l'(1) t'(1) by (cases "disp_lfb d") (simp add: print_char_at_def Let_def)
  with print_char_at_runs[OF assms(1-3), of "(x, y)" ch] assms(4,5) l'(2) t'(2) show ?thesis by auto
qed

text \<open>
  C36: Printing a character: with the cursor before the last column, a character that has a glyph is stored
  with the current colours in the cell of the cursor and in no other cell, the cursor moves one column to the right, and in the back
  buffer as well as on the screen the pixels of the cell show the glyph in these colours while all other pixels are unchanged.
\<close>

theorem printed_char_is_shown:
  assumes "terminal_ok t" "env_ok env (disp_size (t_display t))" "ch \<noteq> 10" "env_font env ch = Some bitmap"
    "pos (t_cursor t) = (x, y)" "x + 1 < fst (disp_size (t_display t))"
  shows "\<exists>t'. print_char env ch t = Inr t' \<and> pos (t_cursor t') = (x + 1, y) \<and> t_color t' = t_color t \<and>
    char_buffer (t_display t') = (char_buffer (t_display t))
      [y * fst (disp_size (t_display t)) + x := \<lparr>char_value = ch, char_fg = fg_color (t_color t), char_bg = bg_color (t_color t)\<rparr>] \<and>
    cell_shows bitmap (t_color t) x y (back_lfb (disp_lfb (t_display t))) (back_lfb (disp_lfb (t_display t'))) \<and>
    cell_shows bitmap (t_color t) x y (target_lfb (disp_lfb (t_display t))) (target_lfb (disp_lfb (t_display t')))"
proof -
  obtain sz where sz: "disp_size (t_display t) = sz" by simp
  have s: "screen_ok sz (t_cursor t, t_display t)" "color_ok (t_color t)" using terminal_screen[OF assms(1)] sz by auto
  note b = screen_bounds[OF s(1)]
  have sok: "size_ok sz" using b(1) sz by (simp add: display_ok_def)
  from print_char_at_shows[OF b(1) assms(2) s(2), of x y ch bitmap] assms(4-6) b(3,5,6,7)
  obtain d' where d': "print_char_at env (t_color t) ch (x, y) (t_display t) = Inr (True, d')" "kept (t_display t) d'"
    "char_buffer d' = char_buffer (t_display t)"
    "cell_shows bitmap (t_color t) x y (back_lfb (disp_lfb (t_display t))) (back_lfb (disp_lfb d'))"
    "cell_shows bitmap (t_color t) x y (target_lfb (disp_lfb (t_display t))) (target_lfb (disp_lfb d'))" by auto
  have size': "disp_size d' = sz" using d'(2) sz by (simp add: kept_def)
  let ?i = "y * fst sz + x"
  have i: "cell_index (x, y) sz = Inr ?i" "?i \<le> fst sz * snd sz" "0 < fst sz * snd sz"
    using place_index[OF sok b(9)] assms(5) sok by (simp_all add: size_ok_def)
  then have "?i < fst sz * snd sz * 12" by linarith
  then have lt: "?i < length (char_buffer (t_display t))" using b(1) sz by (simp add: display_ok_def CHARACTER_SIZE_def)
  have x: "u16_add x (Suc 0) = Inr (x + 1)" using assms(6) b(6) sz by (simp add: u16_add_def)
  let ?d = "d'\<lparr>char_buffer := (char_buffer (t_display t))[?i := \<lparr>char_value = ch, char_fg = fg_color (t_color t), char_bg = bg_color (t_color t)\<rparr>]\<rparr>"
  have place: "place_char env (t_color t) ch (t_cursor t, t_display t) = Inr (t_cursor t\<lparr>pos := (x + 1, y)\<rparr>, ?d)"
    using assms(3,5) d'(1,3) lt by (simp add: place_char_def i(1) x size')
  have "\<not> fst sz \<le> Suc x" "\<not> snd sz \<le> y" using assms(5,6) b(5) sz by simp_all
  then have "print_char env ch t = Inr (t\<lparr>t_cursor := t_cursor t\<lparr>pos := (x + 1, y)\<rparr>, t_display := ?d\<rparr>)"
    using place by (simp add: print_char_def wrap_line_def wrap_screen_def size')
  then show ?thesis using d'(4,5) sz by simp
qed

theorem printed_char_is_shown_witness:
  "\<exists>t t'. example_terminal = Inr t \<and> print_char example_env 65 t = Inr t' \<and> pos (t_cursor t') = (1, 1) \<and>
     cell_shows (replicate 8 1) (t_color t) 0 1 (target_lfb (disp_lfb (t_display t))) (target_lfb (disp_lfb (t_display t')))"
proof -
  obtain t where t: "example_terminal = Inr t" "terminal_ok t" "t_cursor t = cursor_state_new" "disp_size (t_display t) = (2, 2)"
    by (rule example_terminal_state)
  have f: "env_font example_env 65 = Some (replicate 8 1)" by (simp add: example_env_def)
  have p: "pos (t_cursor t) = (0, 1)" "0 + 1 < fst (disp_size (t_display t))" by (simp_all add: t cursor_state_new_def)
  from printed_char_is_shown[OF t(2) example_env_ok _ f p] t(1) show ?thesis by auto
qed


lemma erase_range_nth:
  assumes "k < length xs"
  shows "erase_range f a n xs ! k = (if a \<le> k \<and> k < a + n then f (xs ! k) else xs ! k)"
  using assms by (auto simp: erase_range_def nth_append min_def)

lemma line_feed_at_bottom:
  assumes "terminal_ok t" "env_ok env (disp_size (t_display t))" "pos (t_cursor t) = (x, y)" "y + 1 = snd (disp_size (t_display t))"
  defines "w \<equiv> fst (disp_size (t_display t))" and "c \<equiv> t_color t"
  shows "\<exists>t'. print_char env 10 t = Inr t' \<and> pos (t_cursor t') = (0, y) \<and>
    char_buffer (t_display t') =
      take (w * y) (drop w (erase_range (erase c) (y * w + x) (w - x) (char_buffer (t_display t)))) @
      map (erase c) (drop (w * y) (erase_range (erase c) (y * w + x) (w - x) (char_buffer (t_display t))))"
proof -
  let ?d = "t_display t" and ?cur = "t_cursor t"
  have s: "screen_ok (disp_size ?d) (?cur, ?d)" "color_ok c" using terminal_screen[OF assms(1)] by (auto simp: c_def)
  note b = screen_bounds[OF s(1)]
  let ?e = "erase_range (erase c) (y * w + x) (w - x) (char_buffer ?d)"
  obtain d1 where d1: "clear_line_from_cursor env ?cur c ?d = Inr d1" "kept ?d d1" "char_buffer d1 = ?e"
    using clear_line_runs(3)[OF b(1) assms(2) s(2) b(9)] assms(3) by (auto simp: runs_def w_def)
  have h: "snd (disp_size d1) = y + 1" "fst (disp_size d1) = w" "display_ok d1" "disp_size d1 = disp_size ?d"
    using d1(2) assms(4) by (simp_all add: kept_def w_def)
  obtain d2 where d2: "scroll_up env c d1 = Inr d2" "kept d1 d2"
    "char_buffer d2 = take (w * y) (drop w ?e) @ map (erase c) (drop (w * y) ?e)"
    using scroll_up_runs[OF h(3) _ s(2), of env] assms(2) h d1(3) by (auto simp: runs_def Let_def)
  have k2: "display_ok d2" "disp_size d2 = disp_size ?d" "snd (disp_size d2) = y + 1" using d2(2) h by (simp_all add: kept_def)
  obtain bb d3 where d3: "print_char_at env c 95 (0, y + 1) d2 = Inr (bb, d3)" "char_buffer d3 = char_buffer d2"
    using print_char_at_runs[OF k2(1) assms(2) s(2), of "(0, y + 1)" 95] b(7) assms(4) by (auto simp: runs_def)
  have a: "u16_add y (Suc 0) = Inr (y + 1)" using b(7) assms(4) by (simp add: u16_add_def)
  have w: "\<not> fst (disp_size d1) \<le> 0" using h by (simp add: display_ok_def size_ok_def)
  have place: "place_char env c 10 (?cur, ?d) = Inr (?cur\<lparr>pos := (0, y + 1)\<rparr>, d1)"
    using assms(3) d1(1) a by (simp add: place_char_def)
  have "print_char env 10 t = Inr (t\<lparr>t_cursor := ?cur\<lparr>pos := (0, y)\<rparr>, t_display := d3\<rparr>)"
    using place w h(1) d2(1) k2(3) d3(1) by (simp add: print_char_def wrap_line_def wrap_screen_def c_def)
  then show ?thesis using d3(2) d2(3) by simp
qed

text \<open>
  Line feed on the last line: the cursor goes to the start of the last line; every line of the character buffer moves up by
  one, where the rest of the line behind the cursor is erased first, and the last line is blank in the current colours.
\<close>

theorem line_feed_scrolls:
  assumes "terminal_ok t" "env_ok env (disp_size (t_display t))" "pos (t_cursor t) = (x, y)" "disp_size (t_display t) = (w, y + 1)"
  shows "\<exists>t'. execute env 0x0a t = Inr t' \<and> pos (t_cursor t') = (0, y) \<and>
    (\<forall>k < w * y. char_buffer (t_display t') ! k =
       (if k + w < y * w + x then char_buffer (t_display t) ! (k + w) else erase (t_color t) (char_buffer (t_display t) ! (k + w)))) \<and>
    (\<forall>k. w * y \<le> k \<and> k < w * y + w \<longrightarrow> char_buffer (t_display t') ! k =
       \<lparr>char_value = 0, char_fg = fg_color (t_color t), char_bg = bg_color (t_color t)\<rparr>)"
proof -
  let ?c = "t_color t" and ?cb = "char_buffer (t_display t)"
  let ?e = "erase_range (erase ?c) (y * w + x) (w - x) ?cb"
  obtain t' where t': "print_char env 10 t = Inr t'" "pos (t_cursor t') = (0, y)"
    "char_buffer (t_display t') = take (w * y) (drop w ?e) @ map (erase ?c) (drop (w * y) ?e)"
    using line_feed_at_bottom[OF assms(1-3)] assms(4) by auto
  have "length ?cb = w * (y + 1) * 12" using assms(1,4) by (simp add: terminal_ok_def display_ok_def CHARACTER_SIZE_def)
  moreover have "w * (y + 1) = w * y + w" by simp
  ultimately have len: "w * y + w \<le> length ?cb" by linarith
  have x: "x \<le> w" using assms(1,3,4) by (simp add: terminal_ok_def cursor_ok_def place_ok_def)
  have l1: "length (take (w * y) (drop w ?e)) = w * y" using len by (simp add: length_erase_range)
  have up: "char_buffer (t_display t') ! k = (if k + w < y * w + x then ?cb ! (k + w) else erase ?c (?cb ! (k + w)))" if k: "k < w * y" for k
  proof -
    have "char_buffer (t_display t') ! k = ?e ! (k + w)"
      unfolding t'(3) using k len by (simp add: nth_append length_erase_range add.commute)
    also have "... = (if k + w < y * w + x then ?cb ! (k + w) else erase ?c (?cb ! (k + w)))"
      using k x len by (subst erase_range_nth) (auto simp: mult.commute)
    finally show ?thesis .
  qed
  have low: "char_buffer (t_display t') ! k = \<lparr>char_value = 0, char_fg = fg_color ?c, char_bg = bg_color ?c\<rparr>"
    if k: "w * y \<le> k" "k < w * y + w" for k
  proof -
    have e: "erase ?c it = \<lparr>char_value = 0, char_fg = fg_color ?c, char_bg = bg_color ?c\<rparr>" for it by (cases it) (simp add: erase_def)
    have "char_buffer (t_display t') ! k = map (erase ?c) (drop (w * y) ?e) ! (k - w * y)"
      unfolding t'(3) nth_append l1 using k by simp
    then show ?thesis using k len by (simp add: length_erase_range e)
  qed
  show ?thesis using t'(1,2) up low by (simp add: execute_def)
qed

theorem line_feed_scrolls_witness:
  "\<exists>t t'. example_terminal = Inr t \<and> execute example_env 0x0a t = Inr t' \<and> pos (t_cursor t') = (0, 1) \<and>
     char_value (char_buffer (t_display t') ! 2) = 0"
proof -
  obtain t where t: "example_terminal = Inr t" "terminal_ok t" "t_cursor t = cursor_state_new" "disp_size (t_display t) = (2, 2)"
    by (rule example_terminal_state)
  have p: "pos (t_cursor t) = (0, 1)" "disp_size (t_display t) = (2, 1 + 1)" by (simp_all add: t cursor_state_new_def)
  from line_feed_scrolls[OF t(2) example_env_ok p] t(1) show ?thesis by auto
qed

text \<open>
  Colour sequences: a reset gives the colours of a new terminal, and what follows a reset in a sequence has the
  same effect whatever was set before; a direct colour with red, green and blue components selects exactly this
  colour, and a palette index the entry of the colour table.
\<close>

theorem color_sequences:
  "handle_ansi_color [0] c = color_state_new \<and> handle_ansi_color (0 # ps) c = handle_ansi_color (0 # ps) c' \<and>
   fg_base_color (handle_ansi_color [38, 2, unat r, unat g, unat b] c) = rgba r g b 255 \<and>
   bg_base_color (handle_ansi_color [48, 2, unat r, unat g, unat b] c) = rgba r g b 255 \<and>
   fg_base_color (handle_ansi_color [38, 5, unat (i::u8)] c) = COLOR_TABLE_256 ! unat i \<and>
   bg_base_color (handle_ansi_color [48, 5, unat i] c) = COLOR_TABLE_256 ! unat i"
proof -
  have reset: "color_round 0 ps s = (ps, color_state_new)" for ps s
    by (cases s) (simp add: color_round_def handle_ansi_graphic_rendition_def color_state_new_def)
  have "unat i < 256" using unsigned_less[of i, where ?'a = nat] by simp
  then have i: "unat i \<le> 255" by simp
  have "handle_ansi_color [0] c = color_state_new"
    by (simp add: handle_ansi_color_def reset Let_def) (simp add: color_state_new_def)
  moreover have "handle_ansi_color (0 # ps) c = handle_ansi_color (0 # ps) c'" by (simp add: handle_ansi_color_def reset)
  moreover have "fg_base_color (handle_ansi_color [38, 2, unat r, unat g, unat b] c) = rgba r g b 255"
    "bg_base_color (handle_ansi_color [48, 2, unat r, unat g, unat b] c) = rgba r g b 255"
    "fg_base_color (handle_ansi_color [38, 5, unat i] c) = COLOR_TABLE_256 ! unat i"
    "bg_base_color (handle_ansi_color [48, 5, unat i] c) = COLOR_TABLE_256 ! unat i"
    using i by (simp_all add: handle_ansi_color_def color_round_def ansi_color_def set_fg_def set_bg_def Let_def rgba_def case_prod_beta)
  ultimately show ?thesis by simp
qed

end
