(* ===== verification/Syscall_Io.thy ===== *)
theory Syscall_Io
  imports Terminal_Props
begin

text \<open>
  The system calls of \<open>os/kernel/src/syscall/mod.rs\<close> that reach beyond the kernel's own objects: \<open>sys_write\<close>, which hands user text to the
  terminal, and the date calls \<open>sys_get_date\<close> and \<open>sys_set_date\<close>.

  The escape sequence parser is an argument as in \<open>Terminal\<close>. The EFI runtime services and the crate \<open>chrono\<close> are arguments: the time that the
  firmware returns, a parser of time stamps and the conversion of milliseconds. Of the parser it is only used that a time stamp it
  accepts has at most three dashes, two in the date and one in the offset, as RFC 3339 demands.

  Shown here: plain text is written without a panic and keeps the terminal in order, while a user program can stop the kernel with other bytes;
  with a clock that runs in a time zone west of Greenwich the date call panics, since the sign is written twice.
\<close>

section \<open>Writing to the terminal\<close>

text \<open>
  \<open>core::str::from_utf8\<close>: one to four bytes per character, without overlong forms, surrogates and numbers beyond the last code point.
\<close>

definition continuation :: "u8 \<Rightarrow> bool" where
  "continuation b \<longleftrightarrow> 0x80 \<le> b \<and> b \<le> 0xBF"

definition second_byte :: "u8 \<Rightarrow> u8 \<Rightarrow> bool" where
  "second_byte b c \<longleftrightarrow>
     (if b = 0xE0 then 0xA0 \<le> c \<and> c \<le> 0xBF
      else if b = 0xED then 0x80 \<le> c \<and> c \<le> 0x9F
      else if b = 0xF0 then 0x90 \<le> c \<and> c \<le> 0xBF
      else if b = 0xF4 then 0x80 \<le> c \<and> c \<le> 0x8F
      else continuation c)"

definition trailing_bytes :: "u8 \<Rightarrow> nat option" where
  "trailing_bytes b =
     (if b < 0x80 then Some 0
      else if 0xC2 \<le> b \<and> b \<le> 0xDF then Some 1
      else if 0xE0 \<le> b \<and> b \<le> 0xEF then Some 2
      else if 0xF0 \<le> b \<and> b \<le> 0xF4 then Some 3
      else None)"

definition character_tail :: "u8 \<Rightarrow> u8 list \<Rightarrow> bool" where
  "character_tail b cs \<longleftrightarrow> (case cs of [] \<Rightarrow> True | c # rest \<Rightarrow> second_byte b c \<and> list_all continuation rest)"

function utf8_valid :: "u8 list \<Rightarrow> bool" where
  "utf8_valid [] = True"
| "utf8_valid (b # bs) =
     (case trailing_bytes b of
        None \<Rightarrow> False
      | Some n \<Rightarrow> n \<le> length bs \<and> character_tail b (take n bs) \<and> utf8_valid (drop n bs))"
  by pat_completeness auto
termination by (relation "measure length") (auto simp: less_Suc_eq_le)

definition user_bytes :: "(nat \<Rightarrow> u8) \<Rightarrow> nat \<Rightarrow> nat \<Rightarrow> u8 list" where
  "user_bytes memory buffer len = map memory [buffer..<buffer + len]"

text \<open>The parameters are a pointer and a length; \<open>memory\<close> is what the caller's address space holds.\<close>

definition sys_write ::
    "('p \<Rightarrow> u8 \<Rightarrow> 'p \<times> term_event list) \<Rightarrow> term_env \<Rightarrow> (nat \<Rightarrow> u8) \<Rightarrow> nat \<Rightarrow> nat \<Rightarrow> 'p \<times> terminal \<Rightarrow> ('p \<times> terminal) result" where
  "sys_write advance env memory buffer len s =
     and_then (if buffer = 0 then Inl Unwrap_None else Inr (user_bytes memory buffer len)) (\<lambda>bytes.
     if utf8_valid bytes then write_str advance env bytes s else Inl Unwrap_None)"

section \<open>Time stamps\<close>

record efi_time =
  tm_year :: nat
  tm_month :: nat
  tm_day :: nat
  tm_hour :: nat
  tm_minute :: nat
  tm_second :: nat
  tm_nanosecond :: nat
  tm_time_zone :: "int option"
  tm_valid :: bool

text \<open>Display of a signed number, padded on the left with zeros; division truncates.\<close>

definition show_int :: "int \<Rightarrow> string" where
  "show_int i = (if i < 0 then ''-'' @ decimal (nat (- i)) else decimal (nat i))"

definition pad_zeros :: "nat \<Rightarrow> string \<Rightarrow> string" where
  "pad_zeros w s = replicate (w - length s) (CHR ''0'') @ s"

definition num_hours :: "int \<Rightarrow> int" where
  "num_hours minutes = (if minutes < 0 then - (- minutes div 60) else minutes div 60)"

definition minutes_rest :: "int \<Rightarrow> int" where
  "minutes_rest minutes = minutes - 60 * num_hours minutes"

definition zone_string :: "int option \<Rightarrow> string" where
  "zone_string time_zone =
     (case time_zone of
        None \<Rightarrow> ''Z''
      | Some tz \<Rightarrow>
          (if tz \<ge> 0 then ''+'' else ''-'') @ pad_zeros 2 (show_int (num_hours tz)) @ '':'' @ pad_zeros 2 (show_int (minutes_rest tz)))"

definition time_stamp :: "efi_time \<Rightarrow> string" where
  "time_stamp t =
     decimal (tm_year t) @ ''-'' @ pad_zeros 2 (decimal (tm_month t)) @ ''-'' @ pad_zeros 2 (decimal (tm_day t)) @ ''T'' @
     pad_zeros 2 (decimal (tm_hour t)) @ '':'' @ pad_zeros 2 (decimal (tm_minute t)) @ '':'' @ pad_zeros 2 (decimal (tm_second t)) @ ''.'' @
     pad_zeros 9 (decimal (tm_nanosecond t)) @ zone_string (tm_time_zone t)"

section \<open>The system calls\<close>

text \<open>\<open>efi\<close> is \<open>None\<close> without EFI runtime services; they return a time or fail.\<close>

definition sys_get_date :: "(string \<Rightarrow> int option) \<Rightarrow> efi_time option option \<Rightarrow> u64 result" where
  "sys_get_date parse_from_rfc3339 efi =
     (case efi of
        None \<Rightarrow> Inr 0
      | Some None \<Rightarrow> Inr 0
      | Some (Some time) \<Rightarrow>
          if tm_valid time then
            and_then (unwrap Unwrap_None (parse_from_rfc3339 (time_stamp time))) (\<lambda>timestamp_millis. Inr (word_of_int timestamp_millis))
          else Inr 0)"

text \<open>
  The fields that \<open>sys_set_date\<close> reads of a \<open>DateTime\<close>, and the EFI time it builds of them, cast to the widths of \<open>TimeParams\<close>. Arguments: \<open>from_timestamp_millis\<close> of
  \<open>chrono\<close>, the validation by \<open>Time::new\<close>, and the runtime service, which is missing without EFI.
\<close>

record chrono_date =
  dt_year :: int
  dt_month :: nat
  dt_day :: nat
  dt_hour :: nat
  dt_minute :: nat
  dt_second :: nat
  dt_nanosecond :: nat

definition time_params :: "chrono_date \<Rightarrow> efi_time" where
  "time_params date =
     \<lparr>tm_year = unat (word_of_int (dt_year date) :: u16),
      tm_month = unat (of_nat (dt_month date) :: u8),
      tm_day = unat (of_nat (dt_day date) :: u8),
      tm_hour = unat (of_nat (dt_hour date) :: u8),
      tm_minute = unat (of_nat (dt_minute date) :: u8),
      tm_second = unat (of_nat (dt_second date) :: u8),
      tm_nanosecond = dt_nanosecond date,
      tm_time_zone = None,
      tm_valid = True\<rparr>"

definition sys_set_date ::
    "(int \<Rightarrow> chrono_date option) \<Rightarrow> (efi_time \<Rightarrow> efi_time option) \<Rightarrow> (efi_time \<Rightarrow> bool) option \<Rightarrow> u64 \<Rightarrow> u64 result" where
  "sys_set_date from_timestamp_millis time_new efi date_ms =
     (case efi of
        None \<Rightarrow> Inr 0
      | Some set_time \<Rightarrow>
          and_then (unwrap Unwrap_None (from_timestamp_millis (sint date_ms))) (\<lambda>date.
          and_then (unwrap Unwrap_None (time_new (time_params date))) (\<lambda>uefi_date.
          Inr (of_bool (set_time uefi_date)))))"

section \<open>What the parser does with plain text\<close>

fun feed :: "('p \<Rightarrow> u8 \<Rightarrow> 'p \<times> term_event list) \<Rightarrow> 'p \<Rightarrow> u8 list \<Rightarrow> 'p \<times> term_event list" where
  "feed advance p [] = (p, [])"
| "feed advance p (b # bs) =
     (let (p1, es) = advance p b; (p2, fs) = feed advance p1 bs in (p2, es @ fs))"

text \<open>Printable characters, line feed, tab and the other control characters the terminal knows.\<close>

definition plain :: "u8 \<Rightarrow> bool" where
  "plain b \<longleftrightarrow> 0x20 \<le> b \<and> b < 0x7F \<or> b \<in> {7, 8, 9, 10, 13}"

definition plain_event :: "u8 \<Rightarrow> term_event" where
  "plain_event b = (if b < 0x20 then Execute (unat b) else Print (unat b))"

text \<open>
  The documented behaviour of the parser: outside of an escape sequence (\<open>ground\<close>) plain characters are printed or executed one by one, and
  \<open>ESC [ 2 A\<close> is reported as the sequence that moves the cursor up by two.
\<close>

definition cursor_up_2 :: "u8 list" where
  "cursor_up_2 = [0x1B, 0x5B, 0x32, 0x41]"

definition parser_law :: "('p \<Rightarrow> u8 \<Rightarrow> 'p \<times> term_event list) \<Rightarrow> ('p \<Rightarrow> bool) \<Rightarrow> bool" where
  "parser_law advance ground \<longleftrightarrow>
     (\<forall>p. ground p \<longrightarrow>
        (\<forall>b. plain b \<longrightarrow> ground (fst (advance p b)) \<and> snd (advance p b) = [plain_event b]) \<and>
        snd (feed advance p cursor_up_2) = [Csi_Dispatch [2] 0x41])"

text \<open>A parser with this behaviour: it only knows sequences of the form \<open>ESC [ digit letter\<close>.\<close>

datatype small_parser = Ground | Escaped | Opened | Counted nat

fun small_advance :: "small_parser \<Rightarrow> u8 \<Rightarrow> small_parser \<times> term_event list" where
  "small_advance Ground b = (if b = 0x1B then (Escaped, []) else (Ground, [plain_event b]))"
| "small_advance Escaped b = (if b = 0x5B then (Opened, []) else (Ground, [Ignored]))"
| "small_advance Opened b = (if 0x30 \<le> b \<and> b \<le> 0x39 then (Counted (unat b - 48), []) else (Ground, [Ignored]))"
| "small_advance (Counted n) b = (Ground, [Csi_Dispatch [n] (unat b)])"

section \<open>Dashes in time stamps\<close>

abbreviation dashes :: "string \<Rightarrow> nat" where
  "dashes s \<equiv> count_list s (CHR ''-'')"

text \<open>A time stamp of RFC 3339 has two dashes in the date and at most one in the offset.\<close>

definition accepts_rfc3339 :: "(string \<Rightarrow> int option) \<Rightarrow> bool" where
  "accepts_rfc3339 parse_from_rfc3339 \<longleftrightarrow> (\<forall>s millis. parse_from_rfc3339 s = Some millis \<longrightarrow> dashes s \<le> 3)"

definition digit_char :: "nat \<Rightarrow> char" where
  "digit_char n = char_of (48 + n)"

section \<open>UTF-8\<close>

text \<open>Unicode scalar values and their encoding, for comparison with the validation above.\<close>

definition scalar_value :: "nat \<Rightarrow> bool" where
  "scalar_value c \<longleftrightarrow> c < 0xD800 \<or> 0xE000 \<le> c \<and> c < 0x110000"

definition utf8_encode :: "nat \<Rightarrow> u8 list" where
  "utf8_encode c =
     (if c < 0x80 then [of_nat c]
      else if c < 0x800 then [of_nat (0xC0 + c div 64), of_nat (0x80 + c mod 64)]
      else if c < 0x10000 then [of_nat (0xE0 + c div 4096), of_nat (0x80 + c div 64 mod 64), of_nat (0x80 + c mod 64)]
      else [of_nat (0xF0 + c div 262144), of_nat (0x80 + c div 4096 mod 64), of_nat (0x80 + c div 64 mod 64), of_nat (0x80 + c mod 64)])"

lemma unat_small: "k < 256 \<Longrightarrow> unat (of_nat k :: u8) = k"
  by (simp add: unat_of_nat take_bit_nat_eq_self[of _ 8, simplified])

lemma continuation_nat: "continuation b \<longleftrightarrow> 0x80 \<le> unat b \<and> unat b \<le> 0xBF"
  by (simp add: continuation_def word_le_nat_alt)

lemma second_byte_nat: "second_byte b c \<longleftrightarrow>
    (if unat b = 0xE0 then 0xA0 \<le> unat c \<and> unat c \<le> 0xBF
     else if unat b = 0xED then 0x80 \<le> unat c \<and> unat c \<le> 0x9F
     else if unat b = 0xF0 then 0x90 \<le> unat c \<and> unat c \<le> 0xBF
     else if unat b = 0xF4 then 0x80 \<le> unat c \<and> unat c \<le> 0x8F
     else 0x80 \<le> unat c \<and> unat c \<le> 0xBF)"
  by (simp add: second_byte_def continuation_nat word_le_nat_alt word_unat_eq_iff)

lemma trailing_bytes_nat: "trailing_bytes b =
    (if unat b < 0x80 then Some 0 else if 0xC2 \<le> unat b \<and> unat b \<le> 0xDF then Some 1
     else if 0xE0 \<le> unat b \<and> unat b \<le> 0xEF then Some 2 else if 0xF0 \<le> unat b \<and> unat b \<le> 0xF4 then Some 3 else None)"
  by (simp add: trailing_bytes_def word_le_nat_alt word_less_nat_alt)

lemmas utf8_nat = continuation_nat second_byte_nat trailing_bytes_nat character_tail_def

text \<open>The digits of a code point to the base 64.\<close>

lemma digits_64:
  fixes c :: nat
  obtains w v r s where "c = 262144 * w + 4096 * v + 64 * r + s" "v < 64" "r < 64" "s < 64"
    "c mod 64 = s" "c div 64 = 4096 * w + 64 * v + r" "c div 64 mod 64 = r" "c div 4096 = 64 * w + v" "c div 4096 mod 64 = v" "c div 262144 = w"
proof -
  let ?u = "c div 64" and ?q = "c div 64 div 64"
  have d: "c div 4096 = ?q" "c div 262144 = ?q div 64" using div_mult2_eq[of c 64 64] div_mult2_eq[of c 4096 64] by simp_all
  have e: "64 * ?u + c mod 64 = c" "64 * ?q + ?u mod 64 = ?u" "64 * (?q div 64) + ?q mod 64 = ?q" by (rule mult_div_mod_eq)+
  show ?thesis
  proof (rule that[of "?q div 64" "?q mod 64" "?u mod 64" "c mod 64"])
    show "c = 262144 * (?q div 64) + 4096 * (?q mod 64) + 64 * (?u mod 64) + c mod 64" using e by linarith
    show "?u = 4096 * (?q div 64) + 64 * (?q mod 64) + ?u mod 64" using e by linarith
    show "c div 4096 = 64 * (?q div 64) + ?q mod 64" unfolding d using e(3) by simp
  qed (simp_all only: d mod_less_divisor zero_less_numeral)
qed

lemma valid_character:
  "trailing_bytes b = Some (length cs) \<Longrightarrow> character_tail b cs \<Longrightarrow> utf8_valid ((b # cs) @ bs) = utf8_valid bs"
  by simp

lemma valid_encoded:
  assumes "scalar_value c"
  shows "utf8_valid (utf8_encode c @ bs) = utf8_valid bs"
proof -
  obtain w v r s where c: "c = 262144 * w + 4096 * v + 64 * r + s" "v < 64" "r < 64" "s < 64"
    and e: "c mod 64 = s" "c div 64 = 4096 * w + 64 * v + r" "c div 64 mod 64 = r" "c div 4096 = 64 * w + v" "c div 4096 mod 64 = v"
      "c div 262144 = w" by (rule digits_64)
  have a: "c < 0xD800 \<or> 0xE000 \<le> c" "c < 0x110000" using assms by (auto simp: scalar_value_def)
  consider "c < 0x80" | "0x80 \<le> c" "c < 0x800" | "0x800 \<le> c" "c < 0x10000" | "0x10000 \<le> c"
    using leI by blast
  then show ?thesis
  proof cases
    case 1
    then show ?thesis by (simp add: utf8_encode_def utf8_nat unat_small)
  next
    case 2
    then have "w = 0" "v = 0" using c by linarith+
    with 2 c have "2 \<le> r" "r < 32" by simp_all
    note this \<open>w = 0\<close> \<open>v = 0\<close>
    with 2 e c(4) show ?thesis
      unfolding utf8_encode_def by (simp add: valid_character utf8_nat unat_small del: of_nat_add append_Cons utf8_valid.simps)
  next
    case 3
    then have w: "w = 0" using c by linarith
    have "v < 16" "v = 0 \<Longrightarrow> 32 \<le> r" "v = 13 \<Longrightarrow> r < 32" using 3 c a unfolding w by linarith+
    moreover from this c(3,4) have "character_tail (of_nat (0xE0 + v)) [of_nat (0x80 + r), of_nat (0x80 + s)]"
      by (auto simp: utf8_nat unat_small simp del: of_nat_add)
    moreover have "trailing_bytes (of_nat (0xE0 + v)) = Some 2" using \<open>v < 16\<close> by (simp add: utf8_nat unat_small del: of_nat_add)
    ultimately show ?thesis using w 3 e c(3,4)
      unfolding utf8_encode_def by (simp add: valid_character utf8_nat unat_small del: of_nat_add append_Cons utf8_valid.simps)
  next
    case 4
    then have "w < 5" "w = 0 \<Longrightarrow> 16 \<le> v" "w = 4 \<Longrightarrow> v < 16" using c a(2) by linarith+
    moreover from this c(2-4) have "character_tail (of_nat (0xF0 + w)) [of_nat (0x80 + v), of_nat (0x80 + r), of_nat (0x80 + s)]"
      by (auto simp: utf8_nat unat_small simp del: of_nat_add)
    moreover have "trailing_bytes (of_nat (0xF0 + w)) = Some 3" using \<open>w < 5\<close> by (simp add: utf8_nat unat_small del: of_nat_add)
    ultimately show ?thesis using 4 e c(2-4)
      unfolding utf8_encode_def by (simp add: valid_character utf8_nat unat_small del: of_nat_add append_Cons utf8_valid.simps)
  qed
qed

lemma from_digits:
  assumes "v < 64" "r < 64" "s < (64 :: nat)" "c = 262144 * w + 4096 * v + 64 * r + s"
  shows "c mod 64 = s" "c div 64 = 4096 * w + 64 * v + r" "c div 64 mod 64 = r" "c div 4096 = 64 * w + v" "c div 4096 mod 64 = v" "c div 262144 = w"
proof -
  show u: "c div 64 = 4096 * w + 64 * v + r" using assms by (intro div_nat_eqI) simp_all
  show q: "c div 4096 = 64 * w + v" using assms by (intro div_nat_eqI) simp_all
  show "c div 262144 = w" using assms by (intro div_nat_eqI) simp_all
  have "c = s + 64 * (4096 * w + 64 * v + r)" "c div 64 = r + 64 * (64 * w + v)" using assms u by simp_all
  then show "c mod 64 = s" "c div 64 mod 64 = r" using assms(2,3) by (simp_all only: mod_mult_self2 mod_less)
  have "c div 4096 = v + 64 * w" using q by simp
  then show "c div 4096 mod 64 = v" using assms(1) by (simp only: mod_mult_self2 mod_less)
qed

lemma encoded_character:
  assumes "trailing_bytes b = Some n" "length cs = n" "character_tail b cs"
  shows "\<exists>c. scalar_value c \<and> utf8_encode c = b # cs"
proof -
  have id: "b = of_nat (unat b)" for b :: u8 by simp
  consider "n = 0" "unat b < 0x80" | "n = 1" "0xC2 \<le> unat b" "unat b \<le> 0xDF" | "n = 2" "0xE0 \<le> unat b" "unat b \<le> 0xEF"
    | "n = 3" "0xF0 \<le> unat b" "unat b \<le> 0xF4"
    using assms(1) by (auto simp: trailing_bytes_nat split: if_splits)
  then show ?thesis
  proof cases
    case 1
    then show ?thesis using assms(2) by (intro exI[of _ "unat b"]) (simp add: scalar_value_def utf8_encode_def)
  next
    case 2
    then obtain x where cs: "cs = [x]" using assms(2) by (auto simp: length_Suc_conv)
    obtain r s where b: "unat b = 0xC0 + r" "unat x = 0x80 + s" "2 \<le> r" "r < 32" "s < 64"
      using assms(3) 2 that[of "unat b - 0xC0" "unat x - 0x80"] by (auto simp: cs utf8_nat)
    let ?c = "262144 * 0 + 4096 * 0 + 64 * r + s"
    have "0x80 \<le> ?c" "?c < 0x800" using b by linarith+
    moreover have "b = of_nat (0xC0 + r)" "x = of_nat (0x80 + s)" using b(1,2) id by metis+
    ultimately show ?thesis using from_digits[OF _ _ b(5) refl, of 0 r 0] b
      by (intro exI[of _ ?c]) (simp add: scalar_value_def utf8_encode_def cs)
  next
    case 3
    then obtain x y where cs: "cs = [x, y]" using assms(2) by (auto simp: length_Suc_conv numeral_2_eq_2)
    obtain v r s where b: "unat b = 0xE0 + v" "unat x = 0x80 + r" "unat y = 0x80 + s" "v < 16" "r < 64" "s < 64"
        "v = 0 \<Longrightarrow> 32 \<le> r" "v = 13 \<Longrightarrow> r < 32"
      using assms(3) 3 that[of "unat b - 0xE0" "unat x - 0x80" "unat y - 0x80"] by (auto simp: cs utf8_nat split: if_splits)
    let ?c = "262144 * 0 + 4096 * v + 64 * r + s"
    have "0x800 \<le> ?c" using b(7) by (cases "v = 0") simp_all
    moreover have "?c < 0x10000" using b(4-6) by linarith
    moreover have "?c < 0xD800 \<or> 0xE000 \<le> ?c"
      using b(5,6,8) by (cases v "13::nat" rule: linorder_cases) auto
    moreover have "b = of_nat (0xE0 + v)" "x = of_nat (0x80 + r)" "y = of_nat (0x80 + s)" using b(1-3) id by metis+
    ultimately show ?thesis using from_digits[OF _ b(5,6) refl, of v 0] b(4)
      by (intro exI[of _ ?c]) (simp add: scalar_value_def utf8_encode_def cs)
  next
    case 4
    then obtain x y z where cs: "cs = [x, y, z]" using assms(2) by (auto simp: length_Suc_conv numeral_3_eq_3)
    obtain w v r s where b: "unat b = 0xF0 + w" "unat x = 0x80 + v" "unat y = 0x80 + r" "unat z = 0x80 + s" "w < 5" "v < 64" "r < 64" "s < 64"
        "w = 0 \<Longrightarrow> 16 \<le> v" "w = 4 \<Longrightarrow> v < 16"
      using assms(3) 4 that[of "unat b - 0xF0" "unat x - 0x80" "unat y - 0x80" "unat z - 0x80"] by (auto simp: cs utf8_nat split: if_splits)
    let ?c = "262144 * w + 4096 * v + 64 * r + s"
    have "0x10000 \<le> ?c" using b(9) by (cases "w = 0") simp_all
    moreover have "?c < 0x110000" using b(5-8,10) by (cases "w = 4") linarith+
    moreover have "b = of_nat (0xF0 + w)" "x = of_nat (0x80 + v)" "y = of_nat (0x80 + r)" "z = of_nat (0x80 + s)" using b(1-4) id by metis+
    ultimately show ?thesis using from_digits[OF b(6,7,8) refl, of w]
      by (intro exI[of _ ?c]) (simp add: scalar_value_def utf8_encode_def cs)
  qed
qed

lemma utf8_valid_iff: "utf8_valid bs \<longleftrightarrow> (\<exists>cs. list_all scalar_value cs \<and> bs = concat (map utf8_encode cs))"
proof
  show "utf8_valid bs \<Longrightarrow> \<exists>cs. list_all scalar_value cs \<and> bs = concat (map utf8_encode cs)"
  proof (induction bs rule: utf8_valid.induct)
    case (2 b bs)
    then obtain n where n: "trailing_bytes b = Some n" "n \<le> length bs" "character_tail b (take n bs)" "utf8_valid (drop n bs)"
      by (auto split: option.splits)
    from 2(1)[OF n(1) n(4)] obtain cs where cs: "list_all scalar_value cs" "drop n bs = concat (map utf8_encode cs)" by blast
    from encoded_character[OF n(1) _ n(3)] n(2) obtain c where "scalar_value c" "utf8_encode c = b # take n bs" by auto
    with cs have "list_all scalar_value (c # cs) \<and> b # bs = concat (map utf8_encode (c # cs))" by (simp flip: cs(2))
    then show ?case by blast
  qed (auto intro: exI[of _ "[]"])
  show "\<exists>cs. list_all scalar_value cs \<and> bs = concat (map utf8_encode cs) \<Longrightarrow> utf8_valid bs"
  proof (elim exE conjE)
    fix cs assume "list_all scalar_value cs" "bs = concat (map utf8_encode cs)"
    then show "utf8_valid bs" by (induction cs arbitrary: bs) (simp_all add: valid_encoded del: utf8_valid.simps(2))
  qed
qed

section \<open>Lemmas on writing\<close>

lemma write_str_performs:
  "write_str advance env bs (p, t) =
     (let (p', es) = feed advance p bs in and_then (perform_all env es t) (\<lambda>t'. Inr (p', t')))"
proof (induction bs arbitrary: p t)
  case (Cons b bs)
  have app: "perform_all env (es @ fs) t = and_then (perform_all env es t) (perform_all env fs)" for es fs t
    by (induction es arbitrary: t) (simp_all add: and_then_def split: sum.split)
  show ?case
    by (cases "perform_all env (snd (advance p b)) t") (simp_all add: write_byte_def Cons.IH app split_beta Let_def)
qed simp

lemma feed_plain:
  assumes "parser_law advance ground" "ground p" "list_all plain bs"
  shows "ground (fst (feed advance p bs)) \<and> snd (feed advance p bs) = map plain_event bs"
  using assms(2,3)
proof (induction bs arbitrary: p)
  case (Cons b bs)
  have step: "ground (fst (advance p b))" "snd (advance p b) = [plain_event b]"
    using assms(1) Cons.prems by (auto simp: parser_law_def)
  from Cons.IH[OF step(1)] Cons.prems(2) step(2) show ?case by (simp add: split_beta Let_def)
qed simp

lemma utf8_valid_ascii: "list_all (\<lambda>b. b < 0x80) bs \<Longrightarrow> utf8_valid bs"
  by (induction bs) (simp_all add: trailing_bytes_def character_tail_def)

lemma plain_ascii: "plain b \<Longrightarrow> b < 0x80"
  by (auto simp: plain_def word_less_nat_alt word_le_nat_alt)

text \<open>Callbacks that are no control sequences never panic; the terminal stays reachable and keeps its size.\<close>

lemma perform_plain_events:
  assumes "terminal_reachable t" "env_ok env (disp_size (t_display t))" "\<forall>e \<in> set es. \<forall>t. \<not> leaves_range e t"
  shows "\<exists>t'. perform_all env es t = Inr t' \<and> terminal_reachable t' \<and> disp_size (t_display t') = disp_size (t_display t)"
  using assms
proof (induction es arbitrary: t)
  case (Cons e es)
  obtain t1 where t1: "perform env e t = Inr t1" "terminal_kept t t1"
    using perform_runs[OF reachable_ok[OF Cons.prems(1)] Cons.prems(2), of e] Cons.prems(3) by (auto simp: runs_def)
  have r: "terminal_reachable t1" by (rule terminal_reachable.event[OF Cons.prems(1,2) t1(1)])
  have z: "disp_size (t_display t1) = disp_size (t_display t)" using t1(2) by (simp add: terminal_kept_def)
  from Cons.IH[OF r] Cons.prems(2,3) z t1(1) show ?case by simp
qed simp

lemma plain_event_stays: "\<not> leaves_range (plain_event b) t"
  by (simp add: plain_event_def)

lemma small_parser_law: "parser_law small_advance (\<lambda>p. p = Ground)"
  by (auto simp: parser_law_def plain_def cursor_up_2_def Let_def)

lemma plain_write:
  assumes "parser_law advance ground" "ground p" "terminal_reachable t" "env_ok env (disp_size (t_display t))"
    "list_all plain (user_bytes memory buffer len)" "buffer \<noteq> 0"
  shows "\<exists>p' t'. sys_write advance env memory buffer len (p, t) = Inr (p', t') \<and>
    perform_all env (map plain_event (user_bytes memory buffer len)) t = Inr t' \<and>
    ground p' \<and> terminal_reachable t' \<and> disp_size (t_display t') = disp_size (t_display t)"
proof -
  let ?bs = "user_bytes memory buffer len"
  have "utf8_valid ?bs" using assms(5) plain_ascii by (auto intro!: utf8_valid_ascii simp: list_all_iff)
  moreover note feed_plain[OF assms(1,2,5)]
  moreover obtain t' where "perform_all env (map plain_event ?bs) t = Inr t'" "terminal_reachable t'"
      "disp_size (t_display t') = disp_size (t_display t)"
    using perform_plain_events[OF assms(3,4), of "map plain_event ?bs"] plain_event_stays by auto
  ultimately show ?thesis using assms(6) by (simp add: sys_write_def write_str_performs split_beta Let_def)
qed

text \<open>
  C17: writing plain text. A user program that writes printable characters, line feeds, tabs and other control characters never makes the
  kernel panic, in whatever state the terminal is: the text is valid UTF-8, every byte becomes one callback, and the terminal
  is again in a reachable state, of the same size and outside of an escape sequence.
\<close>

theorem plain_text_is_written:
  assumes "parser_law advance ground" "ground p" "terminal_reachable t" "env_ok env (disp_size (t_display t))"
    "list_all plain (user_bytes memory buffer len)" "buffer \<noteq> 0"
  shows "\<exists>p' t'. sys_write advance env memory buffer len (p, t) = Inr (p', t') \<and>
    perform_all env (map plain_event (user_bytes memory buffer len)) t = Inr t' \<and>
    ground p' \<and> terminal_reachable t' \<and> disp_size (t_display t') = disp_size (t_display t)"
  using plain_write[OF assms] .

theorem plain_text_is_written_witness:
  "\<exists>t p' t'. example_terminal = Inr t \<and>
     sys_write small_advance example_env ((\<lambda>_. 0)(100 := 0x48, 101 := 0x69, 102 := 10)) 100 3 (Ground, t) = Inr (p', t') \<and> p' = Ground"
proof -
  obtain t where t: "example_terminal = Inr t" "terminal_reachable t" by (rule example_terminal_state)
  have "list_all plain (user_bytes ((\<lambda>_. 0)(100 := 0x48, 101 := 0x69, 102 := 10)) 100 3)"
    by (simp add: user_bytes_def upt_rec plain_def)
  from plain_text_is_written[OF small_parser_law refl t(2) example_env_ok this] t(1) show ?thesis by auto
qed

text \<open>
  C18: a user program can stop the kernel. The text of a system call is trusted: in every reachable state of the terminal, a null pointer makes
  the kernel panic, and so does every byte sequence that is not the UTF-8 encoding of some Unicode scalar values (encodings of scalar values are
  passed on to the terminal); and while the cursor is in the first line, so does the valid text that moves it up by two.
\<close>

theorem user_text_panics_kernel:
  assumes "parser_law advance ground" "ground p" "terminal_reachable t" "env_ok env (disp_size (t_display t))" "buffer \<noteq> 0"
  shows "sys_write advance env memory 0 len (p, t) = Inl Unwrap_None \<and>
    sys_write advance env memory buffer len (p, t) =
      (if \<exists>cs. list_all scalar_value cs \<and> user_bytes memory buffer len = concat (map utf8_encode cs)
       then write_str advance env (user_bytes memory buffer len) (p, t) else Inl Unwrap_None) \<and>
    (snd (pos (t_cursor t)) = 1 \<and> user_bytes memory buffer len = cursor_up_2 \<longrightarrow>
       utf8_valid cursor_up_2 \<and> \<not> is_ok (sys_write advance env memory buffer len (p, t)))"
proof (intro conjI)
  show "sys_write advance env memory 0 len (p, t) = Inl Unwrap_None" by (simp add: sys_write_def)
  show "sys_write advance env memory buffer len (p, t) =
      (if \<exists>cs. list_all scalar_value cs \<and> user_bytes memory buffer len = concat (map utf8_encode cs)
       then write_str advance env (user_bytes memory buffer len) (p, t) else Inl Unwrap_None)"
    unfolding utf8_valid_iff[symmetric] using assms(5) by (simp add: sys_write_def)
  have u: "utf8_valid cursor_up_2" by (rule utf8_valid_ascii) (simp add: cursor_up_2_def)
  have "\<not> is_ok (write_str advance env cursor_up_2 (p, t))" if "snd (pos (t_cursor t)) = 1"
  proof -
    have "leaves_range (Csi_Dispatch [2] 0x41) t" using that by (simp add: moves_off_def at_least_one_def)
    then have "\<not> is_ok (perform env (Csi_Dispatch [2] 0x41) t)"
      using perform_runs[OF reachable_ok[OF assms(3)] assms(4), of "Csi_Dispatch [2] 0x41"] by simp
    then obtain e where e: "perform env (Csi_Dispatch [2] 0x41) t = Inl e" by (cases "perform env (Csi_Dispatch [2] 0x41) t") auto
    have "snd (feed advance p cursor_up_2) = [Csi_Dispatch [2] 0x41]" using assms(1,2) by (simp add: parser_law_def)
    then show ?thesis by (simp add: write_str_performs split_beta e del: perform.simps)
  qed
  then show "snd (pos (t_cursor t)) = 1 \<and> user_bytes memory buffer len = cursor_up_2 \<longrightarrow>
       utf8_valid cursor_up_2 \<and> \<not> is_ok (sys_write advance env memory buffer len (p, t))"
    using u assms(5) by (auto simp: sys_write_def)
qed

text \<open>The second text is the overlong form of a slash.\<close>

theorem user_text_panics_kernel_witness:
  "\<exists>t. example_terminal = Inr t \<and>
     \<not> is_ok (sys_write small_advance example_env ((\<lambda>_. 0)(100 := 0x1B, 101 := 0x5B, 102 := 0x32, 103 := 0x41)) 100 4 (Ground, t)) \<and>
     sys_write small_advance example_env ((\<lambda>_. 0)(100 := 0xC0, 101 := 0xAF)) 100 2 (Ground, t) = Inl Unwrap_None \<and>
     \<not> (\<exists>cs. list_all scalar_value cs \<and> [0xC0, 0xAF] = concat (map utf8_encode cs))"
proof -
  obtain t where t: "example_terminal = Inr t" "terminal_reachable t" "t_cursor t = cursor_state_new" by (rule example_terminal_state)
  have y: "snd (pos (t_cursor t)) = 1" by (simp add: t(3) cursor_state_new_def)
  note rule = user_text_panics_kernel[OF small_parser_law refl t(2) example_env_ok, where buffer = 100]
  have b: "(100::nat) \<noteq> 0" by simp
  have "user_bytes ((\<lambda>_. 0)(100 := 0x1B, 101 := 0x5B, 102 := 0x32, 103 := 0x41)) 100 4 = cursor_up_2"
    by (simp add: user_bytes_def upt_rec cursor_up_2_def)
  with rule[OF b] y have "\<not> is_ok (sys_write small_advance example_env ((\<lambda>_. 0)(100 := 0x1B, 101 := 0x5B, 102 := 0x32, 103 := 0x41)) 100 4 (Ground, t))"
    by blast
  moreover have v: "\<not> (\<exists>cs. list_all scalar_value cs \<and> [0xC0, 0xAF] = concat (map utf8_encode cs))"
    unfolding utf8_valid_iff[symmetric] by (simp add: trailing_bytes_def)
  moreover have "user_bytes ((\<lambda>_. 0)(100 := 0xC0, 101 := 0xAF)) 100 2 = [0xC0, 0xAF]" by (simp add: user_bytes_def upt_rec)
  with rule[OF b, of "(\<lambda>_. 0)(100 := 0xC0, 101 := 0xAF)" 2] v have "sys_write small_advance example_env ((\<lambda>_. 0)(100 := 0xC0, 101 := 0xAF)) 100 2 (Ground, t) = Inl Unwrap_None"
    by (simp only: if_False)
  ultimately show ?thesis using t(1) by blast
qed

section \<open>Time zones\<close>

declare decimal.simps [simp del]

lemma char_of_digits [simp]:
  "char_of (48 :: nat) = CHR ''0''" "char_of (49 :: nat) = CHR ''1''" "char_of (51 :: nat) = CHR ''3''"
  by code_simp+

lemma pad_zeros_two_digits:
  assumes "n < 100"
  shows "pad_zeros 2 (decimal n) = [digit_char (n div 10), digit_char (n mod 10)]"
proof (cases "n < 10")
  case True
  then show ?thesis by (simp add: pad_zeros_def digit_char_def decimal.simps[of n])
next
  case False
  with assms have "n div 10 < 10" by auto
  with False show ?thesis by (simp add: pad_zeros_def digit_char_def decimal.simps[of n] decimal.simps[of "n div 10"])
qed

lemma dashes_append [simp]: "dashes (xs @ ys) = dashes xs + dashes ys"
  by (induction xs) auto

lemma dashes_zone_west:
  assumes "tz < 0"
  shows "2 \<le> dashes (zone_string (Some tz))"
proof -
  have "num_hours tz < 0 \<or> minutes_rest tz < 0" using assms by (auto simp: num_hours_def minutes_rest_def) 
  then show ?thesis
    using assms by (auto simp: zone_string_def show_int_def pad_zeros_def)
qed

lemma zone_string_east:
  assumes "0 \<le> tz" "tz \<le> 1440"
  shows "zone_string (Some tz) =
    (let h = nat tz div 60; m = nat tz mod 60
     in [CHR ''+'', digit_char (h div 10), digit_char (h mod 10), CHR '':'', digit_char (m div 10), digit_char (m mod 10)])"
proof -
  have "nat (num_hours tz) = nat tz div 60" "0 \<le> num_hours tz" using assms by (auto simp: num_hours_def nat_div_distrib)
  moreover have "nat (minutes_rest tz) = nat tz mod 60" "0 \<le> minutes_rest tz"
    using assms by (auto simp: num_hours_def minutes_rest_def nat_mod_distrib minus_mult_div_eq_mod) 
  moreover have "nat tz div 60 < 100" "nat tz mod 60 < 100" using assms by auto
  ultimately show ?thesis
    using assms by (simp add: zone_string_def show_int_def pad_zeros_two_digits Let_def)
qed

text \<open>Dates with a year that fits into 16 bits keep all their fields on the way to the firmware, and they come back in universal time.\<close>

lemma time_stamp_of_time_params:
  assumes "0 \<le> dt_year date" "dt_year date < 65536"
    "dt_month date < 100" "dt_day date < 100" "dt_hour date < 100" "dt_minute date < 100" "dt_second date < 100"
  shows "time_stamp (time_params date) =
    decimal (nat (dt_year date)) @ ''-'' @ pad_zeros 2 (decimal (dt_month date)) @ ''-'' @ pad_zeros 2 (decimal (dt_day date)) @ ''T'' @
    pad_zeros 2 (decimal (dt_hour date)) @ '':'' @ pad_zeros 2 (decimal (dt_minute date)) @ '':'' @ pad_zeros 2 (decimal (dt_second date)) @ ''.'' @
    pad_zeros 9 (decimal (dt_nanosecond date)) @ ''Z''"
proof -
  obtain y where "dt_year date = int y" using assms(1) nonneg_int_cases by blast
  with assms show ?thesis by (simp add: time_stamp_def time_params_def zone_string_def unat_of_nat)
qed

text \<open>
  the date behind a clock with a time zone. Offsets from 0 to 24 hours are written as RFC 3339 demands, but west of Greenwich both the sign and the
  negative numbers carry a dash, no parser of that format accepts the time stamp, and the system call panics instead of returning a date.
\<close>

theorem date_west_of_greenwich_panics:
  assumes "accepts_rfc3339 parse_from_rfc3339" "tm_valid time" "tm_time_zone time = Some tz"
  shows "(tz < 0 \<longrightarrow> sys_get_date parse_from_rfc3339 (Some (Some time)) = Inl Unwrap_None) \<and>
    (0 \<le> tz \<and> tz \<le> 1440 \<longrightarrow> zone_string (tm_time_zone time) =
       (let h = nat tz div 60; m = nat tz mod 60
        in [CHR ''+'', digit_char (h div 10), digit_char (h mod 10), CHR '':'', digit_char (m div 10), digit_char (m mod 10)]))"
proof -
  have "parse_from_rfc3339 (time_stamp time) = None" if "tz < 0"
  proof (rule ccontr)
    assume "parse_from_rfc3339 (time_stamp time) \<noteq> None"
    then have "dashes (time_stamp time) \<le> 3" using assms(1) by (auto simp: accepts_rfc3339_def)
    with dashes_zone_west[OF that] show False by (simp add: time_stamp_def assms(3))
  qed
  then show ?thesis using assms zone_string_east by (simp add: sys_get_date_def unwrap_def)
qed

theorem date_west_of_greenwich_panics_witness:
  "sys_get_date (\<lambda>s. if count_list s (CHR ''-'') \<le> 3 then Some 0 else None)
     (Some (Some \<lparr>tm_year = 2024, tm_month = 8, tm_day = 1, tm_hour = 12, tm_minute = 0, tm_second = 0, tm_nanosecond = 0,
        tm_time_zone = Some (-300), tm_valid = True\<rparr>)) = Inl Unwrap_None \<and>
   zone_string (Some 90) = ''+01:30''"
proof -
  have "accepts_rfc3339 (\<lambda>s. if count_list s (CHR ''-'') \<le> 3 then Some 0 else None)"
    by (auto simp: accepts_rfc3339_def)
  note rule = date_west_of_greenwich_panics[OF this]
  show ?thesis
    using rule[of "\<lparr>tm_year = 2024, tm_month = 8, tm_day = 1, tm_hour = 12, tm_minute = 0, tm_second = 0, tm_nanosecond = 0,
        tm_time_zone = Some (-300), tm_valid = True\<rparr>" "-300"]
      rule[of "\<lparr>tm_year = 2024, tm_month = 8, tm_day = 1, tm_hour = 12, tm_minute = 0, tm_second = 0, tm_nanosecond = 0,
        tm_time_zone = Some 90, tm_valid = True\<rparr>" 90]
    by (simp add: digit_char_def)
qed

end
