(* ===== verification/Scheduler.thy ===== *)
theory Scheduler
  imports Process
begin

text \<open>
  The scheduler of \<open>os/kernel/src/process/scheduler.rs\<close>: the ready queue, the sleep list and the threads
  waiting in \<open>join\<close>, with every operation that moves a thread between them.

  The front of the \<open>VecDeque\<close> is the head of the list, so \<open>push_front\<close> is \<open>#\<close> and \<open>pop_back\<close> takes the last
  element. Locks that are only tried, the timer and the lock state of the current thread's stacks are
  arguments of an operation: what the environment shows at that moment. The context switch itself is
  assembly; an operation returns the pair of threads it switches between. \<open>block\<close> spins until a
  thread is ready, so it takes the successive timer readings and is a partial function: \<open>None\<close> means
  that it never returns.

  The join map is \<open>smallmap::Map\<close>; its operations are the parameter \<open>jm\<close>, and the laws the code relies
  on are the locale \<open>join_map_laws\<close>.

  Shown here: every thread is in exactly one place and has a join entry, exactly when an operation
  panics and which threads it loses (a timer interrupt at a bad moment loses one), the queue is served in
  order, sleepers wake up in time and never early, joining threads wake up when their target exits.
\<close>

section \<open>Data\<close>

record thread =
  tid :: nat
  is_kernel_thread :: bool
  thread_process :: nat

text \<open>The operations of the join map: \<open>jm_update\<close> is a write through \<open>get_mut\<close>.\<close>

record 'm join_ops =
  jm_empty :: 'm
  jm_get :: "'m \<Rightarrow> nat \<Rightarrow> thread list option"
  jm_insert :: "nat \<Rightarrow> thread list \<Rightarrow> 'm \<Rightarrow> 'm"
  jm_update :: "nat \<Rightarrow> thread list \<Rightarrow> 'm \<Rightarrow> 'm"
  jm_remove :: "nat \<Rightarrow> 'm \<Rightarrow> 'm"

record 'm scheduler =
  initialized :: bool
  current_thread :: "thread option"
  ready_queue :: "thread list"
  sleep_list :: "(thread \<times> nat) list"
  join_map :: 'm

text \<open>The context switch an operation ends with.\<close>

datatype context_switch = Stay | Switch thread thread

text \<open>
  What a timer interrupt finds: which locks are free, the time, and whether the stacks are in use. All code takes the lock of the sleep list while it holds
  the lock of the state, so whenever the state is free the sleep list is free as well: \<open>possible_tick\<close>.
\<close>

record tick =
  state_free :: bool
  sleep_list_free :: bool
  timer_reading :: "nat option"
  stacks_locked :: bool
  tss_locked :: bool

definition possible_tick :: "tick \<Rightarrow> bool" where
  "possible_tick env \<longleftrightarrow> (state_free env \<longrightarrow> sleep_list_free env)"

section \<open>Queue operations\<close>

definition next_thread_id :: "nat \<Rightarrow> nat \<times> nat" where
  "next_thread_id counter = (counter, counter + 1)"

definition push_front :: "thread \<Rightarrow> thread list \<Rightarrow> thread list" where
  "push_front t q = t # q"

definition pop_back :: "thread list \<Rightarrow> thread option \<times> thread list" where
  "pop_back q = (if q = [] then (None, []) else (Some (last q), butlast q))"

section \<open>Operations\<close>

definition scheduler_new :: "'m join_ops \<Rightarrow> 'm scheduler" where
  "scheduler_new jm = \<lparr>initialized = False, current_thread = None, ready_queue = [], sleep_list = [],
     join_map = jm_empty jm\<rparr>"

definition set_init :: "'m scheduler \<Rightarrow> 'm scheduler" where
  "set_init s = s\<lparr>initialized := True\<rparr>"

definition active_thread_ids :: "'m scheduler \<Rightarrow> nat list" where
  "active_thread_ids s = map tid (ready_queue s) @ map (\<lambda>(t, _). tid t) (sleep_list s)"

definition current :: "'m scheduler \<Rightarrow> thread result" where
  "current s = unwrap No_Current_Thread (current_thread s)"

definition start :: "'m scheduler \<Rightarrow> (thread \<times> 'm scheduler) result" where
  "start s =
     (let (next, q) = pop_back (ready_queue s);
          s' = s\<lparr>current_thread := next, ready_queue := q\<rparr> in
      and_then (unwrap No_Current_Thread (current_thread s')) (\<lambda>t. Inr (t, s')))"

definition ready :: "'m join_ops \<Rightarrow> thread \<Rightarrow> 'm scheduler \<Rightarrow> 'm scheduler" where
  "ready jm t s = s\<lparr>ready_queue := push_front t (ready_queue s), join_map := jm_insert jm (tid t) [] (join_map s)\<rparr>"

text \<open>\<open>Vec::retain\<close> visits the entries in order and pushes each one that is due.\<close>

fun retain_sleeping :: "nat \<Rightarrow> (thread \<times> nat) list \<Rightarrow> thread list \<Rightarrow> (thread \<times> nat) list \<times> thread list" where
  "retain_sleeping time [] q = ([], q)"
| "retain_sleeping time ((t, wakeup) # entries) q =
     (if time \<ge> wakeup then retain_sleeping time entries (push_front t q)
      else (let (kept, q') = retain_sleeping time entries q in ((t, wakeup) # kept, q')))"

definition check_sleep_list :: "nat option \<Rightarrow> 'm scheduler \<Rightarrow> 'm scheduler" where
  "check_sleep_list reading s =
     (case reading of
        None \<Rightarrow> s
      | Some time \<Rightarrow>
          (let (kept, q) = retain_sleeping time (sleep_list s) (ready_queue s) in
           s\<lparr>sleep_list := kept, ready_queue := q\<rparr>))"

text \<open>The waiting loop of \<open>block\<close>; \<open>readings i\<close> is what the \<open>i\<close>-th look at the timer gives.\<close>

partial_function (option) wait_ready ::
  "(nat \<Rightarrow> nat option) \<Rightarrow> nat \<Rightarrow> 'm scheduler \<Rightarrow> (thread \<times> 'm scheduler) option" where
  "wait_ready readings i s =
     (case pop_back (ready_queue s) of
        (Some next, q) \<Rightarrow> Some (next, s\<lparr>ready_queue := q\<rparr>)
      | (None, _) \<Rightarrow> wait_ready readings (Suc i) (check_sleep_list (readings i) s))"

definition block ::
  "(nat \<Rightarrow> nat option) \<Rightarrow> 'm scheduler \<Rightarrow> (context_switch \<times> 'm scheduler) result option" where
  "block readings s =
     map_option (\<lambda>(next, s1).
       and_then (current s1) (\<lambda>c.
         if tid c = tid next then Inr (Stay, s1)
         else Inr (Switch c next, s1\<lparr>current_thread := Some next\<rparr>)))
     (wait_ready readings 0 s)"

definition sleep ::
  "nat \<Rightarrow> nat \<Rightarrow> (nat \<Rightarrow> nat option) \<Rightarrow> 'm scheduler \<Rightarrow> (context_switch \<times> 'm scheduler) result option" where
  "sleep now ms readings s =
     (case and_then (current s) (\<lambda>t. and_then (usize_add now ms) (\<lambda>wakeup. Inr (t, wakeup))) of
        Inl p \<Rightarrow> Some (Inl p)
      | Inr (t, wakeup) \<Rightarrow> block readings (s\<lparr>sleep_list := sleep_list s @ [(t, wakeup)]\<rparr>))"

definition switch_thread :: "tick \<Rightarrow> 'm scheduler \<Rightarrow> (context_switch \<times> 'm scheduler) result" where
  "switch_thread env s =
     (if \<not> state_free env then Inr (Stay, s)
      else if \<not> initialized s then Inr (Stay, s)
      else
        let s1 = (if sleep_list_free env then check_sleep_list (timer_reading env) s else s) in
        and_then (current s1) (\<lambda>c.
          case pop_back (ready_queue s1) of
            (None, _) \<Rightarrow> Inr (Stay, s1)
          | (Some next, q) \<Rightarrow>
              let s2 = s1\<lparr>ready_queue := q\<rparr> in
              if stacks_locked env \<or> tss_locked env then Inr (Stay, s2)
              else Inr (Switch c next, s2\<lparr>current_thread := Some next, ready_queue := push_front c (ready_queue s2)\<rparr>)))"

definition join ::
  "'m join_ops \<Rightarrow> nat \<Rightarrow> (nat \<Rightarrow> nat option) \<Rightarrow> 'm scheduler \<Rightarrow> (context_switch \<times> 'm scheduler) result option" where
  "join jm thread_id readings s =
     (case and_then (current s) (\<lambda>t.
             and_then (unwrap Missing_Join_Entry (jm_get jm (join_map s) thread_id)) (\<lambda>join_list.
               Inr (t, join_list))) of
        Inl p \<Rightarrow> Some (Inl p)
      | Inr (t, join_list) \<Rightarrow>
          block readings (s\<lparr>join_map := jm_update jm thread_id (join_list @ [t]) (join_map s)\<rparr>))"

text \<open>
  \<open>exit\<close> also leaves the process of a user thread; the process manager is threaded through. The loop
  over the waiting threads is a fold.
\<close>

definition exit ::
  "'m join_ops \<Rightarrow> (nat \<Rightarrow> nat option) \<Rightarrow> 'm scheduler \<times> process_manager \<Rightarrow>
     (context_switch \<times> 'm scheduler \<times> process_manager) result option" where
  "exit jm readings = (\<lambda>(s, pm).
     (case and_then (current s) (\<lambda>c.
             and_then (unwrap Missing_Join_Entry (jm_get jm (join_map s) (tid c))) (\<lambda>join_list.
               let s1 = s\<lparr>ready_queue := fold push_front join_list (ready_queue s),
                          join_map := jm_remove jm (tid c) (join_map s)\<rparr> in
               and_then (if \<not> is_kernel_thread c then process_manager_exit (thread_process c) pm else Inr pm) (\<lambda>pm'.
                 Inr (s1, pm')))) of
        Inl p \<Rightarrow> Some (Inl p)
      | Inr (s1, pm') \<Rightarrow>
          map_option (\<lambda>r. and_then r (\<lambda>(sw, s2). Inr (sw, s2, pm'))) (block readings s1)))"

section \<open>Where threads are\<close>

text \<open>
  \<open>pool\<close> are the threads that the scheduler can pick, \<open>placed\<close> adds the current one. \<open>places_ok\<close> says
  for a list of placed threads and a join map that every thread is in one place only and that every
  thread that can exit has a join entry.
\<close>

definition pool :: "'m scheduler \<Rightarrow> thread list" where
  "pool s = ready_queue s @ map fst (sleep_list s)"

definition current_list :: "'m scheduler \<Rightarrow> thread list" where
  "current_list s = (case current_thread s of None \<Rightarrow> [] | Some c \<Rightarrow> [c])"

definition placed :: "'m scheduler \<Rightarrow> thread list" where
  "placed s = current_list s @ pool s"

definition waiting :: "(nat \<Rightarrow> thread list option) \<Rightarrow> nat \<Rightarrow> thread list" where
  "waiting get k = (case get k of None \<Rightarrow> [] | Some l \<Rightarrow> l)"

definition live_of :: "thread list \<Rightarrow> (nat \<Rightarrow> thread list option) \<Rightarrow> thread set" where
  "live_of xs get = set xs \<union> (\<Union>k. set (waiting get k))"

definition places_ok :: "thread list \<Rightarrow> (nat \<Rightarrow> thread list option) \<Rightarrow> bool" where
  "places_ok xs get \<longleftrightarrow>
     distinct (map tid xs) \<and>
     (\<forall>k. distinct (map tid (waiting get k))) \<and>
     (\<forall>k. tid ` set (waiting get k) \<inter> tid ` set xs = {}) \<and>
     (\<forall>k k'. k \<noteq> k' \<longrightarrow> tid ` set (waiting get k) \<inter> tid ` set (waiting get k') = {}) \<and>
     (\<forall>t \<in> live_of xs get. get (tid t) \<noteq> None)"

definition live :: "'m join_ops \<Rightarrow> 'm scheduler \<Rightarrow> thread set" where
  "live jm s = live_of (placed s) (jm_get jm (join_map s))"

text \<open>Each live user thread has an active process of its own.\<close>

definition own_process :: "thread set \<Rightarrow> process_manager \<Rightarrow> bool" where
  "own_process ts pm \<longleftrightarrow>
     (\<forall>t \<in> ts. \<not> is_kernel_thread t \<longrightarrow> thread_process t \<in> pid ` set (active_processes pm)) \<and>
     (\<forall>t \<in> ts. \<forall>u \<in> ts. \<not> is_kernel_thread t \<longrightarrow> \<not> is_kernel_thread u \<longrightarrow>
        thread_process t = thread_process u \<longrightarrow> t = u)"

definition sched_inv :: "'m join_ops \<Rightarrow> nat \<times> 'm scheduler \<times> process_manager \<Rightarrow> bool" where
  "sched_inv jm = (\<lambda>(counter, s, pm).
     places_ok (placed s) (jm_get jm (join_map s)) \<and>
     (\<forall>k. jm_get jm (join_map s) k \<noteq> None \<longrightarrow> k < counter) \<and>
     current_thread s \<noteq> None \<and> pm_inv pm \<and> own_process (live jm s) pm)"

section \<open>Steps of a running system\<close>

text \<open>
  One call into the scheduler by the running thread or by the timer interrupt. Creating a thread and
  making it ready are one step; a user thread comes with a new process. Calls that never return or
  panic are not steps.
\<close>

inductive sched_step ::
  "'m join_ops \<Rightarrow> ('e, 'f) entry_ops \<Rightarrow> 'f \<Rightarrow> nat \<times> 'm scheduler \<times> process_manager \<Rightarrow>
     nat \<times> 'm scheduler \<times> process_manager \<Rightarrow> bool"
  for jm :: "'m join_ops" and ops :: "('e, 'f) entry_ops" and kernel_flags :: 'f where
  step_init: "sched_step jm ops kernel_flags (n, s, pm) (n, set_init s, pm)"
| step_kernel_thread: "next_thread_id n = (i, n') \<Longrightarrow> t = \<lparr>tid = i, is_kernel_thread = True, thread_process = p\<rparr> \<Longrightarrow>
     sched_step jm ops kernel_flags (n, s, pm) (n', ready jm t s, pm)"
| step_user_thread: "create_process ops kernel_flags pm m = Inr (p, pm', m') \<Longrightarrow> next_thread_id n = (i, n') \<Longrightarrow>
     t = \<lparr>tid = i, is_kernel_thread = False, thread_process = pid p\<rparr> \<Longrightarrow>
     sched_step jm ops kernel_flags (n, s, pm) (n', ready jm t s, pm')"
| step_tick: "switch_thread env s = Inr (sw, s') \<Longrightarrow> possible_tick env \<Longrightarrow> sched_step jm ops kernel_flags (n, s, pm) (n, s', pm)"
| step_sleep: "sleep now ms readings s = Some (Inr (sw, s')) \<Longrightarrow>
     sched_step jm ops kernel_flags (n, s, pm) (n, s', pm)"
| step_join: "join jm i readings s = Some (Inr (sw, s')) \<Longrightarrow>
     sched_step jm ops kernel_flags (n, s, pm) (n, s', pm)"
| step_thread_exit: "exit jm readings (s, pm) = Some (Inr (sw, s', pm')) \<Longrightarrow>
     sched_step jm ops kernel_flags (n, s, pm) (n, s', pm')"

text \<open>
  The states of a system that has been started with one kernel thread. \<open>stuck\<close> describes the states
  in which \<open>block\<close> waits forever.
\<close>

inductive running ::
  "'m join_ops \<Rightarrow> ('e, 'f) entry_ops \<Rightarrow> 'f \<Rightarrow> nat \<times> 'm scheduler \<times> process_manager \<Rightarrow> bool"
  for jm :: "'m join_ops" and ops :: "('e, 'f) entry_ops" and kernel_flags :: 'f where
  run_boot: "is_kernel_thread t \<Longrightarrow> tid t < n \<Longrightarrow> pm_inv pm \<Longrightarrow>
     start (ready jm t (scheduler_new jm)) = Inr (first, s) \<Longrightarrow> running jm ops kernel_flags (n, s, pm)"
| run_step: "running jm ops kernel_flags st \<Longrightarrow> sched_step jm ops kernel_flags st st' \<Longrightarrow>
     running jm ops kernel_flags st'"

definition stuck :: "(nat \<Rightarrow> nat option) \<Rightarrow> nat \<Rightarrow> 'm scheduler \<Rightarrow> bool" where
  "stuck readings i s \<longleftrightarrow> ready_queue s = [] \<and>
     (\<forall>j \<ge> i. \<forall>time. readings j = Some time \<longrightarrow> (\<forall>(t, wakeup) \<in> set (sleep_list s). time < wakeup))"

text \<open>The thread that a tick takes out of the ready queue and forgets, because it finds the stacks or the task state segment locked.\<close>

definition forgotten :: "tick \<Rightarrow> 'm scheduler \<Rightarrow> thread set" where
  "forgotten env s =
     (let q = ready_queue (if sleep_list_free env then check_sleep_list (timer_reading env) s else s) in
      if state_free env \<and> initialized s \<and> (stacks_locked env \<or> tss_locked env) \<and> q \<noteq> [] then {last q} else {})"

definition undisturbed :: "tick \<Rightarrow> bool" where
  "undisturbed env \<longleftrightarrow> state_free env \<and> \<not> stacks_locked env \<and> \<not> tss_locked env"

fun run_ticks :: "tick list \<Rightarrow> 'm scheduler \<Rightarrow> 'm scheduler result" where
  "run_ticks [] s = Inr s"
| "run_ticks (env # envs) s = and_then (switch_thread env s) (\<lambda>(sw, s'). run_ticks envs s')"

text \<open>Two kernel threads and a state in which the first runs and the second is ready.\<close>

definition example_thread :: "nat \<Rightarrow> thread" where
  "example_thread i = \<lparr>tid = i, is_kernel_thread = True, thread_process = 1\<rparr>"

definition example_state :: "(nat \<rightharpoonup> thread list) scheduler" where
  "example_state = \<lparr>initialized = True, current_thread = Some (example_thread 1), ready_queue = [example_thread 2],
     sleep_list = [], join_map = [1 \<mapsto> [], 2 \<mapsto> []]\<rparr>"

definition example_tick :: tick where
  "example_tick = \<lparr>state_free = True, sleep_list_free = True, timer_reading = None, stacks_locked = False, tss_locked = False\<rparr>"

section \<open>The join map\<close>

locale join_map_laws =
  fixes jm :: "'m join_ops"
  assumes get_empty: "jm_get jm (jm_empty jm) k = None"
    and get_insert: "jm_get jm (jm_insert jm k v m) k' = (if k' = k then Some v else jm_get jm m k')"
    and get_update: "jm_get jm m k \<noteq> None \<Longrightarrow>
      jm_get jm (jm_update jm k v m) k' = (if k' = k then Some v else jm_get jm m k')"
    and get_remove: "jm_get jm (jm_remove jm k m) k' = (if k' = k then None else jm_get jm m k')"

definition map_join_ops :: "(nat \<rightharpoonup> thread list) join_ops" where
  "map_join_ops = \<lparr>jm_empty = Map.empty, jm_get = (\<lambda>m. m), jm_insert = (\<lambda>k v m. m(k \<mapsto> v)),
     jm_update = (\<lambda>k v m. m(k \<mapsto> v)), jm_remove = (\<lambda>k m. m(k := None))\<rparr>"

interpretation map_join: join_map_laws map_join_ops
  by unfold_locales (auto simp: map_join_ops_def)

section \<open>Queue lemmas\<close>

lemma pop_back_simps [simp]: "pop_back [] = (None, [])" "pop_back (q @ [t]) = (Some t, q)"
  by (simp_all add: pop_back_def)

lemma pop_back_Some: "pop_back q = (Some t, q') \<longleftrightarrow> q = q' @ [t]"
  by (cases q rule: rev_cases) auto

lemma pop_back_None: "pop_back q = (None, q') \<longleftrightarrow> q = [] \<and> q' = []"
  by (cases q rule: rev_cases) auto

lemma retain_sleeping_spec:
  "retain_sleeping time es q =
     (filter (\<lambda>(t, w). \<not> time \<ge> w) es, rev (map fst (filter (\<lambda>(t, w). time \<ge> w) es)) @ q)"
  by (induction time es q rule: retain_sleeping.induct) (auto simp: push_front_def)

lemma fold_push_front: "fold push_front l q = rev l @ q"
  by (induction l arbitrary: q) (auto simp: push_front_def)

lemma check_sleep_list_simps [simp]:
  "current_thread (check_sleep_list r s) = current_thread s" "join_map (check_sleep_list r s) = join_map s"
  "initialized (check_sleep_list r s) = initialized s"
  by (auto simp: check_sleep_list_def split: option.splits prod.splits)

lemma check_sleep_list_pool: "mset (pool (check_sleep_list r s)) = mset (pool s)"
proof (cases r)
  case (Some time)
  have "mset (map fst (filter (\<lambda>(t, w). time \<ge> w) es)) + mset (map fst (filter (\<lambda>(t, w). \<not> time \<ge> w) es)) = mset (map fst es)"
    for es :: "(thread \<times> nat) list"
    by (induction es) auto
  then show ?thesis
    by (simp add: Some check_sleep_list_def retain_sleeping_spec pool_def ac_simps)
qed (simp add: check_sleep_list_def)

lemma wait_ready_pool:
  "wait_ready readings i s = Some r \<Longrightarrow>
     mset (fst r # pool (snd r)) = mset (pool s) \<and> current_thread (snd r) = current_thread s \<and>
     join_map (snd r) = join_map s \<and> initialized (snd r) = initialized s"
proof (rule wait_ready.raw_induct[where P = "\<lambda>readings i s r.
     mset (fst r # pool (snd r)) = mset (pool s) \<and> current_thread (snd r) = current_thread s \<and>
     join_map (snd r) = join_map s \<and> initialized (snd r) = initialized s"])
  fix f :: "(nat \<Rightarrow> nat option) \<Rightarrow> nat \<Rightarrow> 'a scheduler \<Rightarrow> (thread \<times> 'a scheduler) option"
    and readings i and s :: "'a scheduler" and r
  assume IH: "\<And>readings i s r. f readings i s = Some r \<Longrightarrow>
      mset (fst r # pool (snd r)) = mset (pool s) \<and> current_thread (snd r) = current_thread s \<and>
      join_map (snd r) = join_map s \<and> initialized (snd r) = initialized s"
    and step: "(case pop_back (ready_queue s) of
        (None, x) \<Rightarrow> f readings (Suc i) (check_sleep_list (readings i) s)
      | (Some nxt, q) \<Rightarrow> Some (nxt, s\<lparr>ready_queue := q\<rparr>)) = Some r"
  show "mset (fst r # pool (snd r)) = mset (pool s) \<and> current_thread (snd r) = current_thread s \<and>
      join_map (snd r) = join_map s \<and> initialized (snd r) = initialized s"
  proof (cases "ready_queue s" rule: rev_cases)
    case Nil
    with step have "f readings (Suc i) (check_sleep_list (readings i) s) = Some r" by simp
    from IH[OF this] show ?thesis by (simp only: check_sleep_list_pool check_sleep_list_simps simp_thms)
  next
    case (snoc q t)
    with step have "r = (t, s\<lparr>ready_queue := q\<rparr>)" by simp
    then show ?thesis by (simp add: pool_def snoc)
  qed
qed

section \<open>Placement lemmas\<close>

lemma places_ok_mset: "mset xs = mset ys \<Longrightarrow> places_ok xs get = places_ok ys get"
  using distinct_mset_map[of xs ys tid] mset_eq_setD[of xs ys] by (simp add: places_ok_def live_of_def)

lemma live_of_mset: "mset xs = mset ys \<Longrightarrow> live_of xs get = live_of ys get"
  using mset_eq_setD[of xs ys] by (simp add: live_of_def)

lemma places_ok_distinct: "places_ok xs get \<Longrightarrow> distinct (map tid xs)" "places_ok xs get \<Longrightarrow> distinct (map tid (waiting get k))"
  by (simp_all add: places_ok_def)

lemma places_ok_disjoint:
  "places_ok xs get \<Longrightarrow> t \<in> set (waiting get k) \<Longrightarrow> u \<in> set xs \<Longrightarrow> tid t \<noteq> tid u"
  "places_ok xs get \<Longrightarrow> t \<in> set (waiting get k) \<Longrightarrow> u \<in> set (waiting get k') \<Longrightarrow> k \<noteq> k' \<Longrightarrow> tid t \<noteq> tid u"
  unfolding places_ok_def by blast+

lemma places_ok_entry: "places_ok xs get \<Longrightarrow> t \<in> live_of xs get \<Longrightarrow> get (tid t) \<noteq> None"
  by (simp add: places_ok_def)

lemma places_okI:
  assumes "distinct (map tid xs)" "\<And>k. distinct (map tid (waiting get k))"
    "\<And>k t u. t \<in> set (waiting get k) \<Longrightarrow> u \<in> set xs \<Longrightarrow> tid t \<noteq> tid u"
    "\<And>k k' t u. k \<noteq> k' \<Longrightarrow> t \<in> set (waiting get k) \<Longrightarrow> u \<in> set (waiting get k') \<Longrightarrow> tid t \<noteq> tid u"
    "\<And>t. t \<in> live_of xs get \<Longrightarrow> get (tid t) \<noteq> None"
  shows "places_ok xs get"
  using assms unfolding places_ok_def by blast

lemma waiting_upd [simp]: "waiting (get(k := v)) j = (if j = k then (case v of None \<Rightarrow> [] | Some l \<Rightarrow> l) else waiting get j)"
  by (simp add: waiting_def)

lemma waiting_Some: "get k = Some l \<Longrightarrow> waiting get k = l"
  by (simp add: waiting_def)

lemma waiting_None: "get k = None \<Longrightarrow> waiting get k = []"
  by (simp add: waiting_def)

lemma in_live_of: "t \<in> live_of xs get \<longleftrightarrow> t \<in> set xs \<or> (\<exists>k. t \<in> set (waiting get k))"
  by (auto simp: live_of_def)

lemma live_of_Cons: "live_of (x # xs) get = insert x (live_of xs get)"
  by (auto simp: live_of_def)

lemma live_of_add: "get k = None \<Longrightarrow> live_of xs (get(k \<mapsto> [])) = live_of xs get"
proof -
  assume "get k = None"
  then have "waiting (get(k \<mapsto> [])) = waiting get" by (auto simp: waiting_None fun_eq_iff)
  then show ?thesis by (simp only: live_of_def)
qed

lemma live_of_join: "get k = Some l \<Longrightarrow> live_of xs (get(k \<mapsto> l @ [c])) = insert c (live_of xs get)"
  by (auto simp: in_live_of waiting_Some split: if_splits) (metis waiting_Some)+

lemma live_of_exit:
  assumes ok: "places_ok (c # xs) get" and l: "get (tid c) = Some l"
  shows "live_of (rev l @ xs) (get(tid c := None)) = live_of (c # xs) get - {c}"
proof -
  have "c \<notin> set (waiting get k)" for k using places_ok_disjoint(1)[OF ok, of c k c] by auto
  moreover have "c \<notin> set xs" using places_ok_distinct(1)[OF ok] by auto
  ultimately show ?thesis using waiting_Some[of get, OF l]
    by (auto simp: in_live_of split: if_splits) (metis)+
qed

lemma places_ok_tl: "places_ok (x # xs) get \<Longrightarrow> places_ok xs get"
  by (auto simp: places_ok_def live_of_Cons)

lemma places_ok_head:
  assumes ok: "places_ok (c # xs) get" and u: "u \<in> set xs \<or> u \<in> set (waiting get j)"
  shows "tid u \<noteq> tid c"
proof -
  have "tid c \<notin> tid ` set xs" using places_ok_distinct(1)[OF ok] by simp
  then show ?thesis using u places_ok_disjoint(1)[OF ok, of u j c] by (metis image_eqI list.set_intros(1))
qed

lemma live_of_drop:
  assumes "places_ok (lost @ xs) get"
  shows "live_of xs get = live_of (lost @ xs) get - set lost \<and> set lost \<subseteq> live_of (lost @ xs) get"
  using assms
proof (induction lost)
  case (Cons t lost)
  have "t \<notin> live_of (lost @ xs) get" using places_ok_head[of t "lost @ xs"] Cons.prems by (fastforce simp: in_live_of)
  with Cons.IH places_ok_tl[of t "lost @ xs"] Cons.prems show ?case by (auto simp: live_of_Cons)
qed simp

lemma places_ok_add:
  assumes ok: "places_ok xs get" and fresh: "get (tid t) = None"
  shows "places_ok (t # xs) (get(tid t \<mapsto> []))"
proof (rule places_okI)
  have new: "u \<in> live_of xs get \<Longrightarrow> tid u \<noteq> tid t" for u using places_ok_entry[OF ok] fresh by metis
  show "distinct (map tid (t # xs))" using places_ok_distinct(1)[OF ok] new by (fastforce simp: in_live_of)
  show "tid u \<noteq> tid v" if "u \<in> set (waiting (get(tid t \<mapsto> [])) k)" "v \<in> set (t # xs)" for k u v
    using that places_ok_disjoint(1)[OF ok] new[of u] by (auto simp: in_live_of split: if_splits)
  show "(get(tid t \<mapsto> [])) (tid u) \<noteq> None" if "u \<in> live_of (t # xs) (get(tid t \<mapsto> []))" for u
    using that places_ok_entry[OF ok] by (auto simp: live_of_Cons live_of_add fresh)
qed (use places_ok_distinct(2)[OF ok] places_ok_disjoint(2)[OF ok] in \<open>auto split: if_splits\<close>)

lemma places_ok_join:
  assumes ok: "places_ok (c # xs) get" and l: "get k = Some l"
  shows "places_ok xs (get(k \<mapsto> l @ [c]))"
proof (rule places_okI)
  note w = waiting_Some[of get, OF l]
  note c = places_ok_head[OF ok]
  show "distinct (map tid xs)" using places_ok_distinct(1)[OF ok] by simp
  show "distinct (map tid (waiting (get(k \<mapsto> l @ [c])) j))" for j
    using places_ok_distinct(2)[OF ok, of j] c[of _ k] by (auto simp: w) blast
  show "tid t \<noteq> tid u" if "t \<in> set (waiting (get(k \<mapsto> l @ [c])) j)" "u \<in> set xs" for j t u
    using that places_ok_disjoint(1)[OF ok, of t j u] c[of u] by (auto simp: w split: if_splits)
  show "tid t \<noteq> tid u" if "i \<noteq> j" "t \<in> set (waiting (get(k \<mapsto> l @ [c])) i)" "u \<in> set (waiting (get(k \<mapsto> l @ [c])) j)" for i j t u
    using that places_ok_disjoint(2)[OF ok, of t i u j] c[of t i] c[of u j] by (auto simp: w split: if_splits)
  show "(get(k \<mapsto> l @ [c])) (tid t) \<noteq> None" if "t \<in> live_of xs (get(k \<mapsto> l @ [c]))" for t
    using that places_ok_entry[OF ok, of t] by (auto simp: live_of_join[of get, OF l] live_of_Cons)
qed

lemma places_ok_exit:
  assumes ok: "places_ok (c # xs) get" and l: "get (tid c) = Some l"
  shows "places_ok (rev l @ xs) (get(tid c := None))"
proof (rule places_okI)
  note w = waiting_Some[of get, OF l]
  note c = places_ok_head[OF ok]
  have "tid t \<noteq> tid u" if "t \<in> set l" "u \<in> set xs" for t u
    using places_ok_disjoint(1)[OF ok, of t "tid c" u] that by (simp add: w)
  then show "distinct (map tid (rev l @ xs))"
    using places_ok_distinct(1)[OF ok] places_ok_distinct(2)[OF ok, of "tid c"]
    by (auto simp: w rev_map simp flip: rev_map)
  show "distinct (map tid (waiting (get(tid c := None)) j))" for j
    using places_ok_distinct(2)[OF ok, of j] by auto
  show "tid t \<noteq> tid u" if "t \<in> set (waiting (get(tid c := None)) j)" "u \<in> set (rev l @ xs)" for j t u
    using that places_ok_disjoint(1)[OF ok, of t j u] places_ok_disjoint(2)[OF ok, of t j u "tid c"]
    by (auto simp: w split: if_splits)
  show "tid t \<noteq> tid u" if "i \<noteq> j" "t \<in> set (waiting (get(tid c := None)) i)" "u \<in> set (waiting (get(tid c := None)) j)" for i j t u
    using that places_ok_disjoint(2)[OF ok, of t i u j] by (auto split: if_splits)
  show "(get(tid c := None)) (tid t) \<noteq> None" if "t \<in> live_of (rev l @ xs) (get(tid c := None))" for t
    using that places_ok_entry[OF ok, of t] c[of t] by (auto simp: live_of_exit[of c xs get, OF ok l] in_live_of)
qed

lemma live_tid_inj:
  assumes ok: "places_ok xs get" and t: "t \<in> live_of xs get" "u \<in> live_of xs get" and e: "tid t = tid u"
  shows "t = u"
proof -
  have inj: "distinct (map tid l) \<Longrightarrow> a \<in> set l \<Longrightarrow> b \<in> set l \<Longrightarrow> tid a = tid b \<Longrightarrow> a = b" for l a b
    by (auto simp: distinct_map dest: inj_onD)
  consider "t \<in> set xs" "u \<in> set xs" | k where "t \<in> set (waiting get k)" "u \<in> set (waiting get k)"
    using t e places_ok_disjoint[OF ok] unfolding in_live_of by metis
  then show ?thesis using inj[OF places_ok_distinct(1)[OF ok]] inj[OF places_ok_distinct(2)[OF ok]] e by cases blast+
qed

section \<open>The operations\<close>

lemma current_list_Some: "current_thread s = Some c \<Longrightarrow> placed s = c # pool s"
  by (simp add: placed_def current_list_def)

lemma block_result:
  assumes blk: "block readings s = Some r" and c: "current_thread s = Some c"
  obtains nxt s' where "r = Inr (if tid c = tid nxt then Stay else Switch c nxt, s')"
    "mset (nxt # pool s') = mset (pool s)" "join_map s' = join_map s" "initialized s' = initialized s"
    "current_thread s' = Some (if tid c = tid nxt then c else nxt)"
proof -
  from blk obtain nxt s1 where w: "wait_ready readings 0 s = Some (nxt, s1)"
    and r: "r = and_then (current s1) (\<lambda>c. if tid c = tid nxt then Inr (Stay, s1)
       else Inr (Switch c nxt, s1\<lparr>current_thread := Some nxt\<rparr>))"
    by (auto simp: block_def)
  note p = wait_ready_pool[OF w, simplified]
  show ?thesis
  proof (cases "tid c = tid nxt")
    case True
    then show ?thesis using that[of nxt s1] p r c by (simp add: current_def)
  next
    case False
    then show ?thesis using that[of nxt "s1\<lparr>current_thread := Some nxt\<rparr>"] p r c
      by (simp add: current_def pool_def)
  qed
qed

lemma sleep_placed:
  assumes op: "sleep now ms readings s = Some (Inr (sw, s'))" and c: "current_thread s = Some c"
    and d: "distinct (map tid (placed s))"
  shows "mset (placed s') = mset (placed s) \<and> join_map s' = join_map s \<and> current_thread s' \<noteq> None"
proof -
  let ?s = "s\<lparr>sleep_list := sleep_list s @ [(c, now + ms)]\<rparr>"
  have "block readings ?s = Some (Inr (sw, s'))"
    using op c by (auto simp: sleep_def current_def usize_add_def split: if_splits)
  moreover have "current_thread ?s = Some c" using c by simp
  ultimately obtain nxt where b: "mset (nxt # pool s') = mset (pool ?s)" "join_map s' = join_map s"
    "current_thread s' = Some (if tid c = tid nxt then c else nxt)"
    by (rule block_result) auto
  have m: "mset (nxt # pool s') = mset (placed s)" using b(1) by (simp add: pool_def current_list_Some[OF c])
  then have "nxt \<in> set (placed s)" by (metis list.set_intros(1) mset_eq_setD)
  moreover have "c \<in> set (placed s)" by (simp add: current_list_Some[OF c])
  ultimately have "tid c = tid nxt \<Longrightarrow> c = nxt" using d by (auto simp: distinct_map dest: inj_onD)
  then have "current_thread s' = Some nxt" using b(3) by (auto split: if_splits)
  then show ?thesis using m b(2) by (simp add: current_list_Some)
qed

lemma switch_thread_placed:
  assumes op: "switch_thread env s = Inr (sw, s')" and c: "current_thread s = Some c"
  shows "\<exists>lost. mset (lost @ placed s') = mset (placed s) \<and> join_map s' = join_map s \<and> current_thread s' \<noteq> None \<and>
     set lost = forgotten env s"
proof (cases "state_free env \<and> initialized s")
  case False
  then have "s' = s" using op by (auto simp: switch_thread_def split: if_splits)
  then show ?thesis using c False by (intro exI[of _ "[]"]) (auto simp: forgotten_def Let_def)
next
  case True
  define s1 where "s1 = (if sleep_list_free env then check_sleep_list (timer_reading env) s else s)"
  have s1: "mset (pool s1) = mset (pool s)" "current_thread s1 = Some c" "join_map s1 = join_map s"
    using c by (simp_all add: s1_def check_sleep_list_pool)
  have p: "mset (placed s1) = mset (placed s)" by (simp add: current_list_Some[OF c] current_list_Some[OF s1(2)] s1)
  show ?thesis
  proof (cases "ready_queue s1" rule: rev_cases)
    case Nil
    then have "s' = s1" using op True s1(2) by (simp add: switch_thread_def current_def s1_def[symmetric])
    then show ?thesis using p s1 Nil by (intro exI[of _ "[]"]) (simp add: forgotten_def s1_def[symmetric])
  next
    case (snoc q t)
    then have "s' = (if stacks_locked env \<or> tss_locked env then s1\<lparr>ready_queue := q\<rparr>
        else s1\<lparr>ready_queue := c # q, current_thread := Some t\<rparr>)"
      using op True s1(2) by (auto simp: switch_thread_def current_def s1_def[symmetric] push_front_def split: if_splits)
    then show ?thesis using p s1 snoc True
      by (intro exI[of _ "if stacks_locked env \<or> tss_locked env then [t] else []"])
         (auto simp: current_list_Some pool_def placed_def current_list_def forgotten_def s1_def[symmetric])
  qed
qed

lemma process_manager_exit_ok: "i \<in> pid ` set (active_processes pm) \<Longrightarrow> \<exists>pm'. process_manager_exit i pm = Inr pm'"
  by (cases "find_index (\<lambda>p. pid p = i) (active_processes pm)")
     (auto simp: process_manager_exit_def position_None Let_def)

lemma process_manager_exit_keeps:
  assumes "process_manager_exit i pm = Inr pm'" "p \<in> set (active_processes pm)" "pid p \<noteq> i"
  shows "p \<in> set (active_processes pm')"
  using assms(1)
proof (rule pm_exit_result)
  fix j assume j: "j < length (active_processes pm)" "pid (active_processes pm ! j) = i"
    "pm' = pm\<lparr>active_processes := swap_remove j (active_processes pm),
             exited_processes := exited_processes pm @ [active_processes pm ! j]\<rparr>"
  then have "insert (active_processes pm ! j) (set (active_processes pm')) = set (active_processes pm)"
    using mset_eq_setD[OF swap_remove_mset[OF j(1)]] by simp
  then show ?thesis using assms(2,3) j(2) by (metis insertE)
qed

lemma own_process_mono: "own_process ts pm \<Longrightarrow> us \<subseteq> ts \<Longrightarrow> own_process us pm"
  unfolding own_process_def by blast

lemma own_process_exit:
  assumes own: "own_process ts pm" and c: "c \<in> ts" "\<not> is_kernel_thread c"
    and ex: "process_manager_exit (thread_process c) pm = Inr pm'"
  shows "own_process (ts - {c}) pm'"
proof -
  have "thread_process t \<in> pid ` set (active_processes pm')" if t: "t \<in> ts" "t \<noteq> c" "\<not> is_kernel_thread t" for t
  proof -
    have "thread_process t \<noteq> thread_process c" using own t c unfolding own_process_def by blast
    moreover obtain p where "p \<in> set (active_processes pm)" "pid p = thread_process t"
      using own t unfolding own_process_def by (metis imageE)
    ultimately show ?thesis using process_manager_exit_keeps[OF ex, of p] by force
  qed
  then show ?thesis using own unfolding own_process_def by blast
qed

lemma own_process_create:
  assumes own: "own_process ts pm" and inv: "pm_inv pm" and cr: "create_process ops kf pm m = Inr (p, pm', m')"
    and t: "thread_process t = pid p"
  shows "own_process (insert t ts) pm'"
proof -
  from create_process_result[OF cr] have p: "pid p = process_id_counter pm"
    "set (active_processes pm') = insert p (set (active_processes pm))" by auto
  have "process_id_counter pm \<notin> pid ` set (active_processes pm)" using inv by (auto simp: pm_inv_def list_all_iff)
  then have new: "u \<in> ts \<Longrightarrow> \<not> is_kernel_thread u \<Longrightarrow> thread_process u \<noteq> thread_process t" for u
    using own t p(1) unfolding own_process_def by metis
  have "thread_process u \<in> pid ` set (active_processes pm')" if "u \<in> insert t ts" "\<not> is_kernel_thread u" for u
    using that own t p(2) unfolding own_process_def by auto
  moreover have "u = v" if "u \<in> insert t ts" "v \<in> insert t ts" "\<not> is_kernel_thread u" "\<not> is_kernel_thread v"
      "thread_process u = thread_process v" for u v
    using that own new[of u] new[of v] unfolding own_process_def by (metis insertE)
  ultimately show ?thesis unfolding own_process_def by blast
qed

lemma own_process_kernel:
  "own_process ts pm \<Longrightarrow> is_kernel_thread t \<Longrightarrow> own_process (insert t ts) pm"
  unfolding own_process_def by blast

context join_map_laws
begin

abbreviation get :: "'m scheduler \<Rightarrow> nat \<Rightarrow> thread list option" where
  "get s \<equiv> jm_get jm (join_map s)"

lemma get_ready: "get (ready jm t s) = (get s)(tid t \<mapsto> [])"
  by (auto simp: ready_def get_insert)

lemma join_placed:
  assumes op: "join jm i readings s = Some (Inr (sw, s'))" and c: "current_thread s = Some c"
    and ok: "places_ok (placed s) (get s)"
  obtains l where "get s i = Some l" "mset (placed s') = mset (pool s)" "get s' = (get s)(i \<mapsto> l @ [c])"
    "current_thread s' \<noteq> None"
proof -
  obtain l where l: "get s i = Some l" using op c by (cases "get s i") (auto simp: join_def current_def)
  let ?s = "s\<lparr>join_map := jm_update jm i (l @ [c]) (join_map s)\<rparr>"
  have "block readings ?s = Some (Inr (sw, s'))" using op c l by (simp add: join_def current_def)
  moreover have "current_thread ?s = Some c" using c by simp
  ultimately obtain nxt where b: "mset (nxt # pool s') = mset (pool ?s)" "join_map s' = join_map ?s"
    "current_thread s' = Some (if tid c = tid nxt then c else nxt)"
    by (rule block_result) auto
  have m: "mset (nxt # pool s') = mset (pool s)" using b(1) by (simp add: pool_def)
  then have "nxt \<in> set (pool s)" by (metis list.set_intros(1) mset_eq_setD)
  then have "tid nxt \<noteq> tid c" using places_ok_head[of c "pool s" "get s" nxt] ok by (simp add: current_list_Some[OF c])
  then have "current_thread s' = Some nxt" using b(3) by (auto split: if_splits)
  moreover have "get s' = (get s)(i \<mapsto> l @ [c])" using b(2) l by (auto simp: get_update)
  ultimately show ?thesis using that[of l] l m by (simp add: current_list_Some)
qed

lemma exit_placed:
  assumes op: "exit jm readings (s, pm) = Some r" and c: "current_thread s = Some c"
    and ok: "places_ok (placed s) (get s)"
    and own: "\<not> is_kernel_thread c \<longrightarrow> thread_process c \<in> pid ` set (active_processes pm)"
  obtains l sw s' pm' where "r = Inr (sw, s', pm')" "get s (tid c) = Some l"
    "mset (placed s') = mset (rev l @ pool s)" "get s' = (get s)(tid c := None)" "current_thread s' \<noteq> None"
    "if is_kernel_thread c then pm' = pm else process_manager_exit (thread_process c) pm = Inr pm'"
proof -
  have "c \<in> live_of (placed s) (get s)" by (simp add: current_list_Some[OF c] in_live_of)
  then obtain l where l: "get s (tid c) = Some l" using places_ok_entry[OF ok] by auto
  obtain pm' where pm': "(if \<not> is_kernel_thread c then process_manager_exit (thread_process c) pm else Inr pm) = Inr pm'"
    using own process_manager_exit_ok[of "thread_process c" pm] by (cases "is_kernel_thread c") auto
  let ?s = "s\<lparr>ready_queue := rev l @ ready_queue s, join_map := jm_remove jm (tid c) (join_map s)\<rparr>"
  have "exit jm readings (s, pm) = map_option (\<lambda>r. and_then r (\<lambda>(sw, s2). Inr (sw, s2, pm'))) (block readings ?s)"
    using c l pm' by (simp add: exit_def current_def fold_push_front Let_def)
  then obtain r' where r': "block readings ?s = Some r'" and r: "r = and_then r' (\<lambda>(sw, s2). Inr (sw, s2, pm'))"
    using op by (cases "block readings ?s") simp_all
  have "current_thread ?s = Some c" using c by simp
  with r' obtain nxt s' where b: "r' = Inr (if tid c = tid nxt then Stay else Switch c nxt, s')"
    "mset (nxt # pool s') = mset (pool ?s)" "join_map s' = join_map ?s"
    "current_thread s' = Some (if tid c = tid nxt then c else nxt)"
    by (rule block_result) auto
  have m: "mset (nxt # pool s') = mset (rev l @ pool s)" using b(2) by (simp add: pool_def)
  then have "nxt \<in> set (rev l @ pool s)" by (metis list.set_intros(1) mset_eq_setD)
  then have "tid nxt \<noteq> tid c"
    using places_ok_head[of c "pool s" "get s" nxt "tid c"] ok by (auto simp: current_list_Some[OF c] waiting_Some[of "get s", OF l])
  then have "current_thread s' = Some nxt" using b(4) by (auto split: if_splits)
  moreover have "get s' = (get s)(tid c := None)" using b(3) by (auto simp: get_remove)
  ultimately show ?thesis
    using that[of _ s' pm' l] r b(1) l m pm' by (auto simp: current_list_Some split: if_splits)
qed

lemma inv_ready:
  assumes ok: "places_ok (placed s) (get s)" and fresh: "get s (tid t) = None"
  shows "places_ok (placed (ready jm t s)) (get (ready jm t s))" "live jm (ready jm t s) = insert t (live jm s)"
proof -
  have m: "mset (placed (ready jm t s)) = mset (t # placed s)"
    by (simp add: placed_def current_list_def pool_def ready_def push_front_def)
  show "places_ok (placed (ready jm t s)) (get (ready jm t s))"
    using places_ok_add[OF ok fresh] by (simp only: places_ok_mset[OF m] get_ready)
  show "live jm (ready jm t s) = insert t (live jm s)"
    by (simp only: live_def live_of_mset[OF m] get_ready live_of_Cons live_of_add[of "get s", OF fresh])
qed

lemma sched_step_inv:
  assumes "sched_step jm ops kf st st'" "sched_inv jm st"
  shows "sched_inv jm st'"
  using assms
proof (induction rule: sched_step.induct)
  case (step_init n s pm)
  then show ?case by (simp add: sched_inv_def set_init_def placed_def current_list_def pool_def live_def)
next
  case (step_kernel_thread n i n' t p s pm)
  then have "get s (tid t) = None" by (auto simp: sched_inv_def next_thread_id_def)
  from inv_ready[OF _ this] step_kernel_thread show ?case
    by (auto simp: sched_inv_def get_ready next_thread_id_def less_Suc_eq own_process_kernel split: if_splits)
       (simp_all add: ready_def)
next
  case (step_user_thread pm m p pm' m' n i n' t s)
  then have "get s (tid t) = None" by (auto simp: sched_inv_def next_thread_id_def)
  from inv_ready[OF _ this] step_user_thread own_process_create[OF _ _ step_user_thread(1), of "live jm s" t]
    pm_inv_create[OF _ step_user_thread(1)] show ?case
    by (auto simp: sched_inv_def get_ready next_thread_id_def less_Suc_eq split: if_splits) (simp_all add: ready_def)
next
  case (step_tick env s sw s' n pm)
  from step_tick(3) obtain c where c: "current_thread s = Some c" by (auto simp: sched_inv_def)
  from switch_thread_placed[OF step_tick(1) c] obtain lost where
    l: "mset (lost @ placed s') = mset (placed s)" "join_map s' = join_map s" "current_thread s' \<noteq> None" by blast
  have ok: "places_ok (lost @ placed s') (get s')"
    using step_tick(3) l(2) by (simp add: sched_inv_def places_ok_mset[OF l(1)])
  then have "places_ok (placed s') (get s')" by (induction lost) (auto dest: places_ok_tl)
  moreover have "live jm s' \<subseteq> live jm s"
    using mset_eq_setD[OF l(1)] l(2) by (auto simp: live_def live_of_def)
  ultimately show ?case using step_tick(3) l(2,3) own_process_mono by (auto simp: sched_inv_def)
next
  case (step_sleep now ms readings s sw s' n pm)
  from step_sleep(2) obtain c where c: "current_thread s = Some c" by (auto simp: sched_inv_def)
  have "distinct (map tid (placed s))" using step_sleep(2) places_ok_distinct(1) by (auto simp: sched_inv_def)
  from sleep_placed[OF step_sleep(1) c this] have
    l: "mset (placed s') = mset (placed s)" "join_map s' = join_map s" "current_thread s' \<noteq> None" by blast+
  then show ?case using step_sleep(2)
    by (simp add: sched_inv_def places_ok_mset[OF l(1)] live_def live_of_mset[OF l(1)])
next
  case (step_join i readings s sw s' n pm)
  from step_join(2) obtain c where c: "current_thread s = Some c" by (auto simp: sched_inv_def)
  have ok: "places_ok (placed s) (get s)" using step_join(2) by (simp add: sched_inv_def)
  from join_placed[OF step_join(1) c this] obtain l where
    l: "get s i = Some l" "mset (placed s') = mset (pool s)" "get s' = (get s)(i \<mapsto> l @ [c])" "current_thread s' \<noteq> None" .
  have "live jm s' = live jm s"
    by (simp only: live_def live_of_mset[OF l(2)] l(3) live_of_join[of "get s", OF l(1)] current_list_Some[OF c] live_of_Cons)
  moreover have "places_ok (placed s') (get s')"
    using places_ok_join[of c "pool s" "get s", OF _ l(1)] ok by (simp add: places_ok_mset[OF l(2)] l(3) current_list_Some[OF c])
  ultimately show ?case using step_join(2) l by (auto simp: sched_inv_def)
next
  case (step_thread_exit readings s pm sw s' pm' n)
  from step_thread_exit(2) obtain c where c: "current_thread s = Some c" by (auto simp: sched_inv_def)
  have ok: "places_ok (placed s) (get s)" and own: "own_process (live jm s) pm" and inv: "pm_inv pm"
    using step_thread_exit(2) by (simp_all add: sched_inv_def)
  have cl: "c \<in> live jm s" by (simp add: live_def current_list_Some[OF c] in_live_of)
  then have "\<not> is_kernel_thread c \<longrightarrow> thread_process c \<in> pid ` set (active_processes pm)"
    using own by (simp add: own_process_def)
  from exit_placed[OF step_thread_exit(1) c ok this] obtain l sw2 s2 pm2 where
    e: "Inr (sw, s', pm') = (Inr (sw2, s2, pm2) :: (context_switch \<times> 'm scheduler \<times> process_manager) result)" and
    l2: "get s (tid c) = Some l" "mset (placed s2) = mset (rev l @ pool s)" "get s2 = (get s)(tid c := None)"
      "current_thread s2 \<noteq> None"
      "if is_kernel_thread c then pm2 = pm else process_manager_exit (thread_process c) pm = Inr pm2" .
  from e l2 have
    l: "get s (tid c) = Some l" "mset (placed s') = mset (rev l @ pool s)" "get s' = (get s)(tid c := None)"
      "current_thread s' \<noteq> None"
      "if is_kernel_thread c then pm' = pm else process_manager_exit (thread_process c) pm = Inr pm'"
    by simp_all
  have "live jm s' = live jm s - {c}"
    using live_of_exit[of c "pool s" "get s", OF _ l(1)] ok
    by (simp add: live_def live_of_mset[OF l(2)] l(3) current_list_Some[OF c])
  moreover have "places_ok (placed s') (get s')"
    using places_ok_exit[of c "pool s" "get s", OF _ l(1)] ok by (simp add: places_ok_mset[OF l(2)] l(3) current_list_Some[OF c])
  moreover have "own_process (live jm s - {c}) pm'" "pm_inv pm'"
    using own_process_exit[OF own cl _] l(5) own_process_mono[OF own] inv pm_inv_exit[OF inv] by (auto split: if_splits)
  ultimately show ?case using step_thread_exit(2) l by (auto simp: sched_inv_def)
qed

lemma running_inv: "running jm ops kf st \<Longrightarrow> sched_inv jm st"
proof (induction rule: running.induct)
  case (run_boot t n pm first s)
  let ?s = "scheduler_new jm"
  have s: "s = (ready jm t ?s)\<lparr>current_thread := Some t, ready_queue := []\<rparr>"
    using run_boot(4) by (auto simp: start_def ready_def scheduler_new_def push_front_def pop_back_def)
  have g: "get s = [tid t \<mapsto> []]" "get ?s = Map.empty"
    by (auto simp: s ready_def scheduler_new_def get_insert get_empty)
  have "places_ok [] (get ?s)" by (simp add: g places_ok_def waiting_def live_of_def)
  moreover have "placed s = [t]" by (simp add: placed_def current_list_def pool_def s ready_def scheduler_new_def)
  ultimately have "places_ok (placed s) (get s)" using places_ok_add[of "[]" "get ?s" t] by (simp add: g)
  moreover have "live jm s = {t}" using \<open>placed s = [t]\<close>
    by (auto simp: live_def in_live_of g split: if_splits) (simp add: waiting_def)
  moreover have "current_thread s = Some t" by (simp add: s)
  ultimately show ?case using run_boot(1-3) by (auto simp: sched_inv_def g own_process_def split: if_splits)
qed (rule sched_step_inv)

lemma live_after:
  assumes inv: "sched_inv jm (n, s, pm)" and c: "current_thread s = Some c"
  shows
    "switch_thread env s = Inr (sw, s') \<Longrightarrow> live jm s' = live jm s - forgotten env s \<and> forgotten env s \<subseteq> live jm s"
    "sleep now ms readings s = Some (Inr (sw, s')) \<Longrightarrow> live jm s' = live jm s"
    "join jm i readings s = Some (Inr (sw, s')) \<Longrightarrow> live jm s' = live jm s"
    "exit jm readings (s, pm) = Some (Inr (sw, s', pm')) \<Longrightarrow> live jm s' = live jm s - {c} \<and>
       set (waiting (get s) (tid c)) \<subseteq> set (placed s') \<and> get s' (tid c) = None"
proof -
  have ok: "places_ok (placed s) (get s)" and own: "own_process (live jm s) pm"
    using inv by (simp_all add: sched_inv_def)
  show "live jm s' = live jm s - forgotten env s \<and> forgotten env s \<subseteq> live jm s" if op: "switch_thread env s = Inr (sw, s')"
  proof -
    from switch_thread_placed[OF op c] obtain lost where
      lost: "mset (lost @ placed s') = mset (placed s)" "join_map s' = join_map s" "set lost = forgotten env s" by blast
    have "places_ok (lost @ placed s') (get s)" using ok by (simp add: places_ok_mset[OF lost(1)])
    from live_of_drop[OF this] show ?thesis using lost(2,3) by (auto simp: live_def live_of_mset[OF lost(1), symmetric])
  qed
  show "live jm s' = live jm s" if "sleep now ms readings s = Some (Inr (sw, s'))"
    using sleep_placed[OF that c places_ok_distinct(1)[OF ok]] by (simp add: live_def live_of_mset[of "placed s'" "placed s"])
  show "live jm s' = live jm s" if "join jm i readings s = Some (Inr (sw, s'))"
  proof -
    from join_placed[OF that c ok] obtain l where
      l: "get s i = Some l" "mset (placed s') = mset (pool s)" "get s' = (get s)(i \<mapsto> l @ [c])" .
    show ?thesis
      by (simp only: live_def live_of_mset[OF l(2)] l(3) live_of_join[of "get s", OF l(1)] current_list_Some[OF c] live_of_Cons)
  qed
  show "live jm s' = live jm s - {c} \<and> set (waiting (get s) (tid c)) \<subseteq> set (placed s') \<and> get s' (tid c) = None"
    if "exit jm readings (s, pm) = Some (Inr (sw, s', pm'))"
  proof -
    have "c \<in> live jm s" by (simp add: live_def current_list_Some[OF c] in_live_of)
    then have "\<not> is_kernel_thread c \<longrightarrow> thread_process c \<in> pid ` set (active_processes pm)"
      using own by (simp add: own_process_def)
    from exit_placed[OF that c ok this] obtain l s2 where
      e: "s2 = s'" and l: "get s (tid c) = Some l" "mset (placed s2) = mset (rev l @ pool s)"
        "get s2 = (get s)(tid c := None)" by (metis Inr_inject prod.inject)
    show ?thesis
      using live_of_exit[of c "pool s" "get s", OF _ l(1)] ok mset_eq_setD[OF l(2)]
      by (auto simp: live_def live_of_mset[OF l(2)] l(3) current_list_Some[OF c] waiting_Some[of "get s", OF l(1)] simp flip: e)
  qed
qed

lemma no_panic:
  assumes inv: "sched_inv jm (n, s, pm)"
  shows "is_ok (switch_thread env s)" "exit jm readings (s, pm) \<noteq> Some (Inl p)"
    "sleep now ms readings s = Some (Inl p) \<longleftrightarrow> 2 ^ 64 \<le> now + ms \<and> p = Add_Overflow"
    "join jm i readings s = Some (Inl p) \<longleftrightarrow> get s i = None \<and> p = Missing_Join_Entry"
proof -
  obtain c where c: "current_thread s = Some c" using inv by (auto simp: sched_inv_def)
  have ok: "places_ok (placed s) (get s)" and own: "own_process (live jm s) pm"
    using inv by (simp_all add: sched_inv_def)
  have blk: "block readings s1 \<noteq> Some (Inl p)" if "current_thread s1 = Some c" for s1 :: "'m scheduler"
    using block_result[of readings s1 "Inl p" c] that by auto
  show "is_ok (switch_thread env s)"
    using c by (auto simp: switch_thread_def current_def Let_def split: prod.splits option.splits)
  show "sleep now ms readings s = Some (Inl p) \<longleftrightarrow> 2 ^ 64 \<le> now + ms \<and> p = Add_Overflow"
    using c blk by (auto simp: sleep_def current_def usize_add_def)
  show "join jm i readings s = Some (Inl p) \<longleftrightarrow> get s i = None \<and> p = Missing_Join_Entry"
    using c blk by (auto simp: join_def current_def unwrap_def split: option.splits)
  show "exit jm readings (s, pm) \<noteq> Some (Inl p)"
  proof
    assume ex: "exit jm readings (s, pm) = Some (Inl p)"
    have "c \<in> live jm s" by (simp add: live_def current_list_Some[OF c] in_live_of)
    then have "\<not> is_kernel_thread c \<longrightarrow> thread_process c \<in> pid ` set (active_processes pm)"
      using own by (simp add: own_process_def)
    from exit_placed[OF ex c ok this] show False by auto
  qed
qed

end

section \<open>Waiting\<close>

lemma wait_ready_not_stuck: "wait_ready readings i s = Some r \<Longrightarrow> \<not> stuck readings i s"
proof (rule wait_ready.raw_induct[where P = "\<lambda>readings i s r. \<not> stuck readings i s"])
  fix f :: "(nat \<Rightarrow> nat option) \<Rightarrow> nat \<Rightarrow> 'a scheduler \<Rightarrow> (thread \<times> 'a scheduler) option"
    and readings i and s :: "'a scheduler" and r
  assume IH: "\<And>readings i s r. f readings i s = Some r \<Longrightarrow> \<not> stuck readings i s"
    and step: "(case pop_back (ready_queue s) of
        (None, x) \<Rightarrow> f readings (Suc i) (check_sleep_list (readings i) s)
      | (Some nxt, q) \<Rightarrow> Some (nxt, s\<lparr>ready_queue := q\<rparr>)) = Some r"
  show "\<not> stuck readings i s"
  proof
    assume st: "stuck readings i s"
    then have "ready_queue s = []" by (simp add: stuck_def)
    then have "f readings (Suc i) (check_sleep_list (readings i) s) = Some r" using step by simp
    moreover have "check_sleep_list (readings i) s = s"
    proof (cases "readings i")
      case (Some time)
      then have "\<forall>(t, w) \<in> set (sleep_list s). time < w" using st unfolding stuck_def by blast
      then have "filter (\<lambda>(t, w). \<not> time \<ge> w) (sleep_list s) = sleep_list s" "filter (\<lambda>(t, w). time \<ge> w) (sleep_list s) = []"
        by (auto simp: filter_id_conv filter_empty_conv)
      then show ?thesis by (simp add: Some check_sleep_list_def retain_sleeping_spec)
    qed (simp add: check_sleep_list_def)
    moreover have "stuck readings (Suc i) s" using st unfolding stuck_def by (meson Suc_leD)
    ultimately show False using IH by metis
  qed
qed

lemma wait_ready_returns: "\<not> stuck readings i s \<Longrightarrow> \<exists>r. wait_ready readings i s = Some r"
proof (cases "ready_queue s" rule: rev_cases)
  case (snoc q t)
  then show ?thesis by (subst wait_ready.simps) simp
next
  case Nil
  assume "\<not> stuck readings i s"
  with Nil obtain j time t w where j: "i \<le> j" "readings j = Some time" "(t, w) \<in> set (sleep_list s)" "w \<le> time"
    by (auto simp: stuck_def not_less)
  then show ?thesis
  proof (induction "j - i" arbitrary: i s rule: less_induct)
    case less
    show ?case
    proof (cases "ready_queue s" rule: rev_cases)
      case (snoc q t)
      then show ?thesis by (subst wait_ready.simps) simp
    next
      case Nil
      let ?s = "check_sleep_list (readings i) s"
      have step: "wait_ready readings i s = wait_ready readings (Suc i) ?s"
        using Nil by (subst wait_ready.simps) simp
      show ?thesis
      proof (cases "ready_queue ?s" rule: rev_cases)
        case (snoc q t)
        then show ?thesis unfolding step by (subst wait_ready.simps) simp
      next
        case empty: Nil
        then have same: "sleep_list ?s = sleep_list s"
          using Nil by (auto simp: check_sleep_list_def retain_sleeping_spec filter_empty_conv filter_id_conv split: option.splits)
        have "i \<noteq> j" using empty less(3-) Nil
          by (auto simp: check_sleep_list_def retain_sleeping_spec filter_empty_conv)
        then show ?thesis using less(1)[of "Suc i" ?s] less(2-) unfolding step same by auto
      qed
    qed
  qed
qed

section \<open>Fairness\<close>

lemma switch_undisturbed:
  assumes "undisturbed env" "initialized s" "current_thread s = Some c" "ready_queue s = q @ [t]"
  shows "\<exists>s' q'. switch_thread env s = Inr (Switch c t, s') \<and> initialized s' \<and> current_thread s' = Some t \<and>
     ready_queue s' = q' @ q"
proof -
  define s1 where "s1 = (if sleep_list_free env then check_sleep_list (timer_reading env) s else s)"
  have "\<exists>w. ready_queue s1 = w @ ready_queue s"
    by (auto simp: s1_def check_sleep_list_def retain_sleeping_spec split: option.splits)
  then obtain w where "ready_queue s1 = (w @ q) @ [t]" using assms(4) by auto
  moreover have "current_thread s1 = Some c" "initialized s1" using assms by (simp_all add: s1_def)
  ultimately have "switch_thread env s = Inr (Switch c t, s1\<lparr>ready_queue := c # w @ q, current_thread := Some t\<rparr>)"
    using assms(1,2) by (simp add: switch_thread_def undisturbed_def s1_def[symmetric] current_def push_front_def del: append_assoc)
  then show ?thesis using \<open>initialized s1\<close> by (intro exI[of _ "s1\<lparr>ready_queue := c # w @ q, current_thread := Some t\<rparr>"] exI[of _ "c # w"]) simp
qed

lemma run_ticks_reaches:
  assumes "list_all undisturbed envs" "initialized s" "current_thread s = Some c" "ready_queue s = q1 @ t # q2"
    "length envs = Suc (length q2)"
  shows "\<exists>s'. run_ticks envs s = Inr s' \<and> current_thread s' = Some t"
  using assms
proof (induction envs arbitrary: s c q1 q2)
  case (Cons env envs)
  show ?case
  proof (cases q2 rule: rev_cases)
    case Nil
    with Cons show ?thesis using switch_undisturbed[of env s c q1 t] by auto
  next
    case (snoc q2' u)
    then have "ready_queue s = (q1 @ t # q2') @ [u]" using Cons(5) by simp
    from switch_undisturbed[OF _ Cons(3,4) this, of env] Cons(2) obtain s' q' where
      s': "switch_thread env s = Inr (Switch c u, s')" "initialized s'" "current_thread s' = Some u"
        "ready_queue s' = (q' @ q1) @ t # q2'" by auto
    then show ?thesis using Cons.IH[OF _ s'(2,3,4)] Cons(2,6) snoc by auto
  qed
qed simp

section \<open>Properties\<close>

lemma example_running: "running map_join_ops x86_entry_ops 3 (3, example_state, process_manager_new)"
proof -
  let ?s1 = "\<lparr>initialized = False, current_thread = Some (example_thread 1), ready_queue = [], sleep_list = [],
     join_map = [1 \<mapsto> []]\<rparr>"
  let ?s2 = "?s1\<lparr>ready_queue := [example_thread 2], join_map := [1 \<mapsto> [], 2 \<mapsto> []]\<rparr>"
  have "running map_join_ops x86_entry_ops 3 (2, ?s1, process_manager_new)"
    by (rule run_boot[of "example_thread 1" _ _ _ "example_thread 1"])
       (simp_all add: example_thread_def pm_inv_def process_manager_new_def start_def ready_def scheduler_new_def
          map_join_ops_def push_front_def pop_back_def)
  moreover have "sched_step map_join_ops x86_entry_ops 3 (2, ?s1, process_manager_new) (3, ?s2, process_manager_new)"
    using step_kernel_thread[of 2 2 3 "example_thread 2" 1 map_join_ops x86_entry_ops 3 ?s1 process_manager_new]
    by (simp add: next_thread_id_def example_thread_def ready_def push_front_def map_join_ops_def)
  ultimately have "running map_join_ops x86_entry_ops 3 (3, ?s2, process_manager_new)" by (rule run_step)
  then have "running map_join_ops x86_entry_ops 3 (3, set_init ?s2, process_manager_new)" by (rule run_step) (rule step_init)
  then show ?thesis by (simp add: set_init_def example_state_def)
qed

text \<open>
  C6: One place per thread: in every state a started system can reach, no thread occurs twice among the
  current thread, the ready queue, the sleep list and the lists of joining threads, every live thread
  has a join entry (so that it can be joined and can exit), thread ids are unique, and every user thread
  has an active process of its own.
\<close>

theorem threads_in_one_place:
  assumes "join_map_laws jm" "running jm ops kernel_flags (n, s, pm)"
  shows "places_ok (placed s) (jm_get jm (join_map s)) \<and> inj_on tid (live jm s) \<and>
    own_process (live jm s) pm \<and> current_thread s \<noteq> None"
proof -
  have inv: "sched_inv jm (n, s, pm)" by (rule join_map_laws.running_inv[OF assms])
  then show ?thesis using live_tid_inj[of "placed s" "jm_get jm (join_map s)"]
    by (auto simp: sched_inv_def live_def inj_on_def)
qed

theorem threads_in_one_place_witness:
  "places_ok (placed example_state) [1 \<mapsto> [], 2 \<mapsto> []] \<and> inj_on tid (live map_join_ops example_state) \<and>
    own_process (live map_join_ops example_state) process_manager_new \<and> current_thread example_state \<noteq> None"
  using threads_in_one_place[OF map_join.join_map_laws_axioms example_running]
  by (simp add: map_join_ops_def example_state_def)

text \<open>
  C8: When the scheduler panics: in every reachable state a timer interrupt and \<open>exit\<close> never panic, \<open>sleep\<close> panics exactly if the wake-up time overflows, and
  \<open>join\<close> panics exactly if the id has no join entry, because no thread with that id exists (any more).
\<close>

theorem scheduler_panics_exactly:
  assumes "join_map_laws jm" "running jm ops kernel_flags (n, s, pm)"
  shows "is_ok (switch_thread env s) \<and> exit jm readings (s, pm) \<noteq> Some (Inl p) \<and>
    (sleep now ms readings s = Some (Inl p) \<longleftrightarrow> 2 ^ 64 \<le> now + ms \<and> p = Add_Overflow) \<and>
    (join jm i readings s = Some (Inl p) \<longleftrightarrow> jm_get jm (join_map s) i = None \<and> p = Missing_Join_Entry)"
  using join_map_laws.no_panic[OF assms(1) join_map_laws.running_inv[OF assms]] by blast

theorem scheduler_panics_exactly_witness:
  "is_ok (switch_thread example_tick example_state) \<and>
    join map_join_ops 7 (\<lambda>_. None) example_state = Some (Inl Missing_Join_Entry) \<and>
    sleep 5 (2 ^ 64) (\<lambda>_. None) example_state = Some (Inl Add_Overflow)"
  using scheduler_panics_exactly[OF map_join.join_map_laws_axioms example_running, where i = 7 and p = Missing_Join_Entry and readings = "\<lambda>_. None"
      and env = example_tick]
    scheduler_panics_exactly[OF map_join.join_map_laws_axioms example_running, where now = 5 and ms = "2 ^ 64" and p = Add_Overflow and readings = "\<lambda>_. None"]
  by (simp add: map_join_ops_def example_state_def)

text \<open>
  C7: Which threads disappear: \<open>sleep\<close> and \<open>join\<close> keep the set of live threads; a timer interrupt keeps it too, except that it forgets the thread
  whose turn it is when it finds the stacks of the current thread or the task state segment locked; \<open>exit\<close> removes exactly the current thread, drops its
  join entry, and every thread that joined it can run again.
\<close>

theorem lost_threads:
  assumes "join_map_laws jm" "running jm ops kernel_flags (n, s, pm)" "current_thread s = Some c"
  shows
    "(switch_thread env s = Inr (sw, s') \<longrightarrow> live jm s' = live jm s - forgotten env s) \<and>
     (sleep now ms readings s = Some (Inr (sw, s')) \<or> join jm i readings s = Some (Inr (sw, s')) \<longrightarrow> live jm s' = live jm s) \<and>
     (exit jm readings (s, pm) = Some (Inr (sw, s', pm')) \<longrightarrow>
        live jm s' = live jm s - {c} \<and>
        set (waiting (jm_get jm (join_map s)) (tid c)) \<subseteq> set (placed s') \<and> jm_get jm (join_map s') (tid c) = None)"
proof -
  note live = join_map_laws.live_after[OF assms(1) join_map_laws.running_inv[OF assms(1,2)] assms(3)]
  show ?thesis
    using live(1)[of env sw s'] live(2)[of now ms readings sw s'] live(3)[of i readings sw s']
      live(4)[of readings sw s' pm'] by blast
qed

text \<open>A state of the example system after the second thread joined the first.\<close>

lemma example_exit:
  "exit map_join_ops (\<lambda>_. None) (example_state, process_manager_new) =
     Some (Inr (Switch (example_thread 1) (example_thread 2),
       \<lparr>initialized = True, current_thread = Some (example_thread 2), ready_queue = [], sleep_list = [],
         join_map = [2 \<mapsto> []]\<rparr>, process_manager_new))"
proof -
  have "([1 \<mapsto> [], 2 \<mapsto> []])(1 := None) = ([2 \<mapsto> []] :: nat \<rightharpoonup> thread list)" by auto
  then show ?thesis
    by (simp add: exit_def current_def example_state_def map_join_ops_def example_thread_def block_def
        wait_ready.simps pop_back_def)
qed

theorem lost_threads_witness:
  "live map_join_ops \<lparr>initialized = True, current_thread = Some (example_thread 2), ready_queue = [], sleep_list = [],
     join_map = [2 \<mapsto> []]\<rparr> = live map_join_ops example_state - {example_thread 1}"
  using lost_threads[OF map_join.join_map_laws_axioms example_running, of "example_thread 1"] example_exit
  by (simp add: example_state_def)

text \<open>
  C9: Round robin: a thread with \<open>k\<close> threads before it in the ready queue is running after exactly \<open>k + 1\<close>
  undisturbed timer interrupts, whatever sleepers wake up in the meantime.
\<close>

theorem round_robin_bounded_wait:
  assumes "list_all undisturbed envs" "initialized s" "current_thread s = Some c" "ready_queue s = q1 @ t # q2"
    "length envs = length q2 + 1"
  shows "\<exists>s'. run_ticks envs s = Inr s' \<and> current_thread s' = Some t"
  using run_ticks_reaches[OF assms(1-4)] assms(5) by simp

theorem round_robin_bounded_wait_witness:
  "\<exists>s'. run_ticks [example_tick] example_state = Inr s' \<and> current_thread s' = Some (example_thread 2)"
  by (rule round_robin_bounded_wait[of _ _ "example_thread 1" "[]" _ "[]"])
     (simp_all add: undisturbed_def example_tick_def example_state_def)

text \<open>
  Waking up: when the sleep list is checked at time \<open>time\<close>, exactly the threads whose wake-up time has
  come leave it, all others stay, and the woken threads queue up behind the waiting ones, the earlier
  sleeper first; without a timer reading nothing changes.
\<close>

theorem sleepers_wake_exactly_when_due:
  "check_sleep_list (Some time) s =
     s\<lparr>sleep_list := filter (\<lambda>(t, wakeup). time < wakeup) (sleep_list s),
       ready_queue := rev (map fst (filter (\<lambda>(t, wakeup). wakeup \<le> time) (sleep_list s))) @ ready_queue s\<rparr> \<and>
   check_sleep_list None s = s"
  by (simp add: check_sleep_list_def retain_sleeping_spec not_le)

text \<open>
  C10: \<open>block\<close> returns unless it has to wait forever: it finds a thread to run exactly when one is ready or
  some timer reading reaches the wake-up time of a sleeper. In particular it never returns when the last
  thread that could run blocks and nobody sleeps.
\<close>

theorem block_returns_iff_not_stuck:
  "(\<exists>r. block readings s = Some r) \<longleftrightarrow> \<not> stuck readings 0 s"
  using wait_ready_not_stuck[of readings 0 s] wait_ready_returns[of readings 0 s] by (auto simp: block_def)



end
