(* ===== verification/Syscalls.thy ===== *)
theory Syscalls
  imports Threads Scheduler Devices
begin

text \<open>
  System calls: the entry routine and the table of \<open>os/kernel/src/syscall/syscall_dispatcher.rs\<close>, the functions of
  \<open>os/kernel/src/syscall/mod.rs\<close>, and the call numbers of \<open>os/library/syscall/src/lib.rs\<close>.

  The entry routine is an instruction list over the processor of \<open>Cpu\<close>; the functions work on the kernel
  objects of the other theories. The file list of the initial ramdisk and the ELF parser are arguments.

  Shown here: the entry routine gives the caller back all of its registers and passes the parameters
  on; its bound check lets numbers with the top bit set through; and mapping the heap of a process
  gives it mapped memory behind its code.
\<close>

unbundle bit_operations_syntax

section \<open>System call numbers\<close>

datatype system_call =
    Read
  | Write
  | MapUserHeap
  | ProcessId
  | ThreadId
  | ThreadSwitch
  | ThreadSleep
  | ThreadJoin
  | ThreadExit
  | ApplicationStart
  | GetSystemTime
  | GetDate
  | SetDate

fun call_number :: "system_call \<Rightarrow> nat" where
  "call_number Read = 0"
| "call_number Write = 1"
| "call_number MapUserHeap = 2"
| "call_number ProcessId = 3"
| "call_number ThreadId = 4"
| "call_number ThreadSwitch = 5"
| "call_number ThreadSleep = 6"
| "call_number ThreadJoin = 7"
| "call_number ThreadExit = 8"
| "call_number ApplicationStart = 9"
| "call_number GetSystemTime = 10"
| "call_number GetDate = 11"
| "call_number SetDate = 12"

definition NUM_SYSCALLS :: nat where "NUM_SYSCALLS = call_number SetDate + 1"

text \<open>The functions of the table, in order.\<close>

datatype sys_function =
    Sys_read | Sys_write | Sys_map_user_heap | Sys_process_id | Sys_thread_id | Sys_thread_switch | Sys_thread_sleep
  | Sys_thread_join | Sys_thread_exit | Sys_application_start | Sys_get_system_time | Sys_get_date | Sys_set_date

definition SYSCALL_TABLE :: "sys_function list" where
  "SYSCALL_TABLE =
     [Sys_read, Sys_write, Sys_map_user_heap, Sys_process_id, Sys_thread_id, Sys_thread_switch, Sys_thread_sleep,
      Sys_thread_join, Sys_thread_exit, Sys_application_start, Sys_get_system_time, Sys_get_date, Sys_set_date]"

section \<open>The entry routine\<close>

text \<open>The \<open>syscall\<close> instruction with the registers that the user library loads.\<close>

definition syscall_instruction :: "u64 \<Rightarrow> cpu \<Rightarrow> cpu" where
  "syscall_instruction lstar c =
     (set_reg RCX (rip c) (set_reg R11 (rflags c) c))\<lparr>rip := lstar\<rparr>"

definition syscall_disp :: "u64 \<Rightarrow> instr list" where
  "syscall_disp table = [Call_Indirect table RAX]"

definition syscall_handler :: "u64 \<Rightarrow> instr list" where
  "syscall_handler table =
     Cli #
     map Push [RBX, RCX, RDX, RDI, RSI, R8, R9, R10, R11, R12, R13, R14, R15] @
     [Mov R15 RAX, Mov R14 RDI, Mov R13 RSI, Mov R12 RDX,
      Call Tss_Get_Rsp0,
      Mov RBX RAX, Mov RCX RSP,
      Mov RDX R12, Mov RSI R13, Mov RDI R14, Mov RAX R15,
      Mov RSP RBX, Push RCX,
      Sti,
      Cmp RAX (of_nat NUM_SYSCALLS), Jge_Panic No_Such_Syscall] @
     syscall_disp table @
     [Cli, Pop RSP] @
     map Pop [R15, R14, R13, R12, R11, R10, R9, R8, RSI, RDI, RDX, RCX, RBX] @
     [Sysretq]"

section \<open>System call functions\<close>

text \<open>The kernel objects that the functions reach through globals.\<close>

record ('e, 'm) kernel =
  k_scheduler :: "'m scheduler"
  k_processes :: process_manager
  k_machine :: "'e machine"
  k_bytes :: bytes
  k_thread_counter :: nat
  k_timer :: timer

definition process_of :: "nat \<Rightarrow> process_manager \<Rightarrow> process result" where
  "process_of i pm = unwrap No_Such_Process (find (\<lambda>p. pid p = i) (active_processes pm))"

text \<open>\<open>ProcessManager::current_process\<close>, with the current thread taken from the scheduler.\<close>

definition running_process :: "('e, 'm) kernel \<Rightarrow> process result" where
  "running_process k =
     (if length (active_processes (k_processes k)) > 1
      then and_then (current (k_scheduler k)) (\<lambda>t. process_of (thread_process t) (k_processes k))
      else unwrap Unwrap_None (kernel_process (k_processes k)))"

text \<open>A byte from the terminal, or -1 at the end of the stream.\<close>

definition sys_read :: "int \<Rightarrow> nat result" where
  "sys_read b = (if b = -1 then Inl Input_Closed else Inr (nat (b mod 2 ^ 64)))"

definition align_up :: "nat \<Rightarrow> nat \<Rightarrow> nat" where
  "align_up a n = (a + n - 1) div n * n"

definition sys_map_user_heap ::
  "('e, 'f) entry_ops \<Rightarrow> 'f \<Rightarrow> nat \<Rightarrow> ('e, 'm) kernel \<Rightarrow> (nat \<times> ('e, 'm) kernel) result" where
  "sys_map_user_heap ops user_flags sz k =
     and_then (running_process k) (\<lambda>process.
     and_then (unwrap Unwrap_None (find_vma Code process)) (\<lambda>code_area.
       let heap_start = align_up (vma_end code_area) PAGE_SIZE in
       and_then (vma_from_address heap_start sz Heap) (\<lambda>heap_area.
       and_then (map_pages ops (proc_address_space process) (vma_range heap_area) User user_flags (k_machine k)) (\<lambda>m.
       and_then (modify_process (pid process) (add_vma heap_area) (k_processes k)) (\<lambda>pm.
         Inr (heap_start, k\<lparr>k_machine := m, k_processes := pm\<rparr>))))))"

definition sys_process_id :: "('e, 'm) kernel \<Rightarrow> nat result" where
  "sys_process_id k = and_then (running_process k) (\<lambda>p. Inr (pid p))"

definition sys_thread_id :: "('e, 'm) kernel \<Rightarrow> nat result" where
  "sys_thread_id k = and_then (current (k_scheduler k)) (\<lambda>t. Inr (tid t))"

definition sys_thread_switch :: "tick \<Rightarrow> ('e, 'm) kernel \<Rightarrow> (context_switch \<times> ('e, 'm) kernel) result" where
  "sys_thread_switch env k =
     and_then (switch_thread env (k_scheduler k)) (\<lambda>(sw, s). Inr (sw, k\<lparr>k_scheduler := s\<rparr>))"

text \<open>
  \<open>sleep\<close>, \<open>join\<close> and \<open>exit\<close> wait for a thread to run, so they return an option; \<open>readings\<close> are the times
  the waiting loop reads.
\<close>

definition sys_thread_sleep ::
  "nat \<Rightarrow> (nat \<Rightarrow> nat option) \<Rightarrow> ('e, 'm) kernel \<Rightarrow> (context_switch \<times> ('e, 'm) kernel) result option" where
  "sys_thread_sleep ms readings k =
     map_option (\<lambda>r. and_then r (\<lambda>(sw, s). Inr (sw, k\<lparr>k_scheduler := s\<rparr>)))
       (sleep (systime_ms (k_timer k)) ms readings (k_scheduler k))"

definition sys_thread_join ::
  "'m join_ops \<Rightarrow> nat \<Rightarrow> (nat \<Rightarrow> nat option) \<Rightarrow> ('e, 'm) kernel \<Rightarrow> (context_switch \<times> ('e, 'm) kernel) result option" where
  "sys_thread_join jm i readings k =
     map_option (\<lambda>r. and_then r (\<lambda>(sw, s). Inr (sw, k\<lparr>k_scheduler := s\<rparr>))) (join jm i readings (k_scheduler k))"

definition sys_thread_exit ::
  "'m join_ops \<Rightarrow> (nat \<Rightarrow> nat option) \<Rightarrow> ('e, 'm) kernel \<Rightarrow> (context_switch \<times> ('e, 'm) kernel) result option" where
  "sys_thread_exit jm readings k =
     map_option (\<lambda>r. and_then r (\<lambda>(sw, s, pm). Inr (sw, k\<lparr>k_scheduler := s, k_processes := pm\<rparr>)))
       (exit jm readings (k_scheduler k, k_processes k))"

text \<open>
  Starting an application: \<open>app_name\<close> is the decoded name (\<open>None\<close> if the buffer is not valid UTF-8), \<open>initrd\<close> lists
  the files with their contents, \<open>parse\<close> is the ELF parser.
\<close>

definition sys_application_start ::
  "('e, 'f) entry_ops \<Rightarrow> 'f \<Rightarrow> 'f \<Rightarrow> 'm join_ops \<Rightarrow> u64 \<Rightarrow> (bytes \<Rightarrow> (program_header list \<times> u64) option) \<Rightarrow>
     (string \<times> bytes) list \<Rightarrow> string option \<Rightarrow> ('e, 'm) kernel \<Rightarrow> (nat \<times> ('e, 'm) kernel) result" where
  "sys_application_start ops kernel_flags user_flags jm kickoff parse initrd name k =
     and_then (unwrap Unwrap_None name) (\<lambda>app_name.
       case find (\<lambda>(filename, _). filename = app_name) initrd of
         Some (_, app) \<Rightarrow>
           and_then (new_user_thread ops kernel_flags user_flags kickoff (parse app) app
               (k_thread_counter k, k_processes k, k_machine k, k_bytes k)) (\<lambda>(th, counter, pm, m, b).
             let t = \<lparr>tid = thread_id th, is_kernel_thread = thread_is_kernel (thread_stacks th), thread_process = thread_pid th\<rparr> in
             Inr (thread_id th, k\<lparr>k_scheduler := ready jm t (k_scheduler k), k_processes := pm, k_machine := m, k_bytes := b,
                                  k_thread_counter := counter\<rparr>))
       | None \<Rightarrow> Inr (0, k))"

definition sys_get_system_time :: "('e, 'm) kernel \<Rightarrow> nat" where
  "sys_get_system_time k = systime_ms (k_timer k)"

text \<open>
  The first code of a thread, \<open>Thread::kickoff_kernel_thread\<close>: \<open>threads\<close> gives the objects of the threads, \<open>run_entry\<close> is the
  entry function of a kernel thread, which exits when it returns. A user thread continues on the frame for \<open>iretq\<close>.
  The first component is the stack pointer for interrupts that is stored in the task state segment.
\<close>

datatype ('e, 'm) kicked_off =
    Kernel_Thread_Exits "(context_switch \<times> ('e, 'm) kernel) result option"
  | User_Mode_Entered "(stacks \<times> ('e, 'm) kernel) result"

definition kickoff_kernel_thread ::
  "'m join_ops \<Rightarrow> (nat \<Rightarrow> nat option) \<Rightarrow> (u64 \<Rightarrow> ('e, 'm) kernel \<Rightarrow> ('e, 'm) kernel) \<Rightarrow> (nat \<Rightarrow> thread_object) \<Rightarrow>
     ('e, 'm) kernel \<Rightarrow> (u64 \<times> ('e, 'm) kicked_off) result" where
  "kickoff_kernel_thread jm readings run_entry threads k =
     (let k1 = k\<lparr>k_scheduler := set_init (k_scheduler k)\<rparr> in
      and_then (current (k_scheduler k1)) (\<lambda>t.
        let th = threads (tid t); rsp0 = kernel_stack_addr (thread_stacks th) in
        if thread_is_kernel (thread_stacks th)
        then Inr (rsp0, Kernel_Thread_Exits (sys_thread_exit jm readings (run_entry (thread_entry th) k1)))
        else Inr (rsp0, User_Mode_Entered
               (and_then (switch_to_user_mode (thread_entry th) (thread_stacks th)) (\<lambda>st. Inr (st, k1))))))"

section \<open>Running the handler\<close>

definition user_regs :: "reg list" where
  "user_regs = [RBX, RCX, RDX, RDI, RSI, R8, R9, R10, R11, R12, R13, R14, R15]"

lemma user_regs_facts: "distinct user_regs" "RSP \<notin> set user_regs" "length user_regs = 13" "RAX \<notin> set user_regs" "RBP \<notin> set user_regs"
  by (simp_all add: user_regs_def)

definition enter_kernel :: "instr list" where
  "enter_kernel = Cli # map Push user_regs @
     [Mov R15 RAX, Mov R14 RDI, Mov R13 RSI, Mov R12 RDX, Call Tss_Get_Rsp0, Mov RBX RAX, Mov RCX RSP,
      Mov RDX R12, Mov RSI R13, Mov RDI R14, Mov RAX R15, Mov RSP RBX, Push RCX, Sti]"

definition leave_kernel :: "instr list" where
  "leave_kernel = [Cli, Pop RSP] @ map Pop (rev user_regs) @ [Sysretq]"

lemma syscall_handler_parts: "syscall_handler table =
    enter_kernel @ [Cmp RAX (of_nat NUM_SYSCALLS), Jge_Panic No_Such_Syscall] @ syscall_disp table @ leave_kernel"
  by (simp add: syscall_handler_def enter_kernel_def leave_kernel_def user_regs_def)

text \<open>The saved registers on the user stack, lowest address first.\<close>

definition user_frame_at :: "(u64 \<Rightarrow> u64) \<Rightarrow> u64 \<Rightarrow> u64 list" where
  "user_frame_at m s = map (\<lambda>k. m (s + 8 * of_nat k)) [0..<13]"

definition user_frame_cell :: "u64 \<Rightarrow> u64 \<Rightarrow> bool" where
  "user_frame_cell s a \<longleftrightarrow> (\<exists>k < 13. a = s + 8 * of_nat k)"

lemma user_frame_cong: "(\<And>a. user_frame_cell s a \<Longrightarrow> m a = m' a) \<Longrightarrow> user_frame_at m s = user_frame_at m' s"
  unfolding user_frame_at_def user_frame_cell_def by (rule map_cong) auto

lemma pushed_cells:
  assumes len: "length vs = n" "n < 2 ^ 32"
  shows "map (\<lambda>k. mem (push_all vs c) (regs c RSP - 8 * of_nat n + 8 * of_nat k)) [0..<n] = rev vs"
proof (rule nth_equalityI)
  fix k assume "k < length (map (\<lambda>k. mem (push_all vs c) (regs c RSP - 8 * of_nat n + 8 * of_nat k)) [0..<n])"
  then have k: "k < n" by simp
  have e: "(of_nat (Suc (n - Suc k)) :: u64) = of_nat n - of_nat k" using k by (simp add: of_nat_diff)
  have "mem (push_all vs c) (regs c RSP - 8 * of_nat (Suc (n - Suc k))) = vs ! (n - Suc k)"
    using k len by (intro push_all_cell) auto
  moreover have "regs c RSP - 8 * of_nat (Suc (n - Suc k)) = regs c RSP - 8 * of_nat n + 8 * of_nat k"
    unfolding e by (simp add: algebra_simps)
  ultimately have "mem (push_all vs c) (regs c RSP - 8 * of_nat n + 8 * of_nat k) = vs ! (n - Suc k)" by (simp only:)
  then show "map (\<lambda>k. mem (push_all vs c) (regs c RSP - 8 * of_nat n + 8 * of_nat k)) [0..<n] ! k = rev vs ! k"
    using k len by (simp add: rev_nth)
qed (simp add: len)

lemma leave_effect:
  "\<exists>c'. exec call leave_kernel c = Inr c' \<and>
    list_all (\<lambda>k. regs c' (rev user_regs ! k) = mem c (mem c (regs c RSP) + 8 * of_nat k)) [0..<13] \<and>
    regs c' RSP = mem c (regs c RSP) + 104 \<and> regs c' RAX = regs c RAX \<and> regs c' RBP = regs c RBP \<and>
    rip c' = regs c' RCX \<and> rflags c' = (regs c' R11 AND 0x3C7FD7) OR 2"
proof -
  define c1 where "c1 = set_reg RSP (mem c (regs c RSP)) (set_reg RSP (regs c RSP + 8) (c\<lparr>rflags := rflags c AND NOT INTERRUPT_FLAG\<rparr>))"
  define c2 where "c2 = pop_all (rev user_regs) c1"
  have run: "exec call leave_kernel c = Inr (c2\<lparr>rip := regs c2 RCX, rflags := (regs c2 R11 AND 0x3C7FD7) OR 2\<rparr>)"
    unfolding leave_kernel_def exec_append[of call "[Cli, Pop RSP]"] exec_append[of call "map Pop _"]
    by (simp add: exec_pops c2_def c1_def stack_top_def Let_def del: pop_all.simps)
  have "regs c2 (rev user_regs ! k) = mem c (mem c (regs c RSP) + 8 * of_nat k)" if "k < 13" for k
  proof -
    have "regs c2 (rev user_regs ! k) = mem c1 (regs c1 RSP + 8 * of_nat k)"
      unfolding c2_def by (rule pop_all_nth) (use that user_regs_facts in simp_all)
    then show ?thesis by (simp add: c1_def)
  qed
  moreover have "regs c2 RSP = mem c (regs c RSP) + 104"
    using pop_all_rsp[of "rev user_regs" c1] user_regs_facts by (simp add: c2_def c1_def)
  moreover have "regs c2 RAX = regs c RAX" "regs c2 RBP = regs c RBP"
    using user_regs_facts by (simp_all add: c2_def c1_def pop_all_other)
  ultimately show ?thesis unfolding run by (auto simp: list_all_iff)
qed

lemma push_all_flags: "push_all vs (c\<lparr>rflags := f\<rparr>) = (push_all vs c)\<lparr>rflags := f\<rparr>"
proof (induction vs arbitrary: c)
  case (Cons v vs)
  have "push_value v (c\<lparr>rflags := f\<rparr>) = (push_value v c)\<lparr>rflags := f\<rparr>" by (simp add: push_value_def Let_def)
  then show ?case using Cons by simp
qed simp

context call_convention
begin

lemma enter_effect:
  "\<exists>c'. exec call enter_kernel c = Inr c' \<and> regs c' RSP = tss_rsp0 c - 8 \<and> regs c' RAX = regs c RAX \<and>
    regs c' RDI = regs c RDI \<and> regs c' RSI = regs c RSI \<and> regs c' RDX = regs c RDX \<and> regs c' RBP = regs c RBP \<and>
    mem c' (tss_rsp0 c - 8) = regs c RSP - 104 \<and>
    (\<forall>a. a \<noteq> tss_rsp0 c - 8 \<longrightarrow> \<not> below CALL_DEPTH (regs c RSP - 104) a \<longrightarrow>
       mem c' a = mem (push_all (map (regs c) user_regs) c) a) \<and> rflags c' AND INTERRUPT_FLAG = INTERRUPT_FLAG"
proof -
  let ?c0 = "c\<lparr>rflags := rflags c AND NOT INTERRUPT_FLAG\<rparr>"
  define c1 where "c1 = push_all (map (regs c) user_regs) ?c0"
  have r1: "regs c1 = (regs c)(RSP := regs c RSP - 104)" by (simp add: c1_def user_regs_facts del: push_all.simps)
  have m1: "mem c1 = mem (push_all (map (regs c) user_regs) c)" by (simp add: c1_def push_all_flags)
  have t1: "tss_rsp0 c1 = tss_rsp0 c" by (simp add: c1_def)
  have p: "exec call (Cli # map Push user_regs) c = Inr c1"
    using exec_pushes[OF user_regs_facts(2), of call ?c0] by (simp add: c1_def)
  define c2 where "c2 = set_reg R12 (regs c RDX) (set_reg R13 (regs c RSI) (set_reg R14 (regs c RDI) (set_reg R15 (regs c RAX) c1)))"
  define c3 where "c3 = set_reg RAX (tss_rsp0 c) (call Tss_Get_Rsp0 c2)"
  define c4 where "c4 = set_reg RSP (tss_rsp0 c) (set_reg RAX (regs c RAX) (set_reg RDI (regs c RDI) (set_reg RSI (regs c RSI) (set_reg RDX (regs c RDX)
      (set_reg RCX (regs c RSP - 104) (set_reg RBX (tss_rsp0 c) c3))))))"
  define c5 where "c5 = push_value (regs c RSP - 104) c4"
  have r2: "regs c2 = (regs c1)(R15 := regs c RAX, R14 := regs c RDI, R13 := regs c RSI, R12 := regs c RDX)" by (simp add: c2_def)
  have rax: "regs c3 RAX = tss_rsp0 c" by (simp add: c3_def)
  have "regs c3 r = regs c2 r" if "r \<in> set callee_saved" for r
    using saved[OF that, of Tss_Get_Rsp0 c2] that by (auto simp: c3_def callee_saved_def)
  from this[of RSP] this[of R12] this[of R13] this[of R14] this[of R15] this[of RBP]
  have r3: "regs c3 RSP = regs c RSP - 104" "regs c3 R12 = regs c RDX" "regs c3 R13 = regs c RSI" "regs c3 R14 = regs c RDI"
    "regs c3 R15 = regs c RAX" "regs c3 RBP = regs c RBP"
    by (simp_all add: callee_saved_def r2 r1)
  have q: "exec call [Mov R15 RAX, Mov R14 RDI, Mov R13 RSI, Mov R12 RDX, Call Tss_Get_Rsp0] c1 = Inr c3"
    by (simp add: c3_def c2_def r1 t1 tss_get_rsp0_def)
  have q2: "exec call [Mov RBX RAX, Mov RCX RSP, Mov RDX R12, Mov RSI R13, Mov RDI R14, Mov RAX R15, Mov RSP RBX, Push RCX, Sti] c3 =
      Inr (c5\<lparr>rflags := rflags c5 OR INTERRUPT_FLAG\<rparr>)"
    by (simp add: c5_def c4_def r3 rax)
  have code: "enter_kernel = (Cli # map Push user_regs) @ [Mov R15 RAX, Mov R14 RDI, Mov R13 RSI, Mov R12 RDX, Call Tss_Get_Rsp0] @
      [Mov RBX RAX, Mov RCX RSP, Mov RDX R12, Mov RSI R13, Mov RDI R14, Mov RAX R15, Mov RSP RBX, Push RCX, Sti]"
    by (simp add: enter_kernel_def)
  have run: "exec call enter_kernel c = Inr (c5\<lparr>rflags := rflags c5 OR INTERRUPT_FLAG\<rparr>)"
    unfolding code exec_append p q q2 and_then_Inr ..
  have m5: "mem c5 = (mem c3)(tss_rsp0 c - 8 := regs c RSP - 104)" by (simp add: c5_def c4_def push_value_def Let_def)
  have "mem c3 a = mem (push_all (map (regs c) user_regs) c) a" if "\<not> below CALL_DEPTH (regs c RSP - 104) a" for a
    using memory[of Tss_Get_Rsp0 c2 a] that by (simp add: c3_def c2_def r1 m1)
  moreover have "regs c5 = (regs c4)(RSP := tss_rsp0 c - 8)" by (simp add: c5_def c4_def push_value_def Let_def)
  moreover have "(rflags c5 OR INTERRUPT_FLAG) AND INTERRUPT_FLAG = INTERRUPT_FLAG"
    by (rule bit_word_eqI) (auto simp: bit_simps)
  ultimately show ?thesis unfolding run using m5 by (simp add: c4_def r3)
qed

lemma user_frame_above:
  assumes "user_frame_cell s a"
  shows "\<not> below CALL_DEPTH s a"
proof -
  obtain k where "k < 13" "a = s + 8 * of_nat k" using assms by (auto simp: user_frame_cell_def)
  then have "frame_cell s a" unfolding frame_cell_def by (intro exI[of _ k]) simp
  then show ?thesis by (rule frame_above)
qed

end

lemma signed_small: "n < 2 ^ 63 \<Longrightarrow> signed_take_bit 63 (int n) = int n"
  by (rule signed_take_bit_int_eq_self) simp_all

lemma signed_large:
  assumes "2 ^ 63 \<le> n" "n < 2 ^ 64"
  shows "signed_take_bit 63 (int n) < 0"
proof -
  have "int n div 2 ^ 63 = 1" using assms by (intro int_div_pos_eq[of _ _ _ "int n - 2 ^ 63"]) auto
  then have "bit (int n) 63" by (simp add: bit_iff_odd)
  then show ?thesis by simp
qed

lemma sint_unat: "sint (x::u64) = signed_take_bit 63 (int (unat x))"
  by (simp add: sint_uint)

lemma sint_small: "unat (x::u64) < 2 ^ 63 \<Longrightarrow> sint x = int (unat x)"
  unfolding sint_unat by (rule signed_small)

lemma sint_negative: "2 ^ 63 \<le> unat (x::u64) \<Longrightarrow> sint x < 0"
  unfolding sint_unat using unsigned_less[of x, where ?'a = nat] by (intro signed_large) simp_all

lemma range_check: "13 \<le> sint (x :: u64) \<longleftrightarrow> 13 \<le> unat x \<and> unat x < 2 ^ 63"
proof (cases "unat x < 2 ^ 63")
  case True
  then show ?thesis unfolding sint_small[OF True] by linarith
next
  case False
  then have "sint x < 0" by (intro sint_negative) simp
  then show ?thesis using False by simp
qed

lemma table_length: "int (length SYSCALL_TABLE) = 13"
  by (simp add: SYSCALL_TABLE_def)

lemma id_check:
  "exec call [Cmp RAX (of_nat NUM_SYSCALLS), Jge_Panic No_Such_Syscall] c =
     (if 13 \<le> unat (regs c RAX) \<and> unat (regs c RAX) < 2 ^ 63 then Inl No_Such_Syscall
      else Inr (c\<lparr>compared := (regs c RAX, 13)\<rparr>))"
  using range_check[of "regs c RAX"] by (simp add: NUM_SYSCALLS_def)

text \<open>Leaving the kernel with the user's registers in the cells of the frame restores them.\<close>

lemma leave_restores:
  assumes "mem c2 (regs c2 RSP) = s"
    and cell: "\<And>k. k < 13 \<Longrightarrow> mem c2 (s + 8 * of_nat k) = rev (map (regs c) user_regs) ! k"
  shows "\<exists>c'. exec call leave_kernel c2 = Inr c' \<and> (\<forall>x \<in> set user_regs. regs c' x = regs c x) \<and>
    regs c' RSP = s + 104 \<and> regs c' RAX = regs c2 RAX \<and> regs c' RBP = regs c2 RBP \<and>
    rip c' = regs c' RCX \<and> rflags c' = (regs c' R11 AND 0x3C7FD7) OR 2"
proof -
  from leave_effect[of call c2] obtain c' where c': "exec call leave_kernel c2 = Inr c'"
    and r: "\<And>k. k < 13 \<Longrightarrow> regs c' (rev user_regs ! k) = mem c2 (mem c2 (regs c2 RSP) + 8 * of_nat k)"
    and o: "regs c' RSP = mem c2 (regs c2 RSP) + 104" "regs c' RAX = regs c2 RAX" "regs c' RBP = regs c2 RBP"
      "rip c' = regs c' RCX" "rflags c' = (regs c' R11 AND 0x3C7FD7) OR 2" by (auto simp: list_all_iff)
  have "regs c' x = regs c x" if x: "x \<in> set user_regs" for x
  proof -
    obtain k where k: "k < 13" "rev user_regs ! k = x"
      using x user_regs_facts(3) by (metis in_set_conv_nth length_rev set_rev)
    have "rev (map (regs c) user_regs) ! k = regs c (rev user_regs ! k)"
      using k(1) user_regs_facts(3) by (simp add: rev_map)
    then show ?thesis using r[OF k(1)] cell[OF k(1)] k(2) assms(1) by simp
  qed
  then show ?thesis using c' o assms(1) by auto
qed

text \<open>
  C15: System calls are transparent: a system call with a valid number runs the function of the table entry on the
  kernel stack with the three parameters of the caller, and returns to the instruction after the system call
  with every register but the return value unchanged, the user stack pointer and the flags included.
\<close>

theorem syscall_preserves_user_state:
  assumes "syscall_convention call user" "unat (regs c RAX) < NUM_SYSCALLS"
    "list_all (\<lambda>k. user (regs c RSP - 104 + 8 * of_nat k)) [0..<13]" "\<not> user (tss_rsp0 c - 8)"
    "\<not> below CALL_DEPTH (regs c RSP - 104) (table + 8 * regs c RAX)" "\<not> below 104 (regs c RSP) (table + 8 * regs c RAX)"
    "table + 8 * regs c RAX \<noteq> tss_rsp0 c - 8"
  shows "\<exists>ck c'. exec call (syscall_handler table) c = Inr c' \<and>
    list_all (\<lambda>r. regs c' r = regs c r) (user_regs @ [RSP, RBP]) \<and> rip c' = regs c RCX \<and>
    rflags c' = (regs c R11 AND 0x3C7FD7) OR 2 \<and>
    regs ck RDI = regs c RDI \<and> regs ck RSI = regs c RSI \<and> regs ck RDX = regs c RDX \<and> regs ck RSP = tss_rsp0 c - 8 \<and>
    regs c' RAX = regs (call (Function_At (mem c (table + 8 * regs c RAX))) ck) RAX"
proof -
  have conv: "call_convention call" using assms(1) by (rule syscall_convention.axioms(1))
  let ?vs = "map (regs c) user_regs" and ?s = "regs c RSP - 104" and ?cell = "table + 8 * regs c RAX"
  have len: "length ?vs = 13" by (simp add: user_regs_facts)
  from call_convention.enter_effect[OF conv, of c] obtain c1 where
    c1: "exec call enter_kernel c = Inr c1" "regs c1 RSP = tss_rsp0 c - 8" "regs c1 RAX = regs c RAX" "regs c1 RDI = regs c RDI"
      "regs c1 RSI = regs c RSI" "regs c1 RDX = regs c RDX" "regs c1 RBP = regs c RBP" "mem c1 (tss_rsp0 c - 8) = ?s"
    and m1: "\<And>a. a \<noteq> tss_rsp0 c - 8 \<Longrightarrow> \<not> below CALL_DEPTH ?s a \<Longrightarrow> mem c1 a = mem (push_all ?vs c) a" by blast
  define ck where "ck = c1\<lparr>compared := (regs c1 RAX, 13)\<rparr>"
  define c2 where "c2 = call (Function_At (mem c ?cell)) ck"
  have "mem (push_all ?vs c) ?cell = mem c ?cell" by (rule push_all_above[of _ 13]) (use len assms(6) in simp_all)
  then have f: "mem ck (table + 8 * regs ck RAX) = mem c ?cell" using m1[OF assms(7,5)] by (simp add: ck_def c1(3))
  have run1: "exec call (enter_kernel @ [Cmp RAX (of_nat NUM_SYSCALLS), Jge_Panic No_Such_Syscall] @ syscall_disp table) c = Inr c2"
    using assms(2) id_check[of call c1] c1(1,3) f
    unfolding exec_append c1(1) and_then_Inr by (simp add: NUM_SYSCALLS_def ck_def c2_def syscall_disp_def)
  have kept: "regs c2 RSP = tss_rsp0 c - 8" "regs c2 RBP = regs c RBP"
    using call_convention.saved[OF conv, of RSP _ ck] call_convention.saved[OF conv, of RBP _ ck]
    by (simp_all add: c2_def callee_saved_def ck_def c1)
  have fm: "mem c2 a = mem c1 a" if "a = tss_rsp0 c - 8 \<or> user a" for a
    using syscall_convention.function_memory[OF assms(1), of a ck] that by (simp add: c2_def ck_def c1(2))
  have cell: "mem c2 (?s + 8 * of_nat k) = rev ?vs ! k" if k: "k < 13" for k
  proof -
    have u: "user (?s + 8 * of_nat k)" using assms(3) k by (simp add: list_all_iff)
    have "user_frame_cell ?s (?s + 8 * of_nat k)" using k by (auto simp: user_frame_cell_def)
    from call_convention.user_frame_above[OF conv this] have "mem c2 (?s + 8 * of_nat k) = mem (push_all ?vs c) (?s + 8 * of_nat k)"
      using fm[of "?s + 8 * of_nat k"] m1[of "?s + 8 * of_nat k"] u assms(4) by metis
    moreover have "map (\<lambda>k. mem (push_all ?vs c) (?s + 8 * of_nat k)) [0..<13] ! k = rev ?vs ! k"
      using pushed_cells[OF len, of c] by simp
    ultimately show ?thesis using k by simp
  qed
  have base: "mem c2 (regs c2 RSP) = ?s" using fm[of "tss_rsp0 c - 8"] c1(8) kept(1) by simp
  from leave_restores[OF base cell] obtain c' where c': "exec call leave_kernel c2 = Inr c'"
    and reg: "\<And>x. x \<in> set user_regs \<Longrightarrow> regs c' x = regs c x"
    and o: "regs c' RSP = ?s + 104" "regs c' RAX = regs c2 RAX" "regs c' RBP = regs c2 RBP"
      "rip c' = regs c' RCX" "rflags c' = (regs c' R11 AND 0x3C7FD7) OR 2" by blast
  have run: "exec call (syscall_handler table) c = Inr c'"
    using run1 c' exec_append[of call "enter_kernel @ [Cmp RAX (of_nat NUM_SYSCALLS), Jge_Panic No_Such_Syscall] @ syscall_disp table" leave_kernel c]
    by (simp add: syscall_handler_parts)
  have "regs c' RCX = regs c RCX" "regs c' R11 = regs c R11" using reg by (simp_all add: user_regs_def)
  then show ?thesis using run reg o kept(2)
    by (intro exI[of _ ck] exI[of _ c']) (simp add: list_all_iff ck_def c1 c2_def)
qed


definition example_user_cpu :: cpu where
  "example_user_cpu = \<lparr>regs = (\<lambda>_. 5)(RSP := 0x3FFFFFFFFF00, RAX := 3, RDI := 42, RCX := 0x10000001000, R11 := 0x202),
     rip = 0x7000, rflags = 0x202, seg_cs = 8, seg_ss = 16, cr3 = 0x1000, mem = (\<lambda>a. a), tss_rsp0 = 0xFFFF800000100000,
     scheduler_locked = False, compared = (0, 0)\<rparr>"

theorem syscall_preserves_user_state_witness:
  "\<exists>c'. exec kernel_call (syscall_handler 0x200000) example_user_cpu = Inr c' \<and>
     list_all (\<lambda>r. regs c' r = regs example_user_cpu r) (user_regs @ [RSP, RBP]) \<and> rip c' = 0x10000001000 \<and> regs c' RAX = 42"
proof -
  let ?c = example_user_cpu
  have "unat (regs ?c RAX) < NUM_SYSCALLS" "list_all (\<lambda>k. low_half (regs ?c RSP - 104 + 8 * of_nat k)) [0..<13]"
    "\<not> low_half (tss_rsp0 ?c - 8)" "\<not> below CALL_DEPTH (regs ?c RSP - 104) (0x200000 + 8 * regs ?c RAX)"
    "\<not> below 104 (regs ?c RSP) (0x200000 + 8 * regs ?c RAX)" "0x200000 + 8 * regs ?c RAX \<noteq> tss_rsp0 ?c - 8"
    by (simp_all add: example_user_cpu_def NUM_SYSCALLS_def low_half_def below_def CALL_DEPTH_def upt_rec)
  from syscall_preserves_user_state[OF kernel.syscall_convention_axioms this] obtain ck c' where
    r: "exec kernel_call (syscall_handler 0x200000) ?c = Inr c'" "list_all (\<lambda>r. regs c' r = regs ?c r) (user_regs @ [RSP, RBP])"
      "rip c' = regs ?c RCX" "regs ck RDI = regs ?c RDI"
      "regs c' RAX = regs (kernel_call (Function_At (mem ?c (0x200000 + 8 * regs ?c RAX))) ck) RAX" by blast
  have "regs ?c RCX = 0x10000001000" "regs ?c RDI = 42" by (simp_all add: example_user_cpu_def)
  moreover have "regs (kernel_call (Function_At x) ck) RAX = regs ck RDI" for x by (simp add: kernel_call_def)
  ultimately have "rip c' = 0x10000001000" "regs c' RAX = 42" using r(3-5) by simp_all
  with r(1,2) show ?thesis by blast
qed

text \<open>The number of a system call that reaches a given cell through the table, with the top bit set.\<close>

lemma wrapping_id:
  assumes "unat (a - table :: u64) mod 8 = 0"
  shows "\<exists>call_id. 2 ^ 63 \<le> unat call_id \<and> table + 8 * call_id = a"
proof -
  let ?d = "unat (a - table) div 8"
  let ?id = "of_nat (?d + 2 ^ 63) :: u64"
  have d: "?d < 2 ^ 61" using unsigned_less[of "a - table", where ?'a = nat] by simp
  then have id: "unat ?id = ?d + 2 ^ 63" by (subst unat_of_nat) (simp add: take_bit_nat_eq_self[of _ 64, simplified])
  have "8 * ?id = of_nat (8 * ?d) + (of_nat (2 ^ 66) :: u64)" by (simp add: algebra_simps)
  moreover have "8 * ?d = unat (a - table)" using assms by (metis add.right_neutral mult_div_mod_eq)
  moreover have "(of_nat (2 ^ 66) :: u64) = 0" by simp
  ultimately have "8 * ?id = a - table" by (simp only: add_0_right) simp
  then have "table + 8 * ?id = a" by simp
  moreover have "2 ^ 63 \<le> unat ?id" unfolding id by simp
  ultimately show ?thesis by blast
qed

lemma handler_result:
  assumes "exec call enter_kernel c = Inr c1" "regs c1 RAX = regs c RAX"
  shows "exec call (syscall_handler table) c =
    (if 13 \<le> unat (regs c RAX) \<and> unat (regs c RAX) < 2 ^ 63 then Inl No_Such_Syscall
     else exec call (syscall_disp table @ leave_kernel) (c1\<lparr>compared := (regs c RAX, 13)\<rparr>))"
  unfolding syscall_handler_parts
    exec_append[of call enter_kernel] exec_append[of call "[Cmp RAX (of_nat NUM_SYSCALLS), Jge_Panic No_Such_Syscall]"] assms(1) and_then_Inr id_check
  by (simp add: assms(2))

text \<open>
  C16: Which numbers are rejected: executing the entry routine panics with \<open>No_Such_Syscall\<close> exactly if the number, read as a
  signed 64 bit integer, is at least the length of the table, and returns otherwise. The comparison is signed, so numbers
  with the top bit set pass: for every memory cell at a multiple of eight bytes from the table, in the table or not, that
  the entry routine does not write itself, there is such a number for which the routine calls the function whose address
  that cell holds, on the kernel stack and with the caller's parameters.
\<close>

theorem syscall_bound_is_signed:
  assumes "call_convention call"
  shows "(if int (length SYSCALL_TABLE) \<le> sint (regs c RAX) then exec call (syscall_handler table) c = Inl No_Such_Syscall
      else \<exists>c'. exec call (syscall_handler table) c = Inr c') \<and>
    (unat (a - table) mod 8 = 0 \<and> a \<noteq> tss_rsp0 c - 8 \<and> \<not> below CALL_DEPTH (regs c RSP - 104) a \<and> \<not> below 104 (regs c RSP) a \<longrightarrow>
     (\<exists>call_id code rest ck. 2 ^ 63 \<le> unat call_id \<and> syscall_handler table = code @ syscall_disp table @ rest \<and>
        exec call code (set_reg RAX call_id c) = Inr ck \<and>
        exec call (syscall_disp table) ck = Inr (call (Function_At (mem c a)) ck) \<and>
        regs ck RSP = tss_rsp0 c - 8 \<and> regs ck RDI = regs c RDI \<and> regs ck RSI = regs c RSI \<and> regs ck RDX = regs c RDX))"
proof (intro conjI impI)
  from call_convention.enter_effect[OF assms, of c] obtain c1 where
    c1: "exec call enter_kernel c = Inr c1" "regs c1 RAX = regs c RAX" by blast
  obtain c' where "exec call (syscall_disp table @ leave_kernel) (c1\<lparr>compared := (regs c RAX, 13)\<rparr>) = Inr c'"
    unfolding exec_append[of call "syscall_disp table"] using leave_effect[of call] by (auto simp: syscall_disp_def)
  then show "if int (length SYSCALL_TABLE) \<le> sint (regs c RAX) then exec call (syscall_handler table) c = Inl No_Such_Syscall
      else \<exists>c'. exec call (syscall_handler table) c = Inr c'"
    unfolding handler_result[OF c1] table_length range_check by auto
next
  let ?chk = "[Cmp RAX (of_nat NUM_SYSCALLS), Jge_Panic No_Such_Syscall]"
  assume a: "unat (a - table) mod 8 = 0 \<and> a \<noteq> tss_rsp0 c - 8 \<and> \<not> below CALL_DEPTH (regs c RSP - 104) a \<and> \<not> below 104 (regs c RSP) a"
  then obtain n where n: "2 ^ 63 \<le> unat n" "table + 8 * n = a" using wrapping_id[of a table] by metis
  let ?c = "set_reg RAX n c"
  from call_convention.enter_effect[OF assms, of ?c] a obtain c1 where
    c1: "exec call enter_kernel ?c = Inr c1" "regs c1 RAX = n" "regs c1 RSP = tss_rsp0 c - 8" "regs c1 RDI = regs c RDI"
      "regs c1 RSI = regs c RSI" "regs c1 RDX = regs c RDX" "mem c1 a = mem (push_all (map (regs ?c) user_regs) ?c) a"
    by auto
  have "mem c1 a = mem ?c a"
    unfolding c1(7) by (rule push_all_above[of _ 13]) (use a user_regs_facts(3) in simp_all)
  then have f: "mem c1 a = mem c a" by simp
  define ck where "ck = c1\<lparr>compared := (n, 13)\<rparr>"
  have "exec call ?chk c1 = Inr ck" unfolding id_check using n(1) by (simp add: ck_def c1(2))
  then have run: "exec call (enter_kernel @ ?chk) ?c = Inr ck" by (simp only: exec_append c1(1) and_then_Inr)
  have "exec call (syscall_disp table) ck = Inr (call (Function_At (mem c a)) ck)"
    by (simp add: syscall_disp_def ck_def c1(2) n(2) f)
  then show "\<exists>call_id code rest ck. 2 ^ 63 \<le> unat call_id \<and> syscall_handler table = code @ syscall_disp table @ rest \<and>
        exec call code (set_reg RAX call_id c) = Inr ck \<and>
        exec call (syscall_disp table) ck = Inr (call (Function_At (mem c a)) ck) \<and>
        regs ck RSP = tss_rsp0 c - 8 \<and> regs ck RDI = regs c RDI \<and> regs ck RSI = regs c RSI \<and> regs ck RDX = regs c RDX"
    using n(1) run syscall_handler_parts[of table] c1
    by (intro exI[of _ n] exI[of _ "enter_kernel @ ?chk"] exI[of _ leave_kernel] exI[of _ ck]) (simp add: ck_def)
qed

theorem syscall_bound_is_signed_witness:
  "exec plain_call (syscall_handler 0x200000) (set_reg RAX 13 example_user_cpu) = Inl No_Such_Syscall \<and>
   (\<exists>c'. exec plain_call (syscall_handler 0x200000) (set_reg RAX 12 example_user_cpu) = Inr c') \<and>
   (\<exists>call_id code rest ck. 2 ^ 63 \<le> unat call_id \<and> syscall_handler 0x200000 = code @ syscall_disp 0x200000 @ rest \<and>
     exec plain_call code (set_reg RAX call_id example_user_cpu) = Inr ck \<and>
     exec plain_call (syscall_disp 0x200000) ck = Inr (plain_call (Function_At 0x1000) ck) \<and> regs ck RDI = 42)"
proof (intro conjI)
  note b = syscall_bound_is_signed[OF plain.call_convention_axioms, where table = "0x200000" and a = "0x1000"]
  have "int (length SYSCALL_TABLE) \<le> sint (regs (set_reg RAX 13 example_user_cpu) RAX)"
    "\<not> int (length SYSCALL_TABLE) \<le> sint (regs (set_reg RAX 12 example_user_cpu) RAX)"
    unfolding table_length by simp_all
  then show "exec plain_call (syscall_handler 0x200000) (set_reg RAX 13 example_user_cpu) = Inl No_Such_Syscall"
    "\<exists>c'. exec plain_call (syscall_handler 0x200000) (set_reg RAX 12 example_user_cpu) = Inr c'"
    using b[of "set_reg RAX 13 example_user_cpu"] b[of "set_reg RAX 12 example_user_cpu"] by (simp_all only: if_True if_False)
  have "unat (0x1000 - 0x200000 :: u64) mod 8 = 0 \<and> 0x1000 \<noteq> tss_rsp0 example_user_cpu - 8 \<and>
    \<not> below CALL_DEPTH (regs example_user_cpu RSP - 104) 0x1000 \<and> \<not> below 104 (regs example_user_cpu RSP) 0x1000"
    by (simp add: example_user_cpu_def below_def CALL_DEPTH_def)
  moreover have "mem example_user_cpu 0x1000 = 0x1000" "regs example_user_cpu RDI = 42" by (simp_all add: example_user_cpu_def)
  ultimately show "\<exists>call_id code rest ck. 2 ^ 63 \<le> unat call_id \<and> syscall_handler 0x200000 = code @ syscall_disp 0x200000 @ rest \<and>
     exec plain_call code (set_reg RAX call_id example_user_cpu) = Inr ck \<and>
     exec plain_call (syscall_disp 0x200000) ck = Inr (plain_call (Function_At 0x1000) ck) \<and> regs ck RDI = 42"
    using b[of example_user_cpu] by (simp only:) blast
qed

text \<open>
  Mapping the heap: with enough memory and no area in the way, the system call gives the process an area right
  behind its (first) code area, returns its start, and every address of the area, whose size is the
  requested one rounded down to pages, is mapped.
\<close>

theorem user_heap_follows_code:
  assumes "page_table_entry ops valid_flags" "running_process k = Inr p" "find (\<lambda>q. pid q = pid p) (active_processes (k_processes k)) = Some p"
    "find_vma Code p = Some code_area" "good ops (depth (proc_address_space p)) (root_table (proc_address_space p)) (k_machine k)"
    "0 < depth (proc_address_space p)" "valid_flags user_flags" "PAGE_SIZE \<le> sz"
    "page_end (vma_range code_area) + sz div PAGE_SIZE \<le> 512 ^ depth (proc_address_space p)"
    "sz div PAGE_SIZE * depth (proc_address_space p) \<le> card (free_of (k_machine k))"
    "list_all (\<lambda>a. \<not> overlaps_with a (vma_new \<lparr>page_start = page_end (vma_range code_area),
       page_end = page_end (vma_range code_area) + sz div PAGE_SIZE\<rparr> Heap)) (memory_areas p)"
  shows "\<exists>k'. sys_map_user_heap ops user_flags sz k = Inr (vma_end code_area, k') \<and>
    (\<forall>addr. vma_end code_area \<le> addr \<and> addr < vma_end code_area + sz div PAGE_SIZE * PAGE_SIZE \<longrightarrow>
       (\<exists>pa. translate ops (proc_address_space p) addr (k_machine k') = Inr (Some pa)))"
proof -
  let ?e = "page_end (vma_range code_area)" and ?n = "sz div PAGE_SIZE" and ?a = "proc_address_space p"
  let ?pages = "\<lparr>page_start = ?e, page_end = ?e + ?n\<rparr>"
  have ve: "vma_end code_area = ?e * PAGE_SIZE" by (simp add: vma_end_def)
  have al: "align_up (vma_end code_area) PAGE_SIZE = vma_end code_area"
    unfolding ve align_up_def by (intro arg_cong[where f = "\<lambda>x. x * PAGE_SIZE"] div_nat_eqI) (simp_all add: PAGE_SIZE_def)
  have n: "0 < ?n" using assms(8) by (simp add: div_greater_zero_iff PAGE_SIZE_def)
  have md: "mode (\<lambda>_ _. True) True User (frame_range 0 0) ?pages" by (simp add: mode_def)
  from map_range_total[OF assms(1,5,6,7) _ _ md] n assms(9,10) obtain j m' where
    r: "map_in_table ops (depth ?a) (root_table ?a) (frame_range 0 0) ?pages User user_flags (k_machine k) = Inr (j, m')"
    and post: "map_post ops (\<lambda>_ _. True) True (depth ?a) (root_table ?a) ?e ?n (k_machine k) m'" by auto
  have mp: "map_pages ops ?a ?pages User user_flags (k_machine k) = Inr m'" using r by (simp add: map_pages_def)
  have fa: "vma_from_address (vma_end code_area) sz Heap = Inr (vma_new ?pages Heap)"
    by (simp add: vma_from_address_def ve vma_new_def PAGE_SIZE_def)
  have "find (\<lambda>area. overlaps_with area (vma_new ?pages Heap)) (memory_areas p) = None"
    using assms(11) by (simp add: find_None)
  then have av: "add_vma (vma_new ?pages Heap) p = Inr (p\<lparr>memory_areas := memory_areas p @ [vma_new ?pages Heap]\<rparr>)"
    by (simp add: add_vma_def)
  obtain pm where pm: "modify_process (pid p) (add_vma (vma_new ?pages Heap)) (k_processes k) = Inr pm"
    using assms(3) av by (simp add: modify_process_def)
  have run: "sys_map_user_heap ops user_flags sz k = Inr (vma_end code_area, k\<lparr>k_machine := m', k_processes := pm\<rparr>)"
    using assms(2,4) al fa mp pm by (simp add: sys_map_user_heap_def Let_def vma_new_def)
  from map_post_translate[OF post assms(6,9) n] obtain f where
    f: "\<forall>addr. addr div PAGE_SIZE \<in> {?e..<?e + ?n} \<longrightarrow>
        translate ops ?a addr m' = Inr (Some (f (addr div PAGE_SIZE) * PAGE_SIZE + addr mod PAGE_SIZE))" by auto
  have "\<exists>pa. translate ops ?a addr m' = Inr (Some pa)"
    if "vma_end code_area \<le> addr" "addr < vma_end code_area + ?n * PAGE_SIZE" for addr
  proof -
    have "?e \<le> addr div PAGE_SIZE" using that(1) unfolding ve by (simp add: less_eq_div_iff_mult_less_eq PAGE_SIZE_def)
    moreover have "addr div PAGE_SIZE < ?e + ?n"
      using that(2) unfolding ve by (intro less_mult_imp_div_less) (simp add: algebra_simps)
    ultimately show ?thesis using f by auto
  qed
  then show ?thesis using run by (intro exI[of _ "k\<lparr>k_machine := m', k_processes := pm\<rparr>"]) simp
qed


definition example_kernel :: "(u64, nat \<rightharpoonup> thread list) kernel" where
  "example_kernel = \<lparr>k_scheduler = example_state, k_processes = example_manager\<lparr>active_processes :=
       [(example_process 1)\<lparr>memory_areas := [example_area 512 514 Code]\<rparr>]\<rparr>,
     k_machine = example_machine, k_bytes = (\<lambda>_. 0), k_thread_counter = 5, k_timer = timer_new\<rparr>"

theorem user_heap_follows_code_witness:
  "\<exists>k'. sys_map_user_heap x86_entry_ops 7 9000 example_kernel = Inr (514 * PAGE_SIZE, k') \<and>
     (\<exists>pa. translate x86_entry_ops example_space (515 * PAGE_SIZE) (k_machine k') = Inr (Some pa))"
proof -
  let ?p = "(example_process 1)\<lparr>memory_areas := [example_area 512 514 Code]\<rparr>" and ?k = example_kernel
  have sp: "proc_address_space ?p = example_space" by (simp add: example_process_def)
  have h: "running_process ?k = Inr ?p" "find (\<lambda>q. pid q = pid ?p) (active_processes (k_processes ?k)) = Some ?p"
    "find_vma Code ?p = Some (example_area 512 514 Code)"
    by (simp_all add: running_process_def example_kernel_def kernel_process_def find_vma_def example_area_def vma_new_def)
  have g: "good x86_entry_ops (depth (proc_address_space ?p)) (root_table (proc_address_space ?p)) (k_machine ?k)"
    using example_space_good by (simp add: example_process_def example_kernel_def)
  have n: "PAGE_SIZE \<le> 9000" "page_end (vma_range (example_area 512 514 Code)) + 9000 div PAGE_SIZE \<le> 512 ^ depth (proc_address_space ?p)"
    "9000 div PAGE_SIZE * depth (proc_address_space ?p) \<le> card (free_of (k_machine ?k))" "0 < depth (proc_address_space ?p)"
    "list_all (\<lambda>a. \<not> overlaps_with a (vma_new \<lparr>page_start = page_end (vma_range (example_area 512 514 Code)),
       page_end = page_end (vma_range (example_area 512 514 Code)) + 9000 div PAGE_SIZE\<rparr> Heap)) (memory_areas ?p)"
    by (simp_all add: PAGE_SIZE_def example_process_def example_space_def example_area_def vma_new_def example_kernel_def example_free overlaps_with_def)
  have e: "vma_end (example_area 512 514 Code) = 514 * PAGE_SIZE" by (simp add: vma_end_def example_area_def vma_new_def)
  from user_heap_follows_code[OF x86.page_table_entry_axioms h g n(4) valid_7 n(1-3,5)] show ?thesis
    unfolding e sp by (auto simp: PAGE_SIZE_def)
qed

end
