(* ===== verification/Boot_Room.thy ===== *)
theory Boot_Room
  imports Boot Apic
begin

text \<open>
  How much memory boot takes. After the kernel process has been created, memory is still taken for page tables of device registers and for the stacks of kernel threads. \<open>roomy\<close> says that
  at most \<open>n\<close> frames of a set \<open>F\<close> are gone; the lemmas give the price of each step and show that it succeeds while there is room.
\<close>

section \<open>Room\<close>

definition roomy :: "('e, 'f) entry_ops \<Rightarrow> process_manager \<Rightarrow> nat set \<Rightarrow> nat \<Rightarrow> 'e machine \<Rightarrow> bool" where
  "roomy ops pm F n m \<longleftrightarrow>
     (\<exists>p. kernel_process pm = Some p \<and> depth (proc_address_space p) = 4 \<and> good ops 4 (root_table (proc_address_space p)) m) \<and>
     finite F \<and> 0 \<notin> F \<and> free_of m \<subseteq> F \<and> card F \<le> card (free_of m) + n"

lemma good_with_fewer_frames:
  assumes "good ops l t m" "wf_free (page_frame_allocator st)" "free_frames (page_frame_allocator st) \<subseteq> free_of m"
  shows "good ops l t (m\<lparr>frames_state := st\<rparr>) \<and> free_of (m\<lparr>frames_state := st\<rparr>) = free_frames (page_frame_allocator st)"
proof -
  have "walk ops l t p (m\<lparr>frames_state := st\<rparr>) = walk ops l t p m \<and> tabs ops l t (m\<lparr>frames_state := st\<rparr>) = tabs ops l t m \<and>
    wf_tab ops l t (m\<lparr>frames_state := st\<rparr>) = wf_tab ops l t m" for p by (rule agree_tab) simp
  then show ?thesis using assms by (auto simp: good_def wf_alloc_def free_of_def)
qed

text \<open>If few frames of a long interval have been taken, some part of it is still contiguous.\<close>

lemma contiguous_part:
  fixes F F' :: "nat set"
  assumes "{a..<a + Suc c * k} \<subseteq> F" "F' \<subseteq> F" "finite F" "card F \<le> card F' + c"
  shows "\<exists>h. {h..<h + k} \<subseteq> F'"
proof (rule ccontr)
  assume no: "\<nexists>h. {h..<h + k} \<subseteq> F'"
  define pick where "pick i = (SOME f. f \<in> {a + i * k..<a + i * k + k} - F')" for i
  have pick: "pick i \<in> {a + i * k..<a + i * k + k} - F'" for i
    unfolding pick_def by (rule someI_ex) (use no[rule_format] in blast)
  have "inj_on pick {..c}"
  proof (rule inj_onI)
    fix i j assume "pick i = pick j"
    then have "(pick i - a) div k = i" "(pick i - a) div k = j"
      using pick[of i] pick[of j] by (auto intro!: div_nat_eqI simp: algebra_simps)
    then show "i = j" by simp
  qed
  moreover have "pick ` {..c} \<subseteq> F - F'"
  proof
    fix f assume "f \<in> pick ` {..c}"
    then obtain i where i: "i \<le> c" "f = pick i" by auto
    have "i * k + k \<le> Suc c * k" using i(1) by (metis add.commute mult_Suc mult_le_mono1 Suc_le_mono)
    then have "pick i \<in> {a..<a + Suc c * k}" using pick[of i] by (simp del: mult_Suc)
    then show "f \<in> F - F'" using pick[of i] i(2) assms(1) by blast
  qed
  ultimately have "Suc c \<le> card (F - F')" using card_inj_on_le[of pick "{..c}" "F - F'"] assms(3) by simp
  then show False using assms(2-4) card_Diff_subset[of F' F] finite_subset[OF assms(2,3)] card_mono[OF assms(3,2)] by simp
qed


lemma spacious_is_roomy:
  assumes "spacious_boot ops F n b" "kernel_process (boot_manager b) = Some (boot_kernel b)" "finite F" "0 \<notin> F"
  shows "roomy ops (boot_manager b) F n (boot_machine b)"
  using assms by (auto simp: spacious_boot_def roomy_def)

text \<open>Mapping a page into the kernel's address space takes at most one table on each lower level.\<close>

lemma one_page_mapped:
  assumes ops: "page_table_entry ops valid_flags" and fl: "valid_flags fl" and room: "roomy ops pm F n m" "n + 3 \<le> card F" and i: "i < 512 ^ 4"
    and p: "kernel_process pm = Some p"
  shows "\<exists>m'. map_pages ops (proc_address_space p) \<lparr>page_start = i, page_end = i + 1\<rparr> Kernel fl m = Inr m' \<and> roomy ops pm F (n + 3) m'"
proof -
  let ?a = "proc_address_space p" and ?pages = "\<lparr>page_start = i, page_end = i + 1\<rparr>"
  have g: "good ops (Suc 3) (root_table ?a) m" "depth ?a = Suc 3" using room(1) p by (auto simp: roomy_def)
  have cost: "tables_for 3 i (i + 1) = 3" by (simp add: tables_for_def blocks_def)
  have "tables_for 3 i (i + 1) \<le> card (free_of m)" unfolding cost using room by (simp add: roomy_def)
  moreover have "page_end ?pages \<le> 512 ^ Suc 3" "page_end ?pages \<le> 2 ^ 40" using i by simp_all
  ultimately obtain m' where m': "map_pages ops ?a ?pages Kernel fl m = Inr m'" "good ops (Suc 3) (root_table ?a) m'"
    "map_post ops (\<lambda>p f. f = p) False (Suc 3) (root_table ?a) i 1 m m'" "card (free_of m) \<le> card (free_of m') + tables_for 3 i (i + 1)"
    using identity_map_total[OF ops g(1) fl _ _ _ refl g(2), of ?pages] by auto
  then show ?thesis using room(1) p g(2) cost by (auto simp: roomy_def map_post_def)
qed

lemma device_page_mapped:
  assumes "page_table_entry ops valid_flags" "valid_flags fl" "roomy ops pm F n m" "n + 3 \<le> card F" "a < 2 ^ 47" "a mod PAGE_SIZE = 0"
  shows "\<exists>m'. map_device_pages ops fl pm a 1 m = Inr m' \<and> roomy ops pm F (n + 3) m'"
proof -
  obtain p where p: "kernel_process pm = Some p" using assms(3) by (auto simp: roomy_def)
  have "a div PAGE_SIZE < 512 ^ 4" using assms(5) by (simp add: PAGE_SIZE_def less_mult_imp_div_less)
  from one_page_mapped[OF assms(1-4) this p] p assms(5,6) show ?thesis by (auto simp: map_device_pages_def canonical_address_def)
qed

text \<open>A kernel thread takes the frames of its stack, which have to be contiguous.\<close>

lemma kernel_thread_created:
  assumes room: "roomy ops pm F n m" and interval: "{a..<a + Suc n * KERNEL_STACK_PAGES} \<subseteq> F"
  shows "\<exists>th m'. new_kernel_thread kickoff entry pm (counter, m) = Inr (th, counter + 1, m') \<and> roomy ops pm F (n + KERNEL_STACK_PAGES) m'"
proof -
  let ?st = "frames_state m"
  have F: "finite F" "free_of m \<subseteq> F" "card F \<le> card (free_of m) + n" "0 \<notin> F" using room by (simp_all add: roomy_def)
  have wf: "wf_free (page_frame_allocator ?st)" using room by (auto simp: roomy_def good_def wf_alloc_def)
  obtain h where "{h..<h + KERNEL_STACK_PAGES} \<subseteq> free_of m" using contiguous_part[OF interval F(2,1,3)] by blast
  then obtain r st' where r: "phys_alloc KERNEL_STACK_PAGES ?st = Inr (r, st')" "wf_free (page_frame_allocator st')" "range_end r = range_start r + KERNEL_STACK_PAGES"
    "range_frames r \<subseteq> free_of m" "free_frames (page_frame_allocator st') = free_of m - range_frames r"
    using heap_allocated[OF wf, of h KERNEL_STACK_PAGES] by (auto simp: free_of_def KERNEL_STACK_PAGES_def)
  let ?m = "m\<lparr>frames_state := st'\<rparr>"
  have zero: "range_start r \<noteq> 0"
  proof
    assume "range_start r = 0"
    then have "0 \<in> free_of m" using r(3,4) by (auto simp: range_frames_def KERNEL_STACK_PAGES_def)
    then show False using F(2,4) by blast
  qed
  obtain p where p: "kernel_process pm = Some p" "depth (proc_address_space p) = 4" "good ops 4 (root_table (proc_address_space p)) m"
    using room by (auto simp: roomy_def)
  have free: "good ops 4 (root_table (proc_address_space p)) ?m" "free_of ?m = free_of m - range_frames r"
    using good_with_fewer_frames[OF p(3) r(2)] r(5) by auto
  have "card (range_frames r) = KERNEL_STACK_PAGES" using r(3) by (simp add: range_frames_def)
  then have "card (free_of m) = card (free_of ?m) + KERNEL_STACK_PAGES"
    using r(4) card_mono[OF finite_free r(4)] by (simp add: free(2) card_Diff_subset range_frames_def)
  then have "roomy ops pm F (n + KERNEL_STACK_PAGES) ?m" using p F free by (auto simp: roomy_def)
  moreover have "\<exists>st. prepare_kernel_stack kickoff (stacks_new (of_nat (range_start r * PAGE_SIZE), KERNEL_STACK_WORDS) (8, 0)) = Inr st"
    by (rule exI, rule new_kernel_stack) (simp_all add: stacks_new_def KERNEL_STACK_WORDS_def KERNEL_STACK_PAGES_def PAGE_SIZE_def)
  moreover have "vec_with_capacity KERNEL_STACK_WORDS m = Inr ((of_nat (range_start r * PAGE_SIZE), KERNEL_STACK_WORDS), ?m)"
    using r(1,3) zero by (simp add: vec_with_capacity_def stack_allocate_def KERNEL_STACK_WORDS_def KERNEL_STACK_PAGES_def PAGE_SIZE_def Let_def)
  moreover have "vec_with_capacity 0 ?m = Inr ((8, 0), ?m)" by (simp add: vec_with_capacity_def)
  ultimately show ?thesis using p(1) by (auto simp: new_kernel_thread_def)
qed

end
