(* ===== verification/Ihda_Scan.thy ===== *)
theory Ihda_Scan
  imports Ihda_Controller
begin

text \<open>
  The scan for codecs, function groups and widgets. \<open>answering_card\<close> is what the driver relies on: every immediate command is answered
  in time, by a function of the command word, and WAKESTS does not change. Under this contract the scan returns from every state
  with the same outcome, and its result is exactly what the codecs answer. The contract holds for a card that needs up to 100 polls
  for an answer.
\<close>

unbundle bit_operations_syntax

section \<open>Outcomes of driver routines\<close>

text \<open>From every state in \<open>I\<close> the routine ends with the outcome \<open>r\<close>, and a normal return keeps \<open>I\<close>.\<close>

definition yields :: "('s \<Rightarrow> bool) \<Rightarrow> ('s, 'a) drv \<Rightarrow> 'a result \<Rightarrow> bool" where
  "yields I m r \<longleftrightarrow> (\<forall>s. I s \<longrightarrow> (case r of
      Inl p \<Rightarrow> m s = Some (Inl p)
    | Inr x \<Rightarrow> (\<exists>s'. m s = Some (Inr (x, s')) \<and> I s')))"

definition settles :: "('s \<Rightarrow> bool) \<Rightarrow> ('s, 'a) drv \<Rightarrow> ('a \<Rightarrow> bool) \<Rightarrow> bool" where
  "settles I m Q \<longleftrightarrow> (\<exists>r. yields I m r \<and> (\<forall>x. r = Inr x \<longrightarrow> Q x))"

section \<open>The answers of the codecs\<close>

definition respond :: "(u32 \<Rightarrow> u32) \<Rightarrow> command \<Rightarrow> response result" where
  "respond ans cmd = and_then (command_as_u32 cmd) (\<lambda>w. response_new (ans w) cmd)"

definition answer :: "(u32 \<Rightarrow> u32) \<Rightarrow> (response \<Rightarrow> response + 'a) \<Rightarrow> command \<Rightarrow> 'a result" where
  "answer ans try cmd = and_then (respond ans cmd) (\<lambda>r. case try r of Inr x \<Rightarrow> Inr x | Inl _ \<Rightarrow> Inl Unwrap_None)"

definition amp_answer :: "(u32 \<Rightarrow> u32) \<Rightarrow> node_address \<Rightarrow> parameter \<Rightarrow> amp_capabilities_response result" where
  "amp_answer ans a p = answer ans amp_capabilities_response_try_from (GetParameter a p)"

text \<open>The node numbers below a node, as its answer tells them.\<close>

definition subnodes :: "(u32 \<Rightarrow> u32) \<Rightarrow> node_address \<Rightarrow> nat list" where
  "subnodes ans a =
     (case answer ans subordinate_node_count_response_try_from (GetParameter a P_SubordinateNodeCount) of
        Inl _ \<Rightarrow> []
      | Inr n \<Rightarrow> [unat (snc_starting_node_number n)..<unat (snc_starting_node_number n) + unat (snc_total_number_of_nodes n)])"

text \<open>Widgets, function groups and codecs that repeat the answers.\<close>

fun info_matches :: "(u32 \<Rightarrow> u32) \<Rightarrow> node_address \<Rightarrow> widget_info_container \<Rightarrow> widget_type \<Rightarrow> bool" where
  "info_matches ans a (AudioOutputConverter rates formats out_amp pwr processing) ty \<longleftrightarrow>
     ty = WT_AudioOutput \<and>
     answer ans sample_size_rate_caps_response_try_from (GetParameter a P_SampleSizeRateCAPs) = Inr rates \<and>
     answer ans supported_stream_formats_response_try_from (GetParameter a P_SupportedStreamFormats) = Inr formats \<and>
     amp_answer ans a P_OutputAmpCapabilities = Inr out_amp \<and>
     answer ans supported_power_states_response_try_from (GetParameter a P_SupportedPowerStates) = Inr pwr \<and>
     answer ans processing_capabilities_response_try_from (GetParameter a P_ProcessingCapabilities) = Inr processing"
| "info_matches ans a (AudioInputConverter rates formats in_amp len pwr processing) ty \<longleftrightarrow>
     ty = WT_AudioInput \<and>
     answer ans sample_size_rate_caps_response_try_from (GetParameter a P_SampleSizeRateCAPs) = Inr rates \<and>
     answer ans supported_stream_formats_response_try_from (GetParameter a P_SupportedStreamFormats) = Inr formats \<and>
     amp_answer ans a P_InputAmpCapabilities = Inr in_amp \<and>
     answer ans connection_list_length_response_try_from (GetParameter a P_ConnectionListLength) = Inr len \<and>
     answer ans supported_power_states_response_try_from (GetParameter a P_SupportedPowerStates) = Inr pwr \<and>
     answer ans processing_capabilities_response_try_from (GetParameter a P_ProcessingCapabilities) = Inr processing"
| "info_matches ans a (Mixer in_amp out_amp len pwr processing connections) ty \<longleftrightarrow>
     ty = WT_AudioMixer \<and>
     amp_answer ans a P_InputAmpCapabilities = Inr in_amp \<and>
     amp_answer ans a P_OutputAmpCapabilities = Inr out_amp \<and>
     answer ans connection_list_length_response_try_from (GetParameter a P_ConnectionListLength) = Inr len \<and>
     answer ans supported_power_states_response_try_from (GetParameter a P_SupportedPowerStates) = Inr pwr \<and>
     answer ans processing_capabilities_response_try_from (GetParameter a P_ProcessingCapabilities) = Inr processing \<and>
     answer ans connection_list_entry_response_try_from (GetConnectionListEntry a \<lparr>gcl_offset = 0\<rparr>) = Inr connections"
| "info_matches ans a (PinComplex pin in_amp out_amp len pwr processing config connections) ty \<longleftrightarrow>
     ty = WT_PinComplex \<and>
     answer ans pin_capabilities_response_try_from (GetParameter a P_PinCapabilities) = Inr pin \<and>
     amp_answer ans a P_InputAmpCapabilities = Inr in_amp \<and>
     amp_answer ans a P_OutputAmpCapabilities = Inr out_amp \<and>
     answer ans connection_list_length_response_try_from (GetParameter a P_ConnectionListLength) = Inr len \<and>
     answer ans supported_power_states_response_try_from (GetParameter a P_SupportedPowerStates) = Inr pwr \<and>
     answer ans processing_capabilities_response_try_from (GetParameter a P_ProcessingCapabilities) = Inr processing \<and>
     answer ans configuration_default_response_try_from (GetConfigurationDefault a) = Inr config \<and>
     answer ans connection_list_entry_response_try_from (GetConnectionListEntry a \<lparr>gcl_offset = 0\<rparr>) = Inr connections"
| "info_matches ans a Selector ty \<longleftrightarrow> ty = WT_AudioSelector"
| "info_matches ans a Power ty \<longleftrightarrow> ty = WT_PowerWidget"
| "info_matches ans a VolumeKnob ty \<longleftrightarrow> ty = WT_VolumeKnobWidget"
| "info_matches ans a BeepGenerator ty \<longleftrightarrow> ty = WT_BeepGeneratorWidget"
| "info_matches ans a VendorDefined ty \<longleftrightarrow> ty = WT_VendorDefinedAudioWidget"

definition widget_matches :: "(u32 \<Rightarrow> u32) \<Rightarrow> widget \<Rightarrow> bool" where
  "widget_matches ans w \<longleftrightarrow>
     answer ans audio_widget_caps_response_try_from (GetParameter (wid_address w) P_AudioWidgetCapabilities) =
       Inr (wid_audio_widget_capabilities w) \<and>
     info_matches ans (wid_address w) (wid_widget_info w) (awc_widget_type (wid_audio_widget_capabilities w))"

text \<open>The nodes of a list belong to a codec and have the expected numbers, in order.\<close>

definition nodes_are :: "codec_address \<Rightarrow> nat list \<Rightarrow> node_address list \<Rightarrow> bool" where
  "nodes_are ca ns as \<longleftrightarrow> list_all (\<lambda>a. na_codec_address a = ca) as \<and> map (\<lambda>a. unat (na_node_id a)) as = ns"

definition group_matches :: "(u32 \<Rightarrow> u32) \<Rightarrow> function_group \<Rightarrow> bool" where
  "group_matches ans fg \<longleftrightarrow>
     answer ans function_group_type_response_try_from (GetParameter (fg_node_address fg) P_FunctionGroupType) = Inr (fg_type fg) \<and>
     answer ans audio_function_group_caps_response_try_from (GetParameter (fg_node_address fg) P_AudioFunctionGroupCapabilities) =
       Inr (fg_audio_function_group_caps fg) \<and>
     answer ans sample_size_rate_caps_response_try_from (GetParameter (fg_node_address fg) P_SampleSizeRateCAPs) =
       Inr (fg_sample_size_rate_caps fg) \<and>
     answer ans supported_stream_formats_response_try_from (GetParameter (fg_node_address fg) P_SupportedStreamFormats) =
       Inr (fg_supported_stream_formats fg) \<and>
     amp_answer ans (fg_node_address fg) P_InputAmpCapabilities = Inr (fg_input_amp_caps fg) \<and>
     amp_answer ans (fg_node_address fg) P_OutputAmpCapabilities = Inr (fg_output_amp_caps fg) \<and>
     answer ans supported_power_states_response_try_from (GetParameter (fg_node_address fg) P_SupportedPowerStates) =
       Inr (fg_supported_power_states fg) \<and>
     answer ans gpio_count_response_try_from (GetParameter (fg_node_address fg) P_GPIOCount) = Inr (fg_gpio_count fg) \<and>
     nodes_are (na_codec_address (fg_node_address fg)) (subnodes ans (fg_node_address fg)) (map wid_address (fg_widgets fg)) \<and>
     list_all (widget_matches ans) (fg_widgets fg)"

definition root_node :: "codec_address \<Rightarrow> node_address" where
  "root_node ca = \<lparr>na_codec_address = ca, na_node_id = 0\<rparr>"

definition codec_matches :: "(u32 \<Rightarrow> u32) \<Rightarrow> codec \<Rightarrow> bool" where
  "codec_matches ans cod \<longleftrightarrow>
     answer ans vendor_id_response_try_from (GetParameter (root_node (cod_address cod)) P_VendorId) = Inr (cod_vendor_id cod) \<and>
     answer ans revision_id_response_try_from (GetParameter (root_node (cod_address cod)) P_RevisionId) = Inr (cod_revision_id cod) \<and>
     nodes_are (cod_address cod) (subnodes ans (root_node (cod_address cod))) (map fg_node_address (cod_function_groups cod)) \<and>
     list_all (group_matches ans) (cod_function_groups cod)"

section \<open>The exchange of a command for an answer\<close>

definition exchange :: "'s hw \<Rightarrow> controller \<Rightarrow> u32 \<Rightarrow> ('s, u32) drv" where
  "exchange hw c w =
     seq (reg_write hw (icoi c) w) (\<lambda>_.
     seq (set_immediate_command_busy_bit hw c) (\<lambda>_.
     seq (await hw (icsts c) 1 True IMMEDIATE_COMMAND_TIMEOUT_IN_MS) (\<lambda>_. read_response_from_icii hw c)))"

text \<open>A card that takes some polls for each answer; each reading of the timer takes a millisecond.\<close>

record polled_card =
  pc_command :: u32
  pc_pending :: nat
  pc_clock :: nat

definition polled_hw :: "nat \<Rightarrow> (u32 \<Rightarrow> u32) \<Rightarrow> u16 \<Rightarrow> polled_card hw" where
  "polled_hw latency ans wake =
     \<lparr>hw_read = (\<lambda>a w s.
        if a = 0x68 then (if pc_pending s = 0 then (0b10, s) else (0b01, s\<lparr>pc_pending := pc_pending s - 1\<rparr>))
        else if a = 0x64 then (ucast (ans (pc_command s)), s)
        else if a = 0xe then (ucast wake, s)
        else (0, s)),
      hw_write = (\<lambda>a w v s.
        if a = 0x60 then s\<lparr>pc_command := ucast v\<rparr>
        else if a = 0x68 \<and> bit v 0 then s\<lparr>pc_pending := min latency 100\<rparr>
        else s),
      hw_time = (\<lambda>s. (pc_clock s, s\<lparr>pc_clock := Suc (pc_clock s)\<rparr>))\<rparr>"

section \<open>Rules\<close>

named_theorems settles_rules \<open>outcomes of driver routines\<close>

lemma seq_simps [simp]:
  "m s = None \<Longrightarrow> seq m f s = None"
  "m s = Some (Inl p) \<Longrightarrow> seq m f s = Some (Inl p)"
  "m s = Some (Inr (x, s')) \<Longrightarrow> seq m f s = f x s'"
  by (simp_all add: seq_def)

lemma yieldsI:
  assumes "\<And>s. I s \<Longrightarrow> \<exists>s'. m s = Some (Inr (x, s')) \<and> I s'"
  shows "yields I m (Inr x)"
  using assms by (auto simp: yields_def)

lemma yields_seq:
  assumes "yields I m r" and "\<And>x. r = Inr x \<Longrightarrow> yields I (f x) (g x)"
  shows "yields I (seq m f) (and_then r g)"
proof (cases r)
  case (Inl p)
  with assms(1) show ?thesis by (auto simp: yields_def)
next
  case (Inr x)
  have "\<exists>s'. m s = Some (Inr (x, s')) \<and> I s'" if "I s" for s
    using assms(1) Inr that by (auto simp: yields_def)
  moreover have "yields I (f x) (g x)" using assms(2) Inr .
  ultimately show ?thesis using Inr
    by (fastforce simp: yields_def split: sum.splits)
qed

lemma settlesI: "yields I m r \<Longrightarrow> (\<And>x. r = Inr x \<Longrightarrow> Q x) \<Longrightarrow> settles I m Q"
  by (auto simp: settles_def)

lemma settles_ret [settles_rules]: "Q x \<Longrightarrow> settles I (ret x) Q"
  by (rule settlesI[of I _ "Inr x"]) (auto simp: yields_def ret_def)

lemma settles_lift: "settles I (lift r) (\<lambda>x. r = Inr x)"
  by (rule settlesI[of I _ r]) (auto simp: yields_def lift_def and_then_def split: sum.splits)

lemma settles_seq:
  assumes "settles I m Q" and "\<And>x. Q x \<Longrightarrow> settles I (f x) R"
  shows "settles I (seq m f) R"
proof -
  from assms(1) obtain r where r: "yields I m r" "\<And>x. r = Inr x \<Longrightarrow> Q x" by (auto simp: settles_def)
  show ?thesis
  proof (cases r)
    case (Inl p)
    with r(1) have "yields I (seq m f) (Inl p)" by (auto simp: yields_def)
    then show ?thesis by (rule settlesI) simp
  next
    case (Inr x)
    from assms(2)[OF r(2)[OF Inr]] obtain r' where r': "yields I (f x) r'" "\<And>y. r' = Inr y \<Longrightarrow> R y"
      by (auto simp: settles_def)
    have "yields I (seq m f) (and_then r (\<lambda>_. r'))"
      using r(1) by (rule yields_seq) (use Inr r'(1) in auto)
    with Inr r'(2) show ?thesis by (auto intro: settlesI)
  qed
qed

lemma settles_mono: "settles I m Q \<Longrightarrow> (\<And>x. Q x \<Longrightarrow> R x) \<Longrightarrow> settles I m R"
  by (auto simp: settles_def)

lemma settles_for_each:
  assumes "\<And>x. x \<in> set xs \<Longrightarrow> settles I (f x) (Q x)"
  shows "settles I (for_each f xs) (list_all2 Q xs)"
  using assms
proof (induction xs)
  case (Cons x xs)
  show ?case unfolding for_each.simps
  proof (rule settles_seq[OF Cons.prems])
    fix y assume y: "Q x y"
    have "settles I (for_each f xs) (list_all2 Q xs)" using Cons by auto
    then show "settles I (seq (for_each f xs) (\<lambda>ys. ret (y # ys))) (list_all2 Q (x # xs))"
      by (rule settles_seq) (auto simp: y intro: settles_ret)
  qed simp
qed (simp add: settles_ret)

lemma nodes_of_scan:
  assumes "list_all2 (\<lambda>n x. f x = \<lparr>na_codec_address = ca, na_node_id = n\<rparr> \<and> P x) ns xs"
  shows "nodes_are ca (map unat ns) (map f xs) \<and> list_all P xs"
  using assms by (induction rule: list_all2_induct) (auto simp: nodes_are_def)

lemma found_codecs:
  assumes "list_all2 (\<lambda>n x. case x of None \<Rightarrow> \<not> B n | Some y \<Rightarrow> B n \<and> f y = n \<and> P y) ns xs"
  shows "map f (List.map_filter id xs) = filter B ns \<and> list_all P (List.map_filter id xs)"
  using assms by (induction rule: list_all2_induct) (auto split: option.splits)

section \<open>The contract of the card\<close>

locale answering_card =
  fixes hw :: "'s hw" and c :: controller and I :: "'s \<Rightarrow> bool" and ans :: "u32 \<Rightarrow> u32" and wake :: u16
  assumes answers: "yields I (exchange hw c w) (Inr (ans w))"
    and wake_status: "yields I (reg_read hw (wakests c)) (Inr (ucast wake))"
    and wake_width: "reg_width (wakests c) = 2"
begin

lemma immediate_command_yields: "yields I (immediate_command hw c cmd) (respond ans cmd)"
proof (cases "command_as_u32 cmd")
  case (Inl p)
  then show ?thesis
    by (simp add: respond_def immediate_command_def write_command_to_icoi_def yields_def lift_def)
next
  case (Inr w)
  have "immediate_command hw c cmd = seq (exchange hw c w) (\<lambda>raw. lift (response_new raw cmd))"
    by (rule ext)
       (simp add: immediate_command_def write_command_to_icoi_def exchange_def seq_def lift_def Inr split: option.splits sum.splits prod.splits)
  moreover have "yields I (lift (response_new (ans w) cmd)) (response_new (ans w) cmd)"
    by (auto simp: yields_def lift_def split: sum.splits)
  ultimately show ?thesis
    using yields_seq[OF answers[of w], of "\<lambda>raw. lift (response_new raw cmd)" "\<lambda>raw. response_new raw cmd"]
    by (simp add: respond_def Inr)
qed

lemma ask_settles: "settles I (ask hw c try cmd) (\<lambda>x. answer ans try cmd = Inr x)"
proof (rule settlesI)
  show "yields I (ask hw c try cmd) (answer ans try cmd)"
    unfolding ask_def answer_def
    by (rule yields_seq[OF immediate_command_yields]) (auto simp: yields_def ret_def halt_def split: sum.splits)
qed

lemma amp_caps_settles: "settles I (amp_caps_of hw c a p) (\<lambda>x. amp_answer ans a p = Inr x)"
  unfolding amp_caps_of_def amp_answer_def by (rule ask_settles)

lemma scan_output_converter_settles: "settles I (scan_output_converter hw c a) (\<lambda>info. info_matches ans a info WT_AudioOutput)"
  unfolding scan_output_converter_def
  by ((rule settles_seq, rule ask_settles amp_caps_settles)+, rule settles_ret) simp

lemma scan_input_converter_settles: "settles I (scan_input_converter hw c a) (\<lambda>info. info_matches ans a info WT_AudioInput)"
  unfolding scan_input_converter_def
  by ((rule settles_seq, rule ask_settles amp_caps_settles)+, rule settles_ret) simp

lemma scan_mixer_settles: "settles I (scan_mixer hw c a) (\<lambda>info. info_matches ans a info WT_AudioMixer)"
  unfolding scan_mixer_def first_connections_def
  by ((rule settles_seq, rule ask_settles amp_caps_settles)+, rule settles_ret) simp

lemma scan_pin_settles: "settles I (scan_pin hw c a) (\<lambda>info. info_matches ans a info WT_PinComplex)"
  unfolding scan_pin_def first_connections_def
  by ((rule settles_seq, rule ask_settles amp_caps_settles)+, rule settles_ret) simp

lemmas scan_info_settles = scan_output_converter_settles scan_input_converter_settles scan_mixer_settles scan_pin_settles

lemma scan_widget_info_settles: "settles I (scan_widget_info hw c a ty) (\<lambda>info. info_matches ans a info ty)"
  by (cases ty) (simp_all add: scan_widget_info_def scan_info_settles settles_ret)

lemma scan_widget_settles:
  "settles I (scan_widget hw c ca n) (\<lambda>w. wid_address w = \<lparr>na_codec_address = ca, na_node_id = n\<rparr> \<and> widget_matches ans w)"
  unfolding scan_widget_def
proof (rule settles_seq[OF settles_lift])
  fix a assume "node_address_new ca n = Inr a"
  then have a: "a = \<lparr>na_codec_address = ca, na_node_id = n\<rparr>" by (simp add: node_address_new_def split: if_splits)
  show "settles I (seq (ask hw c audio_widget_caps_response_try_from (GetParameter a P_AudioWidgetCapabilities)) (\<lambda>caps.
      seq (scan_widget_info hw c a (awc_widget_type caps)) (\<lambda>info.
        ret \<lparr>wid_address = a, wid_audio_widget_capabilities = caps, wid_widget_info = info\<rparr>)))
      (\<lambda>w. wid_address w = \<lparr>na_codec_address = ca, na_node_id = n\<rparr> \<and> widget_matches ans w)"
    by (rule settles_seq, rule ask_settles, rule settles_seq, rule scan_widget_info_settles, rule settles_ret)
       (simp add: a widget_matches_def)
qed

lemma subordinate_nodes_settles: "settles I (subordinate_nodes hw c a) (\<lambda>ns. map unat ns = subnodes ans a)"
  unfolding subordinate_nodes_def
proof (rule settles_seq[OF ask_settles], rule settles_seq[OF settles_lift], rule settles_ret)
  fix count stop
  assume count: "answer ans subordinate_node_count_response_try_from (GetParameter a P_SubordinateNodeCount) = Inr count"
    and stop: "u8_add (snc_starting_node_number count) (snc_total_number_of_nodes count) = Inr stop"
  then have u: "unat stop = unat (snc_starting_node_number count) + unat (snc_total_number_of_nodes count)" "unat stop < 256"
    using unsigned_less[of stop, where ?'a = nat]
    by (auto simp: u8_add_def unat_word_ariths split: if_splits)
  have "unat (of_nat x :: u8) = x" if "x < unat stop" for x
    using that u(2) by (simp add: unat_of_nat)
  then show "map unat (map (of_nat :: nat \<Rightarrow> u8) [unat (snc_starting_node_number count)..<unat stop]) = subnodes ans a"
    using u(1) by (auto simp: subnodes_def count intro: map_idI)
qed

lemma scan_widgets_settles:
  "settles I (scan_function_group_for_available_widgets hw c a)
     (\<lambda>ws. nodes_are (na_codec_address a) (subnodes ans a) (map wid_address ws) \<and> list_all (widget_matches ans) ws)"
  unfolding scan_function_group_for_available_widgets_def
proof (rule settles_seq[OF subordinate_nodes_settles])
  fix ns :: "u8 list" assume ns: "map unat ns = subnodes ans a"
  have "settles I (for_each (scan_widget hw c (na_codec_address a)) ns)
    (list_all2 (\<lambda>n w. wid_address w = \<lparr>na_codec_address = na_codec_address a, na_node_id = n\<rparr> \<and> widget_matches ans w) ns)"
    by (rule settles_for_each) (rule scan_widget_settles)
  then show "settles I (for_each (scan_widget hw c (na_codec_address a)) ns)
    (\<lambda>ws. nodes_are (na_codec_address a) (subnodes ans a) (map wid_address ws) \<and> list_all (widget_matches ans) ws)"
    unfolding ns[symmetric] by (rule settles_mono) (rule nodes_of_scan)
qed

lemma scan_function_group_settles:
  "settles I (scan_function_group hw c ca n)
     (\<lambda>fg. fg_node_address fg = \<lparr>na_codec_address = ca, na_node_id = n\<rparr> \<and> group_matches ans fg)"
  unfolding scan_function_group_def
proof (rule settles_seq[OF settles_lift], goal_cases)
  case (1 a)
  then have a: "a = \<lparr>na_codec_address = ca, na_node_id = n\<rparr>" by (simp add: node_address_new_def split: if_splits)
  show ?case
    by ((rule settles_seq, rule ask_settles amp_caps_settles)+, rule settles_seq, rule scan_widgets_settles, rule settles_ret)
       (simp add: a group_matches_def)
qed

lemma scan_groups_settles:
  "settles I (scan_codec_for_available_function_groups hw c a)
     (\<lambda>fgs. nodes_are (na_codec_address a) (subnodes ans a) (map fg_node_address fgs) \<and> list_all (group_matches ans) fgs)"
  unfolding scan_codec_for_available_function_groups_def
proof (rule settles_seq[OF subordinate_nodes_settles])
  fix ns :: "u8 list" assume ns: "map unat ns = subnodes ans a"
  have "settles I (for_each (scan_function_group hw c (na_codec_address a)) ns)
    (list_all2 (\<lambda>n fg. fg_node_address fg = \<lparr>na_codec_address = na_codec_address a, na_node_id = n\<rparr> \<and> group_matches ans fg) ns)"
    by (rule settles_for_each) (rule scan_function_group_settles)
  then show "settles I (for_each (scan_function_group hw c (na_codec_address a)) ns)
    (\<lambda>fgs. nodes_are (na_codec_address a) (subnodes ans a) (map fg_node_address fgs) \<and> list_all (group_matches ans) fgs)"
    unfolding ns[symmetric] by (rule settles_mono) (rule nodes_of_scan)
qed

lemma wake_bit_settles:
  assumes "n < 16"
  shows "settles I (reg_is_set hw (wakests c) n) (\<lambda>b. b = bit wake n)"
proof -
  have "(ucast wake :: u32) AND push_bit n 1 \<noteq> 0 \<longleftrightarrow> bit wake n"
  proof -
    have "(ucast wake :: u32) AND push_bit n 1 = push_bit n (of_bool (bit wake n))"
      using assms by (intro bit_eqI) (auto simp: bit_simps)
    moreover have "push_bit n (1 :: u32) \<noteq> 0" using assms by (simp add: push_bit_eq_mult)
    ultimately show ?thesis by (cases "bit wake n") auto
  qed
  moreover have "reg_mask (wakests c) n = Inr (push_bit n 1)" using assms by (simp add: reg_mask_def wake_width)
  moreover have "settles I (reg_read hw (wakests c)) (\<lambda>v. v = ucast wake)"
    using wake_status by (rule settlesI) simp
  ultimately show ?thesis unfolding reg_is_set_def
    by (elim settles_seq) (auto intro!: settles_seq[OF settles_lift settles_ret])
qed

lemma scan_codec_settles:
  assumes "n < MAX_AMOUNT_OF_CODECS"
  shows "settles I (scan_codec hw c n) (\<lambda>x. case x of
      None \<Rightarrow> \<not> bit wake (unat n)
    | Some cod \<Rightarrow> bit wake (unat n) \<and> codec_addr (cod_address cod) = n \<and> codec_matches ans cod)"
  unfolding scan_codec_def
proof (rule settles_seq[OF wake_bit_settles], goal_cases)
  case 1
  show ?case using assms by (simp add: MAX_AMOUNT_OF_CODECS_def word_less_nat_alt)
next
  case (2 present)
  show ?case
  proof (cases present)
    case False
    with 2 show ?thesis by (auto intro: settles_ret)
  next
    case True
    have new: "codec_address_new n = Inr \<lparr>codec_addr = n\<rparr>" "node_address_new \<lparr>codec_addr = n\<rparr> 0 = Inr (root_node \<lparr>codec_addr = n\<rparr>)"
      using assms by (simp_all add: codec_address_new_def node_address_new_def root_node_def)
    from True show ?thesis
      apply simp
      apply (rule settles_seq[OF settles_lift])
      apply (rule settles_seq[OF settles_lift])
      apply (rule settles_seq, rule ask_settles)+
      apply (rule settles_seq, rule scan_groups_settles, rule settles_ret)
      using 2 new by (auto simp: codec_matches_def root_node_def)
  qed
qed

lemma scan_settles:
  "settles I (scan_for_available_codecs hw c) (\<lambda>cods.
     map (\<lambda>cod. unat (codec_addr (cod_address cod))) cods = filter (bit wake) [0..<15] \<and> list_all (codec_matches ans) cods)"
  unfolding scan_for_available_codecs_def
proof (rule settles_seq[OF settles_for_each], rule scan_codec_settles, goal_cases)
  case (1 n)
  then show ?case by (auto simp: MAX_AMOUNT_OF_CODECS_def word_less_nat_alt unat_of_nat)
next
  case (2 found)
  then have *: "list_all2 (\<lambda>n x. case x of None \<Rightarrow> \<not> bit wake (unat n)
      | Some cod \<Rightarrow> bit wake (unat n) \<and> codec_addr (cod_address cod) = n \<and> codec_matches ans cod)
    (map of_nat [0..<unat MAX_AMOUNT_OF_CODECS]) found" .
  have "map (\<lambda>cod. unat (codec_addr (cod_address cod))) (List.map_filter id found) =
     map unat (filter (\<lambda>n. bit wake (unat n)) (map (of_nat :: nat \<Rightarrow> u8) [0..<15]))"
    using arg_cong[OF conjunct1[OF found_codecs[OF *]], of "map unat"] by (simp add: MAX_AMOUNT_OF_CODECS_def o_def)
  also have "\<dots> = filter (bit wake) (map unat (map (of_nat :: nat \<Rightarrow> u8) [0..<15]))"
    by (simp only: filter_map o_def)
  also have "map unat (map (of_nat :: nat \<Rightarrow> u8) [0..<15]) = [0..<15]"
    by (auto simp: unat_of_nat intro!: map_idI)
  finally show ?case using found_codecs[OF *] by (intro settles_ret) (simp add: id_def)
qed

end

section \<open>A card that keeps the contract\<close>

lemma bus_words [simp]:
  "ucast (take_bit 32 (ucast (w :: u32) :: u128)) = w"
  "(ucast (take_bit 16 (ucast (v :: u16) :: u128)) :: u32) = ucast v"
  by (rule bit_eqI; auto simp: bit_simps dest: bit_imp_le_length)+

lemma polled_bit:
  "reg_is_set (polled_hw latency ans wake) (reg_at 0x68 2) 1 s =
     Some (Inr (pc_pending s = 0, s\<lparr>pc_pending := pc_pending s - 1\<rparr>))"
  by (simp add: reg_is_set_def reg_read_def bus_read_def reg_mask_def polled_hw_def reg_at_def seq_def ret_def lift_def)

lemma polled_wait:
  assumes "pc_clock s + pc_pending s \<le> limit + 1"
  shows "poll (polled_hw latency ans wake) (reg_at 0x68 2) 1 True limit s =
    Some (Inr ((), s\<lparr>pc_pending := 0, pc_clock := pc_clock s + pc_pending s\<rparr>))"
  using assms
proof (induction "pc_pending s" arbitrary: s)
  case 0
  then show ?case by (subst poll.simps) (simp add: polled_bit[simplified])
next
  case (Suc n)
  let ?s = "s\<lparr>pc_pending := n, pc_clock := Suc (pc_clock s)\<rparr>"
  have "poll (polled_hw latency ans wake) (reg_at 0x68 2) 1 True limit ?s =
    Some (Inr ((), ?s\<lparr>pc_pending := 0, pc_clock := pc_clock ?s + n\<rparr>))"
    using Suc.hyps(1)[of ?s] Suc.prems Suc.hyps(2) by simp
  with Suc.prems Suc.hyps(2)[symmetric] show ?case
    by (subst poll.simps) (simp add: polled_bit[simplified], simp add: polled_hw_def)
qed

lemma polled_exchange:
  assumes "pc_pending s = 0"
  shows "\<exists>s'. exchange (polled_hw latency ans wake) (controller_registers 0 i j k) w s = Some (Inr (ans w, s')) \<and> pc_pending s' = 0"
proof -
  let ?hw = "polled_hw latency ans wake"
  let ?s1 = "s\<lparr>pc_command := w\<rparr>"
  let ?s2 = "?s1\<lparr>pc_pending := min latency 100\<rparr>"
  let ?s3 = "?s2\<lparr>pc_clock := Suc (pc_clock s)\<rparr>"
  let ?s4 = "?s3\<lparr>pc_pending := 0, pc_clock := pc_clock ?s3 + pc_pending ?s3\<rparr>"
  have "reg_write ?hw (reg_at 0x60 4) w s = Some (Inr ((), ?s1))"
    by (simp add: reg_write_def bus_write_def polled_hw_def reg_at_def)
  moreover have "reg_set_bit ?hw (reg_at 0x68 2) 0 ?s1 = Some (Inr ((), ?s2))"
    using assms by (simp add: reg_set_bit_def reg_read_def bus_read_def reg_mask_def polled_hw_def reg_at_def
        seq_def ret_def lift_def reg_write_def bus_write_def)
  moreover have "await ?hw (reg_at 0x68 2) 1 True IMMEDIATE_COMMAND_TIMEOUT_IN_MS ?s2 = Some (Inr ((), ?s4))"
  proof -
    have "systime ?hw ?s2 = Some (Inr (pc_clock s, ?s3))" by (simp add: systime_def polled_hw_def)
    moreover have "poll ?hw (reg_at 0x68 2) 1 True (pc_clock s + IMMEDIATE_COMMAND_TIMEOUT_IN_MS) ?s3 = Some (Inr ((), ?s4))"
      by (rule polled_wait) (simp add: IMMEDIATE_COMMAND_TIMEOUT_IN_MS_def)
    ultimately show ?thesis by (simp add: await_def)
  qed
  moreover have "reg_read ?hw (reg_at 0x64 4) ?s4 = Some (Inr (ans w, ?s4))"
    by (simp add: reg_read_def bus_read_def polled_hw_def reg_at_def seq_def ret_def)
  ultimately show ?thesis
    by (simp add: exchange_def controller_registers_def set_immediate_command_busy_bit_def read_response_from_icii_def)
qed

interpretation polled: answering_card "polled_hw latency ans wake" "controller_registers 0 i j k" "\<lambda>s. pc_pending s = 0" ans wake
proof
  show "yields (\<lambda>s. pc_pending s = 0) (exchange (polled_hw latency ans wake) (controller_registers 0 i j k) w) (Inr (ans w))" for w
    by (rule yieldsI) (rule polled_exchange)
  show "yields (\<lambda>s. pc_pending s = 0) (reg_read (polled_hw latency ans wake) (wakests (controller_registers 0 i j k))) (Inr (ucast wake))"
    by (rule yieldsI) (simp add: reg_read_def bus_read_def polled_hw_def reg_at_def seq_def ret_def controller_registers_def)
  show "reg_width (wakests (controller_registers 0 i j k)) = 2" by (simp add: controller_registers_def reg_at_def)
qed

section \<open>Properties\<close>

text \<open>
  C29: on every sound card that answers immediate commands in time, the scan always ends and its outcome does not depend on the
  state or the speed of the card. When it returns, it has found exactly the codecs whose bit is set in WAKESTS, in the order of their
  addresses, and for each codec the function groups and widgets in the node ranges the codec reports, each with the type and
  the capabilities that the codec answers for that node.
\<close>

theorem scan_reports_the_codecs:
  assumes "answering_card hw c I ans wake"
  shows "\<exists>r. (\<forall>s. I s \<longrightarrow> map_option (map_sum id fst) (scan_for_available_codecs hw c s) = Some r) \<and>
    (\<forall>cods. r = Inr cods \<longrightarrow>
       map (\<lambda>cod. unat (codec_addr (cod_address cod))) cods = filter (bit wake) [0..<15] \<and> list_all (codec_matches ans) cods)"
proof -
  from answering_card.scan_settles[OF assms] obtain r where r: "yields I (scan_for_available_codecs hw c) r"
    "\<And>cods. r = Inr cods \<Longrightarrow>
      map (\<lambda>cod. unat (codec_addr (cod_address cod))) cods = filter (bit wake) [0..<15] \<and> list_all (codec_matches ans) cods"
    by (auto simp: settles_def)
  have "map_option (map_sum id fst) (scan_for_available_codecs hw c s) = Some r" if "I s" for s
    using r(1) that by (cases r) (fastforce simp: yields_def)+
  with r(2) show ?thesis by blast
qed

theorem scan_reports_the_codecs_witness:
  "\<exists>r. (\<forall>s. pc_pending s = 0 \<longrightarrow>
      map_option (map_sum id fst) (scan_for_available_codecs (polled_hw 3 (\<lambda>w. 0) 0b101) (controller_registers 0 1 1 0) s) = Some r) \<and>
    (\<forall>cods. r = Inr cods \<longrightarrow>
       map (\<lambda>cod. unat (codec_addr (cod_address cod))) cods = filter (bit (0b101 :: u16)) [0..<15] \<and>
       list_all (codec_matches (\<lambda>w. 0)) cods)"
  by (rule scan_reports_the_codecs) (rule polled.answering_card_axioms)

end
