(* ===== verification/Ihda_Live.thy ===== *)
theory Ihda_Live
  imports Ihda_Scan Ihda_Device
begin

text \<open>
  No routine of the sound driver hangs: all polling loops are bounded by the system timer. \<open>ticking_clock\<close> is what they rely on:
  the timer counts a clock that never goes back and that has moved on after each reading of the timer.
\<close>

section \<open>Routines that end\<close>

text \<open>From every state the routine returns or panics.\<close>

definition ends :: "('s, 'a) drv \<Rightarrow> bool" where
  "ends m \<longleftrightarrow> (\<forall>s. m s \<noteq> None)"

locale ticking_clock =
  fixes hw :: "'s hw" and clock :: "'s \<Rightarrow> nat" and per_ms :: nat
  assumes per_ms: "0 < per_ms"
    and read_keeps: "clock s \<le> clock (snd (hw_read hw a w s))"
    and write_keeps: "clock s \<le> clock (hw_write hw a w v s)"
    and time_value: "fst (hw_time hw s) = clock s div per_ms"
    and time_passes: "clock s < clock (snd (hw_time hw s))"

text \<open>A machine with a card that answers after some polls.\<close>

definition polled_platform :: "(polled_card, u64, u64, unit, u8 \<Rightarrow> redirection_entry, u32) platform" where
  "polled_platform =
     \<lparr>pl_ops = x86_entry_ops, pl_no_cache = 3, pl_manager = one_level_manager, pl_hw = polled_hw 5 (\<lambda>w. 0) 1, pl_chips = plain_chips,
      pl_handler = (), pl_config = example_bus, pl_devices = [pci_address_new 0x8000 1 3 0], pl_qemu = True,
      pl_interrupt_line = (\<lambda>a. 3), pl_bar0 = (\<lambda>a. Some (Memory32 0xFEB00000 0x4000)), pl_set_command_bits = (\<lambda>a b s. s)\<rparr>"

named_theorems ends_rules \<open>routines that end\<close>

lemma ends_ret [ends_rules]: "ends (ret x)"
  by (simp add: ends_def ret_def)

lemma ends_halt [ends_rules]: "ends (halt p)"
  by (simp add: ends_def halt_def)

lemma ends_lift [ends_rules]: "ends (lift r)"
  by (simp add: ends_def lift_def)

lemma ends_seq [ends_rules]: "ends m \<Longrightarrow> (\<And>x. ends (f x)) \<Longrightarrow> ends (seq m f)"
  by (auto simp: ends_def seq_def split: option.splits sum.splits)

lemma ends_for_each [ends_rules]: "(\<And>x. ends (f x)) \<Longrightarrow> ends (for_each f xs)"
  by (induction xs) (auto intro!: ends_rules)

lemma ends_bus [ends_rules]: "ends (bus_read hw a w)" "ends (bus_write hw a w v)" "ends (systime hw)"
  by (simp_all add: ends_def bus_read_def bus_write_def systime_def split: prod.splits)

lemma ends_reg [ends_rules]:
  "ends (reg_read hw r)" "ends (reg_write hw r v)" "ends (reg_set_bit hw r i)" "ends (reg_clear_bit hw r i)"
  "ends (reg_is_set hw r i)" "ends (reg_set_all_bits hw r)" "ends (reg_clear_all_bits hw r)"
  by (auto simp: reg_read_def reg_write_def reg_set_bit_def reg_clear_bit_def reg_is_set_def reg_set_all_bits_def
      reg_clear_all_bits_def intro!: ends_rules)

lemma ends_if [ends_rules]: "ends m \<Longrightarrow> ends n \<Longrightarrow> ends (if b then m else n)"
  by simp

lemma ends_on_card [ends_rules]: "ends m \<Longrightarrow> ends (on_card m)"
  by (auto simp: ends_def on_card_def split: option.splits sum.splits)

lemma ends_on_memory [ends_rules]: "ends (on_memory f)"
  by (simp add: ends_def on_memory_def)

lemma ends_on_driver [ends_rules]: "ends m \<Longrightarrow> ends (on_driver m)"
  by (auto simp: ends_def on_driver_def split: option.splits sum.splits)

lemma ends_connect [ends_rules]: "ends (connect_device_to_apic pl line)" "ends (configure_pci pl a)"
  by (simp_all add: ends_def connect_device_to_apic_def configure_pci_def)

lemma ends_let [ends_rules]: "(\<And>x. ends (f x)) \<Longrightarrow> ends (let x = t in f x)"
  by simp

context ticking_clock
begin

lemma is_set_clock: "reg_is_set hw r i s = Some (Inr (b, s')) \<Longrightarrow> clock s \<le> clock s'"
  using read_keeps[of s "reg_addr r" "reg_width r"]
  by (auto simp: reg_is_set_def reg_read_def bus_read_def seq_def ret_def lift_def and_then_def split: prod.splits sum.splits)

lemma poll_ends: "poll hw r i wanted limit s \<noteq> None"
proof (induction "Suc limit * per_ms - clock s" arbitrary: s rule: less_induct)
  case less
  obtain x where x: "reg_is_set hw r i s = Some x" using ends_reg(5)[of hw r i] by (auto simp: ends_def)
  show ?case
  proof (cases x)
    case (Inr y)
    have c: "clock s \<le> clock (snd y)" using is_set_clock[of r i s "fst y" "snd y"] x Inr by simp
    let ?t = "snd (hw_time hw (snd y))"
    have "poll hw r i wanted limit ?t \<noteq> None" if "\<not> fst (hw_time hw (snd y)) > limit"
    proof (rule less)
      have "clock (snd y) div per_ms < Suc limit" using that by (simp add: time_value)
      then have "clock (snd y) < Suc limit * per_ms" using per_ms by (simp add: div_less_iff_less_mult)
      with c time_passes[of "snd y"] show "Suc limit * per_ms - clock ?t < Suc limit * per_ms - clock s" by linarith
    qed
    with x Inr show ?thesis by (subst poll.simps) simp
  qed (use x in \<open>subst poll.simps, simp\<close>)
qed

lemma wait_for_ends: "wait_for hw end_time s \<noteq> None"
proof (induction "end_time * per_ms - clock s" arbitrary: s rule: less_induct)
  case less
  let ?t = "snd (hw_time hw s)"
  have "wait_for hw end_time ?t \<noteq> None" if "fst (hw_time hw s) < end_time"
  proof (rule less)
    have "clock s < end_time * per_ms" using that per_ms by (simp add: time_value div_less_iff_less_mult)
    with time_passes[of s] show "end_time * per_ms - clock ?t < end_time * per_ms - clock s" by linarith
  qed
  then show ?case by (subst wait_for.simps) simp
qed

lemma ends_wait [ends_rules]: "ends (await hw r i wanted timeout)" "ends (delay hw ms)"
proof -
  have "ends (poll hw r i wanted limit)" for limit using poll_ends by (auto simp: ends_def)
  moreover have "ends (wait_for hw end_time)" for end_time using wait_for_ends by (auto simp: ends_def)
  ultimately show "ends (await hw r i wanted timeout)" "ends (delay hw ms)"
    unfolding await_def delay_def by (auto intro!: ends_rules)
qed

lemma ends_stream_registers [ends_rules]:
  "ends (reset_stream hw sd)" "ends (set_bdl_pointer_address hw sd a)" "ends (set_cyclic_buffer_lenght hw sd n)"
  "ends (set_last_valid_index hw sd i)" "ends (set_stream_format hw sd f)" "ends (set_stream_id hw sd i')"
  unfolding reset_stream_def set_bdl_pointer_address_def set_cyclic_buffer_lenght_def set_last_valid_index_def
    set_stream_format_def set_stream_id_def clear_stream_run_bit_def stream_run_bit_def
  by (intro ends_rules)+

lemma ends_controller_registers [ends_rules]:
  "ends (controller_new hw base)" "ends (controller_reset hw c)" "ends (configure hw c)" "ends (start_corb hw c)" "ends (start_rirb hw c)"
  unfolding controller_new_def controller_reset_def configure_def start_corb_def start_rirb_def start_corb_dma_def start_rirb_dma_def
    clear_unsolicited_response_enable_bit_def set_global_interrupt_enable_bit_def set_controller_interrupt_enable_bit_def
    set_response_interrupt_control_bit_def set_response_overrun_interrupt_control_bit_def Let_def
  by (intro ends_rules)+

lemma ends_base [ends_rules]: "ends (write_base hw l u a)" "ends (read_base hw l u)"
  unfolding write_base_def read_base_def by (intro ends_rules)+

lemma ends_rings [ends_rules]: "ends (init_corb hw c)" "ends (init_rirb hw c)" "ends (test_corb_and_rirb hw c)"
  unfolding init_corb_def init_rirb_def test_corb_and_rirb_def clear_corb_memory_error_interrupt_enable_bit_def stop_corb_dma_def
    corb_size_in_entries_def set_corb_address_def reset_corb_write_pointer_def reset_corb_read_pointer_def stop_rirb_dma_def
    clear_response_interrupt_control_bit_def clear_response_overrun_interrupt_control_bit_def set_rirb_address_def
    reset_rirb_write_pointer_def corb_put_def rirb_get_def corb_address_def rirb_address_def Let_def
  by (intro ends_rules)+

lemma ends_positions [ends_rules]:
  "ends (init_dma_position_buffer ops fl pm hw c)" "ends (stream_descriptor_position_in_current_buffer hw c n)"
  unfolding init_dma_position_buffer_def set_dma_position_buffer_address_def enable_dma_position_buffer_def
    stream_descriptor_position_in_current_buffer_def dma_position_buffer_address_def
  by (intro ends_rules)+

lemma ends_case_sum [ends_rules]: "(\<And>p. ends (f p)) \<Longrightarrow> (\<And>x. ends (g x)) \<Longrightarrow> ends (case r of Inl p \<Rightarrow> f p | Inr x \<Rightarrow> g x)"
  by (cases r) auto

lemma ends_command [ends_rules]: "ends (immediate_command hw c cmd)" "ends (ask hw c try cmd)" "ends (amp_caps_of hw c a p)" "ends (send hw c cmd)"
  unfolding ask_def amp_caps_of_def send_def immediate_command_def write_command_to_icoi_def set_immediate_command_busy_bit_def
    read_response_from_icii_def
  by (intro ends_rules)+

lemma ends_scan [ends_rules]: "ends (scan_for_available_codecs hw c)"
proof -
  have "ends (scan_widget_info hw c a ty)" for a ty
    by (cases ty; simp add: scan_widget_info_def scan_output_converter_def scan_input_converter_def scan_mixer_def scan_pin_def
        first_connections_def; intro ends_rules)
  then have "ends (scan_widget hw c ca n)" for ca n
    unfolding scan_widget_def by (intro ends_rules)
  then have "ends (scan_function_group hw c ca n)" for ca n
    unfolding scan_function_group_def scan_function_group_for_available_widgets_def subordinate_nodes_def by (intro ends_rules)
  then show ?thesis
    unfolding scan_for_available_codecs_def scan_codec_def scan_codec_for_available_function_groups_def subordinate_nodes_def
    by (intro ends_rules)
qed

lemma ends_streams [ends_rules]: "ends (stream_new ops fl pm hw sd fmt n pages i)" "ends (prepare_output_stream ops fl pm hw c k fmt n pages i)"
  unfolding prepare_output_stream_def stream_new_def write_bdl_def bdl_set_entry_def by (intro ends_rules)+

lemma ends_self_test [ends_rules]: "ends (test_dma_position_buffer ops fl pm hw c)"
  unfolding test_dma_position_buffer_def stream_run_def stream_reset_def set_stream_run_bit_def number_of_input_streams_supported_def
    number_of_output_streams_supported_def
  by (intro ends_rules)

lemma ends_waves [ends_rules]:
  "ends (buffer_demo_sawtooth_wave_mono_48khz_16bit hw f b)" "ends (buffer_demo_square_wave_mono_48khz_16bit hw f b)"
  unfolding buffer_demo_sawtooth_wave_mono_48khz_16bit_def buffer_demo_square_wave_mono_48khz_16bit_def write_16bit_sample_to_buffer_def Let_def
  by (intro ends_rules)+

lemma ends_rising [ends_rules]: "ends (rising_sawtooth hw f bs)"
  by (induction bs arbitrary: f) (auto intro!: ends_rules)

lemma ends_demo_waves [ends_rules]: "ends (stream_demo_sawtooth_wave_mono_48khz_16bit hw st f)" "ends (stream_demo_bachelor_presentation hw st)"
  unfolding stream_demo_sawtooth_wave_mono_48khz_16bit_def stream_demo_bachelor_presentation_def by (intro ends_rules)+

end

interpretation polled_time: ticking_clock "polled_hw latency ans wake" pc_clock 1
  by unfold_locales (auto simp: polled_hw_def)

section \<open>Properties\<close>

text \<open>
  C30: bringing up the sound card never hangs: from every state \<open>IntelHDAudioDevice::new\<close> returns or panics, for any behaviour of the
  card's registers, as long as the timer ticks. The same holds for resetting a stream, for an immediate command and for setting up
  an output stream.
\<close>

theorem audio_bring_up_ends:
  assumes "ticking_clock (pl_hw pl) clock per_ms"
  shows "intel_hd_audio_device_new pl env \<noteq> None \<and> reset_stream (pl_hw pl) sd s \<noteq> None \<and> immediate_command (pl_hw pl) c cmd s \<noteq> None \<and>
    prepare_output_stream ops fl pm (pl_hw pl) c k fmt n pages i d \<noteq> None"
proof -
  have "ends (intel_hd_audio_device_new pl)"
    unfolding intel_hd_audio_device_new_def Let_def
    by (intro ends_rules ticking_clock.ends_controller_registers[OF assms] ticking_clock.ends_rings[OF assms]
        ticking_clock.ends_positions[OF assms] ticking_clock.ends_self_test[OF assms] ticking_clock.ends_scan[OF assms])
  moreover have "ends (reset_stream (pl_hw pl) sd)" by (rule ticking_clock.ends_stream_registers(1)[OF assms])
  moreover have "ends (immediate_command (pl_hw pl) c cmd)" by (rule ticking_clock.ends_command(1)[OF assms])
  moreover have "ends (prepare_output_stream ops fl pm (pl_hw pl) c k fmt n pages i)" by (rule ticking_clock.ends_streams(2)[OF assms])
  ultimately show ?thesis by (simp add: ends_def)
qed

theorem audio_bring_up_ends_witness:
  "\<forall>(env :: (polled_card, u64, unit, u8 \<Rightarrow> redirection_entry, u32) environment) sd s c cmd (d :: (polled_card, u64) driver_state).
     intel_hd_audio_device_new polled_platform env \<noteq> None \<and> reset_stream (pl_hw polled_platform) sd s \<noteq> None \<and>
     immediate_command (pl_hw polled_platform) c cmd s \<noteq> None \<and>
     prepare_output_stream x86_entry_ops 3 one_level_manager (pl_hw polled_platform) c 0 mono_48khz_16bit 2 128 1 d \<noteq> None"
proof -
  have "ticking_clock (pl_hw polled_platform) pc_clock 1"
    using polled_time.ticking_clock_axioms by (simp add: polled_platform_def)
  then show ?thesis by (intro allI) (rule audio_bring_up_ends)
qed

end
