(* ===== verification/Kernel_Start_Props.thy ===== *)
theory Kernel_Start_Props
  imports Kernel_Start Boot_Room Ihda_Live
begin

text \<open>
  What the boot sequence of \<open>Kernel_Start\<close> guarantees: the order of initialisation, interrupts during boot, that it does not hang, and the state handed over to the scheduler.
  A concrete machine is followed through the phases until interrupts are on, which shows that the statements about running phases are not empty.
\<close>

section \<open>Machines\<close>

text \<open>The image and the ramdisk have a start before their end, bridges lead to buses with higher numbers, and the timer ticks.\<close>

definition orderly_hardware where
  "orderly_hardware hw clock per_ms \<longleftrightarrow>
     fst (hw_image hw) \<le> snd (hw_image hw) \<and>
     (\<forall>bi module. hw_multiboot hw = Some bi \<longrightarrow> initrd_module bi = Some module \<longrightarrow> fst module \<le> snd module) \<and>
     numbered_downwards (hw_pci hw) \<and> \<not> has_multiple_functions (hw_pci hw) (pci_address_new 0x8000 0 0 0) \<and>
     ticking_clock (hw_bus hw) clock per_ms"

definition searches_forever :: "audio_device \<Rightarrow> bool" where
  "searches_forever dev \<longleftrightarrow> (case dev_codecs dev of [] \<Rightarrow> False | cod # _ \<Rightarrow>
     (case cod_function_groups cod of [] \<Rightarrow> False | fg # _ \<Rightarrow> find_widget_path_for_line_out_playback fg = None))"

definition returns :: "'a booting \<Rightarrow> bool" where
  "returns m \<longleftrightarrow> m \<noteq> None"

text \<open>A machine with 127 MiB of memory, a small frame buffer, no serial port and the interrupt controllers of a PC.\<close>

definition example_information :: boot_information where
  "example_information = example_boot\<lparr>framebuffer_tag := Some \<lparr>fb_address = 0x7F00000, fb_pitch = 64, fb_height = 32\<rparr>\<rparr>"

text \<open>Its registers read as zero, and its state is the time.\<close>

definition idle_card :: "nat hw" where
  "idle_card = \<lparr>hw_read = (\<lambda>a w s. (0, s)), hw_write = (\<lambda>a w v s. s), hw_time = (\<lambda>s. (s, s + 1))\<rparr>"

definition plain_idt_macro :: general_handler_macro where
  "plain_idt_macro h vs table = (\<lambda>v. if v \<in> set vs then Some h else table v)"

definition example_computer ::
  "(u64, u64, nat \<rightharpoonup> thread list, u8 \<Rightarrow> redirection_entry, u32, nat, u8, unit, small_parser) hardware" where
  "example_computer =
     \<lparr>hw_ops = x86_entry_ops, hw_kernel_flags = 3, hw_user_flags = 7, hw_no_cache = 3, hw_join = map_join_ops, hw_scratch = (\<lambda>_ _. 0xFF),
      hw_backup = (\<lambda>_. (0, 0)), hw_debug_profile = False, hw_logger_set = False, hw_multiboot = Some example_information, hw_image = (0x200000, 0x300000),
      hw_fb_width = 16, hw_fb_bpp = 32, hw_fb_memory = (\<lambda>_. 0, \<lambda>_. 0), hw_parser = (Ground, small_advance), hw_term_env = (example_env, example_env),
      hw_kickoff = 0x201000, hw_cursor_entry = 0x202000, hw_cleanup_entry = 0x203000, hw_rsdp_v2 = Some 0xE0000, hw_rsdp_v1 = None,
      hw_from_rsdp = (\<lambda>_. Some (Some pc_madt)), hw_set_general_handler = plain_idt_macro, hw_syscall_handler = 0x204000, hw_chips = plain_chips,
      hw_features = Some True, hw_local_apic = Some 0, 
      hw_io_apic = (\<lambda>_. \<lparr>entry_mode = Fixed, entry_dest = 0, entry_vector = 0, entry_masked = True, entry_low_active = False, entry_level_triggered = False\<rparr>), hw_qemu = False, hw_efi_sdt = None, hw_ps2 = (simple_ps2 MF2, 0),
      hw_pci = example_bus, hw_bus = idle_card, hw_interrupt_line = (\<lambda>_. 11), hw_bar0 = (\<lambda>_. None), hw_set_command_bits = (\<lambda>_ _ s. s),
      hw_archive = (\<lambda>_. []), hw_elf = (\<lambda>_. None), hw_banner = []\<rparr>"

definition example_start :: "(u64, nat \<rightharpoonup> thread list, u8 \<Rightarrow> redirection_entry, u32, nat, u8, small_parser) globals" where
  "example_start = initial_globals map_join_ops (\<lambda>_. replicate 512 (0 :: u64)) (\<lambda>_. 0) \<lparr>efer_sce = False, star_sysret = 0, star_syscall = 0, lstar = 0\<rparr> 0"

section \<open>No phase hangs\<close>

lemma reserve_returns: "range_start r \<le> range_end r \<Longrightarrow> phys_reserve r st \<noteq> None"
  using reserve_loop_returns[of r "page_frame_allocator st"] by (auto simp: phys_reserve_def reserve_block_def)

lemma module_range: "initrd_frames m = Inr r \<Longrightarrow> fst m \<le> snd m \<Longrightarrow> range_start r \<le> range_end r"
  by (auto simp: initrd_frames_def frame_align_up_def phys_addr_def frame_range_def result_simps PAGE_SIZE_def usize_add_def split: if_splits intro!: div_le_mono)

lemma image_range: "kernel_image_region lo hi = Inr r \<Longrightarrow> lo \<le> hi \<Longrightarrow> range_start r \<le> range_end r"
  using module_range[of "(lo, hi)" r] by (simp add: initrd_frames_def kernel_image_region_def)

lemma bind_returns: "m \<noteq> None \<Longrightarrow> Option.bind m (\<lambda>x. Some (f x)) \<noteq> None"
  by auto

lemma start_memory_returns:
  assumes "lo \<le> hi"
  shows "start_memory ops fl lo hi bi m \<noteq> None"
proof -
  have "phys_reserve r st \<noteq> None" if "kernel_image_region lo hi = Inr r" for r st
    by (rule reserve_returns[OF image_range[OF that assms]])
  then show ?thesis unfolding start_memory_def by (auto simp: result_simps simp del: not_None_eq split: sum.split intro!: bind_returns)
qed

lemma init_initrd_returns:
  assumes "\<And>module. initrd_module bi = Some module \<Longrightarrow> fst module \<le> snd module"
  shows "Boot.init_initrd bi ram st \<noteq> None"
proof -
  have "phys_reserve r st \<noteq> None" if "initrd_module bi = Some module" "initrd_frames module = Inr r" for module r
    by (rule reserve_returns[OF module_range[OF that(2) assms[OF that(1)]]])
  then show ?thesis unfolding Boot.init_initrd_def by (auto simp del: not_None_eq split: option.split sum.split intro!: bind_returns)
qed

lemma returns_continue: "returns m \<Longrightarrow> (\<And>x. m = Some (Inr x) \<Longrightarrow> returns (f x)) \<Longrightarrow> returns (continue m f)"
  by (auto simp: returns_def continue_def split: option.splits sum.splits)

lemma returns_intros:
  "returns (done_with x)" "returns (checked r)" "returns (access name cell)" "m \<noteq> None \<Longrightarrow> returns (looping m)" "returns b \<Longrightarrow> returns (call_once cell b)"
  by (auto simp: returns_def done_with_def checked_def access_def looping_def call_once_def split: option.splits sum.splits)

lemma audio_ends:
  assumes "ticking_clock (pl_hw pl) clock per_ms"
  shows "intel_hd_audio_device_new pl env \<noteq> None"
    and "audio_demo_bachelor_presentation pl dev v = None \<Longrightarrow> searches_forever dev"
proof -
  note rules = ends_rules ticking_clock.ends_controller_registers[OF assms] ticking_clock.ends_rings[OF assms]
        ticking_clock.ends_positions[OF assms] ticking_clock.ends_self_test[OF assms] ticking_clock.ends_scan[OF assms]
        ticking_clock.ends_streams[OF assms] ticking_clock.ends_stream_registers[OF assms] ticking_clock.ends_command[OF assms]
        ticking_clock.ends_wait[OF assms] ticking_clock.ends_demo_waves[OF assms]
  have "ends (intel_hd_audio_device_new pl)"
    unfolding intel_hd_audio_device_new_def Let_def by (intro rules)
  then show "intel_hd_audio_device_new pl env \<noteq> None" by (simp add: ends_def)
  have "ends (configure_widget_for_line_out_playback (pl_hw pl) c st w)" for c st w
    unfolding configure_widget_for_line_out_playback_def Let_def by (cases "awc_widget_type (wid_audio_widget_capabilities w)"; simp; intro rules)
  then have "ends (play (pl_hw pl) dev st)" if "\<not> searches_forever dev" for st
    using that unfolding play_def configure_codec_for_line_out_playback_def searches_forever_def stream_run_def set_stream_run_bit_def
    by (auto split: list.split option.split intro!: rules)
  then have "ends (audio_demo_bachelor_presentation pl dev)" if "\<not> searches_forever dev"
    unfolding audio_demo_bachelor_presentation_def by (intro rules) (use that in blast)+
  then show "audio_demo_bachelor_presentation pl dev v = None \<Longrightarrow> searches_forever dev" unfolding ends_def by metis
qed

lemma phase_ends:
  assumes "orderly_hardware hw clock per_ms" "perform_phase hw ph g = None"
  shows "ph = Demo_Phase \<and> (\<exists>dev. g_intel_hd_audio g = Some dev \<and> searches_forever dev)"
proof -
  have pci: "pci_scan (hw_pci hw) 256 \<noteq> None"
    using scan_bus_collects[of "hw_pci hw" 0 256] assms by (fastforce simp: pci_scan_def collects_def orderly_hardware_def)
  have clock: "ticking_clock (pl_hw (platform_of hw devices pm)) clock per_ms" for devices pm
    using assms by (simp add: platform_of_def orderly_hardware_def)
  have image: "fst (hw_image hw) \<le> snd (hw_image hw)" using assms by (simp add: orderly_hardware_def)
  have initrd: "Boot.init_initrd bi ram st \<noteq> None" if "unwrap Bad_Boot_Information (hw_multiboot hw) = Inr bi" for bi ram st
    by (rule init_initrd_returns) (use assms that in \<open>auto simp: orderly_hardware_def unwrap_def split: option.splits\<close>)
  have "returns (perform_phase hw ph g)" if "ph \<noteq> Demo_Phase"
    using that pci audio_ends(1)[OF clock] start_memory_returns[OF image] initrd
    by (cases ph) (auto simp: phase_defs phase_results split: option.split prod.split intro!: returns_continue returns_intros)
  moreover have "\<exists>dev. g_intel_hd_audio g = Some dev \<and> searches_forever dev" if "play_demo hw g = None"
    using that audio_ends(2)[OF clock] by (auto simp: play_demo_def continue_def access_def looping_def checked_def done_with_def split: option.splits sum.splits)
  ultimately show ?thesis using assms(2) by (cases "ph = Demo_Phase") (auto simp: returns_def)
qed

lemma stuck_phase:
  assumes "orderly_hardware hw clock per_ms" "run_phases hw phs g = None"
  shows "\<exists>n g' dev. n < length phs \<and> phs ! n = Demo_Phase \<and> run_phases hw (take n phs) g = Some (Inr g') \<and> g_intel_hd_audio g' = Some dev \<and> searches_forever dev"
  using assms(2)
proof (induction phs arbitrary: g)
  case (Cons ph phs)
  show ?case
  proof (cases "perform_phase hw ph g")
    case None
    with phase_ends[OF assms(1) None] show ?thesis by (intro exI[of _ 0]) (auto simp: done_with_def)
  next
    case (Some r)
    with Cons.prems obtain g1 where g1: "perform_phase hw ph g = Some (Inr g1)" "run_phases hw phs g1 = None"
      by (auto simp: continue_def split: sum.splits)
    from Cons.IH[OF this(2)] obtain n g' dev where "n < length phs" "phs ! n = Demo_Phase" "run_phases hw (take n phs) g1 = Some (Inr g')"
      "g_intel_hd_audio g' = Some dev" "searches_forever dev" by blast
    with g1(1) show ?thesis by (intro exI[of _ "Suc n"]) (auto simp: continue_def)
  qed
qed (simp add: done_with_def)

section \<open>A boot\<close>

text \<open>The frames of the example outside of image and heap.\<close>

lemma example_memory:
  "\<exists>F b a. start_memory x86_entry_ops 3 0x200000 0x300000 example_information (k_machine (g_kernel example_start)) = Some (Inr b) \<and>
     roomy x86_entry_ops (boot_manager b) F 67 (boot_machine b) \<and> {a..<a + 5000} \<subseteq> F"
proof -
  let ?rs = "[frame_range 0x100 0x8000]" and ?im = "frame_range 0x200 0x300"
  have i: "announced example_information = Inr ?rs" "multiboot2_magic example_information = MAGIC"
    using example_ranges by (simp_all add: example_information_def announced_def example_boot_def)
  have m: "frames_state (k_machine (g_kernel example_start)) = no_frames" by (simp add: example_start_def initial_globals_def)
  from boot_memory_runs[OF x86.page_table_entry_axioms example_boot_facts(1) m i(2,1) example_boot_facts(4,5) example_image
      example_boot_facts(6,7) example_room(2,1)]
  obtain b where b: "start_memory x86_entry_ops 3 0x200000 0x300000 example_information (k_machine (g_kernel example_start)) = Some (Inr b)"
    "sound_boot x86_entry_ops ?rs ?im b" "spacious_boot x86_entry_ops (available ?rs - range_frames ?im - range_frames (boot_heap b)) (1 + tables_for 3 0 (highest ?rs)) b"
    by blast
  define F where "F = {0x100..<0x8000} - {0x200..<0x300} - range_frames (boot_heap b)"
  have F: "F = available ?rs - range_frames ?im - range_frames (boot_heap b)" by (simp add: F_def example_available)
  have "tables_for 3 0 0x8000 = 66"
  proof -
    have "{1..3::nat} = {1, 2, 3}" by auto
    then show ?thesis by (simp add: tables_for_def blocks_def)
  qed
  then have r: "roomy x86_entry_ops (boot_manager b) F 67 (boot_machine b)"
    using spacious_is_roomy[of x86_entry_ops F 67 b] b(2,3) unfolding F example_available by (simp add: sound_boot_def available_def del: tables_for_simps)
  have h: "range_end (boot_heap b) = range_start (boot_heap b) + 1024" "range_frames (boot_heap b) \<subseteq> {0x100..<0x8000} - {0x200..<0x300}"
    using b(2) by (auto simp: sound_boot_def example_available INIT_HEAP_PAGES_def)
  have "\<exists>a. {a..<a + 5000} \<subseteq> F"
  proof (cases "range_start (boot_heap b) \<ge> 10000")
    case True
    then have "{3000..<3000 + 5000} \<subseteq> F" by (auto simp: F_def range_frames_def)
    then show ?thesis by blast
  next
    case False
    then have "{20000..<20000 + 5000} \<subseteq> F" using h(1) by (auto simp: F_def range_frames_def)
    then show ?thesis by blast
  qed
  with b(1) r show ?thesis by (elim exE) (intro exI conjI)
qed

lemma example_orderly: "orderly_hardware example_computer id 1"
proof -
  have "ticking_clock (hw_bus example_computer) id 1" by unfold_locales (simp_all add: example_computer_def idle_card_def)
  moreover have "\<not> has_multiple_functions example_bus (pci_address_new 0x8000 0 0 0)" by (simp add: example_bus_def)
  ultimately show ?thesis
    using example_numbered by (simp add: orderly_hardware_def example_computer_def example_information_def example_boot_def)
qed

lemma example_no_port: "find_port (hw_scratch example_computer) = None"
proof -
  have "\<not> check_port (\<lambda>_. 0xFF)" by code_simp
  then show ?thesis by (simp add: find_port_def example_computer_def)
qed

lemma example_terminal_cleared:
  "\<exists>t. and_then (terminal_new (\<lambda>_. 0) (\<lambda>_. 0) 64 16 32 32) (clear example_env) = Inr t"
proof -
  obtain t where "example_terminal = Inr t" "terminal_ok t" by (rule example_terminal_state)
  with clear_keeps[OF this(2) example_env_ok] show ?thesis by (auto simp: runs_def example_terminal_def)
qed

text \<open>The example boots until interrupts are on and the keyboard is connected. What the later phases need is kept from phase to phase.\<close>

lemma example_memory_phases:
  "\<exists>F a g. run_phases example_computer [Logger_Phase, Memory_Phase, Serial_Phase] example_start = Some (Inr g) \<and>
     roomy x86_entry_ops (k_processes (g_kernel g)) F 67 (k_machine (g_kernel g)) \<and> {a..<a + 5000} \<subseteq> F \<and>
     g_terminal g = None \<and> g_acpi_tables g = None \<and> g_apic g = None \<and> g_ps2 g = None \<and> g_serial_port g = None \<and>
     wf_dispatcher (g_dispatcher g) \<and> k_timer (g_kernel g) = timer_new"
proof -
  obtain F b a where b: "start_memory x86_entry_ops 3 0x200000 0x300000 example_information (k_machine (g_kernel example_start)) = Some (Inr b)"
    "roomy x86_entry_ops (boot_manager b) F 67 (boot_machine b)" "{a..<a + 5000} \<subseteq> F" using example_memory by blast
  obtain lg where lg: "logger_init (hw_scratch example_computer) (hw_backup example_computer) (hw_debug_profile example_computer)
      (hw_logger_set example_computer) (g_logger example_start) = Inr (True, lg, [])"
    by (simp add: logger_init_def example_no_port Let_def example_start_def initial_globals_def logger_new_def) (simp add: example_computer_def)
  obtain sg where sg: "init_gdt = Inr sg" by (simp add: init_gdt_def gdt_add_entry_def)
  have hw: "hw_multiboot example_computer = Some example_information" "hw_image example_computer = (0x200000, 0x300000)" "hw_ops example_computer = x86_entry_ops"
    "hw_kernel_flags example_computer = 3" by (simp_all add: example_computer_def)
  have port: "init_serial_port (hw_scratch example_computer) (hw_backup example_computer) None = Inr (None, [])"
    by (simp add: init_serial_port_def example_no_port)
  have st: "g_serial_port example_start = None" "g_terminal example_start = None" "g_acpi_tables example_start = None" "g_apic example_start = None"
    "g_ps2 example_start = None" "wf_dispatcher (g_dispatcher example_start)" "k_timer (g_kernel example_start) = timer_new"
    by (simp_all add: example_start_def initial_globals_def wf_dispatcher_def dispatcher_new_def)
  show ?thesis
    using b st by (intro exI[of _ F] exI[of _ a]) (simp add: phase_defs lg sg hw port continue_def checked_def looping_def done_with_def)
qed

lemma example_terminal_phase:
  assumes room: "roomy x86_entry_ops (k_processes (g_kernel g)) F 67 (k_machine (g_kernel g))" and interval: "{a..<a + 5000} \<subseteq> F" and "g_terminal g = None"
  shows "\<exists>g'. run_phases example_computer [Terminal_Phase] g = Some (Inr g') \<and>
    roomy x86_entry_ops (k_processes (g_kernel g')) F 134 (k_machine (g_kernel g')) \<and> k_timer (g_kernel g') = k_timer (g_kernel g) \<and>
    g_acpi_tables g' = g_acpi_tables g \<and> g_apic g' = g_apic g \<and> g_ps2 g' = g_ps2 g \<and> g_serial_port g' = g_serial_port g \<and> g_dispatcher g' = g_dispatcher g"
proof -
  let ?k = "g_kernel g"
  have hw: "hw_multiboot example_computer = Some example_information" "hw_ops example_computer = x86_entry_ops" "hw_no_cache example_computer = 3"
    "hw_fb_memory example_computer = (\<lambda>_. 0, \<lambda>_. 0)" "hw_fb_width example_computer = 16" "hw_fb_bpp example_computer = 32"
    "hw_term_env example_computer = (example_env, example_env)" by (simp_all add: example_computer_def)
  have big: "5000 \<le> Finite_Set.card F"
    using card_mono[OF _ interval] room by (simp add: roomy_def)
  obtain p where p: "kernel_process (k_processes ?k) = Some p" using room by (auto simp: roomy_def)
  obtain m1 where m1: "map_pages x86_entry_ops (proc_address_space p) \<lparr>page_start = 0x7F00, page_end = 0x7F00 + 1\<rparr> Kernel 3 (k_machine ?k) = Inr m1"
    "roomy x86_entry_ops (k_processes ?k) F (67 + 3) m1"
    using one_page_mapped[OF x86.page_table_entry_axioms example_boot_facts(1) room _ _ p, where i = "0x7F00"] big by auto
  have fb: "map_framebuffer x86_entry_ops 3 example_information p (k_machine ?k) = Inr m1"
    using m1(1) by (simp add: map_framebuffer_def example_information_def canonical_address_def PAGE_SIZE_def u32_mul_def usize_add_def)
  have "{a..<a + Suc (67 + 3) * KERNEL_STACK_PAGES} \<subseteq> F" using interval by (auto simp: KERNEL_STACK_PAGES_def)
  from kernel_thread_created[OF m1(2) this] obtain th m2 where
    th: "new_kernel_thread (hw_kickoff example_computer) (hw_cursor_entry example_computer) (k_processes ?k) (k_thread_counter ?k, m1) = Inr (th, k_thread_counter ?k + 1, m2)"
    "roomy x86_entry_ops (k_processes ?k) F 134 m2" by (fastforce simp: KERNEL_STACK_PAGES_def)
  obtain t where t: "and_then (terminal_new (\<lambda>_. 0) (\<lambda>_. 0) 64 16 32 32) (clear example_env) = Inr t" using example_terminal_cleared by blast
  have tag: "framebuffer_tag example_information = Some \<lparr>fb_address = 0x7F00000, fb_pitch = 64, fb_height = 32\<rparr>" by (simp add: example_information_def)
  show ?thesis
    using assms(3) th
    by (simp add: phase_defs hw p fb tag t ready_kernel_thread_def continue_def checked_def done_with_def call_once_def access_def)
qed

lemma example_controller_phases:
  assumes room: "roomy x86_entry_ops (k_processes (g_kernel g)) F 134 (k_machine (g_kernel g))" "5000 \<le> Finite_Set.card F"
    and new: "g_acpi_tables g = None" "g_apic g = None" "g_ps2 g = None" "g_serial_port g = None" "wf_dispatcher (g_dispatcher g)" "k_timer (g_kernel g) = timer_new"
  shows "\<exists>g'. run_phases example_computer [Acpi_Phase, Idt_Phase, Syscall_Phase, Apic_Phase, Timer_Phase, Interrupt_Phase, Efi_Phase, Ps2_Phase,
     Keyboard_Plugin_Phase, Serial_Plugin_Phase] g = Some (Inr g')"
proof -
  let ?pm = "k_processes (g_kernel g)"
  obtain m1 where m1: "map_device_pages x86_entry_ops 3 ?pm 0xFEE00000 1 (k_machine (g_kernel g)) = Inr m1" "roomy x86_entry_ops ?pm F (134 + 3) m1"
    using device_page_mapped[OF x86.page_table_entry_axioms example_boot_facts(1) room(1), where a = "0xFEE00000"] room(2) by (auto simp: PAGE_SIZE_def)
  obtain m2 where m2: "map_device_pages x86_entry_ops 3 ?pm 0xFEC00000 1 m1 = Inr m2"
    using device_page_mapped[OF x86.page_table_entry_axioms example_boot_facts(1) m1(2), where a = "0xFEC00000"] room(2) by (auto simp: PAGE_SIZE_def)
  obtain a where a: "apic_new x86_entry_ops 3 ?pm plain_chips (Some True) (Some pc_madt) (Some 0) (hw_io_apic example_computer) (k_machine (g_kernel g)) = Inr (a, m2)"
    "irq_overrides a = interrupt_source_overrides pc_apic_desc" "nmi_sources a = nmi_source_list pc_apic_desc"
    using pc_apic_on_mapped_registers[OF m1(1) m2] by blast
  have allow: "\<exists>c. allow plain_chips v b = Inr c \<and> irq_overrides c = irq_overrides b \<and> nmi_sources c = nmi_sources b"
    if "v = Pit \<or> v = Keyboard" "irq_overrides b = irq_overrides a" "nmi_sources b = nmi_sources a" for v b
    using that a by (auto simp: allow_def u8_sub_def target_gsi_def override_for_source_def is_nmi_def pc_apic_desc_def Let_def)
  obtain d1 where d1: "assign Pit Timer_Handler (g_dispatcher g) = Inr d1" "wf_dispatcher d1" using assign_wf[OF new(5)] by blast
  obtain d2 where d2: "assign Keyboard Keyboard_Handler d1 = Inr d2" using assign_wf[OF d1(2)] by blast
  obtain a1 where a1: "allow plain_chips Pit a = Inr a1" "irq_overrides a1 = irq_overrides a" "nmi_sources a1 = nmi_sources a" using allow[of Pit a] by auto
  obtain a2 where a2: "allow plain_chips Keyboard a1 = Inr a2" using allow[of Keyboard a1] a1 by auto
  obtain tm ws where tm: "interrupt_rate False (Suc 0) timer_new = Inr (tm, ws)"
    by (simp add: interrupt_rate_def BASE_FREQUENCY_def usize_mul_def usize_div_def Let_def)
  obtain sr where sr: "syscall_init (hw_syscall_handler example_computer) (g_syscall g) = Inr sr" by (simp add: syscall_init_def star_write_def segment_selector_def)
  have hw: "hw_ops example_computer = x86_entry_ops" "hw_no_cache example_computer = 3" "hw_chips example_computer = plain_chips"
    "hw_features example_computer = Some True" "hw_local_apic example_computer = Some 0" "hw_qemu example_computer = False"
    "hw_rsdp_v2 example_computer = Some 0xE0000" "hw_from_rsdp example_computer = (\<lambda>_. Some (Some pc_madt))"
    by (simp_all add: example_computer_def)
  show ?thesis
    by (simp add: phase_defs hw new a(1) tm sr d1(1) d2 a1(1) a2 timer_plugin_def keyboard_plugin_def continue_def checked_def done_with_def
        call_once_def access_def del: vector_value.simps)
qed

lemma example_boots_to_interrupts: "\<exists>g. run_phases example_computer (take 14 start_order) example_start = Some (Inr g)"
proof -
  obtain F a g3 where g3: "run_phases example_computer [Logger_Phase, Memory_Phase, Serial_Phase] example_start = Some (Inr g3)"
     "roomy x86_entry_ops (k_processes (g_kernel g3)) F 67 (k_machine (g_kernel g3))" "{a..<a + 5000} \<subseteq> F"
     "g_terminal g3 = None" "g_acpi_tables g3 = None" "g_apic g3 = None" "g_ps2 g3 = None" "g_serial_port g3 = None"
     "wf_dispatcher (g_dispatcher g3)" "k_timer (g_kernel g3) = timer_new"
    using example_memory_phases by blast
  obtain g4 where g4: "run_phases example_computer [Terminal_Phase] g3 = Some (Inr g4)"
    "roomy x86_entry_ops (k_processes (g_kernel g4)) F 134 (k_machine (g_kernel g4))" "k_timer (g_kernel g4) = timer_new" "g_acpi_tables g4 = None"
    "g_apic g4 = None" "g_ps2 g4 = None" "g_serial_port g4 = None" "wf_dispatcher (g_dispatcher g4)"
    using example_terminal_phase[OF g3(2-4)] g3(5-10) by auto
  have "5000 \<le> Finite_Set.card F" using card_mono[OF _ g3(3)] g3(2) by (simp add: roomy_def)
  from example_controller_phases[OF g4(2) this] g4 obtain g14 where
    "run_phases example_computer [Acpi_Phase, Idt_Phase, Syscall_Phase, Apic_Phase, Timer_Phase, Interrupt_Phase, Efi_Phase, Ps2_Phase,
     Keyboard_Plugin_Phase, Serial_Plugin_Phase] g4 = Some (Inr g14)" by auto
  with g3(1) g4(1) have "run_phases example_computer ([Logger_Phase, Memory_Phase, Serial_Phase] @ [Terminal_Phase] @ [Acpi_Phase, Idt_Phase, Syscall_Phase,
     Apic_Phase, Timer_Phase, Interrupt_Phase, Efi_Phase, Ps2_Phase, Keyboard_Plugin_Phase, Serial_Plugin_Phase]) example_start = Some (Inr g14)"
    unfolding run_phases_append by (simp only: continue_def option.case sum.case)
  then show ?thesis by (auto simp: start_order_def)
qed

section \<open>Properties\<close>

text \<open>
  C23: the order of initialisation. Whatever the machine, the boot loader and the devices do, \<open>start\<close> never accesses a global of \<open>lib.rs\<close> before
  it has been initialised: it ends with the started scheduler, with a panic of a component, or waits for a device.
\<close>

theorem boot_order_sound: "kernel_start hw tabs_of ram r crd \<noteq> Some (Inl (Too_Early name))"
  using boot_order_lemma[of hw tabs_of ram r crd] by (simp add: stops_well_def)

text \<open>
  C24: interrupts during boot. After any number of phases: interrupts are on only if the descriptor table has been set up, the interrupt controller exists
  and the timer has its handler; every registered handler finds the globals that it uses; and a tick of the scheduler's timer leaves the boot thread running.
\<close>

theorem interrupts_are_served:
  assumes "run_phases hw (take n start_order) (initial_globals jm tabs_of ram r crd) = Some (Inr g)"
  shows "(g_interrupts g \<longrightarrow> g_idt g = setup_idt (hw_set_general_handler hw) (\<lambda>_. None) \<and> present g Apic_Controller \<and>
      Timer_Handler \<in> set (int_vectors (g_dispatcher g) ! unat (vector_value Pit))) \<and>
    (\<forall>i < MAX_VECTORS. \<forall>h \<in> set (int_vectors (g_dispatcher g) ! i). handler_ready g h) \<and>
    (\<forall>tick. switch_thread tick (k_scheduler (g_kernel g)) = Inr (Stay, k_scheduler (g_kernel g)))"
proof -
  have "boot_inv hw ({} \<union> set (take n start_order)) g"
    by (rule boot_inv_run[OF initial_boot_inv assms]) (simp_all add: distinct_start_order)
  with prefix_before_interrupts[of n] show ?thesis by (auto simp: boot_inv_def switch_thread_def simp del: vector_value.simps)
qed

theorem interrupts_are_served_witness:
  "\<exists>g. run_phases example_computer (take 14 start_order) example_start = Some (Inr g) \<and> g_interrupts g \<and> present g Apic_Controller \<and>
     Timer_Handler \<in> set (int_vectors (g_dispatcher g) ! unat (vector_value Pit)) \<and>
     (\<forall>tick. switch_thread tick (k_scheduler (g_kernel g)) = Inr (Stay, k_scheduler (g_kernel g)))"
proof -
  obtain g where g: "run_phases example_computer (take 14 start_order) example_start = Some (Inr g)" using example_boots_to_interrupts by blast
  then have "g_interrupts g" by (rule interrupts_stay_on) (simp add: start_order_def)
  with g interrupts_are_served[OF g[unfolded example_start_def]] show ?thesis by auto
qed

text \<open>
  C25: how boot ends. On a machine whose timer ticks and whose buses are numbered downwards, \<open>start\<close> does not hang, except in one place: the search for a path to the
  line-out of the sound card's first codec. It ends with a panic of a component, or with the cursor thread (id 1) running, the shell (id 3, in a process of its own) and
  the cleanup thread (id 2) ready, interrupts on and the log going to the serial port only; and from there on every state that calls into the scheduler lead to satisfies
  its invariant: each live thread is in exactly one place and each user thread has an active process of its own.
\<close>

theorem boot_hands_over:
  assumes "join_map_laws (hw_join hw)" and orderly: "orderly_hardware hw clock per_ms"
  shows "case kernel_start hw tabs_of ram r crd of
      None \<Rightarrow> \<exists>g dev. run_phases hw (take 16 start_order) (initial_globals (hw_join hw) tabs_of ram r crd) = Some (Inr g) \<and>
        g_intel_hd_audio g = Some dev \<and> searches_forever dev
    | Some (Inl s) \<Rightarrow> \<exists>p. s = Panic p
    | Some (Inr g) \<Rightarrow> handed_over g \<and>
        {st. (sched_step (hw_join hw) (hw_ops hw) (hw_kernel_flags hw))\<^sup>*\<^sup>* (sched_state g) st} \<subseteq> Collect (sched_inv (hw_join hw))"
proof (cases "kernel_start hw tabs_of ram r crd")
  case None
  then have "run_phases hw start_order (initial_globals (hw_join hw) tabs_of ram r crd) = None" by (simp add: kernel_start_def)
  from stuck_phase[OF orderly this] obtain n g dev where n: "n < length start_order" "start_order ! n = start_order ! 16"
    "run_phases hw (take n start_order) (initial_globals (hw_join hw) tabs_of ram r crd) = Some (Inr g)" "g_intel_hd_audio g = Some dev" "searches_forever dev"
    by (auto simp: start_order_def)
  have "n = 16" using nth_eq_iff_index_eq[OF distinct_start_order n(1), of 16] n(2) by (simp add: start_order_def)
  with None n show ?thesis by auto
next
  case (Some res)
  show ?thesis
  proof (cases res)
    case (Inl s)
    then show ?thesis using Some boot_order_lemma[of hw tabs_of ram r crd] by (cases s) (auto simp: stops_well_def)
  next
    case (Inr g)
    with Some have run: "run_phases hw start_order (initial_globals (hw_join hw) tabs_of ram r crd) = Some (Inr g)" by (simp add: kernel_start_def)
    obtain cursor cleanup shell pm where t: "tid cursor = 1" "tid cleanup = 2" "tid shell = 3" "is_kernel_thread cursor" "is_kernel_thread cleanup"
      "\<not> is_kernel_thread shell" "pm_inv pm" "thread_process shell \<in> pid ` set (active_processes pm)"
      and g: "sched_state g = (4, (ready (hw_join hw) shell (ready (hw_join hw) cleanup (ready (hw_join hw) cursor (scheduler_new (hw_join hw)))))
                          \<lparr>current_thread := Some cursor, ready_queue := [shell, cleanup]\<rparr>, pm)"
      using boot_threads[OF run] by blast
    have inv: "sched_inv (hw_join hw) (sched_state g)" unfolding g by (rule three_threads_inv[OF assms(1) t(7) refl t(1-5,8)])
    have "sched_inv (hw_join hw) st" if "(sched_step (hw_join hw) (hw_ops hw) (hw_kernel_flags hw))\<^sup>*\<^sup>* (sched_state g) st" for st
      using that by (induction rule: rtranclp_induct) (auto intro: inv join_map_laws.sched_step_inv[OF assms(1)])
    moreover have "g_interrupts g" by (rule interrupts_stay_on[OF run]) (simp add: start_order_def)
    moreover have "handed_over g" if "g_interrupts g"
      using that g t boot_log[OF run] by (auto simp: handed_over_def sched_state_def ready_def scheduler_new_def)
    ultimately show ?thesis using Some Inr by auto
  qed
qed

theorem boot_hands_over_witness:
  "join_map_laws (hw_join example_computer) \<and> orderly_hardware example_computer id 1 \<and>
   (case kernel_start example_computer (\<lambda>_. replicate 512 0) (\<lambda>_. 0) \<lparr>efer_sce = False, star_sysret = 0, star_syscall = 0, lstar = 0\<rparr> 0 of
      None \<Rightarrow> \<exists>g dev. run_phases example_computer (take 16 start_order) example_start = Some (Inr g) \<and> g_intel_hd_audio g = Some dev \<and> searches_forever dev
    | Some (Inl s) \<Rightarrow> \<exists>p. s = Panic p
    | Some (Inr g) \<Rightarrow> handed_over g \<and>
        {st. (sched_step map_join_ops x86_entry_ops 3)\<^sup>*\<^sup>* (sched_state g) st} \<subseteq> Collect (sched_inv map_join_ops))"
proof -
  have laws: "join_map_laws (hw_join example_computer)" using map_join.join_map_laws_axioms by (simp add: example_computer_def)
  have hw: "hw_join example_computer = map_join_ops" "hw_ops example_computer = x86_entry_ops" "hw_kernel_flags example_computer = 3"
    by (simp_all add: example_computer_def)
  have orderly: "orderly_hardware example_computer id 1" by (rule example_orderly)
  show ?thesis
    using laws orderly boot_hands_over[OF laws orderly, of "\<lambda>_. replicate 512 0" "\<lambda>_. 0" "\<lparr>efer_sce = False, star_sysret = 0, star_syscall = 0, lstar = 0\<rparr>" "0 :: nat"]
    unfolding hw example_start_def by (intro conjI)
qed

end
