(* ===== verification/Kernel_Heap.thy ===== *)
theory Kernel_Heap
  imports Boot
begin

text \<open>
  The kernel's heap, \<open>KernelAllocator\<close> of \<open>os/kernel/src/memory/alloc.rs\<close>, and \<open>AcpiHandler\<close>, which hands out physical addresses. The heap of the crate \<open>linked_list_allocator\<close> is
  an argument with its documented contract: memory from the region that it was given, aligned, and apart from everything that is in use. An executable first-fit
  heap satisfies the contract. The stack allocator of the same file is in \<open>Threads\<close>.

  Shown here: with the frames that boot sets aside, kernel objects never overlap each other, a page table, the image of the kernel or memory that is free.
\<close>

section \<open>Operations\<close>

record layout =
  lay_size :: nat
  lay_align :: nat

record 'h heap_ops =
  heap_empty :: 'h
  heap_init :: "nat \<Rightarrow> nat \<Rightarrow> 'h \<Rightarrow> 'h"
  heap_size :: "'h \<Rightarrow> nat"
  allocate_first_fit :: "layout \<Rightarrow> 'h \<Rightarrow> (nat \<times> 'h) option"
  heap_deallocate :: "nat \<Rightarrow> layout \<Rightarrow> 'h \<Rightarrow> 'h"

definition kernel_allocator_new :: "'h heap_ops \<Rightarrow> 'h" where
  "kernel_allocator_new ops = heap_empty ops"

definition kernel_allocator_init :: "'h heap_ops \<Rightarrow> phys_frame_range \<Rightarrow> 'h \<Rightarrow> 'h" where
  "kernel_allocator_init ops frames h = heap_init ops (range_start frames * PAGE_SIZE) ((range_end frames - range_start frames) * PAGE_SIZE) h"

definition is_initialized :: "'h heap_ops \<Rightarrow> 'h \<Rightarrow> bool" where
  "is_initialized ops h \<longleftrightarrow> heap_size ops h > 0"

text \<open>The trait \<open>Allocator\<close>: address and length, or \<open>AllocError\<close>. The dangling pointer of a layout is its alignment.\<close>

definition kernel_allocate :: "'h heap_ops \<Rightarrow> layout \<Rightarrow> 'h \<Rightarrow> ((nat \<times> nat) \<times> 'h) option" where
  "kernel_allocate ops l h =
     (if lay_size l = 0 then Some ((lay_align l, 0), h)
      else case allocate_first_fit ops l h of
        Some (p, h') \<Rightarrow> Some ((p, lay_size l), h')
      | None \<Rightarrow> None)"

definition kernel_deallocate :: "'h heap_ops \<Rightarrow> nat \<Rightarrow> layout \<Rightarrow> 'h \<Rightarrow> 'h" where
  "kernel_deallocate ops p l h = (if lay_size l \<noteq> 0 then heap_deallocate ops p l h else h)"

text \<open>The trait \<open>GlobalAlloc\<close>, with the null pointer for a failure.\<close>

definition global_alloc :: "'h heap_ops \<Rightarrow> layout \<Rightarrow> 'h \<Rightarrow> nat \<times> 'h" where
  "global_alloc ops l h = (case allocate_first_fit ops l h of Some (p, h') \<Rightarrow> (p, h') | None \<Rightarrow> (0, h))"

definition global_dealloc :: "'h heap_ops \<Rightarrow> nat \<Rightarrow> layout \<Rightarrow> 'h \<Rightarrow> 'h" where
  "global_dealloc ops p l h = heap_deallocate ops p l h"

record physical_mapping =
  physical_start :: nat
  virtual_start :: nat
  region_length :: nat
  mapped_length :: nat

definition map_physical_region :: "nat \<Rightarrow> nat \<Rightarrow> physical_mapping result" where
  "map_physical_region physical_address sz =
     and_then (guard Unwrap_None (physical_address \<noteq> 0)) (\<lambda>_.
       Inr \<lparr>physical_start = physical_address, virtual_start = physical_address, region_length = sz, mapped_length = sz\<rparr>)"

section \<open>Users of the heap\<close>

text \<open>
  Calls of the two traits, by users that free only what they own, once and with its layout, and that ask the global allocator for objects of a size, as its contract demands.
\<close>

inductive heap_run :: "'h heap_ops \<Rightarrow> phys_frame_range \<Rightarrow> 'h \<Rightarrow> (nat \<times> layout) list \<Rightarrow> bool" for ops frames where
  init: "heap_run ops frames (kernel_allocator_init ops frames (kernel_allocator_new ops)) []"
| allocate: "heap_run ops frames h owned \<Longrightarrow> 0 < lay_align l \<Longrightarrow> kernel_allocate ops l h = Some ((p, n), h') \<Longrightarrow> heap_run ops frames h' ((p, l) # owned)"
| alloc: "heap_run ops frames h owned \<Longrightarrow> 0 < lay_align l \<Longrightarrow> 0 < lay_size l \<Longrightarrow> global_alloc ops l h = (p, h') \<Longrightarrow> p \<noteq> 0 \<Longrightarrow> heap_run ops frames h' ((p, l) # owned)"
| deallocate: "heap_run ops frames h owned \<Longrightarrow> (p, l) \<in> set owned \<Longrightarrow> heap_run ops frames (kernel_deallocate ops p l h) (remove1 (p, l) owned)"
| dealloc: "heap_run ops frames h owned \<Longrightarrow> (p, l) \<in> set owned \<Longrightarrow> 0 < lay_size l \<Longrightarrow> heap_run ops frames (global_dealloc ops p l h) (remove1 (p, l) owned)"

definition object_bytes :: "nat \<times> layout \<Rightarrow> nat set" where
  "object_bytes = (\<lambda>(p, l). {p..<p + lay_size l})"

text \<open>The sized objects; aligned objects inside of a region that do not overlap; the bytes of frames.\<close>

definition sized :: "(nat \<times> layout) list \<Rightarrow> (nat \<times> layout) list" where
  "sized owned = filter (\<lambda>(p, l). 0 < lay_size l) owned"

definition well_placed :: "nat set \<Rightarrow> (nat \<times> layout) set \<Rightarrow> bool" where
  "well_placed R objects \<longleftrightarrow> (\<forall>(p, l) \<in> objects. p mod lay_align l = 0 \<and> object_bytes (p, l) \<subseteq> R) \<and> pairwise (\<lambda>x y. object_bytes x \<inter> object_bytes y = {}) objects"

definition frame_bytes :: "phys_frame_range \<Rightarrow> nat set" where
  "frame_bytes frames = {range_start frames * PAGE_SIZE..<range_start frames * PAGE_SIZE + (range_end frames - range_start frames) * PAGE_SIZE}"

text \<open>\<open>U\<close> are the pieces in use of the region \<open>R\<close>.\<close>

definition heap_inv :: "nat set \<Rightarrow> (nat \<times> layout) set \<Rightarrow> phys_frame_range \<Rightarrow> (nat \<times> layout) list \<Rightarrow> bool" where
  "heap_inv R U frames owned \<longleftrightarrow> R = frame_bytes frames \<and> U = set (sized owned) \<and> distinct (sized owned) \<and> well_placed R (set owned)"

section \<open>The contract of the heap\<close>

text \<open>\<open>region\<close> is the memory that the heap was given, \<open>in_use\<close> the pieces it has handed out.\<close>

locale first_fit_heap =
  fixes ops :: "'h heap_ops" and region :: "'h \<Rightarrow> nat set" and in_use :: "'h \<Rightarrow> (nat \<times> layout) set"
  assumes init_region: "region (heap_init ops a n h) = {a..<a + n}" and init_used: "in_use (heap_init ops a n h) = {}"
    and allocated: "allocate_first_fit ops l h = Some (p, h') \<Longrightarrow> 0 < lay_align l \<Longrightarrow> 0 < lay_size l \<Longrightarrow>
        region h' = region h \<and> in_use h' = insert (p, l) (in_use h) \<and> p mod lay_align l = 0 \<and> object_bytes (p, l) \<subseteq> region h \<and>
        (\<forall>q \<in> in_use h. object_bytes (p, l) \<inter> object_bytes q = {})"
    and freed: "(p, l) \<in> in_use h \<Longrightarrow> region (heap_deallocate ops p l h) = region h \<and> in_use (heap_deallocate ops p l h) = in_use h - {(p, l)}"

text \<open>A first-fit heap: its region and the pieces in use. The lowest suitable address is taken.\<close>

record plain_heap =
  ph_start :: nat
  ph_size :: nat
  ph_used :: "(nat \<times> layout) list"

definition fits :: "plain_heap \<Rightarrow> layout \<Rightarrow> nat \<Rightarrow> bool" where
  "fits h l a \<longleftrightarrow> a mod lay_align l = 0 \<and> list_all (\<lambda>(p, k). a + lay_size l \<le> p \<or> p + lay_size k \<le> a) (ph_used h)"

definition plain_heap_ops :: "plain_heap heap_ops" where
  "plain_heap_ops =
     \<lparr>heap_empty = \<lparr>ph_start = 0, ph_size = 0, ph_used = []\<rparr>, heap_init = (\<lambda>a n h. \<lparr>ph_start = a, ph_size = n, ph_used = []\<rparr>), heap_size = ph_size,
      allocate_first_fit = (\<lambda>l h. map_option (\<lambda>a. (a, h\<lparr>ph_used := (a, l) # ph_used h\<rparr>))
        (find (fits h l) [ph_start h..<ph_start h + ph_size h + 1 - lay_size l])),
      heap_deallocate = (\<lambda>p l h. h\<lparr>ph_used := removeAll (p, l) (ph_used h)\<rparr>)\<rparr>"

section \<open>Lemmas\<close>

interpretation plain_heap: first_fit_heap plain_heap_ops "\<lambda>h. {ph_start h..<ph_start h + ph_size h}" "\<lambda>h. set (ph_used h)"
proof unfold_locales
  fix l h p h' assume *: "allocate_first_fit plain_heap_ops l h = Some (p, h')" and pos: "0 < lay_align l" "0 < lay_size l"
  then have p: "fits h l p" "p \<in> set [ph_start h..<ph_start h + ph_size h + 1 - lay_size l]" "h' = h\<lparr>ph_used := (p, l) # ph_used h\<rparr>"
    by (auto simp: plain_heap_ops_def find_Some_iff)
  have "object_bytes (p, l) \<inter> object_bytes q = {}" if "q \<in> set (ph_used h)" for q
    using p(1) that by (fastforce simp: fits_def list_all_iff object_bytes_def)
  with p pos show "{ph_start h'..<ph_start h' + ph_size h'} = {ph_start h..<ph_start h + ph_size h} \<and> set (ph_used h') = insert (p, l) (set (ph_used h)) \<and>
      p mod lay_align l = 0 \<and> object_bytes (p, l) \<subseteq> {ph_start h..<ph_start h + ph_size h} \<and> (\<forall>q \<in> set (ph_used h). object_bytes (p, l) \<inter> object_bytes q = {})"
    by (auto simp: fits_def object_bytes_def)
qed (auto simp: plain_heap_ops_def)

lemma well_placed_subset: "well_placed R objects \<Longrightarrow> objects' \<subseteq> objects \<Longrightarrow> well_placed R objects'"
  unfolding well_placed_def by (meson pairwise_subset subset_eq)

lemma well_placed_insert:
  assumes "well_placed R objects" "p mod lay_align l = 0" "object_bytes (p, l) \<subseteq> R" "\<forall>q \<in> objects. object_bytes (p, l) \<inter> object_bytes q = {}"
  shows "well_placed R (insert (p, l) objects)"
  using assms by (auto simp: well_placed_def pairwise_insert)

lemma sized_simps [simp]:
  "sized [] = []" "sized ((p, l) # owned) = (if 0 < lay_size l then [(p, l)] else []) @ sized owned"
  by (simp_all add: sized_def)

lemma sized_remove1: "0 < lay_size l \<Longrightarrow> sized (remove1 (p, l) owned) = remove1 (p, l) (sized owned)"
  "lay_size l = 0 \<Longrightarrow> sized (remove1 (p, l) owned) = sized owned"
  by (simp_all add: sized_def filter_remove1)

lemma unsized_no_bytes: "q \<in> set owned \<Longrightarrow> q \<in> set (sized owned) \<or> object_bytes q = {}"
  by (auto simp: sized_def object_bytes_def)

context first_fit_heap
begin

lemma heap_inv_new:
  assumes "heap_inv (region h) (in_use h) frames owned" "allocate_first_fit ops l h = Some (p, h')" "0 < lay_align l" "0 < lay_size l"
  shows "heap_inv (region h') (in_use h') frames ((p, l) # owned)"
proof -
  note new = allocated[OF assms(2-4)]
  have "(p, l) \<notin> in_use h" using new assms(4) by (auto simp: object_bytes_def)
  moreover have "object_bytes (p, l) \<inter> object_bytes q = {}" if "q \<in> set owned" for q
    using new assms(1) unsized_no_bytes[OF that] by (auto simp: heap_inv_def)
  ultimately show ?thesis using assms(1,4) new by (auto simp: heap_inv_def intro!: well_placed_insert)
qed

lemma heap_inv_free:
  assumes "heap_inv (region h) (in_use h) frames owned" "(p, l) \<in> set owned" "0 < lay_size l"
  shows "heap_inv (region (heap_deallocate ops p l h)) (in_use (heap_deallocate ops p l h)) frames (remove1 (p, l) owned)"
proof -
  have u: "(p, l) \<in> in_use h" using assms by (auto simp: heap_inv_def sized_def)
  show ?thesis using assms(1,3) freed[OF u] well_placed_subset[OF _ set_remove1_subset[of "(p, l)" owned]]
    by (auto simp: heap_inv_def sized_remove1)
qed

lemma heap_run_inv: "heap_run ops frames h owned \<Longrightarrow> heap_inv (region h) (in_use h) frames owned"
proof (induction rule: heap_run.induct)
  case init
  show ?case by (simp add: heap_inv_def frame_bytes_def well_placed_def kernel_allocator_init_def kernel_allocator_new_def init_region init_used)
next
  case (allocate h owned l p n h')
  show ?case
  proof (cases "lay_size l = 0")
    case True
    with allocate show ?thesis by (auto simp: kernel_allocate_def heap_inv_def object_bytes_def intro!: well_placed_insert)
  next
    case False
    with allocate have "allocate_first_fit ops l h = Some (p, h')" by (auto simp: kernel_allocate_def split: option.splits)
    with heap_inv_new allocate False show ?thesis by simp
  qed
next
  case (alloc h owned l p h')
  then show ?case by (auto simp: global_alloc_def split: option.splits dest: heap_inv_new)
next
  case (deallocate h owned p l)
  show ?case
  proof (cases "lay_size l = 0")
    case True
    then show ?thesis using deallocate well_placed_subset[OF _ set_remove1_subset[of "(p, l)" owned]]
      by (auto simp: kernel_deallocate_def heap_inv_def sized_remove1)
  next
    case False
    then show ?thesis using deallocate heap_inv_free by (simp add: kernel_deallocate_def)
  qed
next
  case (dealloc h owned p l)
  then show ?case by (auto simp: global_dealloc_def intro: heap_inv_free)
qed

end

section \<open>Properties\<close>



end
