(* ===== verification/Early_Delay.thy ===== *)
theory Early_Delay
  imports Devices
begin

text \<open>
  \<open>early_delay_50ms\<close> of \<open>os/kernel/src/device/pit.rs\<close>: before interrupts are on, the timer of the APIC is measured against a delay that polls the output pin of
  the programmable interval timer. The routine is assembler; each of its port accesses is an access here, and its loop is a \<open>partial_function\<close>.

  The timer chip is an argument with the documented behaviour of mode 0: the output is low from the moment the count has been written until one clock after the count has run down.
  Shown here: the routine ends and takes at least 50 ms; how much longer it takes depends on the time of a port access only.
\<close>

section \<open>The routine\<close>

record 's port_io =
  out_byte :: "nat \<Rightarrow> u8 \<Rightarrow> 's \<Rightarrow> 's"
  in_byte :: "nat \<Rightarrow> 's \<Rightarrow> u8 \<times> 's"

partial_function (option) poll_output :: "'s port_io \<Rightarrow> 's \<Rightarrow> 's option" where
  "poll_output io s =
     (let (status, s') = in_byte io 0x40 (out_byte io 0x43 0xE2 s) in
      if status AND 0x80 = 0 then poll_output io s' else Some s')"

definition start_countdown :: "'s port_io \<Rightarrow> 's \<Rightarrow> 's" where
  "start_countdown io s = out_byte io 0x40 0xE9 (out_byte io 0x40 0x0B (out_byte io 0x43 0x30 s))"

definition early_delay_50ms_routine :: "'s port_io \<Rightarrow> 's \<Rightarrow> 's option" where
  "early_delay_50ms_routine io s = poll_output io (start_countdown io s)"

section \<open>The chip\<close>

text \<open>
  \<open>clock\<close> counts the chip's input clock, \<open>low_until\<close> is the time at which the output rises, if the count has been written. A port access takes at least one and at most
  \<open>d\<close> clocks; the read-back command takes the state of the pin at the end of its write access.
\<close>

locale interval_timer =
  fixes io :: "'s port_io" and clock :: "'s \<Rightarrow> nat" and low_until :: "'s \<Rightarrow> nat" and d :: nat
  assumes out_time: "clock s < clock (out_byte io p v s)" "clock (out_byte io p v s) \<le> clock s + d"
    and in_time: "clock s < clock (snd (in_byte io p s))" "clock (snd (in_byte io p s)) \<le> clock s + d"
    and mode_0: "low_until (out_byte io 0x40 hi (out_byte io 0x40 lo (out_byte io 0x43 0x30 s))) =
        clock (out_byte io 0x40 hi (out_byte io 0x40 lo (out_byte io 0x43 0x30 s))) + (256 * unat hi + unat lo) + 1"
    and status_pin: "fst (in_byte io 0x40 (out_byte io 0x43 0xE2 s)) AND 0x80 \<noteq> 0 \<longleftrightarrow> low_until s \<le> clock (out_byte io 0x43 0xE2 s)"
    and status_keeps: "low_until (snd (in_byte io 0x40 (out_byte io 0x43 0xE2 s))) = low_until s"

text \<open>A chip with one channel: what has been written since the last mode command, and the status byte if it has been latched.\<close>

record pit_chip =
  chip_clock :: nat
  chip_written :: "u8 list"
  chip_low_until :: nat
  chip_status :: u8

definition pit_io :: "pit_chip port_io" where
  "pit_io =
     \<lparr>out_byte = (\<lambda>p v s.
        let now = chip_clock s + 1; s' = s\<lparr>chip_clock := now\<rparr> in
        if p = 0x43 \<and> v = 0xE2 then s'\<lparr>chip_status := (if chip_low_until s \<le> now then 0x80 else 0) OR 0x30\<rparr>
        else if p = 0x43 then s'\<lparr>chip_written := []\<rparr>
        else (case chip_written s of
                [lo] \<Rightarrow> s'\<lparr>chip_written := [lo, v], chip_low_until := now + (256 * unat v + unat lo) + 1\<rparr>
              | _ \<Rightarrow> s'\<lparr>chip_written := [v]\<rparr>)),
      in_byte = (\<lambda>p s. (chip_status s, s\<lparr>chip_clock := chip_clock s + 1\<rparr>))\<rparr>"

section \<open>Lemmas\<close>

interpretation pit: interval_timer pit_io chip_clock chip_low_until 1
  by unfold_locales (auto simp: pit_io_def Let_def split: list.split)

context interval_timer
begin

text \<open>Polling ends at the first status that is taken after the output has risen.\<close>

lemma poll_ends:
  "\<exists>s'. poll_output io s = Some s' \<and> low_until s < clock s' \<and> clock s' \<le> max (clock s) (low_until s + d) + 2 * d"
proof (induction "low_until s - clock s" arbitrary: s rule: less_induct)
  case less
  let ?o = "out_byte io 0x43 0xE2 s"
  let ?i = "in_byte io 0x40 ?o"
  have t: "clock s < clock ?o" "clock ?o \<le> clock s + d" "clock ?o < clock (snd ?i)" "clock (snd ?i) \<le> clock ?o + d" "low_until (snd ?i) = low_until s"
    using out_time in_time status_keeps by auto
  show ?case
  proof (cases "low_until s \<le> clock ?o")
    case True
    then have "poll_output io s = Some (snd ?i)" using status_pin[of s] by (subst poll_output.simps) (simp add: split_beta Let_def)
    with True t show ?thesis by simp
  next
    case False
    then have step: "poll_output io s = poll_output io (snd ?i)" using status_pin[of s] by (subst poll_output.simps) (simp add: split_beta Let_def)
    have "low_until (snd ?i) - clock (snd ?i) < low_until s - clock s" using False t by simp
    from less[OF this] False t show ?thesis unfolding step by auto
  qed
qed

lemma delay_ends:
  "\<exists>s'. early_delay_50ms_routine io s = Some s' \<and> 59660 < clock s' - clock s \<and> clock s' - clock s \<le> 59660 + 6 * d"
proof -
  let ?s = "start_countdown io s"
  have "clock s < clock ?s" "clock ?s \<le> clock s + 3 * d"
    using out_time[where s = s and p = "0x43" and v = "0x30"] out_time[where s = "out_byte io 0x43 0x30 s" and p = "0x40" and v = "0x0B"]
      out_time[where s = "out_byte io 0x40 0x0B (out_byte io 0x43 0x30 s)" and p = "0x40" and v = "0xE9"] by (simp_all add: start_countdown_def)
  moreover have "low_until ?s = clock ?s + 59660" using mode_0[of "0xE9" "0x0B" s] by (simp add: start_countdown_def)
  ultimately show ?thesis using poll_ends[of ?s] by (auto simp: early_delay_50ms_routine_def)
qed

end

section \<open>Properties\<close>

text \<open>
  C34: the early delay. On a timer chip with the documented mode 0 the routine ends, after at least 50 ms and at most six port accesses more than
  59660 clocks of 1193182 Hz: the count is a little too small for 50 ms, and the clock that the chip adds makes up for it.
\<close>

theorem early_delay_takes_50ms:
  assumes "interval_timer io clock low_until d"
  shows "\<exists>s'. early_delay_50ms_routine io s = Some s' \<and> 50 * BASE_FREQUENCY \<le> 1000 * (clock s' - clock s) \<and> clock s' - clock s \<le> 59660 + 6 * d"
proof -
  obtain s' where "early_delay_50ms_routine io s = Some s'" "59660 < clock s' - clock s" "clock s' - clock s \<le> 59660 + 6 * d"
    using interval_timer.delay_ends[OF assms] by blast
  then show ?thesis by (auto simp: BASE_FREQUENCY_def)
qed

theorem early_delay_takes_50ms_witness:
  "\<exists>s'. early_delay_50ms_routine pit_io \<lparr>chip_clock = 0, chip_written = [], chip_low_until = 0, chip_status = 0\<rparr> = Some s' \<and>
     50 * 1193182 \<le> 1000 * chip_clock s' \<and> chip_clock s' \<le> 59666"
  using early_delay_takes_50ms[OF pit.interval_timer_axioms, of "\<lparr>chip_clock = 0, chip_written = [], chip_low_until = 0, chip_status = 0\<rparr>"]
  by (simp add: BASE_FREQUENCY_def)

end
