(* ===== verification/User_Programs.thy ===== *)
theory User_Programs
  imports Syscalls Driver_Monad
begin

text \<open>
  User programs: the libraries \<open>runtime\<close>, \<open>concurrent\<close>, \<open>io\<close> and \<open>time\<close> under \<open>os/library\<close> and the shell \<open>os/application/shell\<close>. A user program sees the
  kernel only through system calls, so the kernel is an argument: what a call with some arguments returns and how it changes
  the state of the machine; \<open>None\<close> is a call that does not return. A pointer and a length are one argument, the text they point to. Characters are code points.

  Shown here: whatever the kernel does, the shell starts exactly the lines that are typed, one after the other, and waits for each application that
  the kernel reports as started. The statement is about the calls that the shell makes, recorded by \<open>traced\<close>.
\<close>

section \<open>System calls\<close>

type_synonym utext = "nat list"

datatype call_argument = Number nat | Text utext

type_synonym 's kernel = "system_call \<Rightarrow> call_argument list \<Rightarrow> 's \<Rightarrow> (nat \<times> 's) option"

definition call :: "'s kernel \<Rightarrow> system_call \<Rightarrow> call_argument list \<Rightarrow> ('s, nat) drv" where
  "call k c args = (\<lambda>s. case k c args s of None \<Rightarrow> None | Some r \<Rightarrow> Some (Inr r))"

definition text_of :: "string \<Rightarrow> utext" where
  "text_of s = map of_char s"

section \<open>Libraries\<close>

definition process_current :: "'s kernel \<Rightarrow> ('s, nat) drv" where
  "process_current k = call k ProcessId []"

definition thread_current :: "'s kernel \<Rightarrow> ('s, nat) drv" where
  "thread_current k = call k ThreadId []"

definition user_thread_join :: "'s kernel \<Rightarrow> nat \<Rightarrow> ('s, unit) drv" where
  "user_thread_join k i = seq (call k ThreadJoin [Number i]) (\<lambda>_. ret ())"

definition user_thread_switch :: "'s kernel \<Rightarrow> ('s, unit) drv" where
  "user_thread_switch k = seq (call k ThreadSwitch []) (\<lambda>_. ret ())"

definition user_thread_sleep :: "'s kernel \<Rightarrow> nat \<Rightarrow> ('s, unit) drv" where
  "user_thread_sleep k ms = seq (call k ThreadSleep [Number ms]) (\<lambda>_. ret ())"

text \<open>\<open>exit\<close> panics if the call comes back.\<close>

definition user_thread_exit :: "'s kernel \<Rightarrow> ('s, 'a) drv" where
  "user_thread_exit k = seq (call k ThreadExit []) (\<lambda>_. halt Assert_Failed)"

definition start_application :: "'s kernel \<Rightarrow> utext \<Rightarrow> ('s, nat option) drv" where
  "start_application k name = seq (call k ApplicationStart [Text name]) (\<lambda>r. ret (if r = 0 then None else Some r))"

definition user_systime :: "'s kernel \<Rightarrow> ('s, int) drv" where
  "user_systime k = seq (call k GetSystemTime []) (\<lambda>v. ret (sint (of_nat v :: u64)))"

definition user_set_date :: "'s kernel \<Rightarrow> int \<Rightarrow> ('s, bool) drv" where
  "user_set_date k date_ms = seq (call k SetDate [Number (unat (word_of_int date_ms :: u64))]) (\<lambda>success. ret (success \<noteq> 0))"

text \<open>\<open>char::from_u32\<close> accepts everything but surrogates and numbers past the last plane.\<close>

definition char_from_u32 :: "nat \<Rightarrow> nat option" where
  "char_from_u32 n = (if n < 0xD800 \<or> 0xE000 \<le> n \<and> n < 0x110000 then Some n else None)"

definition read_char :: "'s kernel \<Rightarrow> ('s, nat) drv" where
  "read_char k = seq (call k Read []) (\<lambda>v. lift (unwrap Unwrap_None (char_from_u32 (v mod 2 ^ 32))))"

definition print_text :: "'s kernel \<Rightarrow> utext \<Rightarrow> ('s, unit) drv" where
  "print_text k t = seq (call k Write [Text t]) (\<lambda>_. ret ())"

definition USER_HEAP_SIZE :: nat where "USER_HEAP_SIZE = 0x100000"

text \<open>\<open>entry\<close> of the runtime; \<open>init_heap\<close> is the allocator of the crate \<open>linked_list_allocator\<close>.\<close>

definition user_entry :: "'s kernel \<Rightarrow> (nat \<Rightarrow> nat \<Rightarrow> ('s, unit) drv) \<Rightarrow> ('s, unit) drv \<Rightarrow> ('s, unit) drv" where
  "user_entry k init_heap main =
     seq (call k MapUserHeap [Number USER_HEAP_SIZE]) (\<lambda>heap_start.
     seq (init_heap heap_start USER_HEAP_SIZE) (\<lambda>_.
     seq main (\<lambda>_.
       user_thread_exit k)))"

section \<open>The shell\<close>

text \<open>One iteration of the loop of \<open>main\<close> with the command typed so far, \<open>n\<close> iterations, and \<open>main\<close>.\<close>

definition shell_step :: "'s kernel \<Rightarrow> utext \<Rightarrow> ('s, utext) drv" where
  "shell_step k command =
     seq (read_char k) (\<lambda>c.
       if c = 10 then
         seq (if command \<noteq> [] then
                seq (start_application k command) (\<lambda>r.
                  (case r of Some app \<Rightarrow> user_thread_join k app | None \<Rightarrow> print_text k (text_of ''Command not found!'' @ [10])))
              else ret ()) (\<lambda>_.
         seq (print_text k (text_of ''> '')) (\<lambda>_. ret []))
       else seq (lift (unwrap Unwrap_None (char_from_u32 c))) (\<lambda>c'. ret (command @ [c'])))"

fun shell_loop :: "'s kernel \<Rightarrow> nat \<Rightarrow> utext \<Rightarrow> ('s, utext) drv" where
  "shell_loop k 0 command = ret command"
| "shell_loop k (Suc n) command = seq (shell_step k command) (shell_loop k n)"

definition shell_main :: "'s kernel \<Rightarrow> nat \<Rightarrow> ('s, utext) drv" where
  "shell_main k n = seq (print_text k (text_of ''> '')) (\<lambda>_. shell_loop k n [])"

section \<open>Lines\<close>

text \<open>The complete lines of a text, and what follows the last of them.\<close>

function complete_lines :: "utext \<Rightarrow> utext list" where
  "complete_lines t =
     (if 10 \<in> set t then takeWhile (\<lambda>c. c \<noteq> 10) t # complete_lines (tl (dropWhile (\<lambda>c. c \<noteq> 10) t)) else [])"
  by pat_completeness auto

termination
proof (relation "measure length")
  fix t :: utext assume "10 \<in> set t"
  then have "dropWhile (\<lambda>c. c \<noteq> 10) t \<noteq> []" by (auto simp: dropWhile_eq_Nil_conv)
  then show "(tl (dropWhile (\<lambda>c. c \<noteq> 10) t), t) \<in> measure length"
    using length_dropWhile_le[of "\<lambda>c. c \<noteq> 10" t] by (cases "dropWhile (\<lambda>c. c \<noteq> 10) t") auto
qed simp

definition last_line :: "utext \<Rightarrow> utext" where
  "last_line t = rev (takeWhile (\<lambda>c. c \<noteq> 10) (rev t))"

declare complete_lines.simps [simp del]

section \<open>Calls and answers\<close>

text \<open>A kernel that behaves as the given one and records each call that returns, with its answer.\<close>

type_synonym call_trace = "(system_call \<times> call_argument list \<times> nat) list"

definition traced :: "'s kernel \<Rightarrow> ('s \<times> call_trace) kernel" where
  "traced k c args = (\<lambda>(s, tr). case k c args s of None \<Rightarrow> None | Some (v, s') \<Rightarrow> Some (v, s', tr @ [(c, args, v)]))"

text \<open>The characters that were read, the names of the applications asked for with the kernel's answers, and the threads waited for.\<close>

fun typed :: "call_trace \<Rightarrow> utext" where
  "typed [] = []"
| "typed ((c, args, v) # tr) = (if c = Read then [v mod 2 ^ 32] else []) @ typed tr"

fun started :: "call_trace \<Rightarrow> (utext \<times> nat) list" where
  "started [] = []"
| "started ((c, args, v) # tr) =
     (case (c, args) of (ApplicationStart, [Text t]) \<Rightarrow> [(t, v)] | _ \<Rightarrow> []) @ started tr"

fun joined :: "call_trace \<Rightarrow> nat list" where
  "joined [] = []"
| "joined ((c, args, v) # tr) = (case (c, args) of (ThreadJoin, [Number i]) \<Rightarrow> [i] | _ \<Rightarrow> []) @ joined tr"

text \<open>The call after a start waits for the thread, or complains if there is none.\<close>

definition reaction :: "nat \<Rightarrow> system_call \<times> call_argument list" where
  "reaction v = (if v \<noteq> 0 then (ThreadJoin, [Number v]) else (Write, [Text (text_of ''Command not found!'' @ [10])]))"

fun reacts :: "call_trace \<Rightarrow> bool" where
  "reacts [] = True"
| "reacts ((c, args, v) # tr) =
     ((c = ApplicationStart \<longrightarrow> (case tr of [] \<Rightarrow> False | (c', args', _) # _ \<Rightarrow> (c', args') = reaction v)) \<and> reacts tr)"

text \<open>Why a run of the shell ends without a result: a call that does not return, or a character that is none.\<close>

definition call_hangs :: "'s kernel \<Rightarrow> bool" where
  "call_hangs k \<longleftrightarrow> (\<exists>c args s. c \<in> {Read, Write, ApplicationStart, ThreadJoin} \<and> k c args s = None)"

definition no_character :: "'s kernel \<Rightarrow> bool" where
  "no_character k \<longleftrightarrow> (\<exists>s v s'. k Read [] s = Some (v, s') \<and> char_from_u32 (v mod 2 ^ 32) = None)"

text \<open>A routine and the same routine on the recording kernel: the recorded calls satisfy \<open>P\<close>.\<close>

definition records :: "'s kernel \<Rightarrow> ('s \<times> call_trace, 'a) drv \<Rightarrow> ('s, 'a) drv \<Rightarrow> ('a \<Rightarrow> call_trace \<Rightarrow> bool) \<Rightarrow> bool" where
  "records k m m' P \<longleftrightarrow>
     (\<forall>s tr. case m (s, tr) of
         None \<Rightarrow> m' s = None \<and> call_hangs k
       | Some (Inl p) \<Rightarrow> m' s = Some (Inl p) \<and> p = Unwrap_None \<and> no_character k
       | Some (Inr (x, s', tr')) \<Rightarrow> m' s = Some (Inr (x, s')) \<and> (\<exists>es. tr' = tr @ es \<and> P x es))"

text \<open>What holds of the calls so far and the command typed so far.\<close>

definition shell_inv :: "utext \<Rightarrow> call_trace \<Rightarrow> bool" where
  "shell_inv command tr \<longleftrightarrow> map fst (started tr) = filter (\<lambda>l. l \<noteq> []) (complete_lines (typed tr)) \<and>
     command = last_line (typed tr) \<and> joined tr = filter (\<lambda>v. v \<noteq> 0) (map snd (started tr)) \<and> reacts tr"

text \<open>A kernel for an example: it types a fixed text and reports thread 7 for each application; its state counts the characters.\<close>

fun typing_kernel :: "utext \<Rightarrow> nat kernel" where
  "typing_kernel keys Read args n = (if n < length keys then Some (keys ! n, Suc n) else None)"
| "typing_kernel keys ApplicationStart args n = Some (7, n)"
| "typing_kernel keys c args n = Some (0, n)"

section \<open>Lemmas\<close>

lemma complete_lines_none: "10 \<notin> set t \<Longrightarrow> complete_lines t = []"
  by (simp add: complete_lines.simps)

lemma complete_lines_Cons: "10 \<notin> set a \<Longrightarrow> complete_lines (a @ 10 # t) = a # complete_lines t"
proof -
  assume "10 \<notin> set a"
  then have "takeWhile (\<lambda>c. c \<noteq> 10) (a @ 10 # t) = a" "dropWhile (\<lambda>c. c \<noteq> 10) (a @ 10 # t) = 10 # t"
    by (auto simp: takeWhile_append dropWhile_append)
  then show ?thesis by (subst complete_lines.simps) simp
qed

lemma last_line_snoc: "last_line (t @ [c]) = (if c = 10 then [] else last_line t @ [c])"
  by (simp add: last_line_def)

lemma last_line_Cons: "last_line (a @ 10 # t) = last_line t"
  by (simp add: last_line_def takeWhile_tail)

lemma last_line_none: "10 \<notin> set t \<Longrightarrow> last_line t = t"
proof -
  assume "10 \<notin> set t"
  then have "takeWhile (\<lambda>c. c \<noteq> 10) (rev t) = rev t" by (auto simp: takeWhile_eq_all_conv)
  then show ?thesis by (simp only: last_line_def rev_rev_ident)
qed

lemma complete_lines_snoc: "complete_lines (t @ [c]) = (if c = 10 then complete_lines t @ [last_line t] else complete_lines t)"
proof (induction t rule: complete_lines.induct)
  case (1 t)
  show ?case
  proof (cases "10 \<in> set t")
    case True
    then obtain a u where t: "t = a @ 10 # u" "10 \<notin> set a" by (meson split_list_first)
    then have "tl (dropWhile (\<lambda>c. c \<noteq> 10) t) = u" by (auto simp: dropWhile_append)
    with 1[OF True] t show ?thesis by (auto simp: complete_lines_Cons last_line_Cons)
  next
    case False
    then show ?thesis using complete_lines_Cons[of t "[]"] by (auto simp: complete_lines_none last_line_none)
  qed
qed

lemma records_ret: "P x [] \<Longrightarrow> records k (ret x) (ret x) P"
  by (auto simp: records_def ret_def)

lemma records_call:
  "c \<in> {Read, Write, ApplicationStart, ThreadJoin} \<Longrightarrow> (\<And>v. P v [(c, args, v)]) \<Longrightarrow>
     records k (call (traced k) c args) (call k c args) P"
  by (auto simp: records_def call_def traced_def call_hangs_def split: option.splits)

lemma records_seq:
  assumes m: "records k m m' P" and f: "\<And>x es. P x es \<Longrightarrow> records k (f x) (f' x) (\<lambda>y fs. Q y (es @ fs))"
  shows "records k (seq m f) (seq m' f') Q"
  unfolding records_def
proof (intro allI)
  fix s tr
  note m1 = m[unfolded records_def, rule_format, of s tr]
  show "case seq m f (s, tr) of
         None \<Rightarrow> seq m' f' s = None \<and> call_hangs k
       | Some (Inl p) \<Rightarrow> seq m' f' s = Some (Inl p) \<and> p = Unwrap_None \<and> no_character k
       | Some (Inr (x, s', tr')) \<Rightarrow> seq m' f' s = Some (Inr (x, s')) \<and> (\<exists>es. tr' = tr @ es \<and> Q x es)"
  proof (cases "m (s, tr)")
    case (Some r)
    show ?thesis
    proof (cases r)
      case (Inr y)
      obtain x s1 tr1 where y: "y = (x, s1, tr1)" by (cases y) auto
      with m1 Some Inr obtain es where es: "m' s = Some (Inr (x, s1))" "tr1 = tr @ es" "P x es" by auto
      from f[OF es(3), unfolded records_def, rule_format, of s1 tr1] es(2) Some Inr y es(1) show ?thesis
        by (auto simp: seq_def split: option.splits sum.splits)
    qed (use m1 Some in \<open>auto simp: seq_def\<close>)
  qed (use m1 in \<open>auto simp: seq_def\<close>)
qed

lemma records_read: "(\<And>c v. c = v mod 2 ^ 32 \<Longrightarrow> char_from_u32 c = Some c \<Longrightarrow> P c [(Read, [], v)]) \<Longrightarrow> records k (read_char (traced k)) (read_char k) P"
  by (auto simp: records_def read_char_def call_def traced_def seq_def lift_def char_from_u32_def call_hangs_def no_character_def
      split: option.splits if_splits)

lemma records_print: "(\<And>v. P () [(Write, [Text t], v)]) \<Longrightarrow> records k (print_text (traced k) t) (print_text k t) P"
  unfolding print_text_def by (rule records_seq[OF records_call[of Write "\<lambda>v es. es = [(Write, [Text t], v)]"]]) (auto intro: records_ret)

lemma records_join: "(\<And>v. P () [(ThreadJoin, [Number i], v)]) \<Longrightarrow> records k (user_thread_join (traced k) i) (user_thread_join k i) P"
  unfolding user_thread_join_def
  by (rule records_seq[OF records_call[of ThreadJoin "\<lambda>v es. es = [(ThreadJoin, [Number i], v)]"]]) (auto intro: records_ret)

lemma records_start:
  "(\<And>v. P (if v = 0 then None else Some v) [(ApplicationStart, [Text t], v)]) \<Longrightarrow>
     records k (start_application (traced k) t) (start_application k t) P"
  unfolding start_application_def
  by (rule records_seq[OF records_call[of ApplicationStart "\<lambda>v es. es = [(ApplicationStart, [Text t], v)]"]])
     (simp_all add: records_ret del: if_split)

lemma trace_append [simp]:
  "typed (tr @ es) = typed tr @ typed es" "started (tr @ es) = started tr @ started es" "joined (tr @ es) = joined tr @ joined es"
  by (induction tr) auto

lemma reacts_append: "reacts tr \<Longrightarrow> reacts es \<Longrightarrow> reacts (tr @ es)"
  by (induction tr) (auto split: list.splits)

text \<open>Asking for an application, and the reaction to the answer.\<close>

lemma command_recorded:
  assumes "\<And>v w. P () [(ApplicationStart, [Text command], v), (fst (reaction v), snd (reaction v), w)]"
  shows "records k
    (seq (start_application (traced k) command) (\<lambda>r. case r of Some app \<Rightarrow> user_thread_join (traced k) app
       | None \<Rightarrow> print_text (traced k) (text_of ''Command not found!'' @ [10])))
    (seq (start_application k command) (\<lambda>r. case r of Some app \<Rightarrow> user_thread_join k app
       | None \<Rightarrow> print_text k (text_of ''Command not found!'' @ [10]))) P"
proof (rule records_seq[OF records_start[of "\<lambda>r es. \<exists>v. r = (if v = 0 then None else Some v) \<and> es = [(ApplicationStart, [Text command], v)]"]])
  fix r :: "nat option" and es assume "\<exists>v. r = (if v = 0 then None else Some v) \<and> es = [(ApplicationStart, [Text command], v)]"
  then obtain v where v: "r = (if v = 0 then None else Some v)" "es = [(ApplicationStart, [Text command], v)]" by blast
  show "records k (case r of Some app \<Rightarrow> user_thread_join (traced k) app | None \<Rightarrow> print_text (traced k) (text_of ''Command not found!'' @ [10]))
    (case r of Some app \<Rightarrow> user_thread_join k app | None \<Rightarrow> print_text k (text_of ''Command not found!'' @ [10])) (\<lambda>y fs. P y (es @ fs))"
    using assms[of v] v by (cases "v = 0") (auto simp: reaction_def intro!: records_join records_print)
qed blast

lemma step_recorded:
  assumes "shell_inv command tr"
  shows "records k (shell_step (traced k) command) (shell_step k command)
    (\<lambda>command' es. shell_inv command' (tr @ es) \<and> length (typed es) = 1)"
  unfolding shell_step_def
proof (rule records_seq[OF records_read[of "\<lambda>c es. char_from_u32 c = Some c \<and> (\<exists>v. c = v mod 2 ^ 32 \<and> es = [(Read, [], v)])"]])
  fix c and es :: call_trace assume "char_from_u32 c = Some c \<and> (\<exists>v. c = v mod 2 ^ 32 \<and> es = [(Read, [], v)])"
  then obtain v where c: "char_from_u32 c = Some c" "c = v mod 2 ^ 32" and es: "es = [(Read, [], v)]" by blast
  let ?traced_act = "if command \<noteq> [] then seq (start_application (traced k) command) (\<lambda>r. case r of Some app \<Rightarrow> user_thread_join (traced k) app
        | None \<Rightarrow> print_text (traced k) (text_of ''Command not found!'' @ [10])) else ret ()"
  let ?act = "if command \<noteq> [] then seq (start_application k command) (\<lambda>r. case r of Some app \<Rightarrow> user_thread_join k app
        | None \<Rightarrow> print_text k (text_of ''Command not found!'' @ [10])) else ret ()"
  let ?Q = "\<lambda>command' fs. shell_inv command' (tr @ es @ fs) \<and> length (typed (es @ fs)) = 1"
  have push: "records k (seq (lift (unwrap Unwrap_None (char_from_u32 c))) (\<lambda>c'. ret (command @ [c'])))
      (seq (lift (unwrap Unwrap_None (char_from_u32 c))) (\<lambda>c'. ret (command @ [c']))) ?Q" if "c \<noteq> 10"
    using that assms c es by (auto simp: records_def seq_def lift_def ret_def shell_inv_def complete_lines_snoc last_line_snoc reacts_append)
  have run: "records k (seq ?traced_act (\<lambda>_. seq (print_text (traced k) (text_of ''> '')) (\<lambda>_. ret [])))
      (seq ?act (\<lambda>_. seq (print_text k (text_of ''> '')) (\<lambda>_. ret []))) ?Q" if "c = 10"
  proof (rule records_seq)
    let ?P = "\<lambda>(_ :: unit) fs. typed fs = [] \<and> map fst (started fs) = filter (\<lambda>l. l \<noteq> []) [command] \<and>
      joined fs = filter (\<lambda>v. v \<noteq> 0) (map snd (started fs)) \<and> reacts fs"
    show "records k ?traced_act ?act ?P"
      by (cases "command = []") (auto intro!: records_ret command_recorded simp: reaction_def)
    fix x fs assume fs: "?P x fs"
    show "records k (seq (print_text (traced k) (text_of ''> '')) (\<lambda>_. ret [])) (seq (print_text k (text_of ''> '')) (\<lambda>_. ret []))
      (\<lambda>y gs. ?Q y (fs @ gs))"
      using fs assms c es that
      by (intro records_seq[OF records_print[of "\<lambda>x es. \<exists>v. es = [(Write, [Text (text_of ''> '')], v)]"]])
         (auto intro!: records_ret reacts_append simp: shell_inv_def complete_lines_snoc last_line_snoc)
  qed
  show "records k (if c = 10 then seq ?traced_act (\<lambda>_. seq (print_text (traced k) (text_of ''> '')) (\<lambda>_. ret []))
      else seq (lift (unwrap Unwrap_None (char_from_u32 c))) (\<lambda>c'. ret (command @ [c'])))
    (if c = 10 then seq ?act (\<lambda>_. seq (print_text k (text_of ''> '')) (\<lambda>_. ret []))
      else seq (lift (unwrap Unwrap_None (char_from_u32 c))) (\<lambda>c'. ret (command @ [c'])))
    (\<lambda>y fs. shell_inv y (tr @ es @ fs) \<and> length (typed (es @ fs)) = 1)"
    using push run by simp
qed blast

lemma loop_recorded:
  "shell_inv command tr \<Longrightarrow> records k (shell_loop (traced k) n command) (shell_loop k n command)
     (\<lambda>command' es. shell_inv command' (tr @ es) \<and> length (typed es) = n)"
proof (induction n arbitrary: command tr)
  case (Suc n)
  show ?case unfolding shell_loop.simps
  proof (rule records_seq[OF step_recorded[OF Suc.prems]])
    fix command1 es assume es: "shell_inv command1 (tr @ es) \<and> length (typed es) = 1"
    with Suc.IH[of command1 "tr @ es"]
    show "records k (shell_loop (traced k) n command1) (shell_loop k n command1)
      (\<lambda>y fs. shell_inv y (tr @ es @ fs) \<and> length (typed (es @ fs)) = Suc n)" by simp
  qed
qed (auto intro: records_ret)

lemma main_recorded:
  "records k (shell_main (traced k) n) (shell_main k n) (\<lambda>command es. shell_inv command es \<and> length (typed es) = n)"
  unfolding shell_main_def
proof (rule records_seq[OF records_print[of "\<lambda>x es. \<exists>v. es = [(Write, [Text (text_of ''> '')], v)]"]])
  fix x and es :: call_trace assume "\<exists>v. es = [(Write, [Text (text_of ''> '')], v)]"
  then have "shell_inv [] es" "typed es = []" by (auto simp: shell_inv_def complete_lines_none last_line_none)
  with loop_recorded[of "[]" es k n]
  show "records k (shell_loop (traced k) n []) (shell_loop k n []) (\<lambda>y fs. shell_inv y (es @ fs) \<and> length (typed (es @ fs)) = n)" by simp
qed blast

section \<open>Properties\<close>

text \<open>
  C32: the shell starts what is typed, on any kernel. Take the first \<open>n\<close> iterations of its loop. If they come to an end, \<open>n\<close> characters were read, the applications asked
  for are exactly the non-empty lines that were typed, in order and without the line feeds, and the rest of the last line is kept for the next command; for
  every application the next call waits for the thread that the kernel has reported, or complains if it has reported none, and no other thread is waited
  for. They come to no end only if a call of the kernel does not return (as \<open>ThreadJoin\<close>, which panics in the kernel when the application has exited already),
  and panic only if the kernel returns a number from a read that is no character.
\<close>

theorem shell_starts_typed_lines:
  "case shell_main (traced k) n (s, []) of
     None \<Rightarrow> shell_main k n s = None \<and> (\<exists>c args s. c \<in> {Read, Write, ApplicationStart, ThreadJoin} \<and> k c args s = None)
   | Some (Inl p) \<Rightarrow> shell_main k n s = Some (Inl p) \<and>
       (\<exists>s v s'. k Read [] s = Some (v, s') \<and> char_from_u32 (v mod 2 ^ 32) = None)
   | Some (Inr (command, s', tr)) \<Rightarrow> shell_main k n s = Some (Inr (command, s')) \<and> length (typed tr) = n \<and>
       map fst (started tr) = filter (\<lambda>l. l \<noteq> []) (complete_lines (typed tr)) \<and> command = last_line (typed tr) \<and>
       joined tr = filter (\<lambda>v. v \<noteq> 0) (map snd (started tr)) \<and> reacts tr"
  using main_recorded[of k n, unfolded records_def, rule_format, of s "[]"]
  by (auto simp: shell_inv_def call_hangs_def no_character_def split: option.splits sum.splits)

theorem shell_starts_typed_lines_witness:
  "\<exists>command s' tr. shell_main (traced (typing_kernel [108, 115, 10, 100])) (Suc (Suc (Suc (Suc 0)))) (0, []) = Some (Inr (command, s', tr)) \<and>
     shell_main (typing_kernel [108, 115, 10, 100]) (Suc (Suc (Suc (Suc 0)))) 0 = Some (Inr (command, s')) \<and>
     typed tr = [108, 115, 10, 100] \<and> map fst (started tr) = [[108, 115]] \<and> joined tr = [7] \<and> command = [100]"
proof -
  let ?k = "typing_kernel [108, 115, 10, 100]" and ?n = "Suc (Suc (Suc (Suc 0)))"
  obtain command s' tr where run: "shell_main (traced ?k) ?n (0, []) = Some (Inr (command, s', tr))" "typed tr = [108, 115, 10, 100]"
      "map snd (started tr) = [7]"
    by (simp add: shell_main_def shell_step_def print_text_def read_char_def start_application_def user_thread_join_def call_def seq_def ret_def
        lift_def char_from_u32_def traced_def)
  moreover have "complete_lines [108, 115, 10, 100] = [[108, 115]]" "last_line [108, 115, 10, 100] = [100]"
    by (simp_all add: complete_lines.simps last_line_def)
  ultimately show ?thesis using shell_starts_typed_lines[of ?k ?n 0] by simp
qed

end
