(* ===== verification/Applications.thy ===== *)
theory Applications
  imports User_Programs Syscalls Syscall_Io Log "HOL-Library.Signed_Division"
begin

text \<open>
  The applications \<open>hello\<close>, \<open>date\<close> and \<open>uptime\<close> under \<open>os/application\<close> and the rest of the libraries they use. The macro \<open>println\<close> makes one system call for each piece
  of its format string and for each formatted argument. The crate \<open>chrono\<close> is an argument, of which the documented meaning of the number of whole seconds, minutes and hours is used.

  \<open>served\<close> connects the programs to the kernel of \<open>Syscalls\<close> and \<open>Syscall_Io\<close>: their calls are the system call functions modelled there, on a state of kernel and terminal.
  The contract \<open>serving_kernel\<close> says what a program that only asks and prints relies on; it holds for \<open>served\<close>.

  Shown here: the time printed by \<open>uptime\<close> can be read back, and \<open>hello\<close> prints the two ids in the wrong places.
\<close>

section \<open>Formatted output\<close>

text \<open>Display of a number, padded with zeros to a width: sign, fill characters one by one, digits.\<close>

definition format_int :: "nat \<Rightarrow> int \<Rightarrow> string list" where
  "format_int width n =
     (let digits = decimal (nat \<bar>n\<bar>); sign = (if n < 0 then [''-''] else []) in
      replicate (width - length digits - length sign) ''0'' @ sign @ [digits])"

definition print_pieces :: "'s kernel \<Rightarrow> string list \<Rightarrow> ('s, unit) drv" where
  "print_pieces k pieces = seq (for_each (\<lambda>s. print_text k (text_of s)) pieces) (\<lambda>_. ret ())"

definition NEWLINE :: string where "NEWLINE = [CHR 0x0A]"

section \<open>Programs\<close>

definition hello_main :: "'s kernel \<Rightarrow> ('s, unit) drv" where
  "hello_main k =
     seq (process_current k) (\<lambda>process.
     seq (thread_current k) (\<lambda>thread.
       print_pieces k ([''Hello from Thread ['', decimal process, ''] in Process ['', decimal thread, '']!'' @ NEWLINE])))"

text \<open>\<open>time::date\<close>, and the program; \<open>from_timestamp_millis\<close> and \<open>format\<close> belong to \<open>chrono\<close>.\<close>

definition user_date :: "'s kernel \<Rightarrow> (int \<Rightarrow> 'd option) \<Rightarrow> ('s, 'd) drv" where
  "user_date k from_timestamp_millis =
     seq (call k GetDate []) (\<lambda>date_ms. lift (unwrap Unwrap_None (from_timestamp_millis (sint (of_nat date_ms :: u64)))))"

definition date_main :: "'s kernel \<Rightarrow> (int \<Rightarrow> 'd option) \<Rightarrow> (string \<Rightarrow> 'd \<Rightarrow> string list) \<Rightarrow> ('s, unit) drv" where
  "date_main k from_timestamp_millis format =
     seq (user_date k from_timestamp_millis) (\<lambda>date. print_pieces k (format ''%Y-%m-%d %H:%M:%S'' date @ [NEWLINE]))"

text \<open>A duration is its number of milliseconds.\<close>

record duration_ops =
  num_seconds :: "int \<Rightarrow> int"
  num_minutes :: "int \<Rightarrow> int"
  num_whole_hours :: "int \<Rightarrow> int"

definition uptime_main :: "'s kernel \<Rightarrow> duration_ops \<Rightarrow> ('s, unit) drv" where
  "uptime_main k c =
     seq (user_systime k) (\<lambda>systime.
       if num_seconds c systime < 60 then print_pieces k (format_int 0 (num_seconds c systime) @ [NEWLINE])
       else if num_seconds c systime < 3600 then
         print_pieces k (format_int 0 (num_minutes c systime) @ ['':''] @ format_int 2 (num_seconds c systime smod 60) @ [NEWLINE])
       else
         (let seconds = num_seconds c systime - num_minutes c systime * 60 in
          print_pieces k (format_int 0 (num_whole_hours c systime) @ ['':''] @ format_int 2 (num_minutes c systime smod 60) @ ['':''] @
            format_int 2 seconds @ [NEWLINE])))"

text \<open>The panic handler of the runtime; \<open>info\<close> are the pieces of the formatted message.\<close>

definition user_panic :: "'s kernel \<Rightarrow> string list \<Rightarrow> ('s, 'a) drv" where
  "user_panic k info = seq (print_pieces k (''Panic: '' # info @ [''!'' @ NEWLINE])) (\<lambda>_. user_thread_exit k)"

section \<open>The kernel behind the calls\<close>

record ('e, 'm, 'p) console =
  c_kernel :: "('e, 'm) Syscalls.kernel"
  c_terminal :: "'p \<times> terminal"

text \<open>A call whose handler panics does not return.\<close>

definition answer :: "nat result \<Rightarrow> 's \<Rightarrow> (nat \<times> 's) option" where
  "answer r s = (case r of Inl _ \<Rightarrow> None | Inr v \<Rightarrow> Some (v, s))"

text \<open>The calls of the three programs. The text of a write call lies at the address \<open>buffer\<close>; plain characters take one byte.\<close>

definition served ::
  "('p \<Rightarrow> u8 \<Rightarrow> 'p \<times> term_event list) \<Rightarrow> term_env \<Rightarrow> nat \<Rightarrow> u64 result \<Rightarrow> ('e, 'm, 'p) console User_Programs.kernel" where
  "served advance env buffer date c args s =
     (case (c, args) of
        (ProcessId, []) \<Rightarrow> answer (sys_process_id (c_kernel s)) s
      | (ThreadId, []) \<Rightarrow> answer (sys_thread_id (c_kernel s)) s
      | (GetSystemTime, []) \<Rightarrow> Some (sys_get_system_time (c_kernel s), s)
      | (GetDate, []) \<Rightarrow> answer (and_then date (\<lambda>d. Inr (unat d))) s
      | (Write, [Text t]) \<Rightarrow>
          (case sys_write advance env (\<lambda>a. of_nat (t ! (a - buffer))) buffer (length t) (c_terminal s) of
             Inl _ \<Rightarrow> None
           | Inr term \<Rightarrow> Some (0, s\<lparr>c_terminal := term\<rparr>))
      | _ \<Rightarrow> None)"

definition plain_text :: "string \<Rightarrow> bool" where
  "plain_text t \<longleftrightarrow> list_all (\<lambda>c. plain (of_char c)) t"

text \<open>The text has been carried out by the terminal, and nothing else has changed.\<close>

definition shown :: "term_env \<Rightarrow> ('e, 'm, 'p) console \<Rightarrow> string \<Rightarrow> ('e, 'm, 'p) console \<Rightarrow> bool" where
  "shown env s t s' \<longleftrightarrow> c_kernel s' = c_kernel s \<and>
     perform_all env (map (\<lambda>c. plain_event (of_char c)) t) (snd (c_terminal s)) = Inr (snd (c_terminal s'))"

section \<open>Contracts\<close>

locale duration_laws =
  fixes c :: duration_ops
  assumes whole_seconds: "0 \<le> ms \<Longrightarrow> num_seconds c ms = ms div 1000"
    and whole_minutes: "0 \<le> ms \<Longrightarrow> num_minutes c ms = ms div 60000"
    and whole_hours: "0 \<le> ms \<Longrightarrow> num_whole_hours c ms = ms div 3600000"

text \<open>Plain text is shown in every good state; the answers of the other calls do not change by it.\<close>

locale serving_kernel =
  fixes k :: "'s kernel" and good_state :: "'s \<Rightarrow> bool" and showing :: "'s \<Rightarrow> string \<Rightarrow> 's \<Rightarrow> bool"
  assumes showing_nothing: "showing s [] s"
    and showing_more: "showing s t s' \<Longrightarrow> showing s' u s'' \<Longrightarrow> showing s (t @ u) s''"
    and write_call: "good_state s \<Longrightarrow> plain_text t \<Longrightarrow> \<exists>v s'. k Write [Text (text_of t)] s = Some (v, s') \<and> good_state s' \<and> showing s t s'"

text \<open>A terminal that is outside of an escape sequence, with a parser that keeps its law.\<close>

locale live_console =
  fixes advance :: "'p \<Rightarrow> u8 \<Rightarrow> 'p \<times> term_event list" and ground :: "'p \<Rightarrow> bool" and env :: term_env and buffer :: nat
  assumes parser: "parser_law advance ground" and buffer: "buffer \<noteq> 0"

definition console_ready :: "('p \<Rightarrow> bool) \<Rightarrow> term_env \<Rightarrow> ('e, 'm, 'p) console \<Rightarrow> bool" where
  "console_ready ground env s \<longleftrightarrow> ground (fst (c_terminal s)) \<and> terminal_reachable (snd (c_terminal s)) \<and>
     env_ok env (disp_size (t_display (snd (c_terminal s))))"

section \<open>Reading back\<close>

fun clock_fields :: "string \<Rightarrow> string list" where
  "clock_fields [] = [[]]"
| "clock_fields (c # s) = (if c = CHR '':'' then [] # clock_fields s else (case clock_fields s of [] \<Rightarrow> [[c]] | f # fs \<Rightarrow> (c # f) # fs))"

definition read_clock :: "string \<Rightarrow> nat" where
  "read_clock s = foldl (\<lambda>n f. 60 * n + read_decimal f) 0 (clock_fields s)"

text \<open>The text of \<open>uptime\<close> after a number of milliseconds.\<close>

definition uptime_pieces :: "nat \<Rightarrow> string list" where
  "uptime_pieces ms =
     (let s = ms div 1000 in
      if s < 60 then format_int 0 (int s)
      else if s < 3600 then format_int 0 (int (s div 60)) @ ['':''] @ format_int 2 (int (s mod 60))
      else format_int 0 (int (s div 3600)) @ ['':''] @ format_int 2 (int (s div 60 mod 60)) @ ['':''] @ format_int 2 (int (s mod 60)))"

definition digits :: "string \<Rightarrow> bool" where
  "digits s \<longleftrightarrow> list_all (\<lambda>c. 48 \<le> (of_char c :: nat) \<and> (of_char c :: nat) \<le> 57) s"

definition plain_duration :: duration_ops where
  "plain_duration = \<lparr>num_seconds = (\<lambda>ms. ms div 1000), num_minutes = (\<lambda>ms. ms div 60000), num_whole_hours = (\<lambda>ms. ms div 3600000)\<rparr>"

text \<open>Thread 7 of process 5 runs, an hour, two minutes and five seconds after the start.\<close>

definition example_program_kernel :: "(u64, nat \<rightharpoonup> thread list) Syscalls.kernel" where
  "example_program_kernel =
     \<lparr>k_scheduler = (scheduler_new map_join_ops)\<lparr>current_thread := Some \<lparr>tid = 7, is_kernel_thread = False, thread_process = 5\<rparr>\<rparr>,
      k_processes = \<lparr>process_id_counter = 6, active_processes = map (\<lambda>i. \<lparr>pid = i, proc_address_space = \<lparr>root_table = 0, depth = 4\<rparr>, memory_areas = []\<rparr>) [1, 5],
                    exited_processes = []\<rparr>, k_machine = \<lparr>frames_state = \<lparr>page_frame_allocator = [], phys_limit = None\<rparr>, tables = (\<lambda>_. [])\<rparr>, k_bytes = (\<lambda>_. 0), k_thread_counter = 8,
      k_timer = \<lparr>interval_ns = 1000000, systime_ns = 3725000000000\<rparr>\<rparr>"

section \<open>Lemmas\<close>

declare decimal.simps [simp del]

interpretation plain_duration: duration_laws plain_duration
  by unfold_locales (simp_all add: plain_duration_def)

lemma perform_all_append: "perform_all env (es @ fs) t = and_then (perform_all env es t) (perform_all env fs)"
  by (induction es arbitrary: t) (simp_all add: and_then_def split: sum.split)

lemma stored_text: "user_bytes (\<lambda>a. of_nat (text_of t ! (a - buffer))) buffer (length (text_of t)) = map of_char t"
proof (rule nth_equalityI)
  fix i assume "i < length (user_bytes (\<lambda>a. of_nat (text_of t ! (a - buffer))) buffer (length (text_of t)))"
  then show "user_bytes (\<lambda>a. of_nat (text_of t ! (a - buffer))) buffer (length (text_of t)) ! i = (map of_char t ! i :: u8)"
    by (simp add: user_bytes_def text_of_def of_nat_of_char)
qed (simp add: user_bytes_def text_of_def)

context live_console
begin

lemma write_shows:
  assumes "console_ready ground env s" "plain_text t"
  shows "\<exists>v s'. served advance env buffer date Write [Text (text_of t)] s = Some (v, s') \<and> console_ready ground env s' \<and> shown env s t s'"
proof -
  have "list_all plain (user_bytes (\<lambda>a. of_nat (text_of t ! (a - buffer))) buffer (length (text_of t)))"
    using assms(2) by (simp add: stored_text plain_text_def list.pred_map comp_def)
  from plain_write[OF parser _ _ _ this buffer, of "fst (c_terminal s)" "snd (c_terminal s)" env] assms(1)
  obtain p' t' where w: "sys_write advance env (\<lambda>a. of_nat (text_of t ! (a - buffer))) buffer (length (text_of t)) (c_terminal s) = Inr (p', t')"
    "perform_all env (map plain_event (map of_char t)) (snd (c_terminal s)) = Inr t'" "ground p'" "terminal_reachable t'"
    "disp_size (t_display t') = disp_size (t_display (snd (c_terminal s)))"
    by (auto simp: console_ready_def stored_text)
  have "served advance env buffer date Write [Text (text_of t)] s = Some (0, s\<lparr>c_terminal := (p', t')\<rparr>)" using w(1) by (simp add: served_def)
  moreover have "console_ready ground env (s\<lparr>c_terminal := (p', t')\<rparr>)" using w assms(1) by (simp add: console_ready_def)
  moreover have "shown env s t (s\<lparr>c_terminal := (p', t')\<rparr>)" using w(2) by (simp add: shown_def comp_def)
  ultimately show ?thesis by blast
qed

end

context serving_kernel
begin

lemma pieces_shown:
  assumes "good_state s" "list_all plain_text pieces"
  shows "\<exists>s'. print_pieces k pieces s = Some (Inr ((), s')) \<and> good_state s' \<and> showing s (concat pieces) s'"
proof -
  have "\<exists>us s'. for_each (\<lambda>t. print_text k (text_of t)) pieces s = Some (Inr (us, s')) \<and> good_state s' \<and> showing s (concat pieces) s'"
    using assms
  proof (induction pieces arbitrary: s)
    case (Cons t ts)
    then obtain v s1 where s1: "k Write [Text (text_of t)] s = Some (v, s1)" "good_state s1" "showing s t s1" using write_call[of s t] by auto
    from Cons.IH[OF s1(2)] Cons.prems obtain us s2 where
      "for_each (\<lambda>t. print_text k (text_of t)) ts s1 = Some (Inr (us, s2))" "good_state s2" "showing s1 (concat ts) s2" by auto
    with s1 showing_more[OF s1(3)] show ?case by (simp add: print_text_def call_def seq_def ret_def)
  qed (simp add: ret_def showing_nothing)
  then show ?thesis by (auto simp: print_pieces_def seq_def ret_def)
qed

end

sublocale live_console \<subseteq> serving_kernel "served advance env buffer date" "console_ready ground env" "shown env"
  by unfold_locales (simp add: shown_def, simp add: shown_def perform_all_append, rule write_shows)

context live_console
begin

lemma program_prints:
  "console_ready ground env s \<Longrightarrow> list_all plain_text pieces \<Longrightarrow>
    \<exists>s'. print_pieces (served advance env buffer date) pieces s = Some (Inr ((), s')) \<and> console_ready ground env s' \<and> shown env s (concat pieces) s'"
  by (rule pieces_shown)

end

interpretation example_console: live_console small_advance "\<lambda>p. p = Ground" example_env 4096
  by unfold_locales (simp_all add: small_parser_law)

text \<open>Numbers are plain text and are read back.\<close>

lemma decimal_digits: "digits (decimal n)"
proof (induction n rule: decimal.induct)
  case (1 n)
  then show ?case using digit_value[of n] digit_value[of "n mod 10"] by (auto simp: decimal.simps[of n] digits_def)
qed

lemma char_byte: "unat (of_char c :: u8) = of_char c"
proof -
  have "(of_char c :: u8) = of_nat (of_char c)" by (simp add: of_nat_of_char)
  moreover have "(of_char c :: nat) < 256" by (simp add: nat_of_char_less_256)
  ultimately show ?thesis by (simp add: unat_of_nat)
qed

lemma digits_plain: "digits s \<Longrightarrow> plain_text s \<and> CHR '':'' \<notin> set s"
  by (auto simp: digits_def plain_text_def list_all_iff plain_def word_le_nat_alt word_less_nat_alt char_byte)

lemma format_int_digits:
  assumes "0 \<le> n"
  shows "list_all digits (format_int w n)" "concat (format_int w n) = pad_zeros w (decimal (nat n))"
    "digits (concat (format_int w n))" "read_decimal (concat (format_int w n)) = nat n"
proof -
  have c: "concat (replicate m [x]) = replicate m x" for m and x :: char by (induction m) simp_all
  show *: "concat (format_int w n) = pad_zeros w (decimal (nat n))" using assms by (simp add: format_int_def pad_zeros_def c Let_def)
  show "list_all digits (format_int w n)" using assms by (auto simp: format_int_def decimal_digits list_all_iff Let_def) (simp add: digits_def)
  show "digits (concat (format_int w n))" unfolding * using decimal_digits[of "nat n"] by (auto simp: pad_zeros_def digits_def list_all_iff)
  show "read_decimal (concat (format_int w n)) = nat n" unfolding * by (simp add: pad_zeros_def read_decimal_zeros read_decimal_decimal)
qed

lemma fields_colon: "CHR '':'' \<notin> set a \<Longrightarrow> clock_fields (a @ CHR '':'' # s) = a # clock_fields s"
  by (induction a) auto

lemma fields_last: "CHR '':'' \<notin> set a \<Longrightarrow> clock_fields a = [a]"
  by (induction a) auto

lemma uptime_fields:
  "clock_fields (concat (uptime_pieces ms)) =
     (let s = ms div 1000; f = (\<lambda>w n. concat (format_int w (int n))) in
      if s < 60 then [f 0 s] else if s < 3600 then [f 0 (s div 60), f 2 (s mod 60)] else [f 0 (s div 3600), f 2 (s div 60 mod 60), f 2 (s mod 60)])"
proof -
  have plain: "CHR '':'' \<notin> set (concat (format_int w (int n)))" for w n
    using digits_plain[OF format_int_digits(3)[of "int n" w]] by simp
  show ?thesis unfolding uptime_pieces_def Let_def
    by (simp only: concat_append concat.simps append_Nil append_Nil2 append_Cons if_distrib[of concat] if_distrib[of clock_fields]
        fields_colon[OF plain] fields_last[OF plain])
qed

lemma read_uptime: "read_clock (concat (uptime_pieces ms)) = ms div 1000"
proof -
  have r: "read_decimal (concat (format_int w (int n))) = n" for w n using format_int_digits(4)[of "int n" w] by simp
  have "60 * (60 * (s div 3600) + s div 60 mod 60) + s mod 60 = s" for s :: nat
  proof -
    have "s div 3600 = s div 60 div 60" by (simp add: div_mult2_eq[symmetric])
    then have "60 * (s div 3600) + s div 60 mod 60 = s div 60" by simp
    then show ?thesis by simp
  qed
  moreover have "60 * (s div 60) + s mod 60 = s" for s :: nat by simp
  ultimately show ?thesis unfolding read_clock_def uptime_fields Let_def by (simp only: foldl.simps r if_distrib[of "foldl _ _"] mult_0_right add_0) simp
qed

lemma uptime_last_fields: "f \<in> set (tl (clock_fields (concat (uptime_pieces ms)))) \<Longrightarrow> length f = 2 \<and> read_decimal f < 60"
proof -
  have "length (concat (format_int 2 (int n))) = 2 \<and> read_decimal (concat (format_int 2 (int n))) < 60" if "n < 60" for n
    using that format_int_digits[of "int n" 2] pad_zeros_two_digits[of n] by simp
  moreover assume "f \<in> set (tl (clock_fields (concat (uptime_pieces ms))))"
  then have "\<exists>n < 60. f = concat (format_int 2 (int n))" unfolding uptime_fields Let_def by (auto split: if_splits intro: mod_less_divisor exI[of _ "_ mod 60"])
  ultimately show ?thesis by auto
qed

lemma uptime_plain: "list_all plain_text (uptime_pieces ms @ [NEWLINE])"
proof -
  have "list_all plain_text (format_int w (int n))" for w n
    using format_int_digits(1)[of "int n" w] digits_plain by (auto simp: list_all_iff)
  moreover have "plain_text '':''" "plain_text NEWLINE" by (simp_all add: plain_text_def plain_def NEWLINE_def)
  ultimately show ?thesis by (simp add: uptime_pieces_def Let_def)
qed

context duration_laws
begin

lemma uptime_prints:
  assumes "k GetSystemTime [] s = Some (ms, s)" "ms < 2 ^ 63"
  shows "uptime_main k c s = print_pieces k (uptime_pieces ms @ [NEWLINE]) s"
proof -
  have "sint (of_nat ms :: u64) = int ms" using assms(2) by (simp add: sint_uint signed_take_bit_int_eq_self unat_of_nat uint_nat)
  moreover have "int ms div 60000 = int (ms div 1000 div 60)" "int ms div 3600000 = int (ms div 1000 div 3600)" "int ms div 1000 = int (ms div 1000)"
    by (simp_all add: zdiv_int div_mult2_eq[symmetric])
  moreover have "int a smod 60 = int (a mod 60)" for a by (cases "a = 0") (simp_all add: signed_modulo_int_def signed_divide_int_def zmod_int)
  moreover have "int a - int (a div 60) * 60 = int (a mod 60)" for a by (simp add: zdiv_int zmod_int minus_div_mult_eq_mod)
  ultimately show ?thesis
    using assms(1) by (simp add: uptime_main_def user_systime_def call_def seq_def ret_def whole_seconds whole_minutes whole_hours uptime_pieces_def Let_def
        del: of_nat_div of_nat_mod)
qed

end

section \<open>Properties\<close>

text \<open>
  C33: the time that \<open>uptime\<close> prints. The program writes one line through the kernel's \<open>sys_write\<close>; from its fields, separated by colons, the seconds since the
  start can be read back, and all fields but the first have two digits and are less than 60.
\<close>

theorem uptime_tells_time:
  assumes "duration_laws c" "live_console advance ground buffer" "console_ready ground env s" "sys_get_system_time (c_kernel s) < 2 ^ 63"
  shows "\<exists>t s'. uptime_main (served advance env buffer date) c s = Some (Inr ((), s')) \<and> shown env s (t @ NEWLINE) s' \<and>
    read_clock t = sys_get_system_time (c_kernel s) div 1000 \<and> (\<forall>f \<in> set (tl (clock_fields t)). length f = 2 \<and> read_decimal f < 60)"
proof -
  let ?k = "served advance env buffer date" and ?ms = "sys_get_system_time (c_kernel s)"
  have "uptime_main ?k c s = print_pieces ?k (uptime_pieces ?ms @ [NEWLINE]) s"
    by (rule duration_laws.uptime_prints[OF assms(1) _ assms(4)]) (simp add: served_def)
  with live_console.program_prints[OF assms(2,3) uptime_plain[of ?ms], of date] read_uptime[of ?ms] uptime_last_fields[of _ ?ms]
  show ?thesis by (intro exI[of _ "concat (uptime_pieces ?ms)"]) auto
qed

theorem uptime_tells_time_witness:
  "\<exists>(s :: (u64, nat \<rightharpoonup> thread list, small_parser) console) t s'. sys_get_system_time (c_kernel s) = 3725000 \<and> uptime_main (served small_advance example_env 4096 (Inr 0)) plain_duration s = Some (Inr ((), s')) \<and>
     shown example_env s (t @ NEWLINE) s' \<and> read_clock t = 3725"
proof -
  obtain t where t: "example_terminal = Inr t" "terminal_reachable t" by (rule example_terminal_state)
  let ?s = "\<lparr>c_kernel = example_program_kernel, c_terminal = (Ground, t)\<rparr>"
  have "console_ready (\<lambda>p. p = Ground) example_env ?s" using t example_env_ok by (simp add: console_ready_def)
  moreover have "sys_get_system_time (c_kernel ?s) = 3725000" by (simp add: example_program_kernel_def sys_get_system_time_def systime_ms_def)
  ultimately show ?thesis
    using uptime_tells_time[OF plain_duration.duration_laws_axioms example_console.live_console_axioms, of example_env ?s "Inr 0"] by - (rule exI[of _ ?s], auto)
qed

text \<open>
  the ids that \<open>hello\<close> prints. The line names the process id as the thread and the thread id as the process.
\<close>

theorem hello_swaps_ids:
  assumes "live_console advance ground buffer" "console_ready ground env s" "sys_process_id (c_kernel s) = Inr i" "sys_thread_id (c_kernel s) = Inr j"
  shows "\<exists>s'. hello_main (served advance env buffer date) s = Some (Inr ((), s')) \<and>
    shown env s (''Hello from Thread ['' @ decimal i @ ''] in Process ['' @ decimal j @ '']!'' @ NEWLINE) s'"
proof -
  let ?k = "served advance env buffer date"
  let ?p = "[''Hello from Thread ['', decimal i, ''] in Process ['', decimal j, '']!'' @ NEWLINE]"
  have "hello_main ?k s = print_pieces ?k ?p s"
    using assms(3,4) by (simp add: hello_main_def process_current_def thread_current_def call_def served_def answer_def seq_def)
  moreover have "list_all plain_text ?p" using digits_plain[OF decimal_digits] by (simp add: plain_text_def plain_def NEWLINE_def)
  ultimately show ?thesis using live_console.program_prints[OF assms(1,2), of ?p date] by auto
qed

theorem hello_swaps_ids_witness:
  "\<exists>(s :: (u64, nat \<rightharpoonup> thread list, small_parser) console) s'. sys_process_id (c_kernel s) = Inr 5 \<and> sys_thread_id (c_kernel s) = Inr 7 \<and>
     hello_main (served small_advance example_env 4096 (Inr 0)) s = Some (Inr ((), s')) \<and>
     shown example_env s (''Hello from Thread ['' @ decimal 5 @ ''] in Process ['' @ decimal 7 @ '']!'' @ NEWLINE) s'"
proof -
  obtain t where t: "example_terminal = Inr t" "terminal_reachable t" by (rule example_terminal_state)
  let ?s = "\<lparr>c_kernel = example_program_kernel, c_terminal = (Ground, t)\<rparr>"
  have "console_ready (\<lambda>p. p = Ground) example_env ?s" using t example_env_ok by (simp add: console_ready_def)
  moreover have "sys_process_id (c_kernel ?s) = Inr 5" "sys_thread_id (c_kernel ?s) = Inr 7"
    by (simp_all add: example_program_kernel_def sys_process_id_def sys_thread_id_def running_process_def current_def unwrap_def process_of_def)
  ultimately show ?thesis
    using hello_swaps_ids[OF example_console.live_console_axioms, of example_env ?s 5 7 "Inr 0"] by - (rule exI[of _ ?s], auto)
qed

end
