(* ===== verification/Ihda_Stream_Props.thy ===== *)
theory Ihda_Stream_Props
  imports Ihda_Device Ihda_Scan
begin

text \<open>
  Streams in memory. \<open>ram_bus\<close> is what the driver relies on for DMA memory: a bus access there stores and loads bytes, low byte first.
  Under this contract the buffer descriptor list that \<open>Stream::new\<close> writes is read back entry by entry, and the demo sounds fill
  exactly their buffer with the intended samples. Further: the buffers of a cyclic buffer lie side by side in the allocated
  frames, a format read from a stream descriptor is never the one that was written, and clearing one status bit clears all.
\<close>

unbundle bit_operations_syntax

section \<open>Bytes in memory\<close>

definition store_bytes :: "nat \<Rightarrow> nat \<Rightarrow> u128 \<Rightarrow> bytes \<Rightarrow> bytes" where
  "store_bytes a w v m = (\<lambda>x. if a \<le> x \<and> x < a + w then ucast (drop_bit (8 * (x - a)) v) else m x)"

fun load_bytes :: "nat \<Rightarrow> nat \<Rightarrow> bytes \<Rightarrow> u128" where
  "load_bytes a 0 m = 0"
| "load_bytes a (Suc w) m = ucast (m a) OR push_bit 8 (load_bytes (Suc a) w m)"

text \<open>Memory after \<open>n\<close> cells of \<open>w\<close> bytes from \<open>base\<close> on have been stored.\<close>

definition fill_cells :: "nat \<Rightarrow> nat \<Rightarrow> (nat \<Rightarrow> u128) \<Rightarrow> nat \<Rightarrow> bytes \<Rightarrow> bytes" where
  "fill_cells base w v n m = (\<lambda>x.
     if base \<le> x \<and> x < base + w * n then ucast (drop_bit (8 * ((x - base) mod w)) (v ((x - base) div w))) else m x)"

text \<open>A bus with nothing but memory on it.\<close>

definition ram_hw :: "bytes hw" where
  "ram_hw = \<lparr>hw_read = (\<lambda>a w m. (load_bytes a w m, m)), hw_write = (\<lambda>a w v m. store_bytes a w v m), hw_time = (\<lambda>m. (0, m))\<rparr>"

text \<open>A machine with sixteen free frames from number 16 on.\<close>

definition free_frames_16 :: "u64 machine" where
  "free_frames_16 = \<lparr>frames_state = \<lparr>page_frame_allocator = [node_at 16 16], phys_limit = Some 32\<rparr>, tables = (\<lambda>_. replicate 512 0)\<rparr>"

locale ram_bus =
  fixes hw :: "'s hw" and ram :: "'s \<Rightarrow> bytes" and region :: "nat set"
  assumes write_ram: "{a..<a + w} \<subseteq> region \<Longrightarrow> ram (hw_write hw a w v s) = store_bytes a w v (ram s)"
    and read_ram: "{a..<a + w} \<subseteq> region \<Longrightarrow> hw_read hw a w s = (load_bytes a w (ram s), s)"

section \<open>Lemmas on bytes\<close>

lemma take_bit_128 [simp]: "take_bit 128 (v :: u128) = v"
  by (rule bit_eqI) (auto simp: bit_simps)

lemma bit_load_bytes: "bit (load_bytes a w m) n \<longleftrightarrow> n < 8 * w \<and> n < 128 \<and> bit (m (a + n div 8)) (n mod 8)"
proof (induction w arbitrary: a n)
  case (Suc w)
  show ?case
  proof (cases "n < 8")
    case False
    then have "n div 8 = Suc ((n - 8) div 8)" "n mod 8 = (n - 8) mod 8" by (simp_all add: le_div_geq le_mod_geq)
    then show ?thesis using False Suc[of "Suc a" "n - 8"] by (auto simp: bit_simps dest: bit_imp_le_length)
  qed (auto simp: bit_simps)
qed simp

lemma load_store_bytes:
  assumes "w \<le> 16"
  shows "load_bytes a w (store_bytes a w v m) = take_bit (8 * w) v"
proof (rule bit_eqI)
  fix n assume "possible_bit TYPE(u128) n"
  moreover have "n div 8 < w \<longleftrightarrow> n < 8 * w" by (simp add: div_less_iff_less_mult mult.commute)
  moreover have "8 * (n div 8) + n mod 8 = n" by (simp add: mult.commute)
  ultimately show "bit (load_bytes a w (store_bytes a w v m)) n = bit (take_bit (8 * w) v) n"
    by (auto simp: bit_load_bytes store_bytes_def bit_simps)
qed

lemma load_bytes_cong:
  assumes "\<And>x. a \<le> x \<Longrightarrow> x < a + w \<Longrightarrow> m x = m' x"
  shows "load_bytes a w m = load_bytes a w m'"
  using assms
proof (induction w arbitrary: a)
  case (Suc w)
  have "load_bytes (Suc a) w m = load_bytes (Suc a) w m'" by (rule Suc.IH) (rule Suc.prems; simp)
  moreover have "m a = m' a" by (rule Suc.prems) simp_all
  ultimately show ?case by simp
qed simp

lemma cell_index:
  fixes base w n x :: nat
  assumes "base + w * n \<le> x" "x < base + w * n + w"
  shows "(x - base) div w = n" "(x - base) mod w = x - (base + w * n)"
proof -
  define k where "k = x - (base + w * n)"
  have k: "k < w" using assms unfolding k_def by linarith
  have x: "x - base = w * n + k" using assms unfolding k_def by linarith
  from k have "(w * n + k) div w = n" by simp
  with x show "(x - base) div w = n" by simp
  from k have "(w * n + k) mod w = k" by simp
  with x show "(x - base) mod w = x - (base + w * n)" by (simp add: k_def)
qed

lemma fill_cells_Suc:
  assumes "0 < w"
  shows "fill_cells base w v (Suc n) m = store_bytes (base + w * n) w (v n) (fill_cells base w v n m)"
proof
  fix x
  show "fill_cells base w v (Suc n) m x = store_bytes (base + w * n) w (v n) (fill_cells base w v n m) x"
  proof (cases "base + w * n \<le> x \<and> x < base + w * n + w")
    case True
    with cell_index[of base w n x] have "(x - base) div w = n" "(x - base) mod w = x - (base + w * n)" by simp_all
    with True show ?thesis by (simp add: fill_cells_def store_bytes_def algebra_simps)
  qed (auto simp: fill_cells_def store_bytes_def algebra_simps)
qed

lemma load_fill_cells:
  assumes "i < n" "0 < w" "w \<le> 16"
  shows "load_bytes (base + w * i) w (fill_cells base w v n m) = take_bit (8 * w) (v i)"
proof -
  have "load_bytes (base + w * i) w (fill_cells base w v n m) = load_bytes (base + w * i) w (store_bytes (base + w * i) w (v i) m)"
  proof (rule load_bytes_cong)
    fix x assume x: "base + w * i \<le> x" "x < base + w * i + w"
    moreover have "w * Suc i \<le> w * n" using assms(1) by (intro mult_le_mono2) simp
    moreover note cell_index[OF x]
    ultimately show "fill_cells base w v n m x = store_bytes (base + w * i) w (v i) m x"
      by (auto simp: fill_cells_def store_bytes_def)
  qed
  with load_store_bytes[OF assms(3)] show ?thesis by simp
qed

lemma fill_cells_outside: "x \<notin> {base..<base + w * n} \<Longrightarrow> fill_cells base w v n m x = m x"
  by (auto simp: fill_cells_def)

lemma for_each_append:
  "for_each f (xs @ ys) s = seq (for_each f xs) (\<lambda>a. seq (for_each f ys) (\<lambda>b. ret (a @ b))) s"
  by (induction xs arbitrary: s) (auto simp: seq_def ret_def split: option.splits sum.splits prod.splits)

interpretation plain_ram: ram_bus ram_hw "\<lambda>m. m" UNIV
  by unfold_locales (simp_all add: ram_hw_def)

context ram_bus
begin

lemma for_each_stores:
  assumes "\<And>i s. i < n \<Longrightarrow> f i s = Some (Inr ((), hw_write hw (base + w * i) w (v i) s))"
    and "0 < w" "{base..<base + w * n} \<subseteq> region"
  shows "\<exists>ys s'. for_each f [0..<n] s = Some (Inr (ys, s')) \<and> ram s' = fill_cells base w v n (ram s)"
  using assms(1,3)
proof (induction n)
  case 0
  then show ?case by (auto simp: ret_def fill_cells_def fun_eq_iff)
next
  case (Suc n)
  have "{base..<base + w * n} \<subseteq> region" using Suc.prems(2) by (auto simp: algebra_simps)
  with Suc obtain ys s1 where s1: "for_each f [0..<n] s = Some (Inr (ys, s1))" "ram s1 = fill_cells base w v n (ram s)" by auto
  have "{base + w * n..<base + w * n + w} \<subseteq> region" using Suc.prems(2) by (auto simp: algebra_simps)
  then have "ram (hw_write hw (base + w * n) w (v n) s1) = fill_cells base w v (Suc n) (ram s)"
    using write_ram s1(2) fill_cells_Suc[OF assms(2)] by simp
  moreover have "for_each f [0..<Suc n] s = Some (Inr (ys @ [()], hw_write hw (base + w * n) w (v n) s1))"
    using s1(1) Suc.prems(1) by (simp add: for_each_append seq_def ret_def)
  ultimately show ?case by blast
qed

lemma write_16bit:
  assumes "unat (ab_start_address b) + 2 * i < 2 ^ 64"
  shows "write_16bit_sample_to_buffer hw b sample i s =
    Some (Inr ((), hw_write hw (unat (ab_start_address b) + 2 * i) 2 (take_bit 16 (ucast sample)) s))"
  using assms by (simp add: write_16bit_sample_to_buffer_def sample_address_def usize_mul_def usize_add_def CONTAINER_16BIT_SIZE_IN_BYTES_def
      seq_def lift_def bus_write_def mult.commute)

lemma read_16bit:
  assumes "unat (ab_start_address b) + 2 * i < 2 ^ 64"
    and "{unat (ab_start_address b) + 2 * i..<unat (ab_start_address b) + 2 * i + 2} \<subseteq> region"
  shows "read_16bit_sample_from_buffer hw b i s =
    Some (Inr (ucast (take_bit 16 (load_bytes (unat (ab_start_address b) + 2 * i) 2 (ram s))), s))"
  using assms by (simp add: read_16bit_sample_from_buffer_def sample_address_def usize_mul_def usize_add_def CONTAINER_16BIT_SIZE_IN_BYTES_def
      seq_def lift_def ret_def bus_read_def mult.commute read_ram)

text \<open>A loop that writes one sample after the other.\<close>

lemma samples_written:
  assumes body: "\<And>i s. i < n \<Longrightarrow> f i s = write_16bit_sample_to_buffer hw b (sample i) i s"
    and range: "unat (ab_start_address b) + 2 * n < 2 ^ 64" "{unat (ab_start_address b)..<unat (ab_start_address b) + 2 * n} \<subseteq> region"
  shows "\<exists>ys s'. for_each f [0..<n] s = Some (Inr (ys, s')) \<and>
    (\<forall>i < n. read_16bit_sample_from_buffer hw b i s' = Some (Inr (sample i, s'))) \<and>
    (\<forall>x. x \<notin> {unat (ab_start_address b)..<unat (ab_start_address b) + 2 * n} \<longrightarrow> ram s' x = ram s x)"
proof -
  let ?a = "unat (ab_start_address b)"
  let ?v = "\<lambda>i. take_bit 16 (ucast (sample i)) :: u128"
  have "\<exists>ys s'. for_each f [0..<n] s = Some (Inr (ys, s')) \<and> ram s' = fill_cells ?a 2 ?v n (ram s)"
    by (rule for_each_stores) (use range in \<open>simp_all add: body write_16bit\<close>)
  then obtain ys s' where s': "for_each f [0..<n] s = Some (Inr (ys, s'))" "ram s' = fill_cells ?a 2 ?v n (ram s)" by blast
  have "read_16bit_sample_from_buffer hw b i s' = Some (Inr (sample i, s'))" if "i < n" for i
  proof -
    have "{?a + 2 * i..<?a + 2 * i + 2} \<subseteq> region" using range(2) that by force
    moreover have "ucast (take_bit 16 (take_bit 16 (ucast (sample i) :: u128))) = sample i"
      by (rule bit_eqI) (auto simp: bit_simps dest: bit_imp_le_length)
    ultimately show ?thesis
      using read_16bit[of b i s'] that range(1) s'(2) load_fill_cells[of i n 2 ?a ?v "ram s"] by simp
  qed
  with s' show ?thesis using fill_cells_outside[of _ ?a 2 n ?v "ram s"] by auto
qed

lemma bdl_set:
  assumes "bdl_base_address bdl \<noteq> 0" "unat (bdl_base_address bdl) + 16 * i < 2 ^ 64"
  shows "bdl_set_entry hw bdl i e s = Some (Inr ((), hw_write hw (unat (bdl_base_address bdl) + 16 * i) 16 (bdl_entry_as_u128 e) s))"
  using assms by (simp add: bdl_set_entry_def bdl_entry_address_def usize_mul_def usize_add_def BUFFER_DESCRIPTOR_LIST_ENTRY_SIZE_IN_BYTES_def
      seq_def lift_def bus_write_def mult.commute unat_eq_zero)

lemma bdl_get:
  assumes "bdl_base_address bdl \<noteq> 0" "unat (bdl_base_address bdl) + 16 * i < 2 ^ 64"
    and "{unat (bdl_base_address bdl) + 16 * i..<unat (bdl_base_address bdl) + 16 * i + 16} \<subseteq> region"
  shows "bdl_get_entry hw bdl i s = Some (Inr (bdl_entry_from (load_bytes (unat (bdl_base_address bdl) + 16 * i) 16 (ram s)), s))"
  using assms by (simp add: bdl_get_entry_def bdl_entry_address_def usize_mul_def usize_add_def BUFFER_DESCRIPTOR_LIST_ENTRY_SIZE_IN_BYTES_def
      seq_def lift_def ret_def bus_read_def mult.commute unat_eq_zero read_ram)

end

lemma bdl_entry_roundtrip: "bdl_entry_from (bdl_entry_as_u128 e) = e"
proof -
  have masks: "(0xFFFFFFFFFFFFFFFF :: u128) = mask 64" "(0xFFFFFFFF :: u128) = mask 32" by (simp_all add: mask_eq_exp_minus_1)
  have "drop_bit 96 (bdl_entry_as_u128 e) = of_bool (bdle_interrupt_on_completion e)"
    by (rule bit_eqI) (auto simp: bdl_entry_as_u128_def bit_simps dest: bit_imp_le_length)
  then have "(drop_bit 96 (bdl_entry_as_u128 e) AND 1 = 1) = bdle_interrupt_on_completion e" by simp
  moreover have "ucast (drop_bit 64 (bdl_entry_as_u128 e) AND mask 32) = bdle_length_in_bytes e"
    by (rule bit_eqI) (auto simp: bdl_entry_as_u128_def bit_simps dest: bit_imp_le_length)
  moreover have "ucast (bdl_entry_as_u128 e AND mask 64) = bdle_address e"
    by (rule bit_eqI) (auto simp: bdl_entry_as_u128_def bit_simps dest: bit_imp_le_length)
  ultimately show ?thesis by (simp add: bdl_entry_from_def masks)
qed

lemma as_i32_small: "n < 65536 \<Longrightarrow> as_i32 n = int n"
  by (simp add: as_i32_def signed_of_nat signed_take_bit_int_eq_self_iff)

lemma sawtooth_sample_value:
  assumes "0 < wl" "wl \<le> 65536"
  shows "\<exists>x. sawtooth_sample wl (65536 div wl) i = Inr x \<and> sint x = - 32768 + int (i mod wl * (65536 div wl))"
proof -
  let ?o = "i mod wl * (65536 div wl)"
  have "i mod wl \<le> wl - 1" using assms(1) by (simp add: less_Suc_eq_le[symmetric])
  then have "?o \<le> (wl - 1) * (65536 div wl)" by (rule mult_le_mono1)
  also have "\<dots> = wl * (65536 div wl) - 65536 div wl" by (simp add: diff_mult_distrib)
  also have "\<dots> < 65536"
  proof -
    have "wl * (65536 div wl) \<le> 65536" by (simp add: mult.commute)
    moreover have "0 < 65536 div wl" using assms by (simp add: div_greater_zero_iff)
    ultimately show ?thesis by linarith
  qed
  finally have o: "?o < 65536" .
  define k where "k = int ?o"
  have k: "0 \<le> k" "k < 65536" using o unfolding k_def by linarith+
  have "as_i32 ?o = k" unfolding k_def by (rule as_i32_small[OF o])
  then have "sawtooth_sample wl (65536 div wl) i = Inr (word_of_int (- 32768 + k))"
    using o k by (simp add: sawtooth_sample_def u32_mul_def i32_add_def)
  moreover have "sint (word_of_int (- 32768 + k) :: i16) = - 32768 + k"
    unfolding sint_sbintrunc' using k by (simp add: signed_take_bit_int_eq_self_iff)
  ultimately show ?thesis by (auto simp: k_def)
qed

lemma audio_buffers_from_eq:
  assumes "audio_buffers_from start bits bytes is = Inr bs"
  shows "bs = map (\<lambda>i. \<lparr>ab_start_address = of_nat (start + i * bits), ab_length_in_bytes = of_nat bytes\<rparr>) is \<and>
    (\<forall>i \<in> set is. i * bits < 2 ^ 32 \<and> start + i * bits < 2 ^ 64)"
  using assms by (induction "is" arbitrary: bs) (auto simp: result_simps u32_mul_def usize_add_def split: if_splits)

lemma dma_memory:
  assumes "wf_free (page_frame_allocator (frames_state m))" "alloc_no_cache_dma_memory ops fl pm n m = Inr (r, m')"
  shows "range_end r = range_start r + n \<and> range_frames r \<subseteq> free_frames (page_frame_allocator (frames_state m))"
proof -
  obtain l where "alloc_block n (page_frame_allocator (frames_state m)) = Inr (r, l)"
    using assms(2) by (auto simp: alloc_no_cache_dma_memory_def physical_alloc_def phys_alloc_def result_simps)
  with alloc_block_frames[OF assms(1)] show ?thesis by blast
qed

section \<open>Properties\<close>

text \<open>
  C31: the buffer descriptor list in memory. After the loop of \<open>Stream::new\<close> that writes the list, reading entry \<open>i\<close> back
  gives exactly the address, the length and the interrupt flag of the list's entry \<open>i\<close>, for all entries, and no byte outside
  the list has changed.
\<close>

theorem bdl_written_is_read_back:
  assumes "ram_bus hw ram region"
    and "bdl_base_address bdl \<noteq> 0" "unat (bdl_base_address bdl) + 16 * length (bdl_entries bdl) < 2 ^ 64"
    and "{unat (bdl_base_address bdl)..<unat (bdl_base_address bdl) + 16 * length (bdl_entries bdl)} \<subseteq> region"
    and "unat (bdl_last_valid_index bdl) + 1 = length (bdl_entries bdl)"
  shows "\<exists>s'. write_bdl hw bdl s = Some (Inr ((), s')) \<and>
    (\<forall>i < length (bdl_entries bdl). bdl_get_entry hw bdl i s' = Some (Inr (bdl_entries bdl ! i, s'))) \<and>
    (\<forall>x. x \<notin> {unat (bdl_base_address bdl)..<unat (bdl_base_address bdl) + 16 * length (bdl_entries bdl)} \<longrightarrow> ram s' x = ram s x)"
proof -
  let ?a = "unat (bdl_base_address bdl)" and ?n = "length (bdl_entries bdl)"
  let ?v = "\<lambda>i. bdl_entry_as_u128 (bdl_entries bdl ! i)"
  let ?f = "\<lambda>i. if i < ?n then bdl_set_entry hw bdl i (bdl_entries bdl ! i) else halt Unwrap_None"
  have "\<exists>ys s'. for_each ?f [0..<?n] s = Some (Inr (ys, s')) \<and> ram s' = fill_cells ?a 16 ?v ?n (ram s)"
    by (rule ram_bus.for_each_stores[OF assms(1)]) (use assms(2-4) in \<open>simp_all add: ram_bus.bdl_set[OF assms(1)]\<close>)
  then obtain ys s' where s': "for_each ?f [0..<?n] s = Some (Inr (ys, s'))" "ram s' = fill_cells ?a 16 ?v ?n (ram s)" by blast
  have "bdl_get_entry hw bdl i s' = Some (Inr (bdl_entries bdl ! i, s'))" if "i < ?n" for i
  proof -
    have "{?a + 16 * i..<?a + 16 * i + 16} \<subseteq> region" using assms(4) that by force
    then show ?thesis
      using ram_bus.bdl_get[OF assms(1,2), of i s'] assms(3) that s'(2) load_fill_cells[of i ?n 16 ?a ?v "ram s"]
      by (simp add: bdl_entry_roundtrip)
  qed
  moreover have "write_bdl hw bdl s = Some (Inr ((), s'))"
    unfolding write_bdl_def assms(5) using s'(1) by (simp add: ret_def)
  moreover have "\<forall>x. x \<notin> {?a..<?a + 16 * ?n} \<longrightarrow> ram s' x = ram s x" using s'(2) fill_cells_outside by simp
  ultimately show ?thesis by blast
qed

theorem bdl_written_is_read_back_witness:
  "\<exists>s'. write_bdl ram_hw \<lparr>bdl_base_address = 0x1000, bdl_entries = [bdl_entry_new 0x8000 512 True, bdl_entry_new 0x9000 512 True],
        bdl_last_valid_index = 1\<rparr> (\<lambda>_. 0) = Some (Inr ((), s')) \<and>
     bdl_get_entry ram_hw \<lparr>bdl_base_address = 0x1000, bdl_entries = [bdl_entry_new 0x8000 512 True, bdl_entry_new 0x9000 512 True],
        bdl_last_valid_index = 1\<rparr> 1 s' = Some (Inr (bdl_entry_new 0x9000 512 True, s')) \<and> s' 0x2000 = 0"
proof -
  let ?bdl = "\<lparr>bdl_base_address = 0x1000, bdl_entries = [bdl_entry_new 0x8000 512 True, bdl_entry_new 0x9000 512 True],
        bdl_last_valid_index = 1\<rparr>"
  obtain s' where w: "write_bdl ram_hw ?bdl (\<lambda>_. 0) = Some (Inr ((), s'))"
    and r: "\<forall>i < 2. bdl_get_entry ram_hw ?bdl i s' = Some (Inr (bdl_entries ?bdl ! i, s'))"
    and u: "\<forall>x. x \<notin> {0x1000..<0x1020} \<longrightarrow> s' x = 0"
    using bdl_written_is_read_back[OF plain_ram.ram_bus_axioms, of ?bdl "\<lambda>_. 0"] by auto
  have "s' 0x2000 = 0" using u by simp
  moreover have "bdl_get_entry ram_hw ?bdl 1 s' = Some (Inr (bdl_entry_new 0x9000 512 True, s'))" using r by simp
  ultimately show ?thesis using w by blast
qed

text \<open>
  the sawtooth demo fills its buffer and nothing else. For every frequency from 1 to 48000 Hz, sample \<open>i\<close> read back from the buffer is the number \<open>-32768\<close> plus the position in the wave times the step size, without wrapping around,
  and no byte outside the buffer is touched.
\<close>

theorem sawtooth_fills_its_buffer:
  assumes "ram_bus hw ram region" "0 < frequency" "frequency \<le> 48000"
    and "unat (ab_start_address b) + unat (ab_length_in_bytes b) < 2 ^ 64"
    and "{unat (ab_start_address b)..<unat (ab_start_address b) + unat (ab_length_in_bytes b)} \<subseteq> region"
  shows "\<exists>s'. buffer_demo_sawtooth_wave_mono_48khz_16bit hw frequency b s = Some (Inr ((), s')) \<and>
    (\<forall>i < unat (ab_length_in_bytes b) div 2. \<exists>x. read_16bit_sample_from_buffer hw b i s' = Some (Inr (x, s')) \<and>
       sint x = - 32768 + int (i mod (48000 div frequency) * (65536 div (48000 div frequency)))) \<and>
    (\<forall>x. x \<notin> {unat (ab_start_address b)..<unat (ab_start_address b) + unat (ab_length_in_bytes b)} \<longrightarrow> ram s' x = ram s x)"
proof -
  let ?wl = "48000 div frequency" and ?a = "unat (ab_start_address b)" and ?len = "unat (ab_length_in_bytes b)"
  let ?f = "\<lambda>i. seq (lift (sawtooth_sample ?wl (65536 div ?wl) i)) (\<lambda>sample. write_16bit_sample_to_buffer hw b sample i)"
  have wl: "0 < ?wl" "?wl \<le> 65536" using assms(2,3) by (simp_all add: div_greater_zero_iff div_le_dividend order_trans[OF div_le_dividend])
  define sample where "sample i = (THE x. sawtooth_sample ?wl (65536 div ?wl) i = Inr x)" for i
  have sample: "sawtooth_sample ?wl (65536 div ?wl) i = Inr (sample i)"
    "sint (sample i) = - 32768 + int (i mod ?wl * (65536 div ?wl))" for i
    using sawtooth_sample_value[OF wl, of i] by (auto simp: sample_def)
  have n: "2 * (?len div 2) \<le> ?len" by simp
  have "\<exists>ys s'. for_each ?f [0..<?len div 2] s = Some (Inr (ys, s')) \<and>
    (\<forall>i < ?len div 2. read_16bit_sample_from_buffer hw b i s' = Some (Inr (sample i, s'))) \<and>
    (\<forall>x. x \<notin> {?a..<?a + 2 * (?len div 2)} \<longrightarrow> ram s' x = ram s x)"
  proof (rule ram_bus.samples_written[OF assms(1)])
    show "?a + 2 * (?len div 2) < 2 ^ 64" using assms(4) n by linarith
    show "{?a..<?a + 2 * (?len div 2)} \<subseteq> region" using assms(5) n by force
  qed (simp add: sample lift_def)
  then obtain ys s' where s': "for_each ?f [0..<?len div 2] s = Some (Inr (ys, s'))"
    "\<forall>i < ?len div 2. read_16bit_sample_from_buffer hw b i s' = Some (Inr (sample i, s'))"
    "\<forall>x. x \<notin> {?a..<?a + 2 * (?len div 2)} \<longrightarrow> ram s' x = ram s x" by blast
  have "buffer_demo_sawtooth_wave_mono_48khz_16bit hw frequency b s = Some (Inr ((), s'))"
    using s'(1) wl assms(2)
    by (simp add: buffer_demo_sawtooth_wave_mono_48khz_16bit_def SAMPLE_RATE_48KHZ_def CONTAINER_16BIT_SIZE_IN_BYTES_def usize_div_def lift_def ret_def)
  moreover have "\<forall>x. x \<notin> {?a..<?a + ?len} \<longrightarrow> ram s' x = ram s x" using s'(3) n by auto
  ultimately show ?thesis using s'(2) sample(2) by blast
qed

theorem sawtooth_fills_its_buffer_witness:
  "\<exists>s'. buffer_demo_sawtooth_wave_mono_48khz_16bit ram_hw 750 \<lparr>ab_start_address = 0x1000, ab_length_in_bytes = 512\<rparr> (\<lambda>_. 0) = Some (Inr ((), s')) \<and>
     (\<exists>x. read_16bit_sample_from_buffer ram_hw \<lparr>ab_start_address = 0x1000, ab_length_in_bytes = 512\<rparr> 65 s' = Some (Inr (x, s')) \<and>
       sint x = - 31744) \<and> s' 0x1200 = 0"
proof -
  let ?b = "\<lparr>ab_start_address = 0x1000, ab_length_in_bytes = 512\<rparr>"
  obtain s' where w: "buffer_demo_sawtooth_wave_mono_48khz_16bit ram_hw 750 ?b (\<lambda>_. 0) = Some (Inr ((), s'))"
    and r: "\<forall>i < 256. \<exists>x. read_16bit_sample_from_buffer ram_hw ?b i s' = Some (Inr (x, s')) \<and> sint x = - 32768 + int (i mod 64 * 1024)"
    and u: "\<forall>x. x \<notin> {0x1000..<0x1200} \<longrightarrow> s' x = 0"
    using sawtooth_fills_its_buffer[OF plain_ram.ram_bus_axioms, of 750 ?b "\<lambda>_. 0"] by auto
  have "s' 0x1200 = 0" using u by simp
  moreover have "\<exists>x. read_16bit_sample_from_buffer ram_hw ?b 65 s' = Some (Inr (x, s')) \<and> sint x = - 31744"
    using r[rule_format, of 65] by simp
  ultimately show ?thesis using w by blast
qed

text \<open>
  the layout of a cyclic buffer. The buffers lie side by side, one every \<open>pages_per_buffer\<close> pages, inside frames that were free
  before, so no two of them overlap; each declares an eighth of its pages as its length (the size in bytes is taken for a size in
  bits), and the total length is the sum of these.
\<close>

theorem cyclic_buffer_layout:
  assumes "wf_free (page_frame_allocator (frames_state m))"
    and "cyclic_buffer_new ops no_cache pm buffer_amount pages_per_buffer m = Inr (cb, m')"
  shows "\<exists>r. range_frames r \<subseteq> free_frames (page_frame_allocator (frames_state m)) \<and>
    range_end r = range_start r + buffer_amount * pages_per_buffer \<and> length (cb_audio_buffers cb) = buffer_amount \<and>
    unat (cb_length_in_bytes cb) = buffer_amount * (pages_per_buffer * PAGE_SIZE div 8) \<and>
    (\<forall>i < buffer_amount.
       unat (ab_start_address (cb_audio_buffers cb ! i)) = (range_start r + i * pages_per_buffer) * PAGE_SIZE \<and>
       unat (ab_length_in_bytes (cb_audio_buffers cb ! i)) = pages_per_buffer * PAGE_SIZE div 8 \<and>
       unat (ab_start_address (cb_audio_buffers cb ! i)) + unat (ab_length_in_bytes (cb_audio_buffers cb ! i))
         \<le> (range_start r + (i + 1) * pages_per_buffer) * PAGE_SIZE)"
proof -
  from assms(2) obtain r where r: "alloc_no_cache_dma_memory ops no_cache pm (buffer_amount * pages_per_buffer) m = Inr (r, m')"
    and sz: "pages_per_buffer * PAGE_SIZE < 2 ^ 32"
    and bs: "audio_buffers_from (range_start r * PAGE_SIZE) (pages_per_buffer * PAGE_SIZE) (pages_per_buffer * PAGE_SIZE div 8)
      [0..<buffer_amount] = Inr (cb_audio_buffers cb)"
    and len: "buffer_amount * (pages_per_buffer * PAGE_SIZE div 8) < 2 ^ 32"
      "cb_length_in_bytes cb = of_nat (buffer_amount * (pages_per_buffer * PAGE_SIZE div 8))"
    by (auto simp: cyclic_buffer_new_def result_simps u32_mul_def Let_def split: if_splits)
  note b = audio_buffers_from_eq[OF bs]
  have start: "unat (ab_start_address (cb_audio_buffers cb ! i)) = (range_start r + i * pages_per_buffer) * PAGE_SIZE"
    and length: "unat (ab_length_in_bytes (cb_audio_buffers cb ! i)) = pages_per_buffer * PAGE_SIZE div 8" if "i < buffer_amount" for i
  proof -
    have "range_start r * PAGE_SIZE + i * (pages_per_buffer * PAGE_SIZE) < 2 ^ 64" using b that by auto
    then have "unat (of_nat (range_start r * PAGE_SIZE + i * (pages_per_buffer * PAGE_SIZE)) :: u64) =
        range_start r * PAGE_SIZE + i * (pages_per_buffer * PAGE_SIZE)"
      by (simp only: unat_of_nat) simp
    moreover have "ab_start_address (cb_audio_buffers cb ! i) = of_nat (range_start r * PAGE_SIZE + i * (pages_per_buffer * PAGE_SIZE))"
      using b that by simp
    ultimately show "unat (ab_start_address (cb_audio_buffers cb ! i)) = (range_start r + i * pages_per_buffer) * PAGE_SIZE"
      by (simp only: add_mult_distrib mult.assoc)
    show "unat (ab_length_in_bytes (cb_audio_buffers cb ! i)) = pages_per_buffer * PAGE_SIZE div 8"
      using b that sz by (simp add: unat_of_nat)
  qed
  have "unat (ab_start_address (cb_audio_buffers cb ! i)) + unat (ab_length_in_bytes (cb_audio_buffers cb ! i))
      \<le> (range_start r + (i + 1) * pages_per_buffer) * PAGE_SIZE" if "i < buffer_amount" for i
    using start[OF that] length[OF that] div_le_dividend[of "pages_per_buffer * PAGE_SIZE" 8] by (simp add: algebra_simps)
  moreover have "length (cb_audio_buffers cb) = buffer_amount" using b by simp
  moreover have "unat (cb_length_in_bytes cb) = buffer_amount * (pages_per_buffer * PAGE_SIZE div 8)"
    unfolding len(2) using len(1) by (simp only: unat_of_nat) simp
  ultimately show ?thesis using dma_memory[OF assms(1) r] start length by blast
qed

theorem cyclic_buffer_layout_witness:
  "\<exists>cb m'. cyclic_buffer_new x86_entry_ops 3 one_level_manager 2 1 free_frames_16 = Inr (cb, m') \<and>
     length (cb_audio_buffers cb) = 2 \<and> unat (ab_start_address (cb_audio_buffers cb ! 1)) = 0x11000 \<and>
     unat (ab_length_in_bytes (cb_audio_buffers cb ! 1)) = 512"
proof -
  have "\<exists>cb m'. cyclic_buffer_new x86_entry_ops 3 one_level_manager 2 1 free_frames_16 = Inr (cb, m') \<and>
      ab_start_address (cb_audio_buffers cb ! 1) = 0x11000"
    by (simp add: cyclic_buffer_new_def u32_mul_def alloc_no_cache_dma_memory_def physical_alloc_def phys_alloc_def free_frames_16_def
        alloc_eval one_level_manager_def kernel_process_def canonical_address_def PAGE_SIZE_def set_flags_def set_flags_run_def
        page_table_index_def run_length_def usize_add_def upt_conv_Cons)
  then obtain cb m' where cb: "cyclic_buffer_new x86_entry_ops 3 one_level_manager 2 1 free_frames_16 = Inr (cb, m')"
    "ab_start_address (cb_audio_buffers cb ! 1) = 0x11000" by blast
  have "wf_free (page_frame_allocator (frames_state free_frames_16))" by (simp add: free_frames_16_def)
  from cyclic_buffer_layout[OF this cb(1)] cb show ?thesis by (auto simp: PAGE_SIZE_def)
qed

text \<open>
  reading the format of a stream back from its descriptor always reports 44.1 kHz and a non-PCM stream, whatever was written:
  \<open>from_u16\<close> tests \<open>(raw_value >> 14) | 1\<close>, which is never zero. A stream that was set up as 48 kHz PCM, as both demos do, is read
  back wrong.
\<close>

theorem stream_format_read_back_wrong:
  assumes "stream_format_from_u16 raw = Inr f"
  shows "sf_sample_base_rate f = 44100 \<and> sf_stream_type f = NonPCM"
proof -
  have "bit (drop_bit n raw OR 1) 0" for n by (simp add: bit_or_iff)
  then have "drop_bit n raw OR 1 \<noteq> 0" for n by (metis bit_0_eq bot_apply bot_bool_def)
  with assms show ?thesis
    by (auto simp: stream_format_from_u16_def Let_def result_simps split: if_splits)
qed

theorem stream_format_read_back_wrong_witness:
  "\<exists>raw f. stream_format_as_u16 stereo_48khz_16bit = Inr raw \<and> stream_format_from_u16 raw = Inr f \<and>
     sf_sample_base_rate f \<noteq> sf_sample_base_rate stereo_48khz_16bit \<and> sf_stream_type f \<noteq> sf_stream_type stereo_48khz_16bit"
proof -
  have "stream_format_as_u16 stereo_48khz_16bit = Inr 0x11"
    by (simp add: stream_format_as_u16_def stereo_48khz_16bit_def stream_format_new_def u8_pred_def)
  moreover obtain f where "stream_format_from_u16 0x11 = Inr f" by (auto simp: stream_format_from_u16_def Let_def)
  ultimately show ?thesis
    using stream_format_read_back_wrong[where raw = "0x11" and f = f] by (auto simp: stereo_48khz_16bit_def stream_format_new_def)
qed

text \<open>
  a status register whose bits are cleared by writing a one. \<open>clear_sdin_state_change_status_bit\<close> is meant to clear the bit of
  one codec, but it reads the register, adds the bit and writes the sum back, so that every bit that is set gets cleared: the events of
  all other codecs are lost.
\<close>

theorem clearing_one_status_bit_clears_all:
  fixes sts :: "'s \<Rightarrow> u16"
  assumes "reg_width (wakests c) = 2"
    and "\<And>s. hw_read hw (reg_addr (wakests c)) 2 s = (ucast (sts s), s)"
    and "\<And>v s. sts (hw_write hw (reg_addr (wakests c)) 2 v s) = sts s AND NOT (ucast v)"
    and "i < 15"
  shows "\<exists>s'. clear_sdin_state_change_status_bit hw c i s = Some (Inr ((), s')) \<and> sts s' = 0"
proof -
  let ?s' = "hw_write hw (reg_addr (wakests c)) 2 (take_bit 16 (ucast ((ucast (sts s) :: u32) OR push_bit i 1))) s"
  have "clear_sdin_state_change_status_bit hw c i s = Some (Inr ((), ?s'))"
    using assms(1,2,4) by (simp add: clear_sdin_state_change_status_bit_def check_sdin_def MAX_AMOUNT_OF_SDIN_SIGNALS_def reg_set_bit_def
        reg_read_def bus_read_def reg_mask_def reg_write_def bus_write_def seq_def ret_def lift_def)
  moreover have "sts ?s' = 0"
    unfolding assms(3) by (rule bit_eqI) (auto simp: bit_simps)
  ultimately show ?thesis by blast
qed

theorem clearing_one_status_bit_clears_all_witness:
  "\<exists>s'. clear_sdin_state_change_status_bit
      \<lparr>hw_read = (\<lambda>a w s. (ucast s, s)), hw_write = (\<lambda>a w v s. s AND NOT (ucast v)), hw_time = (\<lambda>s. (0, s))\<rparr>
      (controller_registers 0 0 0 0) 1 (0b111 :: u16) = Some (Inr ((), s')) \<and> s' = 0"
  by (rule clearing_one_status_bit_clears_all[where sts = "\<lambda>s. s"]) (simp_all add: controller_registers_def reg_at_def)

end
