(* ===== verification/Spec2Isabelle.thy ===== *)
theory Spec2Isabelle
  imports Kernel_Start_Props Kernel_Heap Early_Delay Applications Ihda_Scan Ihda_Stream_Props Process_Props
begin

text \<open>
  \<^bold>\<open>D3OS: a verification development for the kernel.\<close>

  D3OS is a 64 bit x86 operating system kernel in Rust (\<open>os/kernel\<close>) with a few libraries (\<open>os/library\<close>) and
  applications. At boot the kernel collects the free physical memory in a list of page frames, builds an address space for the kernel
  process, sets up interrupts and devices, and starts the scheduler. Applications are ELF files in the initial ramdisk; they run in
  their own address space in ring 3 and enter the kernel by \<open>syscall\<close>. Output goes to a terminal on a linear frame buffer. The largest
  device driver is the one for Intel High Definition Audio (IHDA), which is found on the PCI bus and connected through the APIC.

  \<^bold>\<open>How code becomes definitions.\<close>
  Every operation is an executable function on an explicit state. Panics, failed \<open>unwrap\<close>s, assertions, out-of-range indices and
  arithmetic that overflows are values \<open>Inl p\<close> of the result type of \<open>Prelude\<close>. Words that are shifted and masked are machine words; counters,
  sizes, page and frame numbers are natural numbers with the overflow check written out where it can be reached. Loops that may run forever
  (waiting for a ready thread, for a timer, for a register, for a lock, searching a widget path) are \<open>partial_function (option)\<close>: not returning is
  \<open>None\<close>, and the claims that they return are proved as such. Routines that talk to a device or, from a user program, to the kernel are values of
  the type \<open>drv\<close> of \<open>Driver_Monad\<close>. All other loops are total functions. Only the PCI scan, which recurses over bridges, has fuel: 256, the number of buses.

  Code outside the repository, and the hardware, is a parameter with its documented laws:
  \<^item> the entry format of the \<open>x86_64\<close> crate: locale \<open>page_table_entry\<close> in \<open>Paging\<close>, interpreted on the bit layout of the processor manual;
  \<^item> the \<open>smallmap\<close> of the scheduler: locale \<open>join_map_laws\<close> in \<open>Scheduler\<close>, interpreted on maps;
  \<^item> the bounded queue of the \<open>nolock\<close> crate behind the input buffers: locale \<open>bounded_queue\<close> in \<open>Devices\<close>, interpreted on lists;
  \<^item> the System V calling convention for the functions called from assembly: locale \<open>call_convention\<close> and its extension
    \<open>syscall_convention\<close> in \<open>Cpu\<close> say which registers and memory compiled code leaves alone, interpreted on code that clobbers all scratch registers; what the functions
    do (\<open>tss_set_rsp0\<close>, \<open>tss_get_rsp0\<close>, \<open>unlock_scheduler\<close>) are definitions;
  \<^item> the IO APIC of the \<open>x2apic\<close> crate: locale \<open>io_apic_table\<close> in \<open>Apic\<close>, interpreted on a table of entries; the parsed ACPI tables are arguments;
  \<^item> the sound card: locales \<open>answering_card\<close> (\<open>Ihda_Scan\<close>), \<open>ticking_clock\<close> (\<open>Ihda_Live\<close>) and \<open>ram_bus\<close> (\<open>Ihda_Stream_Props\<close>) say what each
    group of theorems needs of it, interpreted on a card that is polled with some latency and on plain memory;
  \<^item> the \<open>ps2\<close> crate: locale \<open>ps2_controller\<close> in \<open>Ps2\<close>, interpreted on a controller that resets itself in its self test;
  \<^item> the kernel below a user program is an argument, about which the theorem on the shell assumes nothing; the kernel as a printing
    program sees it: locale \<open>serving_kernel\<close> in \<open>Applications\<close>, which the modelled system calls satisfy (sublocale of \<open>live_console\<close>);
  \<^item> the heap of the crate \<open>linked_list_allocator\<close>: locale \<open>first_fit_heap\<close> in \<open>Kernel_Heap\<close>, interpreted on an executable first-fit heap; the interval timer chip:
    locale \<open>interval_timer\<close> in \<open>Early_Delay\<close>, interpreted on a chip with one channel; durations of \<open>chrono\<close>: locale \<open>duration_laws\<close> in \<open>Applications\<close>;
  \<^item> the ELF parser, the ramdisk, the font, the escape sequence parser, the keyboard decoder, PCI headers, boot loader tables, the EFI clock and the
    conversions of \<open>chrono\<close>, the macro that fills the interrupt descriptor table: plain arguments, with their laws as premises.
  Locks that the code only tries to take are inputs of the step.

  \<^bold>\<open>The theories.\<close>
  \<^descr>[\<open>Prelude, Driver_Monad\<close>] results, checked arithmetic, word lemmas, the collections \<open>result_simps\<close>, \<open>mask_simps\<close>; routines on a device.
  \<^descr>[\<open>Physical_Memory\<close>] \<open>memory/physical.rs\<close>: the free list with insert, alloc, free and reserve. The list refines the set of free frames
    (locale \<open>frame_allocator\<close>, extended to \<open>canonical_allocator\<close>, interpreted on \<open>alloc_block\<close> and \<open>free_block\<close>); live allocations are
    disjoint under any sequence of calls; the defect of \<open>reserve_block\<close> is stated exactly.
  \<^descr>[\<open>Paging, Paging_Correct, Paging_Props, Paging_Cost\<close>] \<open>memory/virtual.rs\<close>: the recursive table walks on a memory of tables. \<open>Paging_Correct\<close> reads a
    table tree as a map from pages to frames and shows what mapping changes in it; \<open>Paging_Props\<close> bounds the frames a mapping takes and states
    the properties of the three ways to map, of \<open>map_physical\<close> at unaligned addresses, and of the skipped tables in \<open>unmap\<close>; \<open>Paging_Cost\<close> counts the tables of an
    identity mapping.
  \<^descr>[\<open>Process, Process_Props\<close>] \<open>process/process.rs\<close> and the memory areas of \<open>virtual.rs\<close>: the process manager as a step relation with its invariant; areas are
    disjoint until one grows into another, which the code does not check.
  \<^descr>[\<open>Scheduler\<close>] \<open>process/scheduler.rs\<close>: every thread is in one place; which operations lose a thread and when (an interrupt that finds a
    lock held, and \<open>exit\<close>); when operations panic; bounded waiting, waking, and when blocking returns.
  \<^descr>[\<open>Cpu, Context_Switch\<close>] the processor for the assembly routines, and \<open>process/thread.rs\<close> with its stack frames: switching
    away and back restores a thread (all registers up to the call that unlocks the scheduler), new threads start at their entry.
  \<^descr>[\<open>Threads\<close>] thread creation with ELF loading, the stack allocator of \<open>memory/alloc.rs\<close> and the page fault handler of
    \<open>interrupt/interrupt_dispatcher.rs\<close>. Segments at 2 MiB boundaries are loaded correctly, small ones elsewhere not at all.
  \<^descr>[\<open>Boot\<close>] \<open>boot.rs\<close> and \<open>init_initrd\<close> of \<open>lib.rs\<close>: from the memory map of the boot loader to the kernel process, where allocator, page tables and
    process manager meet; descriptor tables and the system call registers, up to the segments a user thread runs in. Boot succeeds with enough memory and keeps heap, tables and image apart; the
    ramdisk is reserved too late.
  \<^descr>[\<open>Kernel_Heap\<close>] \<open>KernelAllocator\<close> and \<open>AcpiHandler\<close> of \<open>memory/alloc.rs\<close>: with the frames that boot sets aside, kernel objects never overlap each other, page tables, the image
    or free memory.
  \<^descr>[\<open>Kernel_Start, Boot_Room, Kernel_Start_Props\<close>] the whole of \<open>start\<close> in \<open>boot.rs\<close> as a list of phases over the globals of \<open>lib.rs\<close>, with \<open>print\<close> of \<open>device/terminal.rs\<close>; this is where all
    components meet. No global is accessed too early, interrupts are enabled only when they can be served, boot does not hang but for one endless search in the sound driver, and
    it hands a state to the scheduler from which the invariant of \<open>Scheduler\<close> holds. \<open>Boot_Room\<close> counts the frames of the phases; a concrete machine is followed
    until interrupts are on.
  \<^descr>[\<open>Syscalls\<close>] \<open>syscall/syscall_dispatcher.rs\<close>, \<open>syscall/mod.rs\<close>, \<open>os/library/syscall\<close>: the entry routine, which is transparent but compares the number as a signed one, and the functions on the objects of the
    theories above; this is where memory, processes, threads and the scheduler meet.
  \<^descr>[\<open>Syscall_Io\<close>] the remaining functions of \<open>syscall/mod.rs\<close>: writing to the terminal, where plain text is safe and everything that is not UTF-8 stops the kernel (the
    validation is shown to accept exactly the encodings of scalar values), and the date calls, which fail for clocks with a negative time zone.
  \<^descr>[\<open>User_Programs\<close>] the libraries \<open>runtime\<close>, \<open>concurrent\<close>, \<open>io\<close>, \<open>time\<close> and the shell: on any kernel it starts exactly the lines that
    are typed and waits for each application.
  \<^descr>[\<open>Applications\<close>] \<open>hello\<close>, \<open>date\<close> and \<open>uptime\<close> on the modelled system calls: the time that \<open>uptime\<close> prints can be read back, and \<open>hello\<close> prints its two ids in the wrong places.
  \<^descr>[\<open>Interrupts, Idt, Apic\<close>] the vectors, the dispatcher and the descriptor table of \<open>interrupt_dispatcher.rs\<close>; the interrupt controllers of \<open>device/apic.rs\<close>: an allowed interrupt
    is routed to the boot processor with its vector, through the overrides of the machine.
  \<^descr>[\<open>Early_Delay\<close>] \<open>early_delay_50ms\<close> of \<open>device/pit.rs\<close>, against which the timer of the APIC is calibrated: it ends and takes at least 50 ms.
  \<^descr>[\<open>Devices, Ps2, Log\<close>] timer, speaker, serial port and input buffers of \<open>device/pit.rs\<close>, \<open>speaker.rs\<close>, \<open>serial.rs\<close>, \<open>ps2.rs\<close>; the set-up of the keyboard; the
    kernel log of \<open>log.rs\<close> with the panic handler.
  \<^descr>[\<open>Pci\<close>] \<open>device/pci.rs\<close>: configuration accesses and the recursive scan, which finds what can be reached on a properly numbered tree and nothing else.
  \<^descr>[\<open>Ihda_Response, Ihda_Command, Ihda_Topology\<close>] \<open>device/ihda_codec.rs\<close>: decoding of codec responses, encoding of commands, and the search for the
    playback path.
  \<^descr>[\<open>Ihda_Registers, Ihda_Controller, Ihda_Stream\<close>] \<open>device/ihda_controller.rs\<close>: registers and waiting loops, the register set with command and response rings, immediate
    commands and the codec scan; streams, buffers and demo sounds.
  \<^descr>[\<open>Ihda_Device\<close>] \<open>device/ihda_pci.rs\<close>, \<open>ihda_api.rs\<close> and \<open>qemu_cfg.rs\<close>: the device from the PCI bus to the running demo.
  \<^descr>[\<open>Ihda_Scan, Ihda_Live, Ihda_Stream_Props\<close>] what the scan reports, that bringing up the device always ends, and what streams leave in memory.
  \<^descr>[\<open>Graphic_Color, Ansi, Lfb\<close>] the library \<open>graphic\<close>: colours and pixel formats, the colour table, drawing on the frame buffer.
  \<^descr>[\<open>Terminal, Terminal_Props\<close>] \<open>device/lfb_terminal.rs\<close>: the terminal as a state machine driven by parser callbacks.

  \<^bold>\<open>Bounds.\<close> Page table properties hold for trees of any depth; frame numbers stay below \<open>2\<^sup>40\<close> as the entry format requires, and at boot the end of memory
  below \<open>512\<^sup>4\<close> frames, what four levels of tables can map. The
  stack below which a called function may write is the kernel stack less one page (\<open>CALL_DEPTH\<close>). A terminal needs two lines and at most
  \<open>2\<^sup>16\<close> cells, because cell indices are computed in 16 bits. The example card of the IHDA theories answers within 100 polls, the time limit of an immediate
  command.

  \<^bold>\<open>Not modelled.\<close> Log lines and debug output; the texts of version and banner; loading tables into the processor; interrupts that arrive between two phases of \<open>start\<close>
  (what they find is an invariant); the traits of the library \<open>stream\<close>, which only forward; the floating point part of colour blending; reference counts. What a third-party crate does
  behind its contract is not modelled either: the parsers of ELF files, archives, ACPI tables and escape sequences, date formats, and the free list of the heap.
\<close>

end
